(* ===== verification/Prelude.thy ===== *)
theory Prelude
  imports Complex_Main "HOL-Library.Word" "HOL-Library.AList" "HOL-Library.List_Lexorder"
    "HOL-Library.Product_Lexorder"
begin

text \<open>
  What the components share: the machine integers of the Rust sources, saturating and checked
  arithmetic on them, \<^verbatim>\<open>std::time::Duration\<close> and the reducers' time stamp
  \<^verbatim>\<open>Millis\<close> (\<^verbatim>\<open>isekai-protocol/src/millis.rs\<close>), big-endian byte strings, results as
  sums, association-list models of \<^verbatim>\<open>HashMap\<close> and \<^verbatim>\<open>BTreeMap\<close>, and generic lemmas.
  The collections \<open>reducer_defs\<close> and \<open>table_simps\<close> gather the facts the
  component proofs pass to the simplifier.

  Integer conventions: an unsigned Rust integer of width \<open>w\<close> is a \<open>w word\<close>; \<open>+\<close> on it
  wraps, as it does in the release profile (no \<^verbatim>\<open>overflow-checks\<close> in
  \<^verbatim>\<open>rust-core/Cargo.toml\<close>). Lengths and counts of in-memory collections
  (\<^verbatim>\<open>usize\<close>) are \<open>nat\<close>. A newtype around an integer or a byte array is the integer or the
  byte list itself.
\<close>

named_theorems reducer_defs \<open>definitions of handlers, unfolded by the invariant proofs\<close>
named_theorems table_simps \<open>lookup and size of updated tables\<close>

section \<open>Machine integers\<close>

type_synonym u8 = "8 word"
type_synonym u16 = "16 word"
type_synonym u32 = "32 word"
type_synonym u64 = "64 word"

text \<open>\<^verbatim>\<open>saturating_add\<close>, \<^verbatim>\<open>checked_add\<close> on unsigned integers.\<close>

definition sat_add :: "'w::len word \<Rightarrow> 'w word \<Rightarrow> 'w word" where
  "sat_add a b = (if unat a + unat b < 2 ^ LENGTH('w) then a + b else - 1)"

definition checked_add :: "'w::len word \<Rightarrow> 'w word \<Rightarrow> 'w word option" where
  "checked_add a b = (if unat a + unat b < 2 ^ LENGTH('w) then Some (a + b) else None)"

definition sat_sub :: "'w::len word \<Rightarrow> 'w word \<Rightarrow> 'w word" where
  "sat_sub a b = (if b \<le> a then a - b else 0)"

lemma unat_minus_one_word: "unat (- 1 :: 'w::len word) = 2 ^ LENGTH('w) - 1"
  by (simp add: unsigned_minus_1_eq_mask mask_eq_exp_minus_1)

lemma unat_less_exp: "unat a < 2 ^ LENGTH('w)" for a :: "'w::len word"
  by (rule unsigned_less)

lemma unat_byte_less: "unat (b :: u8) < 256"
  using unat_less_exp [of b] by simp

lemma unat_sat_add:
  "unat (sat_add a b) = min (unat a + unat b) (2 ^ LENGTH('w) - 1)" for a b :: "'w::len word"
proof (cases "unat a + unat b < 2 ^ LENGTH('w)")
  case True
  then have "unat (a + b) = unat a + unat b"
    by (simp add: unat_word_ariths)
  with True show ?thesis by (simp add: sat_add_def)
next
  case False
  then show ?thesis by (simp add: sat_add_def unat_minus_one_word)
qed

lemma unat_sat_sub: "unat (sat_sub a b) = unat a - unat b" for a b :: "'w::len word"
  by (simp add: sat_sub_def word_le_nat_alt unat_sub)

lemma sat_add_ge: "a \<le> sat_add a b" for a b :: "'w::len word"
proof -
  have "unat a \<le> 2 ^ LENGTH('w) - 1"
    using unat_less_exp [of a] by linarith
  then show ?thesis by (simp add: word_le_nat_alt unat_sat_add)
qed

lemma unat_succ: "unat a + 1 < 2 ^ LENGTH('w) \<Longrightarrow> unat (a + 1) = unat a + 1"
  for a :: "'w::len word"
  by (simp add: unat_word_ariths)

lemma sat_add_one_less: "unat a + 1 < 2 ^ LENGTH('w) \<Longrightarrow> a < sat_add a 1"
  for a :: "'w::len word"
  by (simp add: word_less_nat_alt unat_sat_add)

lemma checked_add_Some:
  "checked_add a b = Some c \<longleftrightarrow> unat c = unat a + unat b" for a b c :: "'w::len word"
proof
  assume "checked_add a b = Some c"
  then show "unat c = unat a + unat b"
    by (auto simp: checked_add_def unat_word_ariths split: if_splits)
next
  assume eq: "unat c = unat a + unat b"
  have "unat c < 2 ^ LENGTH('w)" by simp
  with eq have "unat a + unat b < 2 ^ LENGTH('w)" by simp
  moreover from this have "unat (a + b) = unat c"
    by (simp add: unat_word_ariths eq)
  then have "a + b = c" by (simp add: word_unat_eq_iff)
  ultimately show "checked_add a b = Some c" by (simp add: checked_add_def)
qed

section \<open>Durations and time stamps\<close>

text \<open>
  A \<^verbatim>\<open>Duration\<close> is its number of nanoseconds, at most \<open>DURATION_MAX\<close>
  (\<open>2^64 - 1\<close> seconds and 999999999 nanoseconds).
\<close>

type_synonym duration = nat

definition DURATION_MAX :: duration where
  "DURATION_MAX = (2 ^ 64 - 1) * 1000000000 + 999999999"

definition from_millis :: "nat \<Rightarrow> duration" where
  "from_millis ms = ms * 1000000"

definition from_secs :: "nat \<Rightarrow> duration" where
  "from_secs s = s * 1000000000"

definition as_millis :: "duration \<Rightarrow> nat" where
  "as_millis d = d div 1000000"

definition as_secs :: "duration \<Rightarrow> nat" where
  "as_secs d = d div 1000000000"

definition dur_sat_add :: "duration \<Rightarrow> duration \<Rightarrow> duration" where
  "dur_sat_add a b = min (a + b) DURATION_MAX"

lemmas duration_defs = from_millis_def from_secs_def as_millis_def as_secs_def

lemma as_millis_from_millis [simp]: "as_millis (from_millis n) = n"
  by (simp add: duration_defs)

lemma as_millis_mono: "a \<le> b \<Longrightarrow> as_millis a \<le> as_millis b"
  by (simp add: as_millis_def div_le_mono)

lemma from_millis_le_iff [simp]: "from_millis a \<le> from_millis b \<longleftrightarrow> a \<le> b"
  by (simp add: from_millis_def)

lemma from_millis_as_millis: "from_millis (as_millis d) \<le> d"
  by (simp add: duration_defs)

text \<open>
  \<^verbatim>\<open>Millis(u64)\<close> and its only subtraction, \<^verbatim>\<open>Millis::saturating_sub\<close>: the forward
  difference as a duration, zero when the clock went backwards.
\<close>

type_synonym millis = u64

definition millis_sub :: "millis \<Rightarrow> millis \<Rightarrow> duration" where
  "millis_sub t earlier = from_millis (unat t - unat earlier)"

text \<open>\<^verbatim>\<open>u64::try_from(n).unwrap_or(u64::MAX)\<close>.\<close>

definition u64_try_from :: "nat \<Rightarrow> u64" where
  "u64_try_from n = (if n < 2 ^ 64 then word_of_nat n else - 1)"

lemma unat_u64_try_from: "unat (u64_try_from n) = min n (2 ^ 64 - 1)"
proof (cases "n < 2 ^ 64")
  case True
  then have "unat (word_of_nat n :: u64) = n"
    by (simp add: unat_of_nat)
  with True show ?thesis by (simp add: u64_try_from_def)
next
  case False
  then show ?thesis
    using unat_minus_one_word [where 'w = 64] by (simp add: u64_try_from_def)
qed

lemma millis_sub_self [simp]: "millis_sub t t = 0"
  by (simp add: millis_sub_def from_millis_def)

lemma millis_sub_backwards: "now \<le> since \<Longrightarrow> millis_sub now since = 0"
  by (simp add: millis_sub_def from_millis_def word_le_nat_alt)

lemma millis_sub_mono: "t \<le> t' \<Longrightarrow> millis_sub t s \<le> millis_sub t' s"
  by (simp add: millis_sub_def word_le_nat_alt diff_le_mono)

section \<open>Results\<close>

text \<open>The \<^verbatim>\<open>?\<close> operator on \<^verbatim>\<open>Result\<close>: \<open>Inl\<close> is \<^verbatim>\<open>Err\<close>, \<open>Inr\<close> is \<^verbatim>\<open>Ok\<close>.\<close>

fun res_bind :: "'e + 'a \<Rightarrow> ('a \<Rightarrow> 'e + 'b) \<Rightarrow> 'e + 'b" where
  "res_bind (Inl e) f = Inl e"
| "res_bind (Inr x) f = f x"

lemma res_bind_eq_Inr: "res_bind r f = Inr y \<longleftrightarrow> (\<exists>x. r = Inr x \<and> f x = Inr y)"
  by (cases r) auto

section \<open>Big-endian bytes\<close>

text \<open>
  \<^verbatim>\<open>to_be_bytes\<close> and \<^verbatim>\<open>from_be_bytes\<close> of the unsigned integers, over the natural number
  an integer stands for; \<open>n\<close> is the width in bytes.
\<close>

fun be_of_nat :: "nat \<Rightarrow> nat \<Rightarrow> u8 list" where
  "be_of_nat 0 v = []"
| "be_of_nat (Suc n) v = be_of_nat n (v div 256) @ [word_of_nat (v mod 256)]"

definition nat_of_be :: "u8 list \<Rightarrow> nat" where
  "nat_of_be bs = foldl (\<lambda>acc b. acc * 256 + unat b) 0 bs"

definition u16_to_be :: "u16 \<Rightarrow> u8 list" where
  "u16_to_be w = be_of_nat 2 (unat w)"

definition u32_to_be :: "u32 \<Rightarrow> u8 list" where
  "u32_to_be w = be_of_nat 4 (unat w)"

definition u64_to_be :: "u64 \<Rightarrow> u8 list" where
  "u64_to_be w = be_of_nat 8 (unat w)"

definition u16_from_be :: "u8 list \<Rightarrow> u16" where
  "u16_from_be bs = word_of_nat (nat_of_be bs)"

definition u32_from_be :: "u8 list \<Rightarrow> u32" where
  "u32_from_be bs = word_of_nat (nat_of_be bs)"

definition u64_from_be :: "u8 list \<Rightarrow> u64" where
  "u64_from_be bs = word_of_nat (nat_of_be bs)"

lemma length_be_of_nat [simp]: "length (be_of_nat n v) = n"
  by (induction n arbitrary: v) auto

lemma nat_of_be_Nil [simp]: "nat_of_be [] = 0"
  by (simp add: nat_of_be_def)

lemma nat_of_be_snoc [simp]: "nat_of_be (bs @ [b]) = nat_of_be bs * 256 + unat b"
  by (simp add: nat_of_be_def)

lemma unat_byte_of_mod: "unat (word_of_nat (v mod 256) :: u8) = v mod 256"
  by (simp add: unat_of_nat)

lemma nat_of_be_of_nat: "nat_of_be (be_of_nat n v) = v mod 256 ^ n"
proof (induction n arbitrary: v)
  case 0
  then show ?case by simp
next
  case (Suc n)
  have "v mod (256 * 256 ^ n) = 256 * (v div 256 mod 256 ^ n) + v mod 256"
    by (rule mod_mult2_eq)
  then show ?case using Suc.IH [of "v div 256"]
    by (simp add: unat_byte_of_mod)
qed

lemma nat_of_be_less: "nat_of_be bs < 256 ^ length bs"
proof (induction bs rule: rev_induct)
  case Nil
  then show ?case by simp
next
  case (snoc b bs)
  have "unat b < 256" by (rule unat_byte_less)
  then have "nat_of_be bs * 256 + unat b < (nat_of_be bs + 1) * 256" by simp
  also have "\<dots> \<le> 256 ^ length bs * 256" using snoc.IH by (simp only: mult_le_mono1 Suc_eq_plus1 [symmetric] Suc_leI)
  finally show ?case by (simp add: mult.commute)
qed

lemma be_of_nat_of_be: "be_of_nat (length bs) (nat_of_be bs) = bs"
proof (induction bs rule: rev_induct)
  case Nil
  then show ?case by simp
next
  case (snoc b bs)
  have b: "unat b < 256" by (rule unat_byte_less)
  then have "(nat_of_be bs * 256 + unat b) div 256 = nat_of_be bs"
    and "(nat_of_be bs * 256 + unat b) mod 256 = unat b"
    by simp_all
  then show ?case using snoc.IH by simp
qed

lemma length_to_be [simp]:
  "length (u16_to_be a) = 2" "length (u32_to_be b) = 4" "length (u64_to_be c) = 8"
  by (simp_all add: u16_to_be_def u32_to_be_def u64_to_be_def)

lemma u16_to_be_bytes:
  "u16_to_be w = [word_of_nat (unat w div 256 mod 256), word_of_nat (unat w mod 256)]"
  by (simp add: u16_to_be_def numeral_2_eq_2)

lemma from_be_to_be [simp]:
  "u16_from_be (u16_to_be a) = a" "u32_from_be (u32_to_be b) = b" "u64_from_be (u64_to_be c) = c"
proof -
  have "unat a < 2 ^ 16" "unat b < 2 ^ 32" "unat c < 2 ^ 64"
    using unat_less_exp [of a] unat_less_exp [of b] unat_less_exp [of c] by simp_all
  then show "u16_from_be (u16_to_be a) = a" "u32_from_be (u32_to_be b) = b"
    "u64_from_be (u64_to_be c) = c"
    by (simp_all add: u16_to_be_def u32_to_be_def u64_to_be_def u16_from_be_def u32_from_be_def
        u64_from_be_def nat_of_be_of_nat)
qed

lemma to_be_eq_iff [simp]:
  "u16_to_be a = u16_to_be a' \<longleftrightarrow> a = a'" "u32_to_be b = u32_to_be b' \<longleftrightarrow> b = b'"
  "u64_to_be c = u64_to_be c' \<longleftrightarrow> c = c'"
  by (metis from_be_to_be(1), metis from_be_to_be(2), metis from_be_to_be(3))

lemma to_be_from_be:
  "length bs = 2 \<Longrightarrow> u16_to_be (u16_from_be bs) = bs"
  "length bs = 4 \<Longrightarrow> u32_to_be (u32_from_be bs) = bs"
  "length bs = 8 \<Longrightarrow> u64_to_be (u64_from_be bs) = bs"
  using nat_of_be_less [of bs] be_of_nat_of_be [of bs]
  by (simp_all add: u16_to_be_def u32_to_be_def u64_to_be_def u16_from_be_def u32_from_be_def
      u64_from_be_def unat_of_nat)

text \<open>The sub-slice \<^verbatim>\<open>&buf[pos..pos + n]\<close>, used where the code has checked the length.\<close>

definition slice :: "nat \<Rightarrow> nat \<Rightarrow> 'a list \<Rightarrow> 'a list" where
  "slice pos n xs = take n (drop pos xs)"

lemma length_slice [simp]: "pos + n \<le> length xs \<Longrightarrow> length (slice pos n xs) = n"
  by (simp add: slice_def)

lemma slice_Cons [simp]: "0 < pos \<Longrightarrow> slice pos n (x # xs) = slice (pos - 1) n xs"
  by (cases pos) (simp_all add: slice_def)

lemma slice_0 [simp]: "n = length xs \<Longrightarrow> slice 0 n (xs @ ys) = xs"
  by (simp add: slice_def)

lemma slice_append [simp]: "length xs \<le> pos \<Longrightarrow> slice pos n (xs @ ys) = slice (pos - length xs) n ys"
  by (simp add: slice_def)

lemma slice_all [simp]: "length xs = n \<Longrightarrow> slice 0 n xs = xs"
  by (simp add: slice_def)

lemma append_slice: "slice pos n xs @ slice (pos + n) m xs = slice pos (n + m) xs"
  by (simp add: slice_def take_add add.commute [of n pos])

end
