(* ===== verification/Interfaces.thy ===== *)
theory Interfaces
  imports Prelude
begin

text \<open>
  The contracts the components share. The repository writes its decision logic as pure reducers
  \<^verbatim>\<open>apply(&mut self, Event) -> Vec<Effect>\<close> (\<^verbatim>\<open>docs/adr/0019-functional-core-effects.md\<close>
  section 2.1); here a reducer is a function from a state and an event to the next state
  and the list of effects, and \<open>run\<close> feeds it a sequence of events.
  \<open>reducer\<close>: every event keeps an invariant. \<open>metered_reducer\<close>: every event keeps it while a
  counter of width \<open>w\<close> (a lease or token generator) has not run out, and advances the counter
  by at most one. \<open>stale_guard\<close>: an event that is not for the current incarnation
  changes nothing (section 2.2). \<open>frame_codec\<close>: a wire frame decoder accepts exactly the
  encoder's output. \<open>backoff_source\<close>: a source of retry delays bounded by its policy's maximum.
  \<open>replay_window\<close>: a buffer of sent bytes that can replay a stream from an offset.
\<close>

section \<open>Reducers\<close>

fun run :: "('s \<Rightarrow> 'e \<Rightarrow> 's \<times> 'f list) \<Rightarrow> 's \<Rightarrow> 'e list \<Rightarrow> 's \<times> 'f list" where
  "run f s [] = (s, [])"
| "run f s (e # es) =
     (let (s', fs) = f s e; (s'', fs') = run f s' es in (s'', fs @ fs'))"

lemma fst_run_Cons [simp]: "fst (run f s (e # es)) = fst (run f (fst (f s e)) es)"
  by (simp add: case_prod_beta Let_def)

lemma snd_run_Cons [simp]:
  "snd (run f s (e # es)) = snd (f s e) @ snd (run f (fst (f s e)) es)"
  by (simp add: case_prod_beta Let_def)

declare run.simps(2) [simp del]

lemma fst_run_append: "fst (run f s (es @ es')) = fst (run f (fst (run f s es)) es')"
  by (induction es arbitrary: s) simp_all

lemma snd_run_append:
  "snd (run f s (es @ es')) = snd (run f s es) @ snd (run f (fst (run f s es)) es')"
  by (induction es arbitrary: s) simp_all

lemma run_Nil_pair: "run f s [] = (s, [])"
  by simp

locale reducer =
  fixes step :: "'s \<Rightarrow> 'e \<Rightarrow> 's \<times> 'f list"
    and inv :: "'s \<Rightarrow> bool"
  assumes inv_step: "inv s \<Longrightarrow> inv (fst (step s e))"
begin

lemma inv_run: "inv s \<Longrightarrow> inv (fst (run step s es))"
  by (induction es arbitrary: s) (simp_all add: inv_step)

text \<open>A fact about the effects of one step from a state with the invariant holds of every
  effect of a run.\<close>

lemma effects_run:
  assumes "\<And>s e f. inv s \<Longrightarrow> f \<in> set (snd (step s e)) \<Longrightarrow> P f"
  shows "inv s \<Longrightarrow> f \<in> set (snd (run step s es)) \<Longrightarrow> P f"
  by (induction es arbitrary: s) (auto intro: assms inv_step)

end

locale metered_reducer =
  fixes step :: "'s \<Rightarrow> 'e \<Rightarrow> 's \<times> 'f list"
    and inv :: "'s \<Rightarrow> bool"
    and meter :: "'s \<Rightarrow> nat"
    and cap :: nat
  assumes inv_step: "inv s \<Longrightarrow> meter s + 1 < cap \<Longrightarrow> inv (fst (step s e))"
    and meter_step: "inv s \<Longrightarrow> meter s + 1 < cap \<Longrightarrow> meter (fst (step s e)) \<le> meter s + 1"
begin

lemma inv_run:
  "inv s \<Longrightarrow> meter s + length es < cap \<Longrightarrow>
   inv (fst (run step s es)) \<and> meter (fst (run step s es)) \<le> meter s + length es"
proof (induction es arbitrary: s)
  case Nil
  then show ?case by simp
next
  case (Cons e es)
  let ?s = "fst (step s e)"
  from Cons.prems have "meter s + 1 < cap" by simp
  with Cons.prems(1) have "inv ?s" and m: "meter ?s \<le> meter s + 1"
    by (rule inv_step, intro meter_step)
  with Cons.prems have "inv (fst (run step ?s es))"
    and "meter (fst (run step ?s es)) \<le> meter ?s + length es"
    using Cons.IH [of ?s] by simp_all
  with m show ?case by simp
qed

text \<open>Every prefix of a run satisfies the invariant, so a fact about one step carries over
  to each effect of the run.\<close>

lemma effects_run:
  assumes "\<And>s e f. inv s \<Longrightarrow> meter s + 1 < cap \<Longrightarrow> f \<in> set (snd (step s e)) \<Longrightarrow> P f"
  shows "inv s \<Longrightarrow> meter s + length es < cap \<Longrightarrow> f \<in> set (snd (run step s es)) \<Longrightarrow> P f"
proof (induction es arbitrary: s)
  case Nil
  then show ?case by simp
next
  case (Cons e es)
  let ?s = "fst (step s e)"
  from Cons.prems have "inv ?s" and "meter ?s + length es < cap"
    using inv_step [of s e] meter_step [of s e] by simp_all
  with Cons show ?case using assms [of s f e] by auto
qed

end

text \<open>A reducer whose invariant needs no counter is a metered one with a constant meter.\<close>

sublocale reducer \<subseteq> metered: metered_reducer step inv "\<lambda>_. 0" cap for cap
  by unfold_locales (simp_all add: inv_step)

section \<open>Stale events\<close>

locale stale_guard =
  fixes step :: "'s \<Rightarrow> 'e \<Rightarrow> 's \<times> 'f list"
    and current :: "'s \<Rightarrow> 'e \<Rightarrow> bool"
  assumes stale_step: "\<not> current s e \<Longrightarrow> step s e = (s, [])"
begin

lemma stale_run: "(\<And>e. e \<in> set es \<Longrightarrow> \<not> current s e) \<Longrightarrow> run step s es = (s, [])"
  by (induction es) (simp_all add: stale_step run.simps(2))

text \<open>A late or duplicated event can be dropped from any execution without changing the
  final state or the effects.\<close>

lemma stale_transparent:
  assumes "\<not> current (fst (run step s es)) e"
  shows "run step s (es @ e # es') = run step s (es @ es')"
  by (rule prod_eqI) (simp_all add: fst_run_append snd_run_append stale_step [OF assms])

end

section \<open>Wire frames\<close>

locale frame_codec =
  fixes enc :: "'a \<Rightarrow> u8 list"
    and dec :: "u8 list \<Rightarrow> 'e + 'a"
    and valid :: "'a \<Rightarrow> bool"
  assumes dec_enc: "valid x \<Longrightarrow> dec (enc x) = Inr x"
    and enc_dec: "dec b = Inr x \<Longrightarrow> valid x \<and> enc x = b"
begin

lemma enc_inj: "valid x \<Longrightarrow> valid y \<Longrightarrow> enc x = enc y \<Longrightarrow> x = y"
  by (metis dec_enc sum.inject(2))

lemma dec_iff: "dec b = Inr x \<longleftrightarrow> valid x \<and> b = enc x"
  using dec_enc enc_dec by blast

lemma dec_unique: "dec b = Inr x \<Longrightarrow> dec b' = Inr x \<Longrightarrow> b = b'"
  using enc_dec by blast

end

section \<open>Incremental decoders\<close>

text \<open>
  A decoder that is run on what has arrived so far: an error, nothing yet, or a message and the bytes
  behind it. A verdict other than \<open>nothing yet\<close> must not change when more bytes arrive. Then,
  however the encodings of a list of messages are cut and whenever the decoder is polled, it gives
  back these messages, in order, as soon as each is complete.
\<close>

datatype stream_op = Arrive "u8 list" | Poll

fun poll_run ::
    "(u8 list \<Rightarrow> 'e + ('m \<times> u8 list) option) \<Rightarrow> u8 list \<Rightarrow> stream_op list \<Rightarrow>
     ('e + 'm option) list \<times> u8 list" where
  "poll_run dec buf [] = ([], buf)"
| "poll_run dec buf (Arrive b # ops) = poll_run dec (buf @ b) ops"
| "poll_run dec buf (Poll # ops) = (case dec buf of
       Inl e \<Rightarrow> (let (rs, buf') = poll_run dec buf ops in (Inl e # rs, buf'))
     | Inr None \<Rightarrow> (let (rs, buf') = poll_run dec buf ops in (Inr None # rs, buf'))
     | Inr (Some (m, r)) \<Rightarrow> (let (rs, buf') = poll_run dec r ops in (Inr (Some m) # rs, buf')))"

fun arrived :: "stream_op list \<Rightarrow> u8 list" where
  "arrived [] = []"
| "arrived (Arrive b # ops) = b @ arrived ops"
| "arrived (Poll # ops) = arrived ops"

fun yielded :: "('e + 'm option) list \<Rightarrow> 'm list" where
  "yielded [] = []"
| "yielded (Inr (Some m) # rs) = m # yielded rs"
| "yielded (_ # rs) = yielded rs"

locale stream_decoder =
  fixes dec :: "u8 list \<Rightarrow> 'e + ('m \<times> u8 list) option"
  assumes dec_Nil: "dec [] = Inr None"
    and dec_more: "dec d = Inr (Some (m, r)) \<Longrightarrow> dec (d @ e) = Inr (Some (m, r @ e))"
    and dec_bad: "dec d = Inl x \<Longrightarrow> dec (d @ e) = Inl x"

locale framed_stream = stream_decoder dec
  for dec :: "u8 list \<Rightarrow> 'e + ('m \<times> u8 list) option" +
  fixes enc :: "'m \<Rightarrow> u8 list" and valid :: "'m \<Rightarrow> bool"
  assumes dec_enc: "valid m \<Longrightarrow> dec (enc m) = Inr (Some (m, []))"
begin

lemma dec_enc_append: "valid m \<Longrightarrow> dec (enc m @ e) = Inr (Some (m, e))"
  using dec_more [OF dec_enc] by fastforce

lemma dec_partial:
  assumes "valid m" "enc m = p @ q" "q \<noteq> []"
  shows "dec p = Inr None"
proof (cases "dec p")
  case (Inl x)
  from dec_bad [OF this, of q] assms(2) dec_enc [OF assms(1)] show ?thesis by simp
next
  case (Inr z)
  show ?thesis
  proof (cases z)
    case (Some y)
    with Inr have "dec p = Inr (Some (fst y, snd y))" by simp
    from dec_more [OF this, of q] assms dec_enc [OF assms(1)] show ?thesis by simp
  qed (use Inr in simp)
qed

lemma dec_prefix_cases:
  assumes "list_all valid ms" "buf @ rest = concat (map enc ms)"
  obtains (none) "dec buf = Inr None" "ms = [] \<and> buf = [] \<or> (\<exists>m ms'. ms = m # ms' \<and> length buf < length (enc m))"
  | (first) m ms' r where "ms = m # ms'" "dec buf = Inr (Some (m, r))" "r @ rest = concat (map enc ms')"
proof (cases ms)
  case Nil
  with assms(2) have "buf = []" by simp
  then show thesis using none dec_Nil Nil by blast
next
  case (Cons m ms')
  with assms(1) have v: "valid m" by simp
  show thesis
  proof (cases "length buf < length (enc m)")
    case True
    have "enc m = buf @ take (length (enc m) - length buf) rest"
      using arg_cong [OF assms(2), of "take (length (enc m))"] Cons True by simp
    moreover from this True have "take (length (enc m) - length buf) rest \<noteq> []" by auto
    ultimately have "dec buf = Inr None" using v by (metis dec_partial)
    with none Cons True show thesis by blast
  next
    case False
    have "take (length (enc m)) buf = enc m"
      using arg_cong [OF assms(2), of "take (length (enc m))"] Cons False by simp
    then have b: "buf = enc m @ drop (length (enc m)) buf" by (metis append_take_drop_id)
    have "dec (enc m @ drop (length (enc m)) buf) = Inr (Some (m, drop (length (enc m)) buf))"
      using v by (rule dec_enc_append)
    moreover have "drop (length (enc m)) buf @ rest = concat (map enc ms')"
      using assms(2) b Cons by (metis append.assoc append_same_eq concat.simps(2) list.map(2) same_append_eq)
    ultimately show thesis using first Cons b by auto
  qed
qed

lemma poll_run_delivers:
  "list_all valid ms \<Longrightarrow> buf @ arrived ops @ rest = concat (map enc ms) \<Longrightarrow>
   \<exists>todo. ms = yielded (fst (poll_run dec buf ops)) @ todo \<and>
     snd (poll_run dec buf ops) @ rest = concat (map enc todo) \<and>
     list_all (\<lambda>r. \<not> isl r) (fst (poll_run dec buf ops))"
proof (induction ops arbitrary: buf ms)
  case (Cons op ops)
  show ?case
  proof (cases op)
    case (Arrive b)
    with Cons.IH [of ms "buf @ b"] Cons.prems show ?thesis by simp
  next
    case Poll
    with Cons.prems have eq: "buf @ (arrived ops @ rest) = concat (map enc ms)" by simp
    from Cons.prems(1) eq show ?thesis
    proof (cases rule: dec_prefix_cases)
      case none
      with Poll Cons.IH [of ms buf] Cons.prems show ?thesis by (simp add: case_prod_beta Let_def)
    next
      case (first m ms' r)
      with Cons.prems(1) have "list_all valid ms'" by simp
      from Cons.IH [OF this first(3)] Poll first show ?thesis
        by (simp add: case_prod_beta Let_def)
    qed
  qed
qed auto

text \<open>After any run the next poll gives the first message that is left, exactly if all of it is there.\<close>

lemma poll_run_next:
  assumes "list_all valid ms" "buf @ arrived ops @ rest = concat (map enc ms)"
  shows "\<exists>todo. ms = yielded (fst (poll_run dec buf ops)) @ todo \<and>
     snd (poll_run dec buf ops) @ rest = concat (map enc todo) \<and>
     list_all (\<lambda>r. \<not> isl r) (fst (poll_run dec buf ops)) \<and>
     map_sum id (map_option fst) (dec (snd (poll_run dec buf ops))) = (case todo of
         [] \<Rightarrow> Inr None
       | m # _ \<Rightarrow> if length (enc m) \<le> length (snd (poll_run dec buf ops)) then Inr (Some m) else Inr None)"
proof -
  let ?buf = "snd (poll_run dec buf ops)"
  obtain todo where todo: "ms = yielded (fst (poll_run dec buf ops)) @ todo"
    "?buf @ rest = concat (map enc todo)" "list_all (\<lambda>r. \<not> isl r) (fst (poll_run dec buf ops))"
    using poll_run_delivers [OF assms] by blast
  with assms(1) have v: "list_all valid todo" by simp
  then have "map_sum id (map_option fst) (dec ?buf) = (case todo of
      [] \<Rightarrow> Inr None | m # _ \<Rightarrow> if length (enc m) \<le> length ?buf then Inr (Some m) else Inr None)"
    using todo(2)
  proof (cases rule: dec_prefix_cases)
    case none
    then show ?thesis by auto
  next
    case (first m ms' r)
    with v todo(2) dec_partial [of m ?buf] have "\<not> length ?buf < length (enc m)"
      by (auto simp: append_eq_append_conv2)
    with first show ?thesis by simp
  qed
  with todo show ?thesis by blast
qed

end

section \<open>Retry delays\<close>

text \<open>What the retry loops rely on: whatever the attempt number and the random seed, a delay stays
  within the policy's maximum.\<close>

locale backoff_source =
  fixes delay :: "u32 \<Rightarrow> u64 \<Rightarrow> duration"
    and cap :: duration
  assumes delay_le: "delay attempt seed \<le> cap"
begin

lemma clipped_le: "min (delay attempt seed) remaining \<le> remaining \<and> min (delay attempt seed) remaining \<le> cap"
  using delay_le [of attempt seed] by (simp add: min.coboundedI1)

lemma total_wait_le: "sum_list (map (\<lambda>(attempt, seed). delay attempt seed) rs) \<le> length rs * cap"
  by (induction rs) (auto simp: delay_le add_mono)

end

section \<open>Replay buffers\<close>

text \<open>Where confirming the offset \<open>off\<close> leaves the start of a window onto a stream of length \<open>len\<close>: a
  stale confirmation changes nothing, one beyond the end stops at the end.\<close>

definition confirm :: "nat \<Rightarrow> nat \<Rightarrow> nat \<Rightarrow> nat" where
  "confirm len n off = max n (min off len)"

text \<open>\<open>win s n b\<close>: the buffer \<open>b\<close> holds the bytes of the stream \<open>s\<close> from offset \<open>n\<close> on.\<close>

locale replay_window =
  fixes win :: "u8 list \<Rightarrow> nat \<Rightarrow> 'b \<Rightarrow> bool"
    and replay_from :: "'b \<Rightarrow> u64 \<Rightarrow> u8 list option"
    and advance_start :: "'b \<Rightarrow> u64 \<Rightarrow> 'b"
  assumes win_bounds: "win s n b \<Longrightarrow> n \<le> length s \<and> length s < 2 ^ 64"
    and win_replay: "win s n b \<Longrightarrow> replay_from b off =
      (if n \<le> unat off \<and> unat off \<le> length s then Some (drop (unat off) s) else None)"
    and win_advance: "win s n b \<Longrightarrow> win s (confirm (length s) n (unat off)) (advance_start b off)"
begin

lemma advance_within:
  assumes "n \<le> m" and "win s n b" and "unat off \<le> m"
  shows "\<exists>n' \<le> m. win s n' (advance_start b off)"
proof (intro exI conjI)
  show "confirm (length s) n (unat off) \<le> m" using assms by (simp add: confirm_def)
  show "win s (confirm (length s) n (unat off)) (advance_start b off)" by (rule win_advance [OF assms(2)])
qed

text \<open>A peer that has the first \<open>unat off\<close> bytes of the stream, all confirmed ones among them, gets the rest.\<close>

lemma replay_completes:
  assumes "win s n b" and "n \<le> unat off" and "unat off \<le> length s"
  obtains rest where "replay_from b off = Some rest" and "take (unat off) s @ rest = s"
  using win_replay [OF assms(1)] assms(2,3) by auto

lemma replay_after_advance:
  assumes "win s n b" and "n \<le> unat off" and "unat off \<le> length s"
  shows "replay_from (advance_start b off) off = Some (drop (unat off) s)"
  using win_replay [OF win_advance [OF assms(1)], of off off] assms(2,3) by (simp add: confirm_def)

end

end
