(* ===== verification/Utf8.thy ===== *)
theory Utf8
  imports Prelude
begin

text \<open>
  Strings. A Rust \<^verbatim>\<open>char\<close> is its code point and a \<^verbatim>\<open>String\<close> the list of its code points, or
  the list of its bytes where the code handles it as bytes. \<open>utf8_decode\<close> is
  \<^verbatim>\<open>str::from_utf8\<close>, \<open>utf8_encode\<close> is \<^verbatim>\<open>as_bytes\<close>, \<open>utf8_len\<close> is
  \<^verbatim>\<open>char::len_utf8\<close>; the number parsers are those of the standard library.
\<close>

type_synonym uchar = nat

definition utf8_len :: "uchar \<Rightarrow> nat" where
  "utf8_len c = (if c < 128 then 1 else if c < 2048 then 2 else if c < 65536 then 3 else 4)"

definition str_len :: "uchar list \<Rightarrow> nat" where
  "str_len s = sum_list (map utf8_len s)"

section \<open>Decoding\<close>

definition cont_byte :: "nat \<Rightarrow> bool" where
  "cont_byte b \<longleftrightarrow> 0x80 \<le> b \<and> b \<le> 0xBF"

text \<open>The byte at the front and how many continuation bytes it asks for; the second byte of some
  sequences is restricted to exclude overlong forms, surrogates and values past U+10FFFF.\<close>

definition second_ok :: "nat \<Rightarrow> nat \<Rightarrow> bool" where
  "second_ok b0 b1 \<longleftrightarrow> cont_byte b1 \<and>
     (b0 = 0xE0 \<longrightarrow> 0xA0 \<le> b1) \<and> (b0 = 0xED \<longrightarrow> b1 \<le> 0x9F) \<and>
     (b0 = 0xF0 \<longrightarrow> 0x90 \<le> b1) \<and> (b0 = 0xF4 \<longrightarrow> b1 \<le> 0x8F)"

fun utf8_chars :: "nat list \<Rightarrow> uchar list option" where
  "utf8_chars [] = Some []"
| "utf8_chars (b0 # bs) =
     (if b0 < 0x80 then map_option (Cons b0) (utf8_chars bs)
      else if 0xC2 \<le> b0 \<and> b0 \<le> 0xDF then
        (case bs of
           b1 # bs' \<Rightarrow> if cont_byte b1
             then map_option (Cons ((b0 - 0xC0) * 64 + (b1 - 0x80))) (utf8_chars bs') else None
         | _ \<Rightarrow> None)
      else if 0xE0 \<le> b0 \<and> b0 \<le> 0xEF then
        (case bs of
           b1 # b2 # bs' \<Rightarrow> if second_ok b0 b1 \<and> cont_byte b2
             then map_option (Cons ((b0 - 0xE0) * 4096 + (b1 - 0x80) * 64 + (b2 - 0x80))) (utf8_chars bs')
             else None
         | _ \<Rightarrow> None)
      else if 0xF0 \<le> b0 \<and> b0 \<le> 0xF4 then
        (case bs of
           b1 # b2 # b3 # bs' \<Rightarrow> if second_ok b0 b1 \<and> cont_byte b2 \<and> cont_byte b3
             then map_option (Cons ((b0 - 0xF0) * 262144 + (b1 - 0x80) * 4096 + (b2 - 0x80) * 64 + (b3 - 0x80)))
                    (utf8_chars bs')
             else None
         | _ \<Rightarrow> None)
      else None)"

definition utf8_decode :: "u8 list \<Rightarrow> uchar list option" where
  "utf8_decode bs = utf8_chars (map unat bs)"

definition utf8_ok :: "u8 list \<Rightarrow> bool" where
  "utf8_ok bs \<longleftrightarrow> utf8_decode bs \<noteq> None"

section \<open>Encoding\<close>

definition utf8_char :: "uchar \<Rightarrow> nat list" where
  "utf8_char c =
     (if c < 0x80 then [c]
      else if c < 0x800 then [0xC0 + c div 64, 0x80 + c mod 64]
      else if c < 0x10000 then [0xE0 + c div 4096, 0x80 + c div 64 mod 64, 0x80 + c mod 64]
      else [0xF0 + c div 262144, 0x80 + c div 4096 mod 64, 0x80 + c div 64 mod 64, 0x80 + c mod 64])"

definition utf8_encode :: "uchar list \<Rightarrow> u8 list" where
  "utf8_encode s = map word_of_nat (concat (map utf8_char s))"

text \<open>The values a \<^verbatim>\<open>char\<close> can have.\<close>

definition scalar :: "uchar \<Rightarrow> bool" where
  "scalar c \<longleftrightarrow> c < 0x110000 \<and> \<not> (0xD800 \<le> c \<and> c < 0xE000)"

lemma length_utf8_char: "length (utf8_char c) = utf8_len c"
  by (simp add: utf8_char_def utf8_len_def)

lemma div_mod_64: "c div 64 * 64 + c mod 64 = c" for c :: nat
  by (rule div_mult_mod_eq)

lemma utf8_chars_char:
  assumes "scalar c"
  shows "utf8_chars (utf8_char c @ bs) = map_option (Cons c) (utf8_chars bs)"
proof -
  consider (one) "c < 0x80" | (two) "0x80 \<le> c" "c < 0x800" | (three) "0x800 \<le> c" "c < 0x10000"
    | (four) "0x10000 \<le> c" by linarith
  then show ?thesis
  proof cases
    case one
    then show ?thesis by (simp add: utf8_char_def)
  next
    case two
    then have "2 \<le> c div 64" "c div 64 < 32" "c mod 64 \<le> 63" by auto
    with two show ?thesis by (simp add: utf8_char_def cont_byte_def div_mod_64 mult.commute)
  next
    case three
    define x y where "x = c div 4096" and "y = c div 64 mod 64"
    have "c div 64 = x * 64 + y"
      using div_mod_64 [of "c div 64"] div_mult2_eq [of c 64 64] by (simp add: x_def y_def)
    then have c: "c = x * 4096 + y * 64 + c mod 64" using div_mod_64 [of c] by simp
    have x: "x < 16" using three by (simp add: x_def less_mult_imp_div_less)
    have y: "y < 64" by (simp add: y_def)
    have "0 < x \<or> 32 \<le> y" using three c by (cases "x = 0") linarith+
    moreover have "x \<noteq> 13 \<or> y < 32 \<or> 0xE000 \<le> c" using assms c by (auto simp: scalar_def)
    moreover have "x = 13 \<Longrightarrow> c < 0xE000" using c y by linarith
    ultimately have s: "second_ok (224 + x) (128 + y)" using x y by (auto simp: second_ok_def cont_byte_def)
    have "c mod 64 \<le> 63" by (simp flip: less_Suc_eq_le)
    moreover have "x * 4096 + y * 64 + c mod 64 = c" using c by simp
    ultimately show ?thesis
      using three x s by (simp add: utf8_char_def x_def [symmetric] y_def [symmetric] cont_byte_def)
  next
    case four
    define x y z where "x = c div 262144" and "y = c div 4096 mod 64" and "z = c div 64 mod 64"
    have "c div 64 div 64 = x * 64 + y"
      using div_mod_64 [of "c div 64 div 64"] div_mult2_eq [of c 64 64] div_mult2_eq [of c 4096 64]
      by (simp add: x_def y_def)
    then have "c div 64 = x * 4096 + y * 64 + z" using div_mod_64 [of "c div 64"] by (simp add: z_def)
    then have c: "c = x * 262144 + y * 4096 + z * 64 + c mod 64" using div_mod_64 [of c] by simp
    have hi: "c < 0x110000" using assms by (simp add: scalar_def)
    have x: "x < 5" using hi by (simp add: x_def less_mult_imp_div_less)
    have y: "y < 64" "z < 64" by (simp_all add: y_def z_def)
    have "0 < x \<or> 16 \<le> y" using four c y by (cases "x = 0") linarith+
    moreover have "x = 4 \<Longrightarrow> y < 16" using hi c y by linarith
    ultimately have s: "second_ok (240 + x) (128 + y)" using x y by (auto simp: second_ok_def cont_byte_def)
    have "c mod 64 \<le> 63" by (simp flip: less_Suc_eq_le)
    moreover have "x * 262144 + y * 4096 + z * 64 + c mod 64 = c" using c by simp
    ultimately show ?thesis
      using four x y s
      by (simp add: utf8_char_def x_def [symmetric] y_def [symmetric] z_def [symmetric] cont_byte_def)
  qed
qed

lemma utf8_char_bytes: "scalar c \<Longrightarrow> list_all (\<lambda>b. b < 256) (utf8_char c)"
  by (simp add: utf8_char_def scalar_def less_mult_imp_div_less) linarith

lemma utf8_chars_encode: "list_all scalar s \<Longrightarrow> utf8_chars (concat (map utf8_char s)) = Some s"
  by (induction s) (simp_all add: utf8_chars_char)

text \<open>The bytes of a string decode to the string.\<close>

lemma utf8_decode_encode:
  assumes "list_all scalar s"
  shows "utf8_decode (utf8_encode s) = Some s"
proof -
  have "list_all (\<lambda>b. b < 256) (concat (map utf8_char s))"
    using assms by (induction s) (simp_all add: utf8_char_bytes)
  then have "map unat (utf8_encode s) = concat (map utf8_char s)"
    unfolding utf8_encode_def map_map by (intro map_idI) (auto simp: list_all_iff unat_of_nat)
  with utf8_chars_encode [OF assms] show ?thesis by (simp add: utf8_decode_def)
qed

lemma length_utf8_encode: "length (utf8_encode s) = str_len s"
  by (induction s) (simp_all add: utf8_encode_def str_len_def length_utf8_char)

section \<open>Literals and numbers\<close>

text \<open>ASCII literals as code points, for comparison with decoded strings and with bytes.\<close>

definition codes :: "string \<Rightarrow> nat list" where
  "codes s = map of_char s"

definition bytes_are :: "u8 list \<Rightarrow> string \<Rightarrow> bool" where
  "bytes_are bs s \<longleftrightarrow> map unat bs = codes s"

text \<open>\<^verbatim>\<open>from_str\<close> of the integer types on decimal strings, and the values of hexadecimal digits.\<close>

definition digits_value :: "uchar list \<Rightarrow> nat option" where
  "digits_value s =
     (if s \<noteq> [] \<and> list_all (\<lambda>c. 48 \<le> c \<and> c \<le> 57) s
      then Some (foldl (\<lambda>acc c. acc * 10 + (c - 48)) 0 s) else None)"

definition parse_u8 :: "uchar list \<Rightarrow> u8 option" where
  "parse_u8 s =
     (case digits_value (if s \<noteq> [] \<and> hd s = 43 then tl s else s) of
        Some v \<Rightarrow> if v < 256 then Some (word_of_nat v) else None
      | None \<Rightarrow> None)"

definition parse_u64 :: "uchar list \<Rightarrow> u64 option" where
  "parse_u64 s =
     (case digits_value (if s \<noteq> [] \<and> hd s = 43 then tl s else s) of
        Some v \<Rightarrow> if v < 2 ^ 64 then Some (word_of_nat v) else None
      | None \<Rightarrow> None)"

definition hex_digit :: "uchar \<Rightarrow> nat option" where
  "hex_digit c =
     (if 48 \<le> c \<and> c \<le> 57 then Some (c - 48)
      else if 65 \<le> c \<and> c \<le> 70 then Some (c - 55)
      else if 97 \<le> c \<and> c \<le> 102 then Some (c - 87) else None)"

definition hex_value :: "uchar list \<Rightarrow> nat" where
  "hex_value s = foldl (\<lambda>acc c. acc * 16 + the (hex_digit c)) 0 s"

definition parse_i32 :: "uchar list \<Rightarrow> int option" where
  "parse_i32 s =
     (let neg = (s \<noteq> [] \<and> hd s = 45); signed = (s \<noteq> [] \<and> (hd s = 43 \<or> hd s = 45))
      in case digits_value (if signed then tl s else s) of
           Some v \<Rightarrow>
             (if neg then (if v \<le> 2 ^ 31 then Some (- int v) else None)
              else if v < 2 ^ 31 then Some (int v) else None)
         | None \<Rightarrow> None)"

definition is_whitespace :: "uchar \<Rightarrow> bool" where
  "is_whitespace c \<longleftrightarrow>
     (9 \<le> c \<and> c \<le> 13) \<or> c = 0x20 \<or> c = 0x85 \<or> c = 0xA0 \<or> c = 0x1680 \<or>
     (0x2000 \<le> c \<and> c \<le> 0x200A) \<or> c = 0x2028 \<or> c = 0x2029 \<or> c = 0x202F \<or> c = 0x205F \<or> c = 0x3000"

definition str_trim :: "uchar list \<Rightarrow> uchar list" where
  "str_trim s = rev (dropWhile is_whitespace (rev (dropWhile is_whitespace s)))"

text \<open>The decimal digits of \<^verbatim>\<open>to_string\<close>.\<close>

fun digits :: "nat \<Rightarrow> uchar list" where
  "digits n = (if n < 10 then [48 + n] else digits (n div 10) @ [48 + n mod 10])"

declare digits.simps [simp del]

end
