(* ===== verification/Wire.thy ===== *)
theory Wire
  imports Interfaces Utf8
begin

text \<open>
  The shared vocabulary of the wire protocol, crate \<^verbatim>\<open>isekai-protocol\<close>: the error type
  (\<^verbatim>\<open>error.rs\<close>), session identifiers (\<^verbatim>\<open>session_id.rs\<close>), stream offsets (\<^verbatim>\<open>offset.rs\<close>),
  the v1 \<^verbatim>\<open>HELLO\<close>/\<^verbatim>\<open>ACK\<close> frames (\<^verbatim>\<open>hello.rs\<close>), the version negotiation frame
  (\<^verbatim>\<open>version.rs\<close>) and the frame discriminants (\<^verbatim>\<open>lib.rs\<close>). A byte array
  \<^verbatim>\<open>[u8; N]\<close> is a byte list; its length is part of the validity predicate of the frame that
  carries it.
\<close>

section \<open>Errors\<close>

datatype protocol_error =
    FrameLengthMismatch nat nat
  | FrameTooLarge nat nat
  | FrameIncomplete nat nat
  | UnknownFrameType u8
  | TooManyFeatures nat nat
  | OffsetOverflow
  | GenerationOverflow
  | HandshakeField string string

type_synonym 'a presult = "protocol_error + 'a"

section \<open>Session identifiers and offsets\<close>

type_synonym session_id = "u8 list"

definition SESSION_ID_LEN :: nat where "SESSION_ID_LEN = 16"

definition decode_session_id :: "u8 list \<Rightarrow> session_id presult" where
  "decode_session_id buf =
     (if length buf = SESSION_ID_LEN then Inr buf
      else Inl (FrameLengthMismatch (length buf) SESSION_ID_LEN))"

text \<open>The four offset types of \<^verbatim>\<open>offset_type!\<close> have the same operations.\<close>

type_synonym offset = u64

definition checked_advance :: "offset \<Rightarrow> u64 \<Rightarrow> offset presult" where
  "checked_advance off delta =
     (case checked_add off delta of None \<Rightarrow> Inl OffsetOverflow | Some v \<Rightarrow> Inr v)"

definition decode_offset_field :: "u8 list \<Rightarrow> u64 presult" where
  "decode_offset_field buf =
     (if length buf = 8 then Inr (u64_from_be buf)
      else Inl (FrameLengthMismatch (length buf) 8))"

section \<open>HELLO and ACK\<close>

definition FRAME_HELLO :: u8 where "FRAME_HELLO = 0x01"
definition FRAME_ACK :: u8 where "FRAME_ACK = 0x02"
definition FRAME_REJECT_TARGET :: u8 where "FRAME_REJECT_TARGET = 0xFC"
definition FRAME_REJECT_UNSUPPORTED :: u8 where "FRAME_REJECT_UNSUPPORTED = 0xFD"
definition FRAME_REJECT_DUPLICATE :: u8 where "FRAME_REJECT_DUPLICATE = 0xFE"
definition FRAME_REJECT_AUTH :: u8 where "FRAME_REJECT_AUTH = 0xFF"
definition PROOF_LEN :: nat where "PROOF_LEN = 32"
definition RESUME_GRACE_LEN :: nat where "RESUME_GRACE_LEN = 4"
definition HELLO_FRAME_LEN :: nat where "HELLO_FRAME_LEN = 1 + PROOF_LEN + RESUME_GRACE_LEN"
definition ACK_FRAME_LEN :: nat where "ACK_FRAME_LEN = 1 + RESUME_GRACE_LEN"

lemmas hello_consts =
  FRAME_HELLO_def FRAME_ACK_def FRAME_REJECT_TARGET_def FRAME_REJECT_UNSUPPORTED_def
  FRAME_REJECT_DUPLICATE_def FRAME_REJECT_AUTH_def PROOF_LEN_def RESUME_GRACE_LEN_def
  HELLO_FRAME_LEN_def ACK_FRAME_LEN_def SESSION_ID_LEN_def

type_synonym proof_bytes = "u8 list"

record hello_frame =
  hf_proof :: proof_bytes
  hf_requested_resume_grace_secs :: u32

definition encode_hello :: "hello_frame \<Rightarrow> u8 list" where
  "encode_hello f =
     FRAME_HELLO # hf_proof f @ u32_to_be (hf_requested_resume_grace_secs f)"

definition decode_hello :: "u8 list \<Rightarrow> hello_frame presult" where
  "decode_hello buf =
     (if length buf \<noteq> HELLO_FRAME_LEN then Inl (FrameLengthMismatch (length buf) HELLO_FRAME_LEN)
      else if buf ! 0 \<noteq> FRAME_HELLO then Inl (UnknownFrameType (buf ! 0))
      else Inr \<lparr>hf_proof = slice 1 PROOF_LEN buf,
                hf_requested_resume_grace_secs = u32_from_be (drop (1 + PROOF_LEN) buf)\<rparr>)"

datatype ack_response =
    Ack u32
  | RejectAuth
  | RejectDuplicate
  | RejectTarget
  | RejectUnsupported

fun encode_ack_response :: "ack_response \<Rightarrow> u8 list" where
  "encode_ack_response (Ack effective) = FRAME_ACK # u32_to_be effective"
| "encode_ack_response RejectAuth = [FRAME_REJECT_AUTH]"
| "encode_ack_response RejectDuplicate = [FRAME_REJECT_DUPLICATE]"
| "encode_ack_response RejectTarget = [FRAME_REJECT_TARGET]"
| "encode_ack_response RejectUnsupported = [FRAME_REJECT_UNSUPPORTED]"

definition decode_ack_response :: "u8 list \<Rightarrow> ack_response presult" where
  "decode_ack_response buf =
     (case buf of
        [] \<Rightarrow> Inl (FrameLengthMismatch 0 1)
      | type_byte # rest \<Rightarrow>
          if type_byte = FRAME_ACK then
            (if length buf \<noteq> ACK_FRAME_LEN
             then Inl (FrameLengthMismatch (length buf) ACK_FRAME_LEN)
             else Inr (Ack (u32_from_be rest)))
          else if type_byte = FRAME_REJECT_AUTH \<or> type_byte = FRAME_REJECT_DUPLICATE
                \<or> type_byte = FRAME_REJECT_TARGET \<or> type_byte = FRAME_REJECT_UNSUPPORTED then
            (if length buf \<noteq> 1 then Inl (FrameLengthMismatch (length buf) 1)
             else Inr (if type_byte = FRAME_REJECT_AUTH then RejectAuth
                       else if type_byte = FRAME_REJECT_DUPLICATE then RejectDuplicate
                       else if type_byte = FRAME_REJECT_TARGET then RejectTarget
                       else RejectUnsupported))
          else Inl (UnknownFrameType type_byte))"

section \<open>Version negotiation\<close>

definition CURRENT_PROTOCOL_VERSION :: u16 where "CURRENT_PROTOCOL_VERSION = 1"
definition MIN_SUPPORTED_PROTOCOL_VERSION :: u16 where "MIN_SUPPORTED_PROTOCOL_VERSION = 1"
definition FRAME_VERSION_NEGOTIATION :: u8 where "FRAME_VERSION_NEGOTIATION = 0x20"
definition MAX_FEATURES :: nat where "MAX_FEATURES = 32"
definition MAX_FEATURE_NAME_LEN :: nat where "MAX_FEATURE_NAME_LEN = 64"
definition MAX_VERSION_FRAME_LEN :: nat where
  "MAX_VERSION_FRAME_LEN = 1 + 2 + 2 + 2 + MAX_FEATURES * (2 + MAX_FEATURE_NAME_LEN)"

lemmas version_consts =
  CURRENT_PROTOCOL_VERSION_def MIN_SUPPORTED_PROTOCOL_VERSION_def FRAME_VERSION_NEGOTIATION_def
  MAX_FEATURES_def MAX_FEATURE_NAME_LEN_def MAX_VERSION_FRAME_LEN_def

text \<open>A Rust \<^verbatim>\<open>String\<close> is its UTF-8 byte list.\<close>

record version_info =
  vi_protocol_version :: u16
  vi_min_supported_version :: u16
  vi_features :: "u8 list list"

definition version_current :: "u8 list list \<Rightarrow> version_info" where
  "version_current features =
     \<lparr>vi_protocol_version = CURRENT_PROTOCOL_VERSION,
      vi_min_supported_version = MIN_SUPPORTED_PROTOCOL_VERSION,
      vi_features = features\<rparr>"

definition is_compatible_with :: "version_info \<Rightarrow> version_info \<Rightarrow> bool" where
  "is_compatible_with v other \<longleftrightarrow>
     vi_min_supported_version other \<le> vi_protocol_version v
     \<and> vi_min_supported_version v \<le> vi_protocol_version other"

definition version_supports :: "version_info \<Rightarrow> u8 list \<Rightarrow> bool" where
  "version_supports v feature = list_ex (\<lambda>f. f = feature) (vi_features v)"

fun encode_features :: "u8 list list \<Rightarrow> u8 list presult" where
  "encode_features [] = Inr []"
| "encode_features (f # fs) =
     (if length f > MAX_FEATURE_NAME_LEN
      then Inl (FrameTooLarge (length f) MAX_FEATURE_NAME_LEN)
      else res_bind (encode_features fs)
             (\<lambda>rest. Inr (u16_to_be (word_of_nat (length f)) @ f @ rest)))"

definition encode_version_info :: "version_info \<Rightarrow> u8 list presult" where
  "encode_version_info v =
     (if length (vi_features v) > MAX_FEATURES
      then Inl (TooManyFeatures (length (vi_features v)) MAX_FEATURES)
      else res_bind (encode_features (vi_features v))
        (\<lambda>fs. Inr (FRAME_VERSION_NEGOTIATION # u16_to_be (vi_protocol_version v)
                   @ u16_to_be (vi_min_supported_version v)
                   @ u16_to_be (word_of_nat (length (vi_features v))) @ fs)))"

text \<open>
  The feature loop of \<^verbatim>\<open>decode_version_info\<close>: \<open>n\<close> features are left, the cursor is at
  \<open>pos\<close>. The \<^verbatim>\<open>checked_add\<close>s on the cursor cannot overflow: the buffer is shorter than
  \<open>MAX_VERSION_FRAME_LEN\<close> and each step adds at most \<open>2 + MAX_FEATURE_NAME_LEN\<close>.
\<close>

fun decode_features ::
  "nat \<Rightarrow> nat \<Rightarrow> u8 list \<Rightarrow> (u8 list list \<times> nat) presult" where
  "decode_features 0 pos buf = Inr ([], pos)"
| "decode_features (Suc n) pos buf =
     (let len_end = pos + 2 in
      if len_end > length buf then Inl (FrameIncomplete len_end (length buf))
      else let flen = unat (u16_from_be (slice pos 2 buf)) in
      if flen > MAX_FEATURE_NAME_LEN then Inl (FrameTooLarge flen MAX_FEATURE_NAME_LEN)
      else let str_end = len_end + flen in
      if str_end > length buf then Inl (FrameIncomplete str_end (length buf))
      else if \<not> utf8_ok (slice len_end flen buf)
        then Inl (HandshakeField ''features'' ''invalid utf-8'')
      else res_bind (decode_features n str_end buf)
        (\<lambda>(fs, p). Inr (slice len_end flen buf # fs, p)))"

definition decode_version_info :: "u8 list \<Rightarrow> version_info presult" where
  "decode_version_info buf =
     (if length buf > MAX_VERSION_FRAME_LEN
      then Inl (FrameTooLarge (length buf) MAX_VERSION_FRAME_LEN)
      else if length buf < 7 then Inl (FrameIncomplete 7 (length buf))
      else if buf ! 0 \<noteq> FRAME_VERSION_NEGOTIATION then Inl (UnknownFrameType (buf ! 0))
      else let feature_count = unat (u16_from_be (slice 5 2 buf)) in
      if feature_count > MAX_FEATURES then Inl (TooManyFeatures feature_count MAX_FEATURES)
      else res_bind (decode_features feature_count 7 buf)
        (\<lambda>(fs, pos).
           if pos \<noteq> length buf then Inl (FrameLengthMismatch (length buf) pos)
           else Inr \<lparr>vi_protocol_version = u16_from_be (slice 1 2 buf),
                     vi_min_supported_version = u16_from_be (slice 3 2 buf),
                     vi_features = fs\<rparr>))"

section \<open>Frame discriminants\<close>

datatype frame_type =
    FT_Hello | FT_Ack | FT_RejectAuth | FT_RejectDuplicate | FT_RejectTarget
  | FT_RejectUnsupported | FT_VersionNegotiation

definition identify_frame_type :: "u8 \<Rightarrow> frame_type presult" where
  "identify_frame_type byte =
     (if byte = FRAME_HELLO then Inr FT_Hello
      else if byte = FRAME_ACK then Inr FT_Ack
      else if byte = FRAME_REJECT_AUTH then Inr FT_RejectAuth
      else if byte = FRAME_REJECT_DUPLICATE then Inr FT_RejectDuplicate
      else if byte = FRAME_REJECT_TARGET then Inr FT_RejectTarget
      else if byte = FRAME_REJECT_UNSUPPORTED then Inr FT_RejectUnsupported
      else if byte = FRAME_VERSION_NEGOTIATION then Inr FT_VersionNegotiation
      else Inl (UnknownFrameType byte))"

section \<open>The codecs meet their contract\<close>

lemma slice_join: "q = p + n \<Longrightarrow> slice p n xs @ slice q m xs = slice p (n + m) xs"
  using append_slice [of p n xs m] by simp

lemma slice_join_tail:
  "q = p + n \<Longrightarrow> slice p n xs @ slice q m xs @ zs = slice p (n + m) xs @ zs"
  using append_slice [of p n xs m] by (metis append_assoc)

lemma slice_drop_join: "q = p + n \<Longrightarrow> slice p n xs @ drop q xs = drop p xs"
  by (simp add: slice_def add.commute flip: drop_drop)

text \<open>A frame of the right length is its type byte followed by the rest.\<close>

lemma frame_Cons: "0 < length buf \<Longrightarrow> buf ! 0 # drop 1 buf = buf"
  by (cases buf) simp_all

definition valid_hello :: "hello_frame \<Rightarrow> bool" where
  "valid_hello f \<longleftrightarrow> length (hf_proof f) = PROOF_LEN"

interpretation hello: frame_codec encode_hello decode_hello valid_hello
proof unfold_locales
  fix f :: hello_frame
  assume "valid_hello f"
  then show "decode_hello (encode_hello f) = Inr f"
    by (simp add: valid_hello_def encode_hello_def decode_hello_def hello_consts
        slice_def)
next
  fix buf f
  assume "decode_hello buf = Inr f"
  then have len: "length buf = 37" and ty: "buf ! 0 = FRAME_HELLO"
    and f: "f = \<lparr>hf_proof = slice 1 PROOF_LEN buf,
                hf_requested_resume_grace_secs = u32_from_be (drop (1 + PROOF_LEN) buf)\<rparr>"
    by (auto simp: decode_hello_def hello_consts split: if_splits)
  have "encode_hello f = FRAME_HELLO # slice 1 32 buf @ drop 33 buf"
    using len by (simp add: f encode_hello_def PROOF_LEN_def to_be_from_be)
  also have "\<dots> = buf ! 0 # drop 1 buf" by (simp add: ty slice_drop_join)
  also have "\<dots> = buf" by (rule frame_Cons) (simp add: len)
  finally show "valid_hello f \<and> encode_hello f = buf"
    using len by (simp add: f valid_hello_def PROOF_LEN_def)
qed

interpretation ack: frame_codec encode_ack_response decode_ack_response "\<lambda>_. True"
proof unfold_locales
  fix r :: ack_response
  show "decode_ack_response (encode_ack_response r) = Inr r"
    by (cases r) (simp_all add: decode_ack_response_def hello_consts)
next
  fix buf r
  assume "decode_ack_response buf = Inr r"
  then show "True \<and> encode_ack_response r = buf"
    by (auto simp: decode_ack_response_def hello_consts to_be_from_be
        split: list.splits if_splits)
qed

section \<open>Version frames round-trip\<close>

lemma encode_features_length:
  "encode_features fs = Inr eb \<Longrightarrow> length eb \<le> length fs * (2 + MAX_FEATURE_NAME_LEN)"
  by (induction fs arbitrary: eb) (fastforce simp: res_bind_eq_Inr split: if_splits)+

lemma u16_len_roundtrip: "n \<le> MAX_FEATURE_NAME_LEN \<Longrightarrow> unat (word_of_nat n :: u16) = n"
  by (simp add: unat_of_nat MAX_FEATURE_NAME_LEN_def)

lemma decode_encode_features:
  assumes "encode_features fs = Inr eb" and "\<forall>f \<in> set fs. utf8_ok f"
  shows "decode_features (length fs) (length pre) (pre @ eb @ post)
         = Inr (fs, length pre + length eb)"
  using assms
proof (induction fs arbitrary: eb pre)
  case Nil
  then show ?case by simp
next
  case (Cons f fs)
  from Cons.prems obtain rest where f: "length f \<le> MAX_FEATURE_NAME_LEN"
    and rest: "encode_features fs = Inr rest"
    and eb: "eb = u16_to_be (word_of_nat (length f)) @ f @ rest"
    by (auto simp: res_bind_eq_Inr split: if_splits)
  let ?pre = "pre @ u16_to_be (word_of_nat (length f)) @ f"
  have "decode_features (length fs) (length ?pre) (?pre @ rest @ post)
        = Inr (fs, length ?pre + length rest)"
    using rest Cons.prems(2) by (intro Cons.IH) simp_all
  then show ?case using f Cons.prems(2)
    by (simp add: eb u16_len_roundtrip Let_def add.assoc)
qed

text \<open>
  The decoder reads back every version announcement the encoder accepts, provided the feature names
  are valid UTF-8.
\<close>

lemma version_roundtrip:
  assumes enc: "encode_version_info v = Inr buf" and utf8: "\<forall>f \<in> set (vi_features v). utf8_ok f"
  shows "decode_version_info buf = Inr v"
proof -
  let ?n = "length (vi_features v)"
  from enc obtain fs where n: "?n \<le> MAX_FEATURES" and fs: "encode_features (vi_features v) = Inr fs"
    and buf: "buf = FRAME_VERSION_NEGOTIATION # u16_to_be (vi_protocol_version v)
                   @ u16_to_be (vi_min_supported_version v) @ u16_to_be (word_of_nat ?n) @ fs"
    by (auto simp: encode_version_info_def res_bind_eq_Inr split: if_splits)
  let ?pre = "FRAME_VERSION_NEGOTIATION # u16_to_be (vi_protocol_version v)
                   @ u16_to_be (vi_min_supported_version v) @ u16_to_be (word_of_nat ?n)"
  have "decode_features ?n (length ?pre) (?pre @ fs @ []) = Inr (vi_features v, length ?pre + length fs)"
    using fs utf8 by (rule decode_encode_features)
  then have dec: "decode_features ?n 7 buf = Inr (vi_features v, length buf)"
    by (simp add: buf)
  have "length fs \<le> MAX_FEATURES * (2 + MAX_FEATURE_NAME_LEN)"
    using encode_features_length [OF fs] n by (meson le_trans mult_le_mono1)
  then have len: "length buf \<le> MAX_VERSION_FRAME_LEN" "\<not> length buf < 7"
    by (simp_all add: buf version_consts)
  have cnt: "unat (u16_from_be (slice 5 2 buf)) = ?n"
    using n by (simp add: buf unat_of_nat MAX_FEATURES_def)
  have "buf ! 0 = FRAME_VERSION_NEGOTIATION" and "u16_from_be (slice 1 2 buf) = vi_protocol_version v"
    and "u16_from_be (slice 3 2 buf) = vi_min_supported_version v"
    by (simp_all add: buf)
  then show ?thesis using dec len cnt n by (simp add: decode_version_info_def Let_def)
qed

section \<open>Properties\<close>

text \<open>The v1 handshake decoders accept exactly what the encoders produce: a HELLO with a proof of the
  right length, and every acknowledgement or rejection; anything else is an error.\<close>

lemma hello_frames_exact:
  "(decode_hello b = Inr h \<longleftrightarrow> valid_hello h \<and> b = encode_hello h)
   \<and> (decode_ack_response b = Inr a \<longleftrightarrow> b = encode_ack_response a)"
  using hello.dec_iff [of b h] ack.dec_iff [of b a] by simp

text \<open>Every version announcement the encoder accepts is read back unchanged; its feature names are Rust
  strings, hence valid UTF-8.\<close>

lemma version_announcement_roundtrip:
  assumes "encode_version_info v = Inr buf" and "\<forall>f \<in> set (vi_features v). utf8_ok f"
  shows "decode_version_info buf = Inr v"
  using assms by (rule version_roundtrip)

end
