(* ===== verification/AttachWire.thy ===== *)
theory AttachWire
  imports Wire
begin

text \<open>
  The ATTACH v2 frames, \<^verbatim>\<open>isekai-protocol/src/attach.rs\<close>: identifiers, the proof
  transcripts fed to the HMAC, and the encoders and decoders of \<^verbatim>\<open>ATTACH_HELLO\<close>, the
  server's response, \<^verbatim>\<open>ATTACH_ACTIVATE\<close> and \<^verbatim>\<open>CANCEL_ATTACH\<close>. Each decoder is
  shown to accept exactly the image of its encoder (an interpretation of \<open>frame_codec\<close>), and
  the two transcripts to be injective and never equal. The constant-time comparison of the
  \<^verbatim>\<open>subtle\<close> crate is not modelled here; the arbiter takes it as a parameter.
\<close>

section \<open>Identifiers\<close>

definition ATTEMPT_ID_LEN :: nat where "ATTEMPT_ID_LEN = 16"
definition ATTACH_TOKEN_LEN :: nat where "ATTACH_TOKEN_LEN = 16"
definition ATTACH_PROOF_LEN :: nat where "ATTACH_PROOF_LEN = 32"
definition GENERATION_LEN :: nat where "GENERATION_LEN = 8"
definition FRAME_ATTACH_HELLO :: u8 where "FRAME_ATTACH_HELLO = 0x30"
definition FRAME_ATTACH_READY :: u8 where "FRAME_ATTACH_READY = 0x31"
definition FRAME_ATTACH_ACTIVATE :: u8 where "FRAME_ATTACH_ACTIVATE = 0x32"
definition FRAME_ATTACH_CANCEL :: u8 where "FRAME_ATTACH_CANCEL = 0x33"
definition FRAME_REJECT_ALREADY_ATTACHED :: u8 where "FRAME_REJECT_ALREADY_ATTACHED = 0xF0"
definition FRAME_REJECT_STALE_GENERATION :: u8 where "FRAME_REJECT_STALE_GENERATION = 0xF1"
definition FRAME_REJECT_BUSY_OTHER_SESSION :: u8 where "FRAME_REJECT_BUSY_OTHER_SESSION = 0xF2"
definition FRAME_REJECT_ATTACH_ALREADY_ESTABLISHED :: u8 where
  "FRAME_REJECT_ATTACH_ALREADY_ESTABLISHED = 0xF3"

text \<open>The domain strings \<^verbatim>\<open>b"isekai-pipe/attach/v2/hello"\<close> and \<^verbatim>\<open>b"isekai-pipe/attach/v2/cancel"\<close>.\<close>

definition ascii :: "string \<Rightarrow> u8 list" where
  "ascii cs = map (\<lambda>c. word_of_nat (of_char c)) cs"

definition ATTACH_HELLO_PROOF_DOMAIN :: "u8 list" where
  "ATTACH_HELLO_PROOF_DOMAIN = ascii ''isekai-pipe/attach/v2/hello''"

definition CANCEL_ATTACH_PROOF_DOMAIN :: "u8 list" where
  "CANCEL_ATTACH_PROOF_DOMAIN = ascii ''isekai-pipe/attach/v2/cancel''"

definition ATTACH_HELLO_FRAME_LEN :: nat where
  "ATTACH_HELLO_FRAME_LEN = 1 + SESSION_ID_LEN + GENERATION_LEN + ATTEMPT_ID_LEN + 4 + ATTACH_PROOF_LEN"
definition ATTACH_READY_FRAME_LEN :: nat where
  "ATTACH_READY_FRAME_LEN = 1 + SESSION_ID_LEN + GENERATION_LEN + ATTEMPT_ID_LEN + 4 + ATTACH_TOKEN_LEN"
definition ATTACH_ACTIVATE_FRAME_LEN :: nat where
  "ATTACH_ACTIVATE_FRAME_LEN = 1 + SESSION_ID_LEN + GENERATION_LEN + ATTEMPT_ID_LEN + ATTACH_TOKEN_LEN"
definition CANCEL_ATTACH_FRAME_LEN :: nat where
  "CANCEL_ATTACH_FRAME_LEN = 1 + SESSION_ID_LEN + GENERATION_LEN + ATTEMPT_ID_LEN + ATTACH_PROOF_LEN"
definition STALE_GENERATION_REJECT_FRAME_LEN :: nat where
  "STALE_GENERATION_REJECT_FRAME_LEN = 1 + GENERATION_LEN"

lemmas attach_lens =
  ATTEMPT_ID_LEN_def ATTACH_TOKEN_LEN_def ATTACH_PROOF_LEN_def GENERATION_LEN_def SESSION_ID_LEN_def
  ATTACH_HELLO_FRAME_LEN_def ATTACH_READY_FRAME_LEN_def ATTACH_ACTIVATE_FRAME_LEN_def
  CANCEL_ATTACH_FRAME_LEN_def STALE_GENERATION_REJECT_FRAME_LEN_def

lemmas attach_bytes =
  FRAME_ATTACH_HELLO_def FRAME_ATTACH_READY_def FRAME_ATTACH_ACTIVATE_def FRAME_ATTACH_CANCEL_def
  FRAME_REJECT_ALREADY_ATTACHED_def FRAME_REJECT_STALE_GENERATION_def
  FRAME_REJECT_BUSY_OTHER_SESSION_def FRAME_REJECT_ATTACH_ALREADY_ESTABLISHED_def
  FRAME_REJECT_AUTH_def FRAME_REJECT_TARGET_def FRAME_REJECT_UNSUPPORTED_def

type_synonym attempt_id = "u8 list"
type_synonym attach_token = "u8 list"
type_synonym attach_proof = "u8 list"
type_synonym connection_generation = u64

definition checked_next :: "connection_generation \<Rightarrow> connection_generation presult" where
  "checked_next g = (case checked_add g 1 of None \<Rightarrow> Inl GenerationOverflow | Some v \<Rightarrow> Inr v)"

definition decode_fixed :: "nat \<Rightarrow> u8 list \<Rightarrow> (u8 list) presult" where
  "decode_fixed n buf =
     (if length buf = n then Inr buf else Inl (FrameLengthMismatch (length buf) n))"

definition decode_attempt_id :: "u8 list \<Rightarrow> attempt_id presult" where
  "decode_attempt_id buf = decode_fixed ATTEMPT_ID_LEN buf"

definition decode_generation :: "u8 list \<Rightarrow> connection_generation presult" where
  "decode_generation buf = res_bind (decode_fixed GENERATION_LEN buf) (\<lambda>b. Inr (u64_from_be b))"

definition decode_attach_token :: "u8 list \<Rightarrow> attach_token presult" where
  "decode_attach_token buf = decode_fixed ATTACH_TOKEN_LEN buf"

definition decode_attach_proof :: "u8 list \<Rightarrow> attach_proof presult" where
  "decode_attach_proof buf = decode_fixed ATTACH_PROOF_LEN buf"

definition decode_u32_field :: "u8 list \<Rightarrow> u32 presult" where
  "decode_u32_field buf = res_bind (decode_fixed 4 buf) (\<lambda>b. Inr (u32_from_be b))"

record attach_key =
  ak_session_id :: session_id
  ak_generation :: connection_generation
  ak_attempt_id :: attempt_id

section \<open>Proof transcripts\<close>

definition attach_hello_proof_transcript ::
  "session_id \<Rightarrow> connection_generation \<Rightarrow> attempt_id \<Rightarrow> u32 \<Rightarrow> u8 list" where
  "attach_hello_proof_transcript sid gen att grace =
     ATTACH_HELLO_PROOF_DOMAIN @ u16_to_be CURRENT_PROTOCOL_VERSION @ [FRAME_ATTACH_HELLO]
     @ sid @ u64_to_be gen @ att @ u32_to_be grace"

definition cancel_attach_proof_transcript ::
  "session_id \<Rightarrow> connection_generation \<Rightarrow> attempt_id \<Rightarrow> u8 list" where
  "cancel_attach_proof_transcript sid gen att =
     CANCEL_ATTACH_PROOF_DOMAIN @ u16_to_be CURRENT_PROTOCOL_VERSION @ [FRAME_ATTACH_CANCEL]
     @ sid @ u64_to_be gen @ att"

section \<open>ATTACH_HELLO\<close>

record attach_hello =
  ah_session_id :: session_id
  ah_generation :: connection_generation
  ah_attempt_id :: attempt_id
  ah_requested_resume_grace_secs :: u32
  ah_proof :: attach_proof

definition encode_attach_hello :: "attach_hello \<Rightarrow> u8 list" where
  "encode_attach_hello f =
     FRAME_ATTACH_HELLO # ah_session_id f @ u64_to_be (ah_generation f) @ ah_attempt_id f
     @ u32_to_be (ah_requested_resume_grace_secs f) @ ah_proof f"

definition decode_attach_hello :: "u8 list \<Rightarrow> attach_hello presult" where
  "decode_attach_hello buf =
     (if length buf \<noteq> ATTACH_HELLO_FRAME_LEN
      then Inl (FrameLengthMismatch (length buf) ATTACH_HELLO_FRAME_LEN)
      else if buf ! 0 \<noteq> FRAME_ATTACH_HELLO then Inl (UnknownFrameType (buf ! 0))
      else
        let pos1 = 1; pos2 = pos1 + SESSION_ID_LEN; pos3 = pos2 + GENERATION_LEN;
            pos4 = pos3 + ATTEMPT_ID_LEN; pos5 = pos4 + 4 in
        res_bind (decode_session_id (slice pos1 SESSION_ID_LEN buf)) (\<lambda>sid.
        res_bind (decode_generation (slice pos2 GENERATION_LEN buf)) (\<lambda>gen.
        res_bind (decode_attempt_id (slice pos3 ATTEMPT_ID_LEN buf)) (\<lambda>att.
        res_bind (decode_u32_field (slice pos4 4 buf)) (\<lambda>grace.
        res_bind (decode_attach_proof (slice pos5 ATTACH_PROOF_LEN buf)) (\<lambda>prf.
          Inr \<lparr>ah_session_id = sid, ah_generation = gen, ah_attempt_id = att,
               ah_requested_resume_grace_secs = grace, ah_proof = prf\<rparr>))))))"

section \<open>The server's response\<close>

datatype attach_reject_reason =
    Auth
  | Target
  | Unsupported
  | AlreadyAttached
  | StaleGeneration connection_generation
  | BusyOtherSession
  | AttachAlreadyEstablished

fun encode_attach_reject :: "attach_reject_reason \<Rightarrow> u8 list" where
  "encode_attach_reject Auth = [FRAME_REJECT_AUTH]"
| "encode_attach_reject Target = [FRAME_REJECT_TARGET]"
| "encode_attach_reject Unsupported = [FRAME_REJECT_UNSUPPORTED]"
| "encode_attach_reject AlreadyAttached = [FRAME_REJECT_ALREADY_ATTACHED]"
| "encode_attach_reject (StaleGeneration cur) = FRAME_REJECT_STALE_GENERATION # u64_to_be cur"
| "encode_attach_reject BusyOtherSession = [FRAME_REJECT_BUSY_OTHER_SESSION]"
| "encode_attach_reject AttachAlreadyEstablished = [FRAME_REJECT_ATTACH_ALREADY_ESTABLISHED]"

definition decode_attach_reject :: "u8 list \<Rightarrow> attach_reject_reason presult" where
  "decode_attach_reject buf =
     (case buf of
        [] \<Rightarrow> Inl (FrameLengthMismatch 0 1)
      | type_byte # rest \<Rightarrow>
          if type_byte \<in> {FRAME_REJECT_AUTH, FRAME_REJECT_TARGET, FRAME_REJECT_UNSUPPORTED,
               FRAME_REJECT_ALREADY_ATTACHED, FRAME_REJECT_BUSY_OTHER_SESSION,
               FRAME_REJECT_ATTACH_ALREADY_ESTABLISHED} then
            (if length buf \<noteq> 1 then Inl (FrameLengthMismatch (length buf) 1)
             else Inr (if type_byte = FRAME_REJECT_AUTH then Auth
                       else if type_byte = FRAME_REJECT_TARGET then Target
                       else if type_byte = FRAME_REJECT_UNSUPPORTED then Unsupported
                       else if type_byte = FRAME_REJECT_ALREADY_ATTACHED then AlreadyAttached
                       else if type_byte = FRAME_REJECT_BUSY_OTHER_SESSION then BusyOtherSession
                       else AttachAlreadyEstablished))
          else if type_byte = FRAME_REJECT_STALE_GENERATION then
            (if length buf \<noteq> STALE_GENERATION_REJECT_FRAME_LEN
             then Inl (FrameLengthMismatch (length buf) STALE_GENERATION_REJECT_FRAME_LEN)
             else res_bind (decode_generation rest) (\<lambda>g. Inr (StaleGeneration g)))
          else Inl (UnknownFrameType type_byte))"

record attach_ready =
  ar_session_id :: session_id
  ar_generation :: connection_generation
  ar_attempt_id :: attempt_id
  ar_negotiated_resume_grace_secs :: u32
  ar_attach_token :: attach_token

datatype attach_response =
    Ready attach_ready
  | Reject attach_reject_reason

fun encode_attach_response :: "attach_response \<Rightarrow> u8 list" where
  "encode_attach_response (Ready r) =
     FRAME_ATTACH_READY # ar_session_id r @ u64_to_be (ar_generation r) @ ar_attempt_id r
     @ u32_to_be (ar_negotiated_resume_grace_secs r) @ ar_attach_token r"
| "encode_attach_response (Reject reason) = encode_attach_reject reason"

definition decode_attach_response :: "u8 list \<Rightarrow> attach_response presult" where
  "decode_attach_response buf =
     (case buf of
        [] \<Rightarrow> Inl (FrameLengthMismatch 0 1)
      | type_byte # _ \<Rightarrow>
          if type_byte = FRAME_ATTACH_READY then
            (if length buf \<noteq> ATTACH_READY_FRAME_LEN
             then Inl (FrameLengthMismatch (length buf) ATTACH_READY_FRAME_LEN)
             else
               let pos1 = 1; pos2 = pos1 + SESSION_ID_LEN; pos3 = pos2 + GENERATION_LEN;
                   pos4 = pos3 + ATTEMPT_ID_LEN; pos5 = pos4 + 4 in
               res_bind (decode_session_id (slice pos1 SESSION_ID_LEN buf)) (\<lambda>sid.
               res_bind (decode_generation (slice pos2 GENERATION_LEN buf)) (\<lambda>gen.
               res_bind (decode_attempt_id (slice pos3 ATTEMPT_ID_LEN buf)) (\<lambda>att.
               res_bind (decode_u32_field (slice pos4 4 buf)) (\<lambda>grace.
               res_bind (decode_attach_token (slice pos5 ATTACH_TOKEN_LEN buf)) (\<lambda>tok.
                 Inr (Ready \<lparr>ar_session_id = sid, ar_generation = gen, ar_attempt_id = att,
                      ar_negotiated_resume_grace_secs = grace, ar_attach_token = tok\<rparr>)))))))
          else res_bind (decode_attach_reject buf) (\<lambda>r. Inr (Reject r)))"

section \<open>ATTACH_ACTIVATE and CANCEL_ATTACH\<close>

record attach_activate =
  aa_session_id :: session_id
  aa_generation :: connection_generation
  aa_attempt_id :: attempt_id
  aa_attach_token :: attach_token

definition encode_attach_activate :: "attach_activate \<Rightarrow> u8 list" where
  "encode_attach_activate f =
     FRAME_ATTACH_ACTIVATE # aa_session_id f @ u64_to_be (aa_generation f) @ aa_attempt_id f
     @ aa_attach_token f"

definition decode_attach_activate :: "u8 list \<Rightarrow> attach_activate presult" where
  "decode_attach_activate buf =
     (if length buf \<noteq> ATTACH_ACTIVATE_FRAME_LEN
      then Inl (FrameLengthMismatch (length buf) ATTACH_ACTIVATE_FRAME_LEN)
      else if buf ! 0 \<noteq> FRAME_ATTACH_ACTIVATE then Inl (UnknownFrameType (buf ! 0))
      else
        let pos1 = 1; pos2 = pos1 + SESSION_ID_LEN; pos3 = pos2 + GENERATION_LEN;
            pos4 = pos3 + ATTEMPT_ID_LEN in
        res_bind (decode_session_id (slice pos1 SESSION_ID_LEN buf)) (\<lambda>sid.
        res_bind (decode_generation (slice pos2 GENERATION_LEN buf)) (\<lambda>gen.
        res_bind (decode_attempt_id (slice pos3 ATTEMPT_ID_LEN buf)) (\<lambda>att.
        res_bind (decode_attach_token (slice pos4 ATTACH_TOKEN_LEN buf)) (\<lambda>tok.
          Inr \<lparr>aa_session_id = sid, aa_generation = gen, aa_attempt_id = att,
               aa_attach_token = tok\<rparr>)))))"

record cancel_attach =
  ca_session_id :: session_id
  ca_generation :: connection_generation
  ca_attempt_id :: attempt_id
  ca_proof :: attach_proof

definition encode_cancel_attach :: "cancel_attach \<Rightarrow> u8 list" where
  "encode_cancel_attach f =
     FRAME_ATTACH_CANCEL # ca_session_id f @ u64_to_be (ca_generation f) @ ca_attempt_id f
     @ ca_proof f"

definition decode_cancel_attach :: "u8 list \<Rightarrow> cancel_attach presult" where
  "decode_cancel_attach buf =
     (if length buf \<noteq> CANCEL_ATTACH_FRAME_LEN
      then Inl (FrameLengthMismatch (length buf) CANCEL_ATTACH_FRAME_LEN)
      else if buf ! 0 \<noteq> FRAME_ATTACH_CANCEL then Inl (UnknownFrameType (buf ! 0))
      else
        let pos1 = 1; pos2 = pos1 + SESSION_ID_LEN; pos3 = pos2 + GENERATION_LEN;
            pos4 = pos3 + ATTEMPT_ID_LEN in
        res_bind (decode_session_id (slice pos1 SESSION_ID_LEN buf)) (\<lambda>sid.
        res_bind (decode_generation (slice pos2 GENERATION_LEN buf)) (\<lambda>gen.
        res_bind (decode_attempt_id (slice pos3 ATTEMPT_ID_LEN buf)) (\<lambda>att.
        res_bind (decode_attach_proof (slice pos4 ATTACH_PROOF_LEN buf)) (\<lambda>prf.
          Inr \<lparr>ca_session_id = sid, ca_generation = gen, ca_attempt_id = att,
               ca_proof = prf\<rparr>)))))"

section \<open>The codecs meet their contract\<close>

lemmas field_decoders =
  decode_session_id_def decode_generation_def decode_attempt_id_def decode_attach_token_def
  decode_attach_proof_def decode_u32_field_def decode_fixed_def

definition valid_attach_hello :: "attach_hello \<Rightarrow> bool" where
  "valid_attach_hello f \<longleftrightarrow>
     length (ah_session_id f) = SESSION_ID_LEN \<and> length (ah_attempt_id f) = ATTEMPT_ID_LEN
     \<and> length (ah_proof f) = ATTACH_PROOF_LEN"

definition valid_attach_response :: "attach_response \<Rightarrow> bool" where
  "valid_attach_response r \<longleftrightarrow>
     (case r of
        Ready f \<Rightarrow> length (ar_session_id f) = SESSION_ID_LEN
          \<and> length (ar_attempt_id f) = ATTEMPT_ID_LEN \<and> length (ar_attach_token f) = ATTACH_TOKEN_LEN
      | Reject _ \<Rightarrow> True)"

definition valid_attach_activate :: "attach_activate \<Rightarrow> bool" where
  "valid_attach_activate f \<longleftrightarrow>
     length (aa_session_id f) = SESSION_ID_LEN \<and> length (aa_attempt_id f) = ATTEMPT_ID_LEN
     \<and> length (aa_attach_token f) = ATTACH_TOKEN_LEN"

definition valid_cancel_attach :: "cancel_attach \<Rightarrow> bool" where
  "valid_cancel_attach f \<longleftrightarrow>
     length (ca_session_id f) = SESSION_ID_LEN \<and> length (ca_attempt_id f) = ATTEMPT_ID_LEN
     \<and> length (ca_proof f) = ATTACH_PROOF_LEN"

lemmas valid_frame_defs =
  valid_attach_hello_def valid_attach_response_def valid_attach_activate_def valid_cancel_attach_def

text \<open>The fields of a frame body, read at their offsets, are the body again.\<close>

lemma fields5_join:
  assumes "length buf = Suc (a + b + c + d + e)"
  shows "buf ! 0 # slice 1 a buf @ slice (Suc a) b buf @ slice (Suc (a + b)) c buf
         @ slice (Suc (a + b + c)) d buf @ slice (Suc (a + b + c + d)) e buf = buf"
proof -
  from assms obtain x ys where buf: "buf = x # ys" and len: "length ys = a + b + c + d + e"
    by (cases buf) auto
  have "slice 0 a ys @ slice a b ys @ slice (a + b) c ys @ slice (a + b + c) d ys
        @ slice (a + b + c + d) e ys = slice 0 (a + b + c + d + e) ys"
    by (simp add: slice_join_tail slice_join add.assoc)
  then show ?thesis by (simp add: buf len)
qed

lemma frame_fields:
  "length buf = 77 \<Longrightarrow>
   buf ! 0 # slice 1 16 buf @ slice 17 8 buf @ slice 25 16 buf @ slice 41 4 buf @ slice 45 32 buf = buf"
  "length buf = 61 \<Longrightarrow>
   buf ! 0 # slice 1 16 buf @ slice 17 8 buf @ slice 25 16 buf @ slice 41 4 buf @ slice 45 16 buf = buf"
  "length buf = 57 \<Longrightarrow>
   buf ! 0 # slice 1 16 buf @ slice 17 8 buf @ slice 25 16 buf @ slice 41 16 buf = buf"
  "length buf = 73 \<Longrightarrow>
   buf ! 0 # slice 1 16 buf @ slice 17 8 buf @ slice 25 16 buf @ slice 41 32 buf = buf"
  using fields5_join [of buf 16 8 16 4 32] fields5_join [of buf 16 8 16 4 16]
    fields5_join [of buf 16 8 16 16 0] fields5_join [of buf 16 8 16 32 0]
  by (simp_all add: slice_def [of _ 0])

interpretation attach_hello: frame_codec encode_attach_hello decode_attach_hello valid_attach_hello
proof unfold_locales
  fix f :: attach_hello
  assume "valid_attach_hello f"
  then show "decode_attach_hello (encode_attach_hello f) = Inr f"
    by (simp add: valid_frame_defs encode_attach_hello_def decode_attach_hello_def attach_lens
        field_decoders Let_def)
next
  fix buf f
  assume dec: "decode_attach_hello buf = Inr f"
  then have len: "length buf = 77" and ty: "buf ! 0 = FRAME_ATTACH_HELLO"
    by (auto simp: decode_attach_hello_def attach_lens split: if_splits)
  with dec have f: "f = \<lparr>ah_session_id = slice 1 16 buf, ah_generation = u64_from_be (slice 17 8 buf),
      ah_attempt_id = slice 25 16 buf, ah_requested_resume_grace_secs = u32_from_be (slice 41 4 buf),
      ah_proof = slice 45 32 buf\<rparr>"
    by (simp add: decode_attach_hello_def attach_lens field_decoders Let_def)
  show "valid_attach_hello f \<and> encode_attach_hello f = buf"
    using len frame_fields(1) [OF len]
    by (simp add: f valid_frame_defs attach_lens encode_attach_hello_def to_be_from_be ty)
qed

interpretation attach_activate:
  frame_codec encode_attach_activate decode_attach_activate valid_attach_activate
proof unfold_locales
  fix f :: attach_activate
  assume "valid_attach_activate f"
  then show "decode_attach_activate (encode_attach_activate f) = Inr f"
    by (simp add: valid_frame_defs encode_attach_activate_def decode_attach_activate_def attach_lens
        field_decoders Let_def)
next
  fix buf f
  assume dec: "decode_attach_activate buf = Inr f"
  then have len: "length buf = 57" and ty: "buf ! 0 = FRAME_ATTACH_ACTIVATE"
    by (auto simp: decode_attach_activate_def attach_lens split: if_splits)
  with dec have f: "f = \<lparr>aa_session_id = slice 1 16 buf, aa_generation = u64_from_be (slice 17 8 buf),
      aa_attempt_id = slice 25 16 buf, aa_attach_token = slice 41 16 buf\<rparr>"
    by (simp add: decode_attach_activate_def attach_lens field_decoders Let_def)
  show "valid_attach_activate f \<and> encode_attach_activate f = buf"
    using len frame_fields(3) [OF len]
    by (simp add: f valid_frame_defs attach_lens encode_attach_activate_def to_be_from_be ty)
qed

interpretation cancel_attach: frame_codec encode_cancel_attach decode_cancel_attach valid_cancel_attach
proof unfold_locales
  fix f :: cancel_attach
  assume "valid_cancel_attach f"
  then show "decode_cancel_attach (encode_cancel_attach f) = Inr f"
    by (simp add: valid_frame_defs encode_cancel_attach_def decode_cancel_attach_def attach_lens
        field_decoders Let_def)
next
  fix buf f
  assume dec: "decode_cancel_attach buf = Inr f"
  then have len: "length buf = 73" and ty: "buf ! 0 = FRAME_ATTACH_CANCEL"
    by (auto simp: decode_cancel_attach_def attach_lens split: if_splits)
  with dec have f: "f = \<lparr>ca_session_id = slice 1 16 buf, ca_generation = u64_from_be (slice 17 8 buf),
      ca_attempt_id = slice 25 16 buf, ca_proof = slice 41 32 buf\<rparr>"
    by (simp add: decode_cancel_attach_def attach_lens field_decoders Let_def)
  show "valid_cancel_attach f \<and> encode_cancel_attach f = buf"
    using len frame_fields(4) [OF len]
    by (simp add: f valid_frame_defs attach_lens encode_cancel_attach_def to_be_from_be ty)
qed

interpretation attach_reject: frame_codec encode_attach_reject decode_attach_reject "\<lambda>_. True"
proof unfold_locales
  fix r :: attach_reject_reason
  show "decode_attach_reject (encode_attach_reject r) = Inr r"
    by (cases r) (simp_all add: decode_attach_reject_def attach_bytes attach_lens field_decoders)
next
  fix buf r
  assume "decode_attach_reject buf = Inr r"
  then show "True \<and> encode_attach_reject r = buf"
    by (auto simp: decode_attach_reject_def attach_bytes attach_lens field_decoders to_be_from_be
        split: list.splits if_splits)
qed

lemma encode_attach_reject_first: "hd (encode_attach_reject r) \<noteq> FRAME_ATTACH_READY"
  by (cases r) (simp_all add: attach_bytes)

lemma encode_attach_reject_not_Nil [simp]: "encode_attach_reject r \<noteq> []"
  by (cases r) simp_all

lemma decode_attach_response_Cons:
  "decode_attach_response (FRAME_ATTACH_READY # rest) =
     (if length rest \<noteq> 60 then Inl (FrameLengthMismatch (Suc (length rest)) 61)
      else Inr (Ready \<lparr>ar_session_id = slice 0 16 rest, ar_generation = u64_from_be (slice 16 8 rest),
             ar_attempt_id = slice 24 16 rest,
             ar_negotiated_resume_grace_secs = u32_from_be (slice 40 4 rest),
             ar_attach_token = slice 44 16 rest\<rparr>))"
  by (simp add: decode_attach_response_def attach_lens field_decoders Let_def)

interpretation attach_response:
  frame_codec encode_attach_response decode_attach_response valid_attach_response
proof unfold_locales
  fix r :: attach_response
  assume valid: "valid_attach_response r"
  show "decode_attach_response (encode_attach_response r) = Inr r"
  proof (cases r)
    case (Ready f)
    with valid show ?thesis
      by (simp add: decode_attach_response_Cons valid_frame_defs attach_lens)
  next
    case (Reject reason)
    obtain b rest where enc: "encode_attach_reject reason = b # rest"
      by (cases "encode_attach_reject reason") simp_all
    then have "b \<noteq> FRAME_ATTACH_READY"
      using encode_attach_reject_first [of reason] by simp
    then show ?thesis
      using attach_reject.dec_enc [of reason] by (simp add: Reject enc decode_attach_response_def)
  qed
next
  fix buf r
  assume dec: "decode_attach_response buf = Inr r"
  then obtain b rest where buf: "buf = b # rest"
    by (cases buf) (simp_all add: decode_attach_response_def)
  show "valid_attach_response r \<and> encode_attach_response r = buf"
  proof (cases "b = FRAME_ATTACH_READY")
    case True
    with dec have len: "length rest = 60"
      by (simp add: buf decode_attach_response_Cons split: if_splits)
    with dec True have r: "r = Ready \<lparr>ar_session_id = slice 0 16 rest,
        ar_generation = u64_from_be (slice 16 8 rest), ar_attempt_id = slice 24 16 rest,
        ar_negotiated_resume_grace_secs = u32_from_be (slice 40 4 rest),
        ar_attach_token = slice 44 16 rest\<rparr>"
      by (simp add: buf decode_attach_response_Cons)
    show ?thesis
      using len frame_fields(2) [of buf] True
      by (simp add: r buf valid_frame_defs attach_lens to_be_from_be)
  next
    case False
    with dec obtain reason where "decode_attach_reject buf = Inr reason" and "r = Reject reason"
      by (auto simp: buf decode_attach_response_def res_bind_eq_Inr)
    then show ?thesis
      using attach_reject.enc_dec [of buf reason] by (simp add: valid_frame_defs)
  qed
qed

section \<open>Transcripts\<close>

lemma attach_hello_transcript_inj:
  assumes "length sid = SESSION_ID_LEN" and "length sid' = SESSION_ID_LEN"
    and "length att = ATTEMPT_ID_LEN" and "length att' = ATTEMPT_ID_LEN"
    and "attach_hello_proof_transcript sid gen att grace
         = attach_hello_proof_transcript sid' gen' att' grace'"
  shows "sid = sid' \<and> gen = gen' \<and> att = att' \<and> grace = grace'"
  using assms by (simp add: attach_hello_proof_transcript_def)

lemma cancel_attach_transcript_inj:
  assumes "length sid = SESSION_ID_LEN" and "length sid' = SESSION_ID_LEN"
    and "length att = ATTEMPT_ID_LEN" and "length att' = ATTEMPT_ID_LEN"
    and "cancel_attach_proof_transcript sid gen att = cancel_attach_proof_transcript sid' gen' att'"
  shows "sid = sid' \<and> gen = gen' \<and> att = att'"
  using assms by (simp add: cancel_attach_proof_transcript_def)

lemma attach_transcripts_disjoint:
  "attach_hello_proof_transcript sid gen att grace \<noteq> cancel_attach_proof_transcript sid' gen' att'"
proof
  assume eq: "attach_hello_proof_transcript sid gen att grace
              = cancel_attach_proof_transcript sid' gen' att'"
  have "attach_hello_proof_transcript sid gen att grace ! 22 = 0x68"
    by (simp add: attach_hello_proof_transcript_def ATTACH_HELLO_PROOF_DOMAIN_def ascii_def nth_append)
  moreover have "cancel_attach_proof_transcript sid' gen' att' ! 22 = 0x63"
    by (simp add: cancel_attach_proof_transcript_def CANCEL_ATTACH_PROOF_DOMAIN_def ascii_def nth_append)
  ultimately show False using eq by simp
qed

section \<open>Properties\<close>

text \<open>C34. Each ATTACH v2 decoder accepts exactly the image of its encoder: a buffer decodes to a frame if and
  only if it is the encoding of that frame and the frame's byte fields have their fixed
  lengths. In particular no two buffers decode alike and every malformed buffer is an
  error.\<close>

theorem attach_frames_exact:
  "(decode_attach_hello b = Inr h \<longleftrightarrow> valid_attach_hello h \<and> b = encode_attach_hello h)
   \<and> (decode_attach_response b = Inr r \<longleftrightarrow> valid_attach_response r \<and> b = encode_attach_response r)
   \<and> (decode_attach_activate b = Inr a \<longleftrightarrow> valid_attach_activate a \<and> b = encode_attach_activate a)
   \<and> (decode_cancel_attach b = Inr c \<longleftrightarrow> valid_cancel_attach c \<and> b = encode_cancel_attach c)"
  by (simp add: attach_hello.dec_iff attach_response.dec_iff attach_activate.dec_iff cancel_attach.dec_iff)

text \<open>The authenticated transcripts bind every field: two HELLO transcripts over identifiers of the fixed
  lengths are equal only if session, generation, attempt and requested grace are, likewise two
  CANCEL transcripts, and a HELLO transcript is never a CANCEL transcript, so a proof
  for one cannot be replayed as the other.\<close>

lemma attach_transcripts_bind:
  assumes "length sid = SESSION_ID_LEN" and "length sid' = SESSION_ID_LEN"
    and "length att = ATTEMPT_ID_LEN" and "length att' = ATTEMPT_ID_LEN"
  shows "(attach_hello_proof_transcript sid gen att grace = attach_hello_proof_transcript sid' gen' att' grace'
          \<longleftrightarrow> sid = sid' \<and> gen = gen' \<and> att = att' \<and> grace = grace')
    \<and> (cancel_attach_proof_transcript sid gen att = cancel_attach_proof_transcript sid' gen' att'
          \<longleftrightarrow> sid = sid' \<and> gen = gen' \<and> att = att')
    \<and> attach_hello_proof_transcript sid gen att grace \<noteq> cancel_attach_proof_transcript sid' gen' att'"
  by (intro conjI iffI attach_transcripts_disjoint)
    (use attach_hello_transcript_inj [OF assms] cancel_attach_transcript_inj [OF assms] in simp_all)

end
