(* ===== verification/Tables.thy ===== *)
theory Tables
  imports Prelude "HOL-Library.Multiset"
begin

text \<open>
  The key-value containers of the reducers. \<open>finite_table\<close> is the interface the reducers rely
  on (what a lookup returns after an insertion or removal, and how the number of entries
  changes); it is interpreted by the model of \<^verbatim>\<open>std::collections::HashMap\<close> (an association
  list with distinct keys, whose order stands for the unspecified iteration order) and by
  the model of \<^verbatim>\<open>BTreeMap\<close> (an association list in strictly increasing key order).
\<close>

section \<open>The interface\<close>

locale finite_table =
  fixes empty :: 'm
    and get :: "'m \<Rightarrow> 'k \<Rightarrow> 'v option"
    and ins :: "'k \<Rightarrow> 'v \<Rightarrow> 'm \<Rightarrow> 'm"
    and del :: "'k \<Rightarrow> 'm \<Rightarrow> 'm"
    and count :: "'m \<Rightarrow> nat"
    and ok :: "'m \<Rightarrow> bool"
  assumes get_empty: "get empty k = None"
    and get_ins: "ok m \<Longrightarrow> get (ins k v m) = (get m)(k \<mapsto> v)"
    and get_del: "ok m \<Longrightarrow> get (del k m) = (get m)(k := None)"
    and finite_get: "finite (dom (get m))"
    and count_get: "ok m \<Longrightarrow> count m = card (dom (get m))"
    and ok_empty: "ok empty"
    and ok_ins: "ok m \<Longrightarrow> ok (ins k v m)"
    and ok_del: "ok m \<Longrightarrow> ok (del k m)"
begin

lemma count_empty: "count empty = 0"
  by (simp add: count_get [OF ok_empty] get_empty dom_def)

lemma count_ins_new: "ok m \<Longrightarrow> get m k = None \<Longrightarrow> count (ins k v m) = Suc (count m)"
  by (simp add: count_get ok_ins get_ins finite_get domIff)

lemma count_ins_old: "ok m \<Longrightarrow> get m k \<noteq> None \<Longrightarrow> count (ins k v m) = count m"
  by (simp add: count_get ok_ins get_ins finite_get card_insert_if domIff)

lemma count_ins_le: "ok m \<Longrightarrow> count (ins k v m) \<le> Suc (count m)"
  by (cases "get m k = None") (simp_all add: count_ins_new count_ins_old)

lemma count_del: "ok m \<Longrightarrow> get m k \<noteq> None \<Longrightarrow> Suc (count (del k m)) = count m"
  by (simp add: count_get ok_del get_del card_Suc_Diff1 finite_get domIff del: card_Diff_insert)

lemma count_del_le: "ok m \<Longrightarrow> count (del k m) \<le> count m"
  by (simp add: count_get ok_del get_del card_Diff1_le)

end

section \<open>HashMap\<close>

type_synonym ('k, 'v) hash_map = "('k \<times> 'v) list"

abbreviation hm_get :: "('k, 'v) hash_map \<Rightarrow> 'k \<Rightarrow> 'v option" where
  "hm_get \<equiv> map_of"

abbreviation hm_insert :: "'k \<Rightarrow> 'v \<Rightarrow> ('k, 'v) hash_map \<Rightarrow> ('k, 'v) hash_map" where
  "hm_insert \<equiv> AList.update"

abbreviation hm_remove :: "'k \<Rightarrow> ('k, 'v) hash_map \<Rightarrow> ('k, 'v) hash_map" where
  "hm_remove \<equiv> AList.delete"

definition hm_ok :: "('k, 'v) hash_map \<Rightarrow> bool" where
  "hm_ok m \<longleftrightarrow> distinct (map fst m)"

lemma card_dom_map_of: "distinct (map fst m) \<Longrightarrow> length m = card (dom (map_of m))"
  using distinct_card [of "map fst m"] by (simp add: dom_map_of_conv_image_fst)

interpretation hm: finite_table "[]" hm_get hm_insert hm_remove length hm_ok
proof unfold_locales
  show "finite (dom (map_of m))" for m :: "('a \<times> 'b) list"
    by (rule finite_dom_map_of)
  show "length m = card (dom (map_of m))" if "hm_ok m" for m :: "('a \<times> 'b) list"
    using that by (simp add: hm_ok_def card_dom_map_of)
qed (simp_all add: hm_ok_def update_conv' delete_conv' distinct_update distinct_delete)

lemmas hm_simps [table_simps] = hm.get_ins hm.get_del hm.ok_ins hm.ok_del hm.ok_empty

section \<open>BTreeMap\<close>

type_synonym ('k, 'v) btree_map = "('k \<times> 'v) list"

abbreviation bt_get :: "('k, 'v) btree_map \<Rightarrow> 'k \<Rightarrow> 'v option" where
  "bt_get \<equiv> map_of"

fun bt_insert :: "'k::linorder \<Rightarrow> 'v \<Rightarrow> ('k, 'v) btree_map \<Rightarrow> ('k, 'v) btree_map" where
  "bt_insert k v [] = [(k, v)]"
| "bt_insert k v ((k', v') # m) =
     (if k < k' then (k, v) # (k', v') # m
      else if k = k' then (k, v) # m
      else (k', v') # bt_insert k v m)"

abbreviation bt_remove :: "'k \<Rightarrow> ('k, 'v) btree_map \<Rightarrow> ('k, 'v) btree_map" where
  "bt_remove \<equiv> AList.delete"

definition bt_ok :: "('k::linorder, 'v) btree_map \<Rightarrow> bool" where
  "bt_ok m \<longleftrightarrow> sorted_wrt (<) (map fst m)"

lemma set_bt_insert_fst: "fst ` set (bt_insert k v m) = insert k (fst ` set m)"
  by (induction k v m rule: bt_insert.induct) auto

lemma bt_ok_insert: "bt_ok m \<Longrightarrow> bt_ok (bt_insert k v m)"
proof (induction k v m rule: bt_insert.induct)
  case (1 k v)
  then show ?case by (simp add: bt_ok_def)
next
  case (2 k v k' v' m)
  have keys: "set (map fst (bt_insert k v m)) = insert k (set (map fst m))"
    using set_bt_insert_fst [of k v m] by simp
  show ?case
  proof (cases "k < k'")
    case True
    with "2.prems" show ?thesis by (auto simp: bt_ok_def intro: less_trans)
  next
    case False
    with 2 keys show ?thesis by (auto simp: bt_ok_def)
  qed
qed

lemma map_of_bt_insert: "bt_ok m \<Longrightarrow> map_of (bt_insert k v m) = (map_of m)(k \<mapsto> v)"
proof (induction k v m rule: bt_insert.induct)
  case (2 k v k' v' m)
  then show ?case by (auto simp: bt_ok_def fun_eq_iff)
qed simp

lemma bt_ok_distinct: "bt_ok m \<Longrightarrow> distinct (map fst m)"
  by (simp add: bt_ok_def strict_sorted_iff)

lemma bt_ok_delete: "bt_ok m \<Longrightarrow> bt_ok (AList.delete k m)"
proof -
  assume "bt_ok m"
  then have "sorted_wrt (<) (removeAll k (map fst m))"
    by (simp add: bt_ok_def removeAll_filter_not_eq sorted_wrt_filter)
  then show ?thesis by (simp add: bt_ok_def delete_keys)
qed

interpretation bt: finite_table "[]" bt_get bt_insert bt_remove length bt_ok
proof unfold_locales
  show "finite (dom (map_of m))" for m :: "('a::linorder \<times> 'b) list"
    by (rule finite_dom_map_of)
  show "length m = card (dom (map_of m))" if "bt_ok m" for m :: "('a::linorder \<times> 'b) list"
    using that by (simp add: bt_ok_distinct card_dom_map_of)
  show "bt_ok []" by (simp add: bt_ok_def)
qed (simp_all add: bt_ok_insert bt_ok_delete map_of_bt_insert delete_conv')

lemmas bt_simps [table_simps] = bt.get_ins bt.get_del bt.ok_ins bt.ok_del bt.ok_empty

section \<open>Iterating\<close>

text \<open>
  \<^verbatim>\<open>iter().find(..)\<close> over a table: where at most one entry satisfies the predicate the
  iteration order does not matter.
\<close>

lemma find_in_set: "find P xs = Some x \<Longrightarrow> x \<in> set xs \<and> P x"
  by (auto simp: find_Some_iff)

lemma find_unique:
  assumes "x \<in> set xs" and "P x" and "\<And>y. y \<in> set xs \<Longrightarrow> P y \<Longrightarrow> y = x"
  shows "find P xs = Some x"
proof (cases "find P xs")
  case None
  with assms(1,2) show ?thesis by (auto simp: find_None_iff)
next
  case (Some y)
  with assms(3) show ?thesis by (auto dest: find_in_set)
qed

lemma find_order_irrelevant:
  assumes perm: "mset xs = mset ys"
    and uniq: "\<And>x y. x \<in> set xs \<Longrightarrow> y \<in> set xs \<Longrightarrow> P x \<Longrightarrow> P y \<Longrightarrow> x = y"
  shows "find P xs = find P ys"
proof -
  from perm have set: "set xs = set ys" by (rule mset_eq_setD)
  show ?thesis
  proof (cases "find P ys")
    case None
    then have "find P xs = None" using set by (simp add: find_None_iff)
    with None show ?thesis by simp
  next
    case (Some y)
    then have "y \<in> set xs" and "P y" using set by (auto dest: find_in_set)
    then show ?thesis using uniq Some by (simp add: find_unique)
  qed
qed

lemma map_of_entry: "distinct (map fst m) \<Longrightarrow> map_of m k = Some v \<longleftrightarrow> (k, v) \<in> set m"
  by (simp add: map_of_eq_Some_iff)

text \<open>No two entries agree on an attribute \<open>f\<close> of their values.\<close>

lemma distinct_values_iff:
  assumes ok: "distinct (map fst m)"
  shows "distinct (map (\<lambda>(_, v). f v) m) \<longleftrightarrow>
    (\<forall>k k' v v'. map_of m k = Some v \<longrightarrow> map_of m k' = Some v' \<longrightarrow> f v = f v' \<longrightarrow> k = k')"
    (is "?D \<longleftrightarrow> ?U")
proof -
  from ok have "distinct m" by (simp add: distinct_map)
  then have "?D \<longleftrightarrow> inj_on (\<lambda>(_, v). f v) (set m)" by (simp add: distinct_map)
  also have "\<dots> \<longleftrightarrow> ?U"
  proof
    assume inj: "inj_on (\<lambda>(_, v). f v) (set m)"
    show ?U
    proof (intro allI impI)
      fix k k' v v'
      assume "map_of m k = Some v" and "map_of m k' = Some v'" and "f v = f v'"
      then have "(k, v) = (k', v')"
        by (intro inj_onD [OF inj]) (auto dest: map_of_SomeD)
      then show "k = k'" by simp
    qed
  next
    assume u: ?U
    show "inj_on (\<lambda>(_, v). f v) (set m)"
    proof (rule inj_onI)
      fix x y
      assume "x \<in> set m" "y \<in> set m" and eq: "(case x of (_, v) \<Rightarrow> f v) = (case y of (_, v) \<Rightarrow> f v)"
      then have x: "map_of m (fst x) = Some (snd x)" and y: "map_of m (fst y) = Some (snd y)"
        using ok by simp_all
      from eq have "f (snd x) = f (snd y)" by (simp add: case_prod_beta)
      with u x y have "fst x = fst y" by blast
      with x y show "x = y" by (simp add: prod_eq_iff)
    qed
  qed
  finally show ?thesis .
qed

end
