(* ===== verification/AttachArbiter.thy ===== *)
theory AttachArbiter
  imports AttachWire Tables Interfaces
begin

text \<open>
  \<^verbatim>\<open>isekai-pipe/src/engine/attach_arbiter.rs\<close>: the reducer that decides which of several
  concurrent ATTACH attempts of a session owns the target connection. \<open>attach_state\<close> is one
  session's slot, \<open>attach_arbiter\<close> the table of slots with the lease counter, and
  \<open>arb_apply\<close> the reducer. The comparison of attach tokens (\<^verbatim>\<open>AttachToken::ct_eq\<close>, the
  \<^verbatim>\<open>subtle\<close> crate) is the parameter \<open>ct_eq\<close>.

  \<open>slot_step\<close> is the abstract specification of a single slot's life cycle; every call of
  \<open>arb_apply\<close> is shown to be one such step of one slot that leaves all others
  alone, and the fencing, single-relay and waiter-resolution properties are proved from it.
\<close>

section \<open>Model\<close>

type_synonym lease_id = u64
type_synonym target_handle_id = u64

datatype attach_state =
    Connecting attach_key lease_id
  | PendingActivation attach_key lease_id attach_token target_handle_id
  | Established attach_key lease_id
  | ClosingForSupersede lease_id attach_key

datatype attach_event =
    AEv_HelloReceived attach_key
  | AEv_TargetConnected lease_id target_handle_id attach_token
  | AEv_TargetConnectFailed lease_id
  | AEv_Activated attach_key attach_token
  | AEv_CancelReceived attach_key
  | AEv_LeaseStopped lease_id
  | AEv_PendingExpired lease_id
  | AEv_RelayEnded lease_id

datatype attach_effect =
    AEff_ConnectTarget lease_id
  | AEff_CancelLease lease_id
  | AEff_SendReady attach_key attach_token
  | AEff_SendReject attach_key attach_reject_reason
  | AEff_SchedulePendingTimeout lease_id
  | AEff_StartRelay lease_id target_handle_id

record attach_arbiter =
  arb_sessions :: "(session_id, attach_state) hash_map"
  arb_next_lease :: u64

definition arb_new :: attach_arbiter where
  "arb_new = \<lparr>arb_sessions = [], arb_next_lease = 0\<rparr>"

definition arb_state_for :: "attach_arbiter \<Rightarrow> session_id \<Rightarrow> attach_state option" where
  "arb_state_for a sid = hm_get (arb_sessions a) sid"

definition arb_session_count :: "attach_arbiter \<Rightarrow> nat" where
  "arb_session_count a = length (arb_sessions a)"

definition arb_has_session :: "attach_arbiter \<Rightarrow> session_id \<Rightarrow> bool" where
  "arb_has_session a sid \<longleftrightarrow> hm_get (arb_sessions a) sid \<noteq> None"

text \<open>\<^verbatim>\<open>self.sessions.insert\<close> and \<^verbatim>\<open>self.sessions.remove\<close>.\<close>

definition arb_put :: "session_id \<Rightarrow> attach_state \<Rightarrow> attach_arbiter \<Rightarrow> attach_arbiter" where
  "arb_put sid st a = a\<lparr>arb_sessions := hm_insert sid st (arb_sessions a)\<rparr>"

definition arb_drop :: "session_id \<Rightarrow> attach_arbiter \<Rightarrow> attach_arbiter" where
  "arb_drop sid a = a\<lparr>arb_sessions := hm_remove sid (arb_sessions a)\<rparr>"

definition arb_mint_lease :: "attach_arbiter \<Rightarrow> lease_id \<times> attach_arbiter" where
  "arb_mint_lease a = (arb_next_lease a, a\<lparr>arb_next_lease := arb_next_lease a + 1\<rparr>)"

fun state_lease :: "attach_state \<Rightarrow> lease_id" where
  "state_lease (Connecting _ l) = l"
| "state_lease (PendingActivation _ l _ _) = l"
| "state_lease (Established _ l) = l"
| "state_lease (ClosingForSupersede l _) = l"

definition arb_session_for_lease :: "attach_arbiter \<Rightarrow> lease_id \<Rightarrow> session_id option" where
  "arb_session_for_lease a lease =
     map_option fst (find (\<lambda>(_, st). state_lease st = lease) (arb_sessions a))"

definition arb_decide_against_in_flight ::
  "attach_arbiter \<Rightarrow> attach_key \<Rightarrow> attach_key \<Rightarrow> lease_id \<Rightarrow> attach_token option
   \<Rightarrow> attach_arbiter \<times> attach_effect list" where
  "arb_decide_against_in_flight a key cur cur_lease pending_attach_token =
     (if ak_generation key < ak_generation cur then
        (a, [AEff_SendReject key (StaleGeneration (ak_generation cur))])
      else if ak_generation key = ak_generation cur then
        (if ak_attempt_id key = ak_attempt_id cur then
           (case pending_attach_token of
              Some tok \<Rightarrow> (a, [AEff_SendReady key tok])
            | None \<Rightarrow> (a, []))
         else (a, [AEff_SendReject key AlreadyAttached]))
      else
        (arb_put (ak_session_id key) (ClosingForSupersede cur_lease key) a,
         [AEff_SendReject cur (StaleGeneration (ak_generation key)), AEff_CancelLease cur_lease]))"

definition arb_on_hello_received :: "attach_arbiter \<Rightarrow> attach_key \<Rightarrow> attach_arbiter \<times> attach_effect list"
  where
  "arb_on_hello_received a key =
     (case hm_get (arb_sessions a) (ak_session_id key) of
        None \<Rightarrow>
          let (lease, a) = arb_mint_lease a in
          (arb_put (ak_session_id key) (Connecting key lease) a, [AEff_ConnectTarget lease])
      | Some (Connecting cur lease) \<Rightarrow> arb_decide_against_in_flight a key cur lease None
      | Some (PendingActivation cur lease tok _) \<Rightarrow>
          arb_decide_against_in_flight a key cur lease (Some tok)
      | Some (Established _ _) \<Rightarrow> (a, [AEff_SendReject key AttachAlreadyEstablished])
      | Some (ClosingForSupersede old_lease nxt) \<Rightarrow>
          if key = nxt then (a, [])
          else if ak_generation nxt < ak_generation key then
            (arb_put (ak_session_id key) (ClosingForSupersede old_lease key) a,
             [AEff_SendReject nxt (StaleGeneration (ak_generation key))])
          else if ak_generation key < ak_generation nxt then
            (a, [AEff_SendReject key (StaleGeneration (ak_generation nxt))])
          else (a, [AEff_SendReject key AlreadyAttached]))"

definition arb_on_target_connected ::
  "attach_arbiter \<Rightarrow> lease_id \<Rightarrow> target_handle_id \<Rightarrow> attach_token \<Rightarrow> attach_arbiter \<times> attach_effect list"
  where
  "arb_on_target_connected a lease target tok =
     (case arb_session_for_lease a lease of
        None \<Rightarrow> (a, [])
      | Some sid \<Rightarrow>
          (case hm_get (arb_sessions a) sid of
             Some (Connecting key _) \<Rightarrow>
               (arb_put sid (PendingActivation key lease tok target) a,
                [AEff_SendReady key tok, AEff_SchedulePendingTimeout lease])
           | _ \<Rightarrow> (a, [])))"

definition arb_on_target_connect_failed ::
  "attach_arbiter \<Rightarrow> lease_id \<Rightarrow> attach_arbiter \<times> attach_effect list" where
  "arb_on_target_connect_failed a lease =
     (case arb_session_for_lease a lease of
        None \<Rightarrow> (a, [])
      | Some sid \<Rightarrow>
          (case hm_get (arb_sessions a) sid of
             Some (Connecting key _) \<Rightarrow> (arb_drop sid a, [AEff_SendReject key Target])
           | _ \<Rightarrow> (a, [])))"

definition arb_on_activated ::
  "(attach_token \<Rightarrow> attach_token \<Rightarrow> bool) \<Rightarrow> attach_arbiter \<Rightarrow> attach_key \<Rightarrow> attach_token
   \<Rightarrow> attach_arbiter \<times> attach_effect list" where
  "arb_on_activated ct_eq a key tok =
     (case hm_get (arb_sessions a) (ak_session_id key) of
        Some (PendingActivation cur lease cur_token target) \<Rightarrow>
          if cur \<noteq> key \<or> \<not> ct_eq cur_token tok then (a, [])
          else (arb_put (ak_session_id key) (Established key lease) a,
                [AEff_StartRelay lease target])
      | _ \<Rightarrow> (a, []))"

definition arb_on_cancel_received ::
  "attach_arbiter \<Rightarrow> attach_key \<Rightarrow> attach_arbiter \<times> attach_effect list" where
  "arb_on_cancel_received a key =
     (case hm_get (arb_sessions a) (ak_session_id key) of
        Some (Connecting cur lease) \<Rightarrow>
          if cur = key then
            (arb_drop (ak_session_id key) a,
             [AEff_SendReject key AlreadyAttached, AEff_CancelLease lease])
          else (a, [])
      | Some (PendingActivation cur lease _ _) \<Rightarrow>
          if cur = key then
            (arb_drop (ak_session_id key) a,
             [AEff_SendReject key AlreadyAttached, AEff_CancelLease lease])
          else (a, [])
      | _ \<Rightarrow> (a, []))"

definition arb_on_lease_stopped :: "attach_arbiter \<Rightarrow> lease_id \<Rightarrow> attach_arbiter \<times> attach_effect list"
  where
  "arb_on_lease_stopped a lease =
     (case arb_session_for_lease a lease of
        None \<Rightarrow> (a, [])
      | Some sid \<Rightarrow>
          (case hm_get (arb_sessions a) sid of
             Some (ClosingForSupersede _ nxt) \<Rightarrow>
               let (new_lease, a) = arb_mint_lease a in
               (arb_put sid (Connecting nxt new_lease) a, [AEff_ConnectTarget new_lease])
           | _ \<Rightarrow> (a, [])))"

definition arb_on_pending_expired :: "attach_arbiter \<Rightarrow> lease_id \<Rightarrow> attach_arbiter \<times> attach_effect list"
  where
  "arb_on_pending_expired a lease =
     (case arb_session_for_lease a lease of
        None \<Rightarrow> (a, [])
      | Some sid \<Rightarrow>
          (case hm_get (arb_sessions a) sid of
             Some (PendingActivation _ _ _ _) \<Rightarrow> (arb_drop sid a, [AEff_CancelLease lease])
           | _ \<Rightarrow> (a, [])))"

definition arb_on_relay_ended :: "attach_arbiter \<Rightarrow> lease_id \<Rightarrow> attach_arbiter \<times> attach_effect list"
  where
  "arb_on_relay_ended a lease =
     (case arb_session_for_lease a lease of
        None \<Rightarrow> (a, [])
      | Some sid \<Rightarrow>
          (case hm_get (arb_sessions a) sid of
             Some (Established _ _) \<Rightarrow> (arb_drop sid a, [])
           | _ \<Rightarrow> (a, [])))"

fun arb_apply ::
  "(attach_token \<Rightarrow> attach_token \<Rightarrow> bool) \<Rightarrow> attach_arbiter \<Rightarrow> attach_event
   \<Rightarrow> attach_arbiter \<times> attach_effect list" where
  "arb_apply ct_eq a (AEv_HelloReceived key) = arb_on_hello_received a key"
| "arb_apply ct_eq a (AEv_TargetConnected lease target tok) = arb_on_target_connected a lease target tok"
| "arb_apply ct_eq a (AEv_TargetConnectFailed lease) = arb_on_target_connect_failed a lease"
| "arb_apply ct_eq a (AEv_Activated key tok) = arb_on_activated ct_eq a key tok"
| "arb_apply ct_eq a (AEv_CancelReceived key) = arb_on_cancel_received a key"
| "arb_apply ct_eq a (AEv_LeaseStopped lease) = arb_on_lease_stopped a lease"
| "arb_apply ct_eq a (AEv_PendingExpired lease) = arb_on_pending_expired a lease"
| "arb_apply ct_eq a (AEv_RelayEnded lease) = arb_on_relay_ended a lease"

lemmas arb_handler_defs =
  arb_on_hello_received_def arb_decide_against_in_flight_def arb_on_target_connected_def
  arb_on_target_connect_failed_def arb_on_activated_def arb_on_cancel_received_def
  arb_on_lease_stopped_def arb_on_pending_expired_def arb_on_relay_ended_def

section \<open>Invariant\<close>

fun state_key :: "attach_state \<Rightarrow> attach_key" where
  "state_key (Connecting k _) = k"
| "state_key (PendingActivation k _ _ _) = k"
| "state_key (Established k _) = k"
| "state_key (ClosingForSupersede _ k) = k"

text \<open>
  The table has one entry per session, a slot holds a key of its own session, every lease in
  use was minted before, and no two slots share a lease.
\<close>

definition arb_inv :: "attach_arbiter \<Rightarrow> bool" where
  "arb_inv a \<longleftrightarrow>
     hm_ok (arb_sessions a)
     \<and> (\<forall>(sid, st) \<in> set (arb_sessions a).
          ak_session_id (state_key st) = sid \<and> state_lease st < arb_next_lease a)
     \<and> distinct (map (\<lambda>(_, st). state_lease st) (arb_sessions a))"

abbreviation slot :: "attach_arbiter \<Rightarrow> session_id \<Rightarrow> attach_state option" where
  "slot a \<equiv> hm_get (arb_sessions a)"

lemma arb_inv_alt:
  "arb_inv a \<longleftrightarrow>
     hm_ok (arb_sessions a)
     \<and> (\<forall>sid st. slot a sid = Some st \<longrightarrow>
          ak_session_id (state_key st) = sid \<and> state_lease st < arb_next_lease a)
     \<and> (\<forall>sid sid' st st'. slot a sid = Some st \<longrightarrow> slot a sid' = Some st' \<longrightarrow>
          state_lease st = state_lease st' \<longrightarrow> sid = sid')"
proof (cases "hm_ok (arb_sessions a)")
  case False
  then show ?thesis by (simp add: arb_inv_def)
next
  case True
  then have ok: "distinct (map fst (arb_sessions a))" by (simp add: hm_ok_def)
  show ?thesis
    using True ok unfolding arb_inv_def distinct_values_iff [OF ok] by (auto simp: map_of_entry)
qed

lemma arb_invD:
  assumes "arb_inv a"
  shows "hm_ok (arb_sessions a)"
    and "slot a sid = Some st \<Longrightarrow> ak_session_id (state_key st) = sid"
    and "slot a sid = Some st \<Longrightarrow> state_lease st < arb_next_lease a"
    and "slot a sid = Some st \<Longrightarrow> slot a sid' = Some st' \<Longrightarrow> state_lease st = state_lease st' \<Longrightarrow> sid = sid'"
  using assms by (simp_all add: arb_inv_alt)

lemma arb_inv_new: "arb_inv arb_new"
  by (simp add: arb_inv_def arb_new_def hm_ok_def)

text \<open>The scan over the table finds the one session whose slot holds the lease.\<close>

lemma session_for_lease_iff:
  assumes inv: "arb_inv a"
  shows "arb_session_for_lease a lease = Some sid \<longleftrightarrow>
         (\<exists>st. slot a sid = Some st \<and> state_lease st = lease)"
proof
  have ok: "distinct (map fst (arb_sessions a))"
    using arb_invD(1) [OF inv] by (simp add: hm_ok_def)
  {
    assume "arb_session_for_lease a lease = Some sid"
    then obtain st where "(sid, st) \<in> set (arb_sessions a)" and "state_lease st = lease"
      by (auto simp: arb_session_for_lease_def dest!: find_in_set)
    with ok show "\<exists>st. slot a sid = Some st \<and> state_lease st = lease" by auto
  next
    assume "\<exists>st. slot a sid = Some st \<and> state_lease st = lease"
    then obtain st where st: "slot a sid = Some st" "state_lease st = lease" by blast
    have "find (\<lambda>(_, st). state_lease st = lease) (arb_sessions a) = Some (sid, st)"
    proof (rule find_unique)
      show "(sid, st) \<in> set (arb_sessions a)" using st(1) by (rule map_of_SomeD)
      fix y
      assume y: "y \<in> set (arb_sessions a)" "case y of (_, st) \<Rightarrow> state_lease st = lease"
      obtain sid' st' where eq: "y = (sid', st')" by (cases y)
      with y ok have st': "slot a sid' = Some st'" "state_lease st' = lease" by auto
      with st have "sid = sid'" using arb_invD(4) [OF inv st(1) st'(1)] by simp
      with st st' eq show "y = (sid, st)" by simp
    qed (simp add: st)
    then show "arb_session_for_lease a lease = Some sid" by (simp add: arb_session_for_lease_def)
  }
qed

lemma session_for_lease_None:
  assumes inv: "arb_inv a"
  shows "arb_session_for_lease a lease = None \<longleftrightarrow> (\<forall>sid st. slot a sid = Some st \<longrightarrow> state_lease st \<noteq> lease)"
  using session_for_lease_iff [OF inv, of lease]
  by (metis option.distinct(1) option.exhaust)

lemma slot_put [table_simps]: "slot (arb_put sid st a) = (slot a)(sid \<mapsto> st)"
  by (simp add: arb_put_def update_conv')

lemma slot_drop [table_simps]: "slot (arb_drop sid a) = (slot a)(sid := None)"
  by (simp add: arb_drop_def delete_conv')

lemma slot_next_lease [simp]: "slot (a\<lparr>arb_next_lease := n\<rparr>) = slot a"
  by simp

lemma next_lease_put [table_simps]:
  "arb_next_lease (arb_put sid st a) = arb_next_lease a" "arb_next_lease (arb_drop sid a) = arb_next_lease a"
  by (simp_all add: arb_put_def arb_drop_def)

lemma arb_inv_drop: "arb_inv a \<Longrightarrow> arb_inv (arb_drop sid a)"
  unfolding arb_inv_alt slot_drop next_lease_put by (auto simp: arb_drop_def hm_simps split: if_splits)

lemma arb_inv_put:
  assumes inv: "arb_inv a" and "ak_session_id (state_key st) = sid"
    and "slot a sid = Some st'" and "state_lease st = state_lease st'"
  shows "arb_inv (arb_put sid st a)"
  using assms(2-4) arb_invD [OF inv]
  by (auto simp: arb_inv_alt arb_put_def update_conv' hm.ok_ins)

section \<open>A slot's life cycle\<close>

text \<open>
  The abstract specification: what one slot does, with the effects it emits. \<open>fresh\<close> is the
  lease a new connect gets. There is no event here; the rules say what may happen
  to the slot of \<open>sid\<close> at all.
\<close>

inductive slot_step ::
  "session_id \<Rightarrow> lease_id \<Rightarrow> attach_state option \<Rightarrow> attach_effect list \<Rightarrow> attach_state option \<Rightarrow> bool"
  for sid :: session_id and fresh :: lease_id where
  slot_idle: "slot_step sid fresh st [] st"
| slot_refuse: "ak_session_id key = sid \<Longrightarrow> key \<noteq> state_key st \<or> (\<exists>k l. st = Established k l) \<Longrightarrow>
    slot_step sid fresh (Some st) [AEff_SendReject key reason] (Some st)"
| slot_resend: "slot_step sid fresh (Some (PendingActivation key l tok h)) [AEff_SendReady key tok]
    (Some (PendingActivation key l tok h))"
| slot_admit: "ak_session_id key = sid \<Longrightarrow>
    slot_step sid fresh None [AEff_ConnectTarget fresh] (Some (Connecting key fresh))"
| slot_supersede: "ak_session_id key = sid \<Longrightarrow> ak_generation cur < ak_generation key \<Longrightarrow>
    st = Connecting cur l \<or> st = PendingActivation cur l tok h \<Longrightarrow>
    slot_step sid fresh (Some st)
      [AEff_SendReject cur (StaleGeneration (ak_generation key)), AEff_CancelLease l]
      (Some (ClosingForSupersede l key))"
| slot_displace: "ak_session_id key = sid \<Longrightarrow> ak_generation nxt < ak_generation key \<Longrightarrow>
    slot_step sid fresh (Some (ClosingForSupersede l nxt))
      [AEff_SendReject nxt (StaleGeneration (ak_generation key))] (Some (ClosingForSupersede l key))"
| slot_connected: "slot_step sid fresh (Some (Connecting key l))
      [AEff_SendReady key tok, AEff_SchedulePendingTimeout l] (Some (PendingActivation key l tok h))"
| slot_connect_failed: "slot_step sid fresh (Some (Connecting key l)) [AEff_SendReject key Target] None"
| slot_activate: "slot_step sid fresh (Some (PendingActivation key l tok h)) [AEff_StartRelay l h]
      (Some (Established key l))"
| slot_cancel: "st = Connecting key l \<or> st = PendingActivation key l tok h \<Longrightarrow>
    slot_step sid fresh (Some st) [AEff_SendReject key AlreadyAttached, AEff_CancelLease l] None"
| slot_stopped: "slot_step sid fresh (Some (ClosingForSupersede l nxt)) [AEff_ConnectTarget fresh]
      (Some (Connecting nxt fresh))"
| slot_expire: "slot_step sid fresh (Some (PendingActivation key l tok h)) [AEff_CancelLease l] None"
| slot_end: "slot_step sid fresh (Some (Established key l)) [] None"

inductive_cases slot_stepE: "slot_step sid fresh st effs st'"

text \<open>Whether a step used up the fresh lease.\<close>

definition mints :: "attach_effect list \<Rightarrow> bool" where
  "mints effs \<longleftrightarrow> (\<exists>l. AEff_ConnectTarget l \<in> set effs)"

lemma mints_simps [simp]:
  "\<not> mints []" "mints (AEff_ConnectTarget l # effs)" "mints (AEff_CancelLease l # effs) = mints effs"
  "mints (AEff_SendReady k t # effs) = mints effs" "mints (AEff_SendReject k r # effs) = mints effs"
  "mints (AEff_SchedulePendingTimeout l # effs) = mints effs" "mints (AEff_StartRelay l h # effs) = mints effs"
  by (auto simp: mints_def)

text \<open>\<open>a'\<close> is \<open>a\<close> with one step of the slot of \<open>sid\<close> and nothing else changed.\<close>

definition slot_sim :: "session_id \<Rightarrow> attach_arbiter \<Rightarrow> attach_effect list \<Rightarrow> attach_arbiter \<Rightarrow> bool" where
  "slot_sim sid a effs a' \<longleftrightarrow>
     slot_step sid (arb_next_lease a) (slot a sid) effs (slot a' sid)
     \<and> (\<forall>sid'. sid' \<noteq> sid \<longrightarrow> slot a' sid' = slot a sid')
     \<and> arb_next_lease a' = (if mints effs then arb_next_lease a + 1 else arb_next_lease a)
     \<and> (hm_ok (arb_sessions a) \<longrightarrow> hm_ok (arb_sessions a'))"

text \<open>The session an event is about, if it is about any.\<close>

fun event_session :: "attach_arbiter \<Rightarrow> attach_event \<Rightarrow> session_id option" where
  "event_session a (AEv_HelloReceived key) = Some (ak_session_id key)"
| "event_session a (AEv_Activated key _) = Some (ak_session_id key)"
| "event_session a (AEv_CancelReceived key) = Some (ak_session_id key)"
| "event_session a (AEv_TargetConnected l _ _) = arb_session_for_lease a l"
| "event_session a (AEv_TargetConnectFailed l) = arb_session_for_lease a l"
| "event_session a (AEv_LeaseStopped l) = arb_session_for_lease a l"
| "event_session a (AEv_PendingExpired l) = arb_session_for_lease a l"
| "event_session a (AEv_RelayEnded l) = arb_session_for_lease a l"

lemma slot_sim_idle [simp]: "slot_sim sid a [] a"
  by (simp add: slot_sim_def slot_idle)

lemma slot_sim_put:
  "slot_step sid (arb_next_lease a) (slot a sid) effs (Some st) \<Longrightarrow> \<not> mints effs \<Longrightarrow>
   slot_sim sid a effs (arb_put sid st a)"
  by (simp add: slot_sim_def table_simps) (simp add: arb_put_def hm_simps)

lemma slot_sim_drop:
  "slot_step sid (arb_next_lease a) (slot a sid) effs None \<Longrightarrow> \<not> mints effs \<Longrightarrow>
   slot_sim sid a effs (arb_drop sid a)"
  by (simp add: slot_sim_def table_simps) (simp add: arb_drop_def hm_simps)

lemma slot_sim_keep:
  "slot_step sid (arb_next_lease a) (slot a sid) effs (slot a sid) \<Longrightarrow> \<not> mints effs \<Longrightarrow>
   slot_sim sid a effs a"
  by (simp add: slot_sim_def)

lemma slot_sim_mint:
  "slot_step sid (arb_next_lease a) (slot a sid) effs (Some st) \<Longrightarrow> mints effs \<Longrightarrow>
   slot_sim sid a effs (arb_put sid st (a\<lparr>arb_next_lease := arb_next_lease a + 1\<rparr>))"
  by (simp add: slot_sim_def table_simps) (simp add: arb_put_def hm_simps)

lemma attach_key_eqI:
  "ak_session_id k = ak_session_id k' \<Longrightarrow> ak_generation k = ak_generation k' \<Longrightarrow>
   ak_attempt_id k = ak_attempt_id k' \<Longrightarrow> k = (k' :: attach_key)"
  by simp

lemma decide_refines:
  assumes st: "slot a (ak_session_id key) = Some st" and cur: "ak_session_id cur = ak_session_id key"
    and shape: "st = Connecting cur l \<and> tok = None \<or> st = PendingActivation cur l t h \<and> tok = Some t"
    and res: "arb_decide_against_in_flight a key cur l tok = (a', effs)"
  shows "slot_sim (ak_session_id key) a effs a'"
proof -
  consider (older) "ak_generation key < ak_generation cur"
    | (same) "key = cur" | (rival) "ak_generation key = ak_generation cur" "ak_attempt_id key \<noteq> ak_attempt_id cur"
    | (newer) "ak_generation cur < ak_generation key"
    using attach_key_eqI [OF cur] by fastforce
  then show ?thesis
  proof cases
    case older
    with res shape st show ?thesis
      by (auto simp: arb_decide_against_in_flight_def intro!: slot_sim_keep slot_refuse)
  next
    case same
    with res shape st show ?thesis
      by (auto simp: arb_decide_against_in_flight_def intro!: slot_sim_keep slot_resend)
  next
    case rival
    with res shape st show ?thesis
      by (auto simp: arb_decide_against_in_flight_def intro!: slot_sim_keep slot_refuse)
  next
    case newer
    then have "\<not> ak_generation key < ak_generation cur" "ak_generation key \<noteq> ak_generation cur" by auto
    with newer res shape st show ?thesis
      by (auto simp: arb_decide_against_in_flight_def intro!: slot_sim_put slot_supersede)
  qed
qed

lemma hello_refines:
  assumes inv: "arb_inv a" and res: "arb_on_hello_received a key = (a', effs)"
  shows "slot_sim (ak_session_id key) a effs a'"
proof (cases "slot a (ak_session_id key)")
  case None
  with res show ?thesis
    by (auto simp: arb_on_hello_received_def arb_mint_lease_def intro!: slot_sim_mint slot_admit)
next
  case (Some st)
  then have key: "ak_session_id (state_key st) = ak_session_id key" by (rule arb_invD(2) [OF inv])
  show ?thesis
  proof (cases st)
    case (Connecting cur l)
    with res Some key show ?thesis
      by (auto simp: arb_on_hello_received_def intro: decide_refines [where st = st])
  next
    case (PendingActivation cur l t h)
    with res Some key show ?thesis
      by (auto simp: arb_on_hello_received_def intro: decide_refines [where st = st])
  next
    case (Established cur l)
    with res Some show ?thesis
      by (auto simp: arb_on_hello_received_def intro!: slot_sim_keep slot_refuse)
  next
    case (ClosingForSupersede l nxt)
    with res Some show ?thesis
      by (auto simp: arb_on_hello_received_def split: if_splits
          intro!: slot_sim_keep slot_sim_put slot_refuse slot_displace)
  qed
qed

text \<open>An event that names a lease acts on the slot that holds it.\<close>

lemma lease_event_refines:
  assumes inv: "arb_inv a" and sid: "arb_session_for_lease a lease = Some sid"
  shows "slot_sim sid a (snd (arb_on_target_connected a lease h tok)) (fst (arb_on_target_connected a lease h tok))"
    and "slot_sim sid a (snd (arb_on_target_connect_failed a lease)) (fst (arb_on_target_connect_failed a lease))"
    and "slot_sim sid a (snd (arb_on_lease_stopped a lease)) (fst (arb_on_lease_stopped a lease))"
    and "slot_sim sid a (snd (arb_on_pending_expired a lease)) (fst (arb_on_pending_expired a lease))"
    and "slot_sim sid a (snd (arb_on_relay_ended a lease)) (fst (arb_on_relay_ended a lease))"
proof -
  from sid obtain st where st: "slot a sid = Some st" and lease: "state_lease st = lease"
    using session_for_lease_iff [OF inv] by blast
  note defs = arb_handler_defs arb_mint_lease_def sid st
  show "slot_sim sid a (snd (arb_on_target_connected a lease h tok)) (fst (arb_on_target_connected a lease h tok))"
    using lease by (cases st) (auto simp: defs intro!: slot_sim_put slot_connected)
  show "slot_sim sid a (snd (arb_on_target_connect_failed a lease)) (fst (arb_on_target_connect_failed a lease))"
    using lease by (cases st) (auto simp: defs intro!: slot_sim_drop slot_connect_failed)
  show "slot_sim sid a (snd (arb_on_lease_stopped a lease)) (fst (arb_on_lease_stopped a lease))"
    using lease by (cases st) (auto simp: defs intro!: slot_sim_mint slot_stopped)
  show "slot_sim sid a (snd (arb_on_pending_expired a lease)) (fst (arb_on_pending_expired a lease))"
    using lease by (cases st) (auto simp: defs intro!: slot_sim_drop slot_expire)
  show "slot_sim sid a (snd (arb_on_relay_ended a lease)) (fst (arb_on_relay_ended a lease))"
    using lease by (cases st) (auto simp: defs intro!: slot_sim_drop slot_end)
qed

lemma activated_refines:
  "slot_sim (ak_session_id key) a (snd (arb_on_activated ct_eq a key tok)) (fst (arb_on_activated ct_eq a key tok))"
  by (auto simp: arb_on_activated_def split: option.splits attach_state.splits
      intro!: slot_sim_put slot_activate)

lemma cancel_refines:
  "slot_sim (ak_session_id key) a (snd (arb_on_cancel_received a key)) (fst (arb_on_cancel_received a key))"
  by (auto simp: arb_on_cancel_received_def split: option.splits attach_state.splits
      intro!: slot_sim_drop slot_cancel)

lemma arb_apply_None: "event_session a e = None \<Longrightarrow> arb_apply ct_eq a e = (a, [])"
  by (cases e) (simp_all add: arb_handler_defs)

lemma arb_apply_refines:
  assumes inv: "arb_inv a" and sid: "event_session a e = Some sid"
  shows "slot_sim sid a (snd (arb_apply ct_eq a e)) (fst (arb_apply ct_eq a e))"
  using sid lease_event_refines [OF inv] hello_refines [OF inv] activated_refines cancel_refines
  by (cases e) (auto simp: prod_eq_iff)

lemma arb_step_sim:
  assumes "arb_inv a"
  obtains sid where "slot_sim sid a (snd (arb_apply ct_eq a e)) (fst (arb_apply ct_eq a e))"
  by (cases "event_session a e")
    (use arb_apply_None [of a e ct_eq] slot_sim_idle arb_apply_refines [OF assms] that in \<open>auto\<close>)

section \<open>Invariant of runs\<close>

lemma slot_step_slot:
  assumes "slot_step sid fresh s effs (Some st')"
    and "\<And>st. s = Some st \<Longrightarrow> ak_session_id (state_key st) = sid"
  shows "ak_session_id (state_key st') = sid \<and>
    (if mints effs then state_lease st' = fresh else \<exists>st. s = Some st \<and> state_lease st' = state_lease st)"
  using assms(1) by (cases rule: slot_stepE) (use assms(2) in \<open>auto\<close>)

lemma arb_inv_sim:
  assumes inv: "arb_inv a" and sim: "slot_sim sid a effs a'" and room: "unat (arb_next_lease a) + 1 < 2 ^ 64"
  shows "arb_inv a'"
proof -
  let ?n = "arb_next_lease a"
  have up: "?n < ?n + 1"
    using unat_succ [of ?n] room by (simp add: word_less_nat_alt)
  then have below: "l < ?n \<Longrightarrow> l < arb_next_lease a'" "?n \<le> arb_next_lease a'" for l
    using sim by (auto simp: slot_sim_def)
  have other: "slot a' sid' = slot a sid'" if "sid' \<noteq> sid" for sid'
    using sim that by (simp add: slot_sim_def)
  have own: "ak_session_id (state_key st') = sid \<and> state_lease st' < arb_next_lease a'
      \<and> (\<forall>sid2 st2. sid2 \<noteq> sid \<longrightarrow> slot a sid2 = Some st2 \<longrightarrow> state_lease st2 \<noteq> state_lease st')"
    if "slot a' sid = Some st'" for st'
  proof -
    from sim that have step: "slot_step sid ?n (slot a sid) effs (Some st')" by (simp add: slot_sim_def)
    have *: "ak_session_id (state_key st') = sid \<and>
      (if mints effs then state_lease st' = ?n else \<exists>st. slot a sid = Some st \<and> state_lease st' = state_lease st)"
      by (rule slot_step_slot [OF step]) (rule arb_invD(2) [OF inv])
    show ?thesis
    proof (cases "mints effs")
      case True
      with * sim up have "state_lease st' = ?n" and "arb_next_lease a' = ?n + 1"
        by (simp_all add: slot_sim_def)
      with * up show ?thesis using arb_invD(3) [OF inv] by fastforce
    next
      case False
      with * obtain st where "slot a sid = Some st" and "state_lease st' = state_lease st" by auto
      with * below show ?thesis using arb_invD(3,4) [OF inv] by metis
    qed
  qed
  show ?thesis unfolding arb_inv_alt
  proof (intro conjI allI impI)
    show "hm_ok (arb_sessions a')" using sim arb_invD(1) [OF inv] by (simp add: slot_sim_def)
  next
    fix sid1 st1 assume st1: "slot a' sid1 = Some st1"
    show "ak_session_id (state_key st1) = sid1" "state_lease st1 < arb_next_lease a'"
      using st1 own other below arb_invD(2,3) [OF inv] by (cases "sid1 = sid"; auto)+
  next
    fix sid1 sid2 st1 st2
    assume "slot a' sid1 = Some st1" and "slot a' sid2 = Some st2" and "state_lease st1 = state_lease st2"
    then show "sid1 = sid2"
      using own other arb_invD(4) [OF inv] by (cases "sid1 = sid"; cases "sid2 = sid"; metis)
  qed
qed

lemma arb_inv_step:
  "arb_inv a \<Longrightarrow> unat (arb_next_lease a) + 1 < 2 ^ 64 \<Longrightarrow> arb_inv (fst (arb_apply ct_eq a e))"
  by (rule arb_step_sim [of a ct_eq e]) (auto intro: arb_inv_sim)

lemma arb_meter_step:
  assumes "arb_inv a" and "unat (arb_next_lease a) + 1 < 2 ^ 64"
  shows "unat (arb_next_lease (fst (arb_apply ct_eq a e))) =
    unat (arb_next_lease a) + (if mints (snd (arb_apply ct_eq a e)) then 1 else 0)"
proof -
  obtain sid where "slot_sim sid a (snd (arb_apply ct_eq a e)) (fst (arb_apply ct_eq a e))"
    using assms(1) by (rule arb_step_sim)
  then show ?thesis
    using assms(2) unat_succ [of "arb_next_lease a"] by (simp add: slot_sim_def)
qed

interpretation arb: metered_reducer "arb_apply ct_eq" arb_inv "\<lambda>a. unat (arb_next_lease a)" "2 ^ 64" for ct_eq
  by unfold_locales (simp_all add: arb_inv_step arb_meter_step)

section \<open>Leases: minted once, relayed once\<close>

definition connects :: "attach_effect list \<Rightarrow> lease_id list" where
  "connects effs = concat (map (\<lambda>f. case f of AEff_ConnectTarget l \<Rightarrow> [l] | _ \<Rightarrow> []) effs)"

definition relays :: "attach_effect list \<Rightarrow> lease_id list" where
  "relays effs = concat (map (\<lambda>f. case f of AEff_StartRelay l _ \<Rightarrow> [l] | _ \<Rightarrow> []) effs)"

lemma connects_append [simp]: "connects (xs @ ys) = connects xs @ connects ys"
  by (simp add: connects_def)

lemma relays_append [simp]: "relays (xs @ ys) = relays xs @ relays ys"
  by (simp add: relays_def)

text \<open>A lease that may still lead to a relay.\<close>

definition startable :: "attach_arbiter \<Rightarrow> lease_id \<Rightarrow> bool" where
  "startable a l \<longleftrightarrow> (\<exists>sid k. slot a sid = Some (Connecting k l)
      \<or> (\<exists>t h. slot a sid = Some (PendingActivation k l t h)))"

lemma startable_less: "arb_inv a \<Longrightarrow> startable a l \<Longrightarrow> l < arb_next_lease a"
  unfolding startable_def by (metis arb_invD(3) state_lease.simps(1,2))

lemma slot_step_connects:
  "slot_step sid fresh s effs s' \<Longrightarrow> connects effs = (if mints effs then [fresh] else [])"
  by (cases rule: slot_stepE) (auto simp: connects_def)

lemma slot_step_relays:
  assumes "slot_step sid fresh s effs s'" and "relays effs \<noteq> []"
  shows "\<exists>k l t h. s = Some (PendingActivation k l t h) \<and> s' = Some (Established k l) \<and> relays effs = [l]"
  using assms by (cases rule: slot_stepE) (auto simp: relays_def)

lemma slot_step_startable:
  assumes "slot_step sid fresh s effs s'"
    and "s' = Some (Connecting k l) \<or> s' = Some (PendingActivation k l t h)"
  shows "l = fresh \<and> mints effs \<or> s = Some (Connecting k l) \<or> s = Some (PendingActivation k l t h)"
  using assms by (cases rule: slot_stepE) auto

lemma arb_step_connects:
  assumes "arb_inv a"
  shows "connects (snd (arb_apply ct_eq a e)) =
    (if mints (snd (arb_apply ct_eq a e)) then [arb_next_lease a] else [])"
proof -
  obtain sid where "slot_sim sid a (snd (arb_apply ct_eq a e)) (fst (arb_apply ct_eq a e))"
    using assms by (rule arb_step_sim)
  then show ?thesis unfolding slot_sim_def by (blast dest: slot_step_connects)
qed

lemma arb_step_startable:
  assumes inv: "arb_inv a" and "startable (fst (arb_apply ct_eq a e)) l"
  shows "startable a l \<or> l = arb_next_lease a"
proof -
  obtain sid where sim: "slot_sim sid a (snd (arb_apply ct_eq a e)) (fst (arb_apply ct_eq a e))"
    using inv by (rule arb_step_sim)
  from assms(2) obtain sid' k t h where
    slot': "slot (fst (arb_apply ct_eq a e)) sid' = Some (Connecting k l)
      \<or> slot (fst (arb_apply ct_eq a e)) sid' = Some (PendingActivation k l t h)"
    unfolding startable_def by blast
  show ?thesis
  proof (cases "sid' = sid")
    case True
    with sim slot' show ?thesis
      by (auto simp: slot_sim_def startable_def dest!: slot_step_startable [where k = k and l = l and t = t and h = h])
  next
    case False
    with sim slot' show ?thesis by (auto simp: slot_sim_def startable_def)
  qed
qed

lemma arb_step_relays:
  assumes inv: "arb_inv a" and l: "l \<in> set (relays (snd (arb_apply ct_eq a e)))"
  shows "relays (snd (arb_apply ct_eq a e)) = [l] \<and> startable a l \<and> \<not> startable (fst (arb_apply ct_eq a e)) l"
proof -
  let ?a = "fst (arb_apply ct_eq a e)"
  obtain sid where sim: "slot_sim sid a (snd (arb_apply ct_eq a e)) ?a"
    using inv by (rule arb_step_sim)
  then have "slot_step sid (arb_next_lease a) (slot a sid) (snd (arb_apply ct_eq a e)) (slot ?a sid)"
    by (simp add: slot_sim_def)
  moreover have "relays (snd (arb_apply ct_eq a e)) \<noteq> []" using l by auto
  ultimately obtain k l' t h where *: "slot a sid = Some (PendingActivation k l' t h)"
    "slot ?a sid = Some (Established k l')" "relays (snd (arb_apply ct_eq a e)) = [l']"
    by (blast dest: slot_step_relays)
  with l have "l' = l" by simp
  with * have st: "slot a sid = Some (PendingActivation k l t h)"
    and st': "slot ?a sid = Some (Established k l)" and rel: "relays (snd (arb_apply ct_eq a e)) = [l]"
    by simp_all
  have other: "slot ?a sid' = slot a sid'" if "sid' \<noteq> sid" for sid'
    using sim that by (simp add: slot_sim_def)
  have "state_lease st' \<noteq> l" if "sid' \<noteq> sid" "slot a sid' = Some st'" for sid' st'
    using arb_invD(4) [OF inv st that(2)] that(1) by auto
  then have "slot ?a sid' \<noteq> Some (Connecting k' l) \<and> slot ?a sid' \<noteq> Some (PendingActivation k' l t' h')" for sid' k' t' h'
    using st' other by (cases "sid' = sid") force+
  with st rel show ?thesis by (auto simp: startable_def)
qed

lemma arb_run_connects:
  "arb_inv a \<Longrightarrow> unat (arb_next_lease a) + length es < 2 ^ 64 \<Longrightarrow>
   sorted_wrt (<) (connects (snd (run (arb_apply ct_eq) a es)))
   \<and> (\<forall>l \<in> set (connects (snd (run (arb_apply ct_eq) a es))). arb_next_lease a \<le> l)"
proof (induction es arbitrary: a)
  case Nil
  then show ?case by (simp add: connects_def)
next
  case (Cons e es)
  let ?a = "fst (arb_apply ct_eq a e)"
  have room: "unat (arb_next_lease a) + 1 < 2 ^ 64" using Cons.prems(2) by simp
  have next': "unat (arb_next_lease ?a) = unat (arb_next_lease a) + (if mints (snd (arb_apply ct_eq a e)) then 1 else 0)"
    using Cons.prems(1) room by (rule arb_meter_step)
  have "sorted_wrt (<) (connects (snd (run (arb_apply ct_eq) ?a es)))
   \<and> (\<forall>l \<in> set (connects (snd (run (arb_apply ct_eq) ?a es))). arb_next_lease ?a \<le> l)"
    using Cons.prems next' by (intro Cons.IH arb_inv_step room) (auto split: if_splits)
  moreover have "arb_next_lease ?a \<le> l \<Longrightarrow> arb_next_lease a \<le> l"
    "mints (snd (arb_apply ct_eq a e)) \<Longrightarrow> arb_next_lease ?a \<le> l \<Longrightarrow> arb_next_lease a < l" for l
    using next' by (auto simp: word_le_nat_alt word_less_nat_alt)
  ultimately show ?case
    using Cons.prems(1) by (auto simp: arb_step_connects)
qed

lemma arb_run_relays:
  "arb_inv a \<Longrightarrow> unat (arb_next_lease a) + length es < 2 ^ 64 \<Longrightarrow>
   distinct (relays (snd (run (arb_apply ct_eq) a es)))
   \<and> (\<forall>l \<in> set (relays (snd (run (arb_apply ct_eq) a es))). startable a l \<or> arb_next_lease a \<le> l)"
proof (induction es arbitrary: a)
  case Nil
  then show ?case by (simp add: relays_def)
next
  case (Cons e es)
  let ?a = "fst (arb_apply ct_eq a e)" and ?effs = "snd (arb_apply ct_eq a e)"
  let ?rest = "relays (snd (run (arb_apply ct_eq) ?a es))"
  have room: "unat (arb_next_lease a) + 1 < 2 ^ 64" using Cons.prems(2) by simp
  have le: "arb_next_lease a \<le> arb_next_lease ?a" "unat (arb_next_lease ?a) + length es < 2 ^ 64"
    using arb_meter_step [OF Cons.prems(1) room, of ct_eq e] Cons.prems(2)
    by (auto simp: word_le_nat_alt)
  have ih: "distinct ?rest" "\<And>l. l \<in> set ?rest \<Longrightarrow> startable ?a l \<or> arb_next_lease ?a \<le> l"
    using Cons.IH [OF arb_inv_step [OF Cons.prems(1) room] le(2)] by auto
  have rest: "startable a l \<or> arb_next_lease a \<le> l" if "l \<in> set ?rest" for l
    using ih(2) [OF that] arb_step_startable [OF Cons.prems(1)] le(1) by auto
  have "l \<notin> set ?rest" if "l \<in> set (relays ?effs)" for l
  proof -
    have "l < arb_next_lease ?a"
      using arb_step_relays [OF Cons.prems(1) that] startable_less [OF Cons.prems(1), of l] le(1) by auto
    then show ?thesis using arb_step_relays [OF Cons.prems(1) that] ih(2) [of l] by auto
  qed
  moreover have "distinct (relays ?effs)"
  proof (cases "relays ?effs")
    case (Cons l ls)
    then have "relays ?effs = [l]" using arb_step_relays [OF Cons.prems(1), of l ct_eq e] by simp
    then show ?thesis by simp
  qed simp
  ultimately show ?case
    using ih(1) rest arb_step_relays [OF Cons.prems(1)] by auto
qed

section \<open>Stale events\<close>

fun event_lease :: "attach_event \<Rightarrow> lease_id option" where
  "event_lease (AEv_TargetConnected l _ _) = Some l"
| "event_lease (AEv_TargetConnectFailed l) = Some l"
| "event_lease (AEv_LeaseStopped l) = Some l"
| "event_lease (AEv_PendingExpired l) = Some l"
| "event_lease (AEv_RelayEnded l) = Some l"
| "event_lease _ = None"

text \<open>A lease that was minted and that no slot refers to any more.\<close>

definition dead_lease :: "attach_arbiter \<Rightarrow> lease_id \<Rightarrow> bool" where
  "dead_lease a l \<longleftrightarrow> l < arb_next_lease a \<and> (\<forall>(sid, st) \<in> set (arb_sessions a). state_lease st \<noteq> l)"

lemma dead_lease_alt:
  "arb_inv a \<Longrightarrow> dead_lease a l \<longleftrightarrow> l < arb_next_lease a \<and> (\<forall>sid st. slot a sid = Some st \<longrightarrow> state_lease st \<noteq> l)"
  using arb_invD(1) [of a] by (auto simp: dead_lease_def map_of_entry hm_ok_def)

lemma dead_event:
  assumes "arb_inv a" and "dead_lease a l" and "event_lease e = Some l"
  shows "arb_apply ct_eq a e = (a, [])"
proof (rule arb_apply_None)
  have "arb_session_for_lease a l = None"
    using assms(1,2) by (simp add: session_for_lease_None dead_lease_alt)
  with assms(3) show "event_session a e = None" by (cases e) simp_all
qed

lemma dead_step:
  assumes inv: "arb_inv a" and room: "unat (arb_next_lease a) + 1 < 2 ^ 64" and dead: "dead_lease a l"
  shows "dead_lease (fst (arb_apply ct_eq a e)) l"
proof -
  let ?a = "fst (arb_apply ct_eq a e)"
  obtain sid where sim: "slot_sim sid a (snd (arb_apply ct_eq a e)) ?a"
    using inv by (rule arb_step_sim)
  have less: "l < arb_next_lease a" and free: "\<And>sid st. slot a sid = Some st \<Longrightarrow> state_lease st \<noteq> l"
    using dead by (auto simp: dead_lease_alt [OF inv])
  have "arb_next_lease a \<le> arb_next_lease ?a"
    using arb_meter_step [OF inv room, of ct_eq e] by (simp add: word_le_nat_alt)
  moreover have "state_lease st' \<noteq> l" if st': "slot ?a sid' = Some st'" for sid' st'
  proof (cases "sid' = sid")
    case True
    with sim st' have "slot_step sid (arb_next_lease a) (slot a sid) (snd (arb_apply ct_eq a e)) (Some st')"
      by (simp add: slot_sim_def)
    from slot_step_slot [OF this arb_invD(2) [OF inv]] less show ?thesis
      by (auto split: if_splits dest: free)
  next
    case False
    with sim st' free show ?thesis by (auto simp: slot_sim_def)
  qed
  ultimately show ?thesis
    using less arb_inv_step [OF inv room] by (auto simp: dead_lease_alt)
qed

lemma dead_run:
  "arb_inv a \<Longrightarrow> unat (arb_next_lease a) + length es < 2 ^ 64 \<Longrightarrow> dead_lease a l \<Longrightarrow>
   run (arb_apply ct_eq) a es = run (arb_apply ct_eq) a (filter (\<lambda>e. event_lease e \<noteq> Some l) es)"
proof (induction es arbitrary: a)
  case Nil
  then show ?case by simp
next
  case (Cons e es)
  let ?a = "fst (arb_apply ct_eq a e)"
  have room: "unat (arb_next_lease a) + 1 < 2 ^ 64" using Cons.prems(2) by simp
  have "unat (arb_next_lease ?a) + length es < 2 ^ 64"
    using arb_meter_step [OF Cons.prems(1) room, of ct_eq e] Cons.prems(2) by simp
  then have ih: "run (arb_apply ct_eq) ?a es = run (arb_apply ct_eq) ?a (filter (\<lambda>e. event_lease e \<noteq> Some l) es)"
    using Cons.prems by (intro Cons.IH arb_inv_step dead_step room)
  show ?case
  proof (cases "event_lease e = Some l")
    case True
    with Cons.prems(1,3) have "arb_apply ct_eq a e = (a, [])" by (rule dead_event)
    with True ih show ?thesis by (simp add: prod_eq_iff)
  next
    case False
    with ih show ?thesis by (simp add: prod_eq_iff)
  qed
qed

text \<open>Events that arrive at the wrong stage of the lease they name, or for another attempt.\<close>

fun arb_current :: "(attach_token \<Rightarrow> attach_token \<Rightarrow> bool) \<Rightarrow> attach_arbiter \<Rightarrow> attach_event \<Rightarrow> bool" where
  "arb_current ct_eq a (AEv_HelloReceived key) = True"
| "arb_current ct_eq a (AEv_Activated key tok) =
     (case slot a (ak_session_id key) of
        Some (PendingActivation k _ t _) \<Rightarrow> k = key \<and> ct_eq t tok | _ \<Rightarrow> False)"
| "arb_current ct_eq a (AEv_CancelReceived key) =
     (case slot a (ak_session_id key) of
        Some (Connecting k _) \<Rightarrow> k = key | Some (PendingActivation k _ _ _) \<Rightarrow> k = key | _ \<Rightarrow> False)"
| "arb_current ct_eq a (AEv_TargetConnected l h t) =
     (case map_option (slot a) (arb_session_for_lease a l) of
        Some (Some (Connecting _ _)) \<Rightarrow> True | _ \<Rightarrow> False)"
| "arb_current ct_eq a (AEv_TargetConnectFailed l) =
     (case map_option (slot a) (arb_session_for_lease a l) of
        Some (Some (Connecting _ _)) \<Rightarrow> True | _ \<Rightarrow> False)"
| "arb_current ct_eq a (AEv_LeaseStopped l) =
     (case map_option (slot a) (arb_session_for_lease a l) of
        Some (Some (ClosingForSupersede _ _)) \<Rightarrow> True | _ \<Rightarrow> False)"
| "arb_current ct_eq a (AEv_PendingExpired l) =
     (case map_option (slot a) (arb_session_for_lease a l) of
        Some (Some (PendingActivation _ _ _ _)) \<Rightarrow> True | _ \<Rightarrow> False)"
| "arb_current ct_eq a (AEv_RelayEnded l) =
     (case map_option (slot a) (arb_session_for_lease a l) of
        Some (Some (Established _ _)) \<Rightarrow> True | _ \<Rightarrow> False)"

interpretation arb_stale: stale_guard "arb_apply ct_eq" "arb_current ct_eq" for ct_eq
proof
  fix a e
  assume "\<not> arb_current ct_eq a e"
  then show "arb_apply ct_eq a e = (a, [])"
    by (cases e) (auto simp: arb_handler_defs split: option.splits attach_state.splits)
qed

section \<open>Waiters\<close>

text \<open>The attempt whose HELLO the executor still has to answer.\<close>

definition waiting :: "attach_arbiter \<Rightarrow> attach_key \<Rightarrow> bool" where
  "waiting a k \<longleftrightarrow>
     (case slot a (ak_session_id k) of
        Some (Connecting k' _) \<Rightarrow> k' = k
      | Some (ClosingForSupersede _ k') \<Rightarrow> k' = k
      | _ \<Rightarrow> False)"

definition answered :: "attach_key \<Rightarrow> attach_effect list \<Rightarrow> bool" where
  "answered k effs \<longleftrightarrow>
     (\<exists>f \<in> set effs. case f of AEff_SendReady k' _ \<Rightarrow> k' = k | AEff_SendReject k' _ \<Rightarrow> k' = k | _ \<Rightarrow> False)"

lemma answered_simps [simp]:
  "\<not> answered k []" "answered k (xs @ ys) \<longleftrightarrow> answered k xs \<or> answered k ys"
  "answered k (AEff_SendReady k' t # effs) \<longleftrightarrow> k' = k \<or> answered k effs"
  "answered k (AEff_SendReject k' r # effs) \<longleftrightarrow> k' = k \<or> answered k effs"
  "answered k (AEff_CancelLease l # effs) = answered k effs"
  "answered k (AEff_ConnectTarget l # effs) = answered k effs"
  "answered k (AEff_SchedulePendingTimeout l # effs) = answered k effs"
  "answered k (AEff_StartRelay l h # effs) = answered k effs"
  by (auto simp: answered_def)

lemma waiting_slot_step:
  assumes "slot_step (ak_session_id k) fresh s effs s'"
    and "s = Some (Connecting k l) \<or> s = Some (ClosingForSupersede l k)"
  shows "(\<exists>l'. s' = Some (Connecting k l') \<or> s' = Some (ClosingForSupersede l' k)) \<or> answered k effs"
  using assms by (cases rule: slot_stepE) auto

lemma waiting_alt:
  "waiting a k \<longleftrightarrow> (\<exists>l. slot a (ak_session_id k) = Some (Connecting k l) \<or> slot a (ak_session_id k) = Some (ClosingForSupersede l k))"
  by (auto simp: waiting_def split: option.splits attach_state.splits)

lemma waiting_step:
  assumes inv: "arb_inv a" and wait: "waiting a k"
  shows "waiting (fst (arb_apply ct_eq a e)) k \<or> answered k (snd (arb_apply ct_eq a e))"
proof -
  obtain sid where sim: "slot_sim sid a (snd (arb_apply ct_eq a e)) (fst (arb_apply ct_eq a e))"
    using inv by (rule arb_step_sim)
  show ?thesis
  proof (cases "sid = ak_session_id k")
    case True
    with sim wait show ?thesis
      unfolding waiting_alt slot_sim_def by (blast dest: waiting_slot_step)
  next
    case False
    with sim wait show ?thesis by (simp add: waiting_def slot_sim_def)
  qed
qed

lemma waiting_run:
  "arb_inv a \<Longrightarrow> unat (arb_next_lease a) + length es < 2 ^ 64 \<Longrightarrow> waiting a k \<Longrightarrow>
   waiting (fst (run (arb_apply ct_eq) a es)) k \<or> answered k (snd (run (arb_apply ct_eq) a es))"
proof (induction es arbitrary: a)
  case Nil
  then show ?case by simp
next
  case (Cons e es)
  let ?a = "fst (arb_apply ct_eq a e)"
  have room: "unat (arb_next_lease a) + 1 < 2 ^ 64" using Cons.prems(2) by simp
  have "unat (arb_next_lease ?a) + length es < 2 ^ 64"
    using arb_meter_step [OF Cons.prems(1) room, of ct_eq e] Cons.prems(2) by simp
  then have ih: "waiting ?a k \<Longrightarrow>
      waiting (fst (run (arb_apply ct_eq) ?a es)) k \<or> answered k (snd (run (arb_apply ct_eq) ?a es))"
    by (intro Cons.IH arb_inv_step Cons.prems(1) room)
  show ?case
    using waiting_step [OF Cons.prems(1,3), of ct_eq e] ih by auto
qed

lemma hello_waits:
  assumes inv: "arb_inv a"
  shows "waiting (fst (arb_on_hello_received a k)) k \<or> answered k (snd (arb_on_hello_received a k))"
proof (cases "slot a (ak_session_id k)")
  case None
  then show ?thesis
    by (simp add: arb_on_hello_received_def arb_mint_lease_def waiting_def table_simps)
next
  case (Some st)
  then have "ak_session_id (state_key st) = ak_session_id k" by (rule arb_invD(2) [OF inv])
  then have same: "ak_generation k = ak_generation (state_key st) \<Longrightarrow>
      ak_attempt_id k = ak_attempt_id (state_key st) \<Longrightarrow> state_key st = k"
    by (intro attach_key_eqI) simp_all
  show ?thesis
  proof (cases st)
    case (ClosingForSupersede l nxt)
    with Some show ?thesis
      by (cases "k = nxt"; cases "ak_generation nxt < ak_generation k")
        (simp_all add: arb_on_hello_received_def waiting_def table_simps)
  qed (use same in \<open>simp_all add: Some arb_on_hello_received_def arb_decide_against_in_flight_def
        waiting_def table_simps\<close>)
qed

section \<open>Fencing\<close>

lemma slot_step_winner:
  assumes "slot_step sid fresh (Some st) effs (Some st')"
  shows "state_key st' = state_key st \<or>
    (ak_generation (state_key st) < ak_generation (state_key st') \<and> (\<forall>k l. st \<noteq> Established k l)
     \<and> st' = ClosingForSupersede (state_lease st) (state_key st')
     \<and> AEff_SendReject (state_key st) (StaleGeneration (ak_generation (state_key st'))) \<in> set effs)"
  using assms by (cases rule: slot_stepE) auto

lemma established_step:
  assumes inv: "arb_inv a" and est: "slot a sid = Some (Established k l)" and e: "e \<noteq> AEv_RelayEnded l"
  shows "slot (fst (arb_apply ct_eq a e)) sid = Some (Established k l)"
proof (cases "event_session a e = Some sid")
  case False
  then show ?thesis
  proof (cases "event_session a e")
    case (Some sid')
    with False have "sid \<noteq> sid'" by simp
    with arb_apply_refines [OF inv Some, of ct_eq] est show ?thesis by (simp add: slot_sim_def)
  qed (simp add: arb_apply_None est)
next
  case True
  have lease: "l' = l" if "arb_session_for_lease a l' = Some sid" for l'
    using that est by (auto simp: session_for_lease_iff [OF inv])
  show ?thesis
  proof (cases "event_lease e")
    case None
    with True est show ?thesis by (cases e) (auto simp: arb_handler_defs)
  next
    case (Some l')
    with True est e lease show ?thesis by (cases e) (auto simp: arb_handler_defs)
  qed
qed

lemma established_run:
  "arb_inv a \<Longrightarrow> unat (arb_next_lease a) + length es < 2 ^ 64 \<Longrightarrow> slot a sid = Some (Established k l) \<Longrightarrow>
   AEv_RelayEnded l \<notin> set es \<Longrightarrow> slot (fst (run (arb_apply ct_eq) a es)) sid = Some (Established k l)"
proof (induction es arbitrary: a)
  case Nil
  then show ?case by simp
next
  case (Cons e es)
  have room: "unat (arb_next_lease a) + 1 < 2 ^ 64" using Cons.prems(2) by simp
  have "unat (arb_next_lease (fst (arb_apply ct_eq a e))) + length es < 2 ^ 64"
    using arb_meter_step [OF Cons.prems(1) room, of ct_eq e] Cons.prems(2) by simp
  moreover have "e \<noteq> AEv_RelayEnded l" and "AEv_RelayEnded l \<notin> set es" using Cons.prems(4) by auto
  ultimately show ?case
    using Cons.IH [OF arb_inv_step [OF Cons.prems(1) room]] established_step [OF Cons.prems(1,3)] by simp
qed

lemma relay_needs_activation:
  assumes "AEff_StartRelay l h \<in> set (snd (arb_apply ct_eq a e))"
  shows "\<exists>k tok tok'. e = AEv_Activated k tok' \<and> ct_eq tok tok'
    \<and> slot a (ak_session_id k) = Some (PendingActivation k l tok h)"
  using assms
  by (cases e) (auto simp: arb_handler_defs arb_mint_lease_def Let_def
      split: option.splits attach_state.splits if_splits)

lemma slot_step_established:
  assumes "slot_step sid fresh s effs (Some (Established k l))"
  shows "s = Some (Established k l) \<or> (\<exists>h. AEff_StartRelay l h \<in> set effs)"
  using assms by (cases rule: slot_stepE) auto

lemma established_new:
  assumes inv: "arb_inv a" and "slot (fst (arb_apply ct_eq a e)) sid = Some (Established k l)"
    and "\<forall>k tok. e \<noteq> AEv_Activated k tok"
  shows "slot a sid = Some (Established k l)"
proof -
  obtain sid' where sim: "slot_sim sid' a (snd (arb_apply ct_eq a e)) (fst (arb_apply ct_eq a e))"
    using inv by (rule arb_step_sim)
  have no_relay: "AEff_StartRelay l' h \<notin> set (snd (arb_apply ct_eq a e))" for l' h
    using relay_needs_activation [of l' h ct_eq a e] assms(3) by blast
  show ?thesis
  proof (cases "sid' = sid")
    case True
    with sim assms(2) have "slot_step sid (arb_next_lease a) (slot a sid) (snd (arb_apply ct_eq a e))
        (Some (Established k l))"
      by (simp add: slot_sim_def)
    with no_relay show ?thesis by (blast dest: slot_step_established)
  next
    case False
    with sim assms(2) show ?thesis by (simp add: slot_sim_def)
  qed
qed

section \<open>Number of slots\<close>

lemma occupied_before:
  assumes inv: "arb_inv a" and e: "\<forall>k. e \<noteq> AEv_HelloReceived k"
    and after: "slot (fst (arb_apply ct_eq a e)) sid \<noteq> None"
  shows "slot a sid \<noteq> None"
proof
  assume none: "slot a sid = None"
  show False
  proof (cases "event_session a e")
    case None
    with after none show False by (simp add: arb_apply_None)
  next
    case (Some sid')
    have "sid' = sid"
    proof (rule ccontr)
      assume "sid' \<noteq> sid"
      with arb_apply_refines [OF inv Some, of ct_eq] after none show False by (simp add: slot_sim_def)
    qed
    with Some none e after show False
      by (cases e) (auto simp: session_for_lease_iff [OF inv] arb_handler_defs)
  qed
qed

lemma arb_count_le:
  assumes "arb_inv a" and "arb_inv a'" and "dom (slot a') \<subseteq> dom (slot a)"
  shows "arb_session_count a' \<le> arb_session_count a"
  unfolding arb_session_count_def hm.count_get [OF arb_invD(1) [OF assms(1)]]
    hm.count_get [OF arb_invD(1) [OF assms(2)]]
  using assms(3) by (intro card_mono hm.finite_get)

lemma arb_count_step:
  assumes inv: "arb_inv a" and room: "unat (arb_next_lease a) + 1 < 2 ^ 64"
    and e: "\<forall>k. e \<noteq> AEv_HelloReceived k"
  shows "arb_session_count (fst (arb_apply ct_eq a e)) \<le> arb_session_count a"
  using occupied_before [OF inv e] by (intro arb_count_le inv arb_inv_step room) blast

lemma arb_count_hello:
  assumes inv: "arb_inv a" and room: "unat (arb_next_lease a) + 1 < 2 ^ 64"
  shows "arb_session_count (fst (arb_on_hello_received a k)) \<le>
    (if arb_has_session a (ak_session_id k) then arb_session_count a else Suc (arb_session_count a))"
proof (cases "arb_has_session a (ak_session_id k)")
  case True
  have "slot_sim (ak_session_id k) a (snd (arb_on_hello_received a k)) (fst (arb_on_hello_received a k))"
    by (rule hello_refines [OF inv]) simp
  then have "slot (fst (arb_on_hello_received a k)) x = slot a x" if "x \<noteq> ak_session_id k" for x
    using that by (simp add: slot_sim_def)
  then have "dom (slot (fst (arb_on_hello_received a k))) \<subseteq> dom (slot a)"
    using True unfolding arb_has_session_def by (metis domIff subsetI)
  moreover have "arb_inv (fst (arb_on_hello_received a k))"
    using arb_inv_step [OF inv room, of _ "AEv_HelloReceived k"] by simp
  ultimately show ?thesis using True arb_count_le [OF inv] by simp
next
  case False
  then show ?thesis
    by (simp add: arb_has_session_def arb_on_hello_received_def arb_mint_lease_def arb_put_def
        arb_session_count_def hm.count_ins_new [OF arb_invD(1) [OF inv]])
qed

section \<open>Properties\<close>

text \<open>In every execution that starts with an empty arbiter and has fewer than \<open>2^64\<close> events
  (each event mints at most one lease), the table keeps one slot per session, each slot holds a
  key of its own session, every lease in use was minted before and no lease is held by two
  slots.\<close>

lemma arb_inv_reachable:
  assumes "length es < 2 ^ 64"
  shows "arb_inv (fst (run (arb_apply ct_eq) arb_new es))"
  using arb.inv_run [of arb_new es ct_eq] assms by (simp add: arb_inv_new) (simp add: arb_new_def)

text \<open>C4. Refinement: every event of a reachable arbiter is either about no live session, and then
  changes nothing, or is one step of the abstract life cycle of exactly one session's slot; the
  slots of all other sessions are untouched and the lease counter moves only when a
  target connect is issued.\<close>

theorem arb_refines_slots:
  assumes "arb_inv a"
  shows "case event_session a e of
      None \<Rightarrow> arb_apply ct_eq a e = (a, [])
    | Some sid \<Rightarrow>
        slot_step sid (arb_next_lease a) (arb_state_for a sid) (snd (arb_apply ct_eq a e))
          (arb_state_for (fst (arb_apply ct_eq a e)) sid)
        \<and> (\<forall>sid'. sid' \<noteq> sid \<longrightarrow>
             arb_state_for (fst (arb_apply ct_eq a e)) sid' = arb_state_for a sid')
        \<and> arb_next_lease (fst (arb_apply ct_eq a e)) =
            (if mints (snd (arb_apply ct_eq a e)) then arb_next_lease a + 1 else arb_next_lease a)"
  using arb_apply_None [of a e ct_eq] arb_apply_refines [OF assms, of e _ ct_eq]
  by (simp add: slot_sim_def arb_state_for_def split: option.split)

text \<open>C5. The winner rule: while a session keeps its slot, the attempt that owns it changes only to one
  with a strictly larger generation, never once it is established, always by way of
  \<open>ClosingForSupersede\<close> on the lease being torn down, and the loser is told the generation that
  beat it.\<close>

theorem arb_winner_rule:
  assumes "arb_inv a"
    and "arb_state_for a sid = Some st"
    and "arb_state_for (fst (arb_apply ct_eq a e)) sid = Some st'"
    and "state_key st' \<noteq> state_key st"
  shows "ak_generation (state_key st) < ak_generation (state_key st')
    \<and> (\<forall>k l. st \<noteq> Established k l)
    \<and> st' = ClosingForSupersede (state_lease st) (state_key st')
    \<and> AEff_SendReject (state_key st) (StaleGeneration (ak_generation (state_key st')))
        \<in> set (snd (arb_apply ct_eq a e))"
proof -
  obtain sid' where sim: "slot_sim sid' a (snd (arb_apply ct_eq a e)) (fst (arb_apply ct_eq a e))"
    using assms(1) by (rule arb_step_sim)
  with assms have "sid' = sid" by (auto simp: slot_sim_def arb_state_for_def)
  with sim assms have "slot_step sid (arb_next_lease a) (Some st) (snd (arb_apply ct_eq a e)) (Some st')"
    by (simp add: slot_sim_def arb_state_for_def)
  from slot_step_winner [OF this] assms(4) show ?thesis by simp
qed

text \<open>Fencing: once a session is established, no sequence of later attempts, cancellations, expiries or
  late completions takes the slot away from its lease; only the end of that very relay does.\<close>

lemma arb_established_fenced:
  assumes "arb_inv a" and "unat (arb_next_lease a) + length es < 2 ^ 64"
    and "arb_state_for a sid = Some (Established k l)" and "AEv_RelayEnded l \<notin> set es"
  shows "arb_state_for (fst (run (arb_apply ct_eq) a es)) sid = Some (Established k l)"
  using assms unfolding arb_state_for_def by (rule established_run)

text \<open>Over a whole execution the target connects are issued with strictly increasing leases, and a
  relay is started at most once per lease.\<close>

lemma arb_leases_once:
  assumes "length es < 2 ^ 64"
  shows "sorted_wrt (<) (connects (snd (run (arb_apply ct_eq) arb_new es)))
    \<and> distinct (relays (snd (run (arb_apply ct_eq) arb_new es)))"
  using arb_run_connects [OF arb_inv_new, of es ct_eq] arb_run_relays [OF arb_inv_new, of es ct_eq] assms
  by (simp add: arb_new_def)

text \<open>A relay starts only on an ACTIVATE whose key is the pending attempt's and whose token
  is the one handed out for it; the token comparison is assumed to decide equality, as
  \<^verbatim>\<open>subtle\<close> documents for byte arrays.\<close>

lemma arb_relay_authorised:
  assumes "\<And>x y. ct_eq x y \<longleftrightarrow> x = y"
    and "AEff_StartRelay l h \<in> set (snd (arb_apply ct_eq a e))"
  shows "\<exists>k tok. e = AEv_Activated k tok
    \<and> arb_state_for a (ak_session_id k) = Some (PendingActivation k l tok h)
    \<and> arb_state_for (fst (arb_apply ct_eq a e)) (ak_session_id k) = Some (Established k l)"
proof -
  obtain k tok tok' where e: "e = AEv_Activated k tok'" and tok: "ct_eq tok tok'"
    and st: "slot a (ak_session_id k) = Some (PendingActivation k l tok h)"
    using relay_needs_activation [OF assms(2)] by blast
  from tok have "tok' = tok" using assms(1) by simp
  with e st tok show ?thesis
    by (simp add: arb_state_for_def arb_on_activated_def table_simps)
qed

text \<open>Stale completions cannot resurrect an attempt: once no slot holds a lease, every later event that
  names it can be deleted from the execution without changing the final state or any effect.\<close>

lemma arb_dead_lease_ignored:
  assumes "arb_inv a" and "unat (arb_next_lease a) + length es < 2 ^ 64" and "dead_lease a l"
  shows "run (arb_apply ct_eq) a es = run (arb_apply ct_eq) a (filter (\<lambda>e. event_lease e \<noteq> Some l) es)"
  using assms by (rule dead_run)

text \<open>C30. No HELLO is left without an answer (PIPE-06): after a HELLO for \<open>k\<close>, whatever happens next,
  either \<open>k\<close> is still the attempt its slot is working on, or a READY or a REJECT
  for \<open>k\<close> has been sent.\<close>

theorem arb_hello_answered:
  assumes "arb_inv a" and "unat (arb_next_lease a) + length es + 1 < 2 ^ 64"
  shows "waiting (fst (run (arb_apply ct_eq) a (AEv_HelloReceived k # es))) k
    \<or> answered k (snd (run (arb_apply ct_eq) a (AEv_HelloReceived k # es)))"
proof -
  let ?a = "fst (arb_apply ct_eq a (AEv_HelloReceived k))"
  have room: "unat (arb_next_lease a) + 1 < 2 ^ 64" using assms(2) by simp
  have "unat (arb_next_lease ?a) + length es < 2 ^ 64"
    using arb_meter_step [OF assms(1) room, of ct_eq "AEv_HelloReceived k"] assms(2)
    by (simp split: if_splits del: arb_apply.simps)
  then have "waiting ?a k \<Longrightarrow>
      waiting (fst (run (arb_apply ct_eq) ?a es)) k \<or> answered k (snd (run (arb_apply ct_eq) ?a es))"
    by (intro waiting_run arb_inv_step assms(1) room)
  with hello_waits [OF assms(1), of k] show ?thesis by auto
qed

section \<open>Witnesses\<close>

text \<open>One session, attempts that differ in their generation.\<close>

definition sample_key :: "u64 \<Rightarrow> attach_key" where
  "sample_key g = \<lparr>ak_session_id = replicate 16 1, ak_generation = g, ak_attempt_id = replicate 16 2\<rparr>"

definition sample_connecting :: attach_arbiter where
  "sample_connecting = \<lparr>arb_sessions = [(replicate 16 1, Connecting (sample_key 1) 0)], arb_next_lease = 1\<rparr>"

definition sample_pending :: attach_arbiter where
  "sample_pending =
     \<lparr>arb_sessions = [(replicate 16 1, PendingActivation (sample_key 1) 0 (replicate 16 9) 7)], arb_next_lease = 1\<rparr>"

definition sample_established :: attach_arbiter where
  "sample_established =
     \<lparr>arb_sessions = [(replicate 16 1, Established (sample_key 1) 0)], arb_next_lease = 1\<rparr>"

lemmas sample_arb_defs = sample_key_def sample_connecting_def sample_pending_def sample_established_def

lemma sample_arb_inv [simp]:
  "arb_inv sample_connecting" "arb_inv sample_pending" "arb_inv sample_established"
  by (simp_all add: arb_inv_def sample_arb_defs hm_ok_def)

lemma sample_reachable:
  "run (arb_apply (=)) arb_new
     [AEv_HelloReceived (sample_key 1), AEv_TargetConnected 0 7 (replicate 16 9)] =
   (sample_pending, [AEff_ConnectTarget 0, AEff_SendReady (sample_key 1) (replicate 16 9),
     AEff_SchedulePendingTimeout 0])"
  by (simp add: prod_eq_iff arb_new_def arb_handler_defs arb_mint_lease_def arb_put_def
      arb_session_for_lease_def sample_arb_defs)

theorem arb_refines_slots_witness:
  "slot_step (replicate 16 1) 1 (Some (Connecting (sample_key 1) 0))
     [AEff_SendReject (sample_key 1) (StaleGeneration 2), AEff_CancelLease 0]
     (Some (ClosingForSupersede 0 (sample_key 2)))"
  using arb_refines_slots [OF sample_arb_inv(1), where e = "AEv_HelloReceived (sample_key 2)" and ct_eq = "(=)"]
  by (simp add: arb_state_for_def arb_handler_defs arb_put_def sample_arb_defs)

theorem arb_winner_rule_witness:
  "ak_generation (sample_key 1) < ak_generation (sample_key 2)
   \<and> arb_state_for (fst (arb_apply (=) sample_connecting (AEv_HelloReceived (sample_key 2)))) (replicate 16 1)
     = Some (ClosingForSupersede 0 (sample_key 2))"
  using arb_winner_rule [of sample_connecting "replicate 16 1" "Connecting (sample_key 1) 0" "(=)"
      "AEv_HelloReceived (sample_key 2)" "ClosingForSupersede 0 (sample_key 2)"]
  by (simp add: arb_state_for_def arb_handler_defs arb_put_def sample_arb_defs)

theorem arb_hello_answered_witness:
  "answered (sample_key 2) (snd (run (arb_apply (=)) sample_established [AEv_HelloReceived (sample_key 2)]))"
  using arb_hello_answered [of sample_established "[]" "(=)" "sample_key 2"]
  by (simp add: sample_arb_defs waiting_def arb_handler_defs)

end
