(* ===== verification/ServeFsm.thy ===== *)
theory ServeFsm
  imports AttachArbiter
begin

text \<open>
  \<^verbatim>\<open>isekai-pipe/src/engine/serve_fsm.rs\<close>: the server's session aggregate. It owns the ATTACH
  arbiter and the index of established sessions (parked or relaying), decides admission,
  eviction, parking, resumption and expiry in single transitions, and tells the shell what to
  do with the sockets.

  The main results: the structural invariant that ties index and arbiter together, the capacity
  bound of admission, and that the shell's socket tables, obtained by interpreting the emitted
  effects, agree with the index after every execution (\<open>shell_step\<close>), so that a granted resume
  always finds a parked socket and a discarded session leaves none behind.
\<close>

section \<open>Model\<close>

type_synonym session_key = "u8 list"

record index_entry =
  ie_lease :: lease_id
  ie_parked_since :: "millis option"
  ie_negotiated_grace_secs :: "u32 option"
  ie_unresumable :: bool

datatype discard_cause = Expired | Evicted | Cause_TcpDied | Cause_GuardDropped | Unresumable

datatype terminate_reason = TcpDied | GuardDropped

datatype serve_event =
    SEv_AdmitRequested attach_key
  | SEv_TargetConnected lease_id target_handle_id attach_token
  | SEv_TargetConnectFailed lease_id
  | SEv_CancelReceived attach_key
  | SEv_LeaseStopped lease_id
  | SEv_PendingExpired lease_id
  | SEv_Activated attach_key attach_token "u32 option"
  | SEv_RelayEnded lease_id
  | SEv_Parked session_key lease_id millis
  | SEv_RelayTerminated session_key lease_id terminate_reason
  | SEv_ResumeUnavailable session_key lease_id
  | SEv_Sweep millis duration
  | SEv_ResumeRequested session_key

datatype serve_effect =
    SEff_Attach attach_effect
  | SEff_RegisterIo session_key lease_id bool
  | SEff_Discard session_key lease_id discard_cause
  | SEff_StoreParked session_key lease_id
  | SEff_ResumeGranted session_key lease_id
  | SEff_RequestPreempt session_key lease_id
  | SEff_ResumeRejected session_key

record serve_aggregate =
  sa_arbiter :: attach_arbiter
  sa_index :: "(session_key, index_entry) btree_map"
  sa_max_sessions :: nat

definition serve_new :: "nat \<Rightarrow> serve_aggregate" where
  "serve_new max_sessions = \<lparr>sa_arbiter = arb_new, sa_index = [], sa_max_sessions = max_sessions\<rparr>"

definition serve_index_entry :: "serve_aggregate \<Rightarrow> session_key \<Rightarrow> index_entry option" where
  "serve_index_entry s sid = bt_get (sa_index s) sid"

type_synonym token_eq = "attach_token \<Rightarrow> attach_token \<Rightarrow> bool"

definition serve_forward ::
  "token_eq \<Rightarrow> serve_aggregate \<Rightarrow> attach_event \<Rightarrow> serve_aggregate \<times> serve_effect list" where
  "serve_forward ct_eq s e =
     (let (a, effs) = arb_apply ct_eq (sa_arbiter s) e in
      (s\<lparr>sa_arbiter := a\<rparr>, map SEff_Attach effs))"

definition serve_established_lease :: "serve_aggregate \<Rightarrow> session_key \<Rightarrow> lease_id option" where
  "serve_established_lease s sid =
     (case arb_state_for (sa_arbiter s) sid of
        Some (Established _ lease) \<Rightarrow> Some lease
      | _ \<Rightarrow> None)"

text \<open>\<^verbatim>\<open>Iterator::min\<close>: \<^verbatim>\<open>None\<close> on an empty iterator.\<close>

fun iter_min :: "'a::linorder list \<Rightarrow> 'a option" where
  "iter_min [] = None"
| "iter_min (x # xs) = Some (fold min xs x)"

definition serve_oldest_parked :: "serve_aggregate \<Rightarrow> session_key option" where
  "serve_oldest_parked s =
     map_option snd (iter_min (List.map_filter
       (\<lambda>(sid, e). map_option (\<lambda>since. (since, sid)) (ie_parked_since e)) (sa_index s)))"

definition serve_discard ::
  "token_eq \<Rightarrow> serve_aggregate \<Rightarrow> session_key \<Rightarrow> discard_cause \<Rightarrow> serve_aggregate \<times> serve_effect list"
  where
  "serve_discard ct_eq s sid cause =
     (case bt_get (sa_index s) sid of
        None \<Rightarrow> (s, [])
      | Some entry \<Rightarrow>
          let s = s\<lparr>sa_index := bt_remove sid (sa_index s)\<rparr>;
              (s, effs) = serve_forward ct_eq s (AEv_RelayEnded (ie_lease entry)) in
          (s, SEff_Discard sid (ie_lease entry) cause # effs))"

definition serve_on_activated ::
  "token_eq \<Rightarrow> serve_aggregate \<Rightarrow> attach_key \<Rightarrow> attach_token \<Rightarrow> u32 option
   \<Rightarrow> serve_aggregate \<times> serve_effect list" where
  "serve_on_activated ct_eq s key tok grace =
     (let sid = ak_session_id key;
          was_established = serve_established_lease s sid \<noteq> None;
          (a, attach_effects) = arb_apply ct_eq (sa_arbiter s) (AEv_Activated key tok);
          s = s\<lparr>sa_arbiter := a\<rparr>;
          (s, out) =
            (case (was_established, serve_established_lease s sid) of
               (False, Some lease) \<Rightarrow>
                 let live = length (filter (\<lambda>(_, e). \<not> ie_unresumable e) (sa_index s));
                     (s, out, unresumable) =
                       (if sa_max_sessions s \<le> live \<and> bt_get (sa_index s) sid = None then
                          (case serve_oldest_parked s of
                             Some victim \<Rightarrow>
                               let (s, out) = serve_discard ct_eq s victim Evicted in (s, out, False)
                           | None \<Rightarrow> (s, [], True))
                        else (s, [], False)) in
                 (s\<lparr>sa_index := bt_insert sid \<lparr>ie_lease = lease, ie_parked_since = None,
                     ie_negotiated_grace_secs = grace, ie_unresumable = unresumable\<rparr> (sa_index s)\<rparr>,
                  out @ [SEff_RegisterIo sid lease unresumable])
             | _ \<Rightarrow> (s, [])) in
      (s, out @ map SEff_Attach attach_effects))"

definition serve_on_relay_ended ::
  "token_eq \<Rightarrow> serve_aggregate \<Rightarrow> lease_id \<Rightarrow> serve_aggregate \<times> serve_effect list" where
  "serve_on_relay_ended ct_eq s lease =
     (case map_option fst (find (\<lambda>(_, e). ie_lease e = lease) (sa_index s)) of
        Some sid \<Rightarrow> serve_discard ct_eq s sid Cause_TcpDied
      | None \<Rightarrow> serve_forward ct_eq s (AEv_RelayEnded lease))"

definition serve_on_parked ::
  "token_eq \<Rightarrow> serve_aggregate \<Rightarrow> session_key \<Rightarrow> lease_id \<Rightarrow> millis \<Rightarrow> serve_aggregate \<times> serve_effect list"
  where
  "serve_on_parked ct_eq s sid lease now =
     (case bt_get (sa_index s) sid of
        None \<Rightarrow> (s, [])
      | Some entry \<Rightarrow>
          if ie_lease entry \<noteq> lease then (s, [])
          else if ie_unresumable entry then serve_discard ct_eq s sid Unresumable
          else (s\<lparr>sa_index := bt_insert sid (entry\<lparr>ie_parked_since := Some now\<rparr>) (sa_index s)\<rparr>,
                [SEff_StoreParked sid lease]))"

definition serve_on_resume_unavailable ::
  "serve_aggregate \<Rightarrow> session_key \<Rightarrow> lease_id \<Rightarrow> serve_aggregate \<times> serve_effect list" where
  "serve_on_resume_unavailable s sid lease =
     (case bt_get (sa_index s) sid of
        None \<Rightarrow> (s, [])
      | Some entry \<Rightarrow>
          if ie_lease entry = lease \<and> ie_parked_since entry = None then
            (s\<lparr>sa_index := bt_insert sid (entry\<lparr>ie_unresumable := True\<rparr>) (sa_index s)\<rparr>, [])
          else (s, []))"

definition serve_on_relay_terminated ::
  "token_eq \<Rightarrow> serve_aggregate \<Rightarrow> session_key \<Rightarrow> lease_id \<Rightarrow> terminate_reason
   \<Rightarrow> serve_aggregate \<times> serve_effect list" where
  "serve_on_relay_terminated ct_eq s sid lease reason =
     (if map_option ie_lease (bt_get (sa_index s) sid) \<noteq> Some lease then (s, [])
      else
        let cause = (case reason of TcpDied \<Rightarrow> Cause_TcpDied | GuardDropped \<Rightarrow> Cause_GuardDropped) in
        serve_discard ct_eq s sid cause)"

definition effective_deadline :: "index_entry \<Rightarrow> duration \<Rightarrow> duration" where
  "effective_deadline entry max_parked =
     (case ie_negotiated_grace_secs entry of
        Some secs \<Rightarrow> min max_parked (from_secs (unat secs))
      | None \<Rightarrow> max_parked)"

definition park_expired :: "millis \<Rightarrow> duration \<Rightarrow> index_entry \<Rightarrow> bool" where
  "park_expired now max_parked e =
     (case ie_parked_since e of
        None \<Rightarrow> False
      | Some since \<Rightarrow> effective_deadline e max_parked \<le> millis_sub now since)"

fun serve_discard_each ::
  "token_eq \<Rightarrow> serve_aggregate \<Rightarrow> session_key list \<Rightarrow> discard_cause \<Rightarrow> serve_aggregate \<times> serve_effect list"
  where
  "serve_discard_each ct_eq s [] cause = (s, [])"
| "serve_discard_each ct_eq s (sid # sids) cause =
     (let (s, out) = serve_discard ct_eq s sid cause;
          (s, out') = serve_discard_each ct_eq s sids cause in (s, out @ out'))"

definition serve_on_sweep ::
  "token_eq \<Rightarrow> serve_aggregate \<Rightarrow> millis \<Rightarrow> duration \<Rightarrow> serve_aggregate \<times> serve_effect list" where
  "serve_on_sweep ct_eq s now max_parked =
     (let expired = map fst (filter (\<lambda>(_, e). park_expired now max_parked e) (sa_index s)) in
      serve_discard_each ct_eq s expired Expired)"

definition serve_on_resume_requested ::
  "serve_aggregate \<Rightarrow> session_key \<Rightarrow> serve_aggregate \<times> serve_effect list" where
  "serve_on_resume_requested s sid =
     (case bt_get (sa_index s) sid of
        None \<Rightarrow> (s, [SEff_ResumeRejected sid])
      | Some entry \<Rightarrow>
          if ie_unresumable entry \<or> serve_established_lease s sid \<noteq> Some (ie_lease entry) then
            (s, [SEff_ResumeRejected sid])
          else
            (case ie_parked_since entry of
               Some _ \<Rightarrow>
                 (s\<lparr>sa_index := bt_insert sid (entry\<lparr>ie_parked_since := None\<rparr>) (sa_index s)\<rparr>,
                  [SEff_ResumeGranted sid (ie_lease entry)])
             | None \<Rightarrow> (s, [SEff_RequestPreempt sid (ie_lease entry)])))"

definition serve_on_admit_requested ::
  "token_eq \<Rightarrow> serve_aggregate \<Rightarrow> attach_key \<Rightarrow> serve_aggregate \<times> serve_effect list" where
  "serve_on_admit_requested ct_eq s key =
     (if \<not> arb_has_session (sa_arbiter s) (ak_session_id key)
         \<and> sa_max_sessions s \<le> arb_session_count (sa_arbiter s) then
        (case serve_oldest_parked s of
           Some victim \<Rightarrow>
             let (s, out) = serve_discard ct_eq s victim Evicted;
                 (s, effs) = serve_forward ct_eq s (AEv_HelloReceived key) in
             (s, out @ effs)
         | None \<Rightarrow> (s, [SEff_Attach (AEff_SendReject key BusyOtherSession)]))
      else serve_forward ct_eq s (AEv_HelloReceived key))"

fun serve_apply ::
  "token_eq \<Rightarrow> serve_aggregate \<Rightarrow> serve_event \<Rightarrow> serve_aggregate \<times> serve_effect list" where
  "serve_apply ct_eq s (SEv_AdmitRequested key) = serve_on_admit_requested ct_eq s key"
| "serve_apply ct_eq s (SEv_TargetConnected lease target tok) =
     serve_forward ct_eq s (AEv_TargetConnected lease target tok)"
| "serve_apply ct_eq s (SEv_TargetConnectFailed lease) =
     serve_forward ct_eq s (AEv_TargetConnectFailed lease)"
| "serve_apply ct_eq s (SEv_CancelReceived key) = serve_forward ct_eq s (AEv_CancelReceived key)"
| "serve_apply ct_eq s (SEv_LeaseStopped lease) = serve_forward ct_eq s (AEv_LeaseStopped lease)"
| "serve_apply ct_eq s (SEv_PendingExpired lease) = serve_forward ct_eq s (AEv_PendingExpired lease)"
| "serve_apply ct_eq s (SEv_Activated key tok grace) = serve_on_activated ct_eq s key tok grace"
| "serve_apply ct_eq s (SEv_RelayEnded lease) = serve_on_relay_ended ct_eq s lease"
| "serve_apply ct_eq s (SEv_Parked sid lease now) = serve_on_parked ct_eq s sid lease now"
| "serve_apply ct_eq s (SEv_RelayTerminated sid lease reason) =
     serve_on_relay_terminated ct_eq s sid lease reason"
| "serve_apply ct_eq s (SEv_ResumeUnavailable sid lease) = serve_on_resume_unavailable s sid lease"
| "serve_apply ct_eq s (SEv_Sweep now max_parked) = serve_on_sweep ct_eq s now max_parked"
| "serve_apply ct_eq s (SEv_ResumeRequested sid) = serve_on_resume_requested s sid"

section \<open>Structural invariant\<close>

abbreviation serve_slot :: "serve_aggregate \<Rightarrow> session_key \<Rightarrow> attach_state option" where
  "serve_slot s \<equiv> slot (sa_arbiter s)"

abbreviation serve_entry :: "serve_aggregate \<Rightarrow> session_key \<Rightarrow> index_entry option" where
  "serve_entry s \<equiv> bt_get (sa_index s)"

text \<open>
  The arbiter's own invariant; an ordered index; a session is in the index exactly when its slot
  is established, with the same lease (I-c); an entry that cannot be resumed is never parked
  (I-g); and no more slots than \<^verbatim>\<open>--max-sessions\<close> (I-k).
\<close>

definition serve_inv :: "serve_aggregate \<Rightarrow> bool" where
  "serve_inv s \<longleftrightarrow>
     arb_inv (sa_arbiter s) \<and> bt_ok (sa_index s)
     \<and> (\<forall>sid. map_option ie_lease (serve_entry s sid) = serve_established_lease s sid)
     \<and> (\<forall>sid e. serve_entry s sid = Some e \<longrightarrow> ie_unresumable e \<longrightarrow> ie_parked_since e = None)
     \<and> arb_session_count (sa_arbiter s) \<le> sa_max_sessions s"

lemma serve_invD:
  assumes "serve_inv s"
  shows "arb_inv (sa_arbiter s)" and "bt_ok (sa_index s)"
    and "map_option ie_lease (serve_entry s sid) = serve_established_lease s sid"
    and "serve_entry s sid = Some e \<Longrightarrow> ie_unresumable e \<Longrightarrow> ie_parked_since e = None"
    and "arb_session_count (sa_arbiter s) \<le> sa_max_sessions s"
  using assms by (simp_all add: serve_inv_def)

lemma established_iff:
  "serve_established_lease s sid = Some l \<longleftrightarrow> (\<exists>k. serve_slot s sid = Some (Established k l))"
  by (auto simp: serve_established_lease_def arb_state_for_def split: option.splits attach_state.splits)

lemma established_None:
  "serve_established_lease s sid = None \<longleftrightarrow> (\<forall>k l. serve_slot s sid \<noteq> Some (Established k l))"
  by (auto simp: serve_established_lease_def arb_state_for_def split: option.splits attach_state.splits)

lemma serve_inv_new: "serve_inv (serve_new m)"
  by (simp add: serve_inv_def serve_new_def arb_inv_new bt_ok_def serve_established_lease_def
      arb_state_for_def arb_new_def arb_session_count_def arb_inv_def hm_ok_def)

section \<open>The operations under the invariant\<close>

text \<open>Dropping a session from both sides at once.\<close>

definition serve_drop :: "session_key \<Rightarrow> serve_aggregate \<Rightarrow> serve_aggregate" where
  "serve_drop sid s = s\<lparr>sa_arbiter := arb_drop sid (sa_arbiter s), sa_index := bt_remove sid (sa_index s)\<rparr>"

lemma entry_slot:
  assumes "serve_inv s" and "serve_entry s sid = Some e"
  obtains k where "serve_slot s sid = Some (Established k (ie_lease e))"
  using serve_invD(3) [OF assms(1), of sid] assms(2) established_iff [of s sid "ie_lease e"] that by auto

lemma slot_entry:
  assumes "serve_inv s" and "serve_slot s sid = Some (Established k l)"
  obtains e where "serve_entry s sid = Some e" and "ie_lease e = l"
  using serve_invD(3) [OF assms(1), of sid] assms(2) established_iff [of s sid l] that
  by (cases "serve_entry s sid") auto

lemma discard_eq:
  assumes inv: "serve_inv s" and e: "serve_entry s sid = Some e"
  shows "serve_discard ct_eq s sid cause = (serve_drop sid s, [SEff_Discard sid (ie_lease e) cause])"
proof -
  obtain k where st: "serve_slot s sid = Some (Established k (ie_lease e))"
    using inv e by (rule entry_slot)
  then have "arb_session_for_lease (sa_arbiter s) (ie_lease e) = Some sid"
    by (auto simp: session_for_lease_iff [OF serve_invD(1) [OF inv]])
  with st e show ?thesis
    by (simp add: serve_discard_def serve_forward_def arb_on_relay_ended_def serve_drop_def)
qed

lemma entry_drop: "serve_entry (serve_drop sid s) = (serve_entry s)(sid := None)"
  by (simp add: serve_drop_def delete_conv')

lemma slot_serve_drop: "serve_slot (serve_drop sid s) = (serve_slot s)(sid := None)"
  by (simp add: serve_drop_def slot_drop)

lemma serve_inv_drop:
  assumes inv: "serve_inv s"
  shows "serve_inv (serve_drop sid s)"
proof -
  let ?s = "serve_drop sid s"
  have arb: "arb_inv (sa_arbiter ?s)"
    using serve_invD(1) [OF inv] by (simp add: serve_drop_def arb_inv_drop)
  have est: "serve_established_lease ?s x = (if x = sid then None else serve_established_lease s x)" for x
    by (simp add: serve_established_lease_def arb_state_for_def slot_serve_drop)
  have "dom (serve_slot ?s) \<subseteq> dom (serve_slot s)" by (auto simp: slot_serve_drop split: if_splits)
  then have "arb_session_count (sa_arbiter ?s) \<le> arb_session_count (sa_arbiter s)"
    by (rule arb_count_le [OF serve_invD(1) [OF inv] arb])
  with serve_invD(5) [OF inv] have "arb_session_count (sa_arbiter ?s) \<le> sa_max_sessions s" by simp
  then show ?thesis
    using arb serve_invD(2,3,4) [OF inv]
    by (auto simp: serve_inv_def est entry_drop) (auto simp: serve_drop_def bt_simps)
qed

lemma serve_inv_update:
  assumes inv: "serve_inv s" and e: "serve_entry s sid = Some e" and "ie_lease e' = ie_lease e"
    and "ie_unresumable e' \<Longrightarrow> ie_parked_since e' = None"
  shows "serve_inv (s\<lparr>sa_index := bt_insert sid e' (sa_index s)\<rparr>)"
proof -
  have "serve_established_lease (s\<lparr>sa_index := m\<rparr>) x = serve_established_lease s x" for m x
    by (simp add: serve_established_lease_def)
  then show ?thesis
    using assms(3,4) e serve_invD(1,4,5) [OF inv] serve_invD(3) [OF inv, symmetric]
    by (auto simp: serve_inv_def bt.get_ins [OF serve_invD(2) [OF inv]] bt.ok_ins [OF serve_invD(2) [OF inv]])
qed

lemma forward_established:
  assumes inv: "arb_inv (sa_arbiter s)" and "\<forall>k tok. e \<noteq> AEv_Activated k tok" and "\<forall>l. e \<noteq> AEv_RelayEnded l"
  shows "serve_established_lease (fst (serve_forward ct_eq s e)) sid = serve_established_lease s sid"
proof -
  have "serve_slot (fst (serve_forward ct_eq s e)) sid = Some (Established k l)
      \<longleftrightarrow> serve_slot s sid = Some (Established k l)" for k l
    using established_new [OF inv, of ct_eq e sid k l] established_step [OF inv, of sid k l e ct_eq] assms(2,3)
    by (auto simp: serve_forward_def split: prod.split)
  then have "serve_established_lease (fst (serve_forward ct_eq s e)) sid = Some l
      \<longleftrightarrow> serve_established_lease s sid = Some l" for l
    by (simp add: established_iff)
  then show ?thesis by (metis not_None_eq)
qed

lemma forward_fields [simp]:
  "sa_index (fst (serve_forward ct_eq s e)) = sa_index s"
  "sa_max_sessions (fst (serve_forward ct_eq s e)) = sa_max_sessions s"
  "sa_arbiter (fst (serve_forward ct_eq s e)) = fst (arb_apply ct_eq (sa_arbiter s) e)"
  "snd (serve_forward ct_eq s e) = map SEff_Attach (snd (arb_apply ct_eq (sa_arbiter s) e))"
  by (simp_all add: serve_forward_def split: prod.split)

lemma serve_inv_forward:
  assumes inv: "serve_inv s" and room: "unat (arb_next_lease (sa_arbiter s)) + 1 < 2 ^ 64"
    and e: "\<forall>k tok. e \<noteq> AEv_Activated k tok" "\<forall>l. e \<noteq> AEv_RelayEnded l"
    and count: "arb_session_count (fst (arb_apply ct_eq (sa_arbiter s) e)) \<le> sa_max_sessions s"
  shows "serve_inv (fst (serve_forward ct_eq s e))"
  using serve_invD(2,3,4) [OF inv] count arb_inv_step [OF serve_invD(1) [OF inv] room]
  unfolding serve_inv_def forward_fields forward_established [OF serve_invD(1) [OF inv] e]
  by auto

lemma index_below_capacity:
  assumes inv: "serve_inv s" and st: "serve_slot s sid = Some st" and "\<forall>k l. st \<noteq> Established k l"
  shows "length (sa_index s) < sa_max_sessions s"
proof -
  have "dom (serve_entry s) \<subseteq> dom (serve_slot s)"
    by (auto elim: entry_slot [OF inv])
  moreover have "sid \<notin> dom (serve_entry s)"
    using entry_slot [OF inv, of sid] assms(2,3) by fastforce
  ultimately have "dom (serve_entry s) \<subset> dom (serve_slot s)" using st by blast
  then have "card (dom (serve_entry s)) < card (dom (serve_slot s))"
    by (intro psubset_card_mono hm.finite_get)
  then show ?thesis
    using serve_invD(5) [OF inv] bt.count_get [OF serve_invD(2) [OF inv]]
      hm.count_get [OF arb_invD(1) [OF serve_invD(1) [OF inv]]]
    by (simp add: arb_session_count_def)
qed

text \<open>Under the invariant an activation never finds the index full, so nothing is evicted and the
  new entry is resumable.\<close>

lemma activated_eq:
  assumes inv: "serve_inv s"
  shows "serve_on_activated ct_eq s key tok grace =
    (case serve_slot s (ak_session_id key) of
       Some (PendingActivation k l t h) \<Rightarrow>
         if k = key \<and> ct_eq t tok then
           (s\<lparr>sa_arbiter := arb_put (ak_session_id key) (Established key l) (sa_arbiter s),
              sa_index := bt_insert (ak_session_id key) \<lparr>ie_lease = l, ie_parked_since = None,
                ie_negotiated_grace_secs = grace, ie_unresumable = False\<rparr> (sa_index s)\<rparr>,
            [SEff_RegisterIo (ak_session_id key) l False, SEff_Attach (AEff_StartRelay l h)])
         else (s, [])
     | _ \<Rightarrow> (s, []))"
proof (cases "\<exists>l t h. serve_slot s (ak_session_id key) = Some (PendingActivation key l t h) \<and> ct_eq t tok")
  case True
  then obtain l t h where st: "serve_slot s (ak_session_id key) = Some (PendingActivation key l t h)"
    and tok: "ct_eq t tok" by blast
  have "length (filter P (sa_index s)) < sa_max_sessions s" for P
    by (rule le_less_trans [OF length_filter_le index_below_capacity [OF inv st]]) simp
  with st tok show ?thesis
    by (simp add: serve_on_activated_def arb_on_activated_def serve_established_lease_def
        arb_state_for_def table_simps not_le [symmetric] Let_def)
next
  case False
  then have noop: "arb_on_activated ct_eq (sa_arbiter s) key tok = (sa_arbiter s, [])"
    by (auto simp: arb_on_activated_def split: option.splits attach_state.splits)
  from False have "(case serve_slot s (ak_session_id key) of
      Some (PendingActivation k l t h) \<Rightarrow> if k = key \<and> ct_eq t tok then x l h else (s, []) | _ \<Rightarrow> (s, [])) = (s, [])"
    for x :: "lease_id \<Rightarrow> target_handle_id \<Rightarrow> serve_aggregate \<times> serve_effect list"
    by (auto split: option.splits attach_state.splits)
  with noop show ?thesis
    by (auto simp: serve_on_activated_def Let_def split: option.splits)
qed

lemma relay_ended_eq:
  assumes inv: "serve_inv s"
  shows "serve_on_relay_ended ct_eq s lease =
    (case find (\<lambda>(_, e). ie_lease e = lease) (sa_index s) of
       Some (sid, e) \<Rightarrow> (serve_drop sid s, [SEff_Discard sid lease Cause_TcpDied])
     | None \<Rightarrow> (s, []))"
proof (cases "find (\<lambda>(_, e). ie_lease e = lease) (sa_index s)")
  case (Some p)
  then obtain sid e where p: "p = (sid, e)" and "(sid, e) \<in> set (sa_index s)" and lease: "ie_lease e = lease"
    using find_in_set [OF Some] by (cases p) auto
  then have "serve_entry s sid = Some e"
    using bt_ok_distinct [OF serve_invD(2) [OF inv]] by simp
  from discard_eq [OF inv this] show ?thesis by (simp add: serve_on_relay_ended_def Some p lease)
next
  case None
  have "serve_slot s sid \<noteq> Some (Established k lease)" for sid k
  proof
    assume "serve_slot s sid = Some (Established k lease)"
    then obtain e where "serve_entry s sid = Some e" and "ie_lease e = lease" by (rule slot_entry [OF inv])
    with None show False by (auto simp: find_None_iff dest: map_of_SomeD)
  qed
  then have "arb_on_relay_ended (sa_arbiter s) lease = (sa_arbiter s, [])"
    by (auto simp: arb_on_relay_ended_def session_for_lease_iff [OF serve_invD(1) [OF inv]]
        split: option.splits attach_state.splits)
  then show ?thesis by (simp add: serve_on_relay_ended_def None serve_forward_def)
qed

lemma discard_each_eq:
  "serve_inv s \<Longrightarrow> distinct sids \<Longrightarrow> (\<And>sid. sid \<in> set sids \<Longrightarrow> serve_entry s sid = Some (f sid)) \<Longrightarrow>
   serve_discard_each ct_eq s sids cause =
     (fold serve_drop sids s, map (\<lambda>sid. SEff_Discard sid (ie_lease (f sid)) cause) sids)"
proof (induction sids arbitrary: s)
  case Nil
  then show ?case by simp
next
  case (Cons sid sids)
  have e: "serve_entry s sid = Some (f sid)" using Cons.prems(3) by simp
  have rest: "serve_entry (serve_drop sid s) x = Some (f x)" if "x \<in> set sids" for x
    using Cons.prems(2,3) that by (auto simp: entry_drop)
  have "serve_discard_each ct_eq (serve_drop sid s) sids cause =
     (fold serve_drop sids (serve_drop sid s), map (\<lambda>sid. SEff_Discard sid (ie_lease (f sid)) cause) sids)"
    using Cons.prems(1,2) by (intro Cons.IH serve_inv_drop rest) simp_all
  then show ?case by (simp add: discard_eq [OF Cons.prems(1) e])
qed

lemma serve_drop_more [simp]:
  "arb_next_lease (sa_arbiter (serve_drop sid s)) = arb_next_lease (sa_arbiter s)"
  "sa_max_sessions (serve_drop sid s) = sa_max_sessions s"
  by (simp_all add: serve_drop_def next_lease_put)

lemma fold_drop:
  "serve_entry (fold serve_drop sids s) x = (if x \<in> set sids then None else serve_entry s x)"
  "serve_slot (fold serve_drop sids s) x = (if x \<in> set sids then None else serve_slot s x)"
  "arb_next_lease (sa_arbiter (fold serve_drop sids s)) = arb_next_lease (sa_arbiter s)"
  "sa_max_sessions (fold serve_drop sids s) = sa_max_sessions s"
  by (induction sids arbitrary: s) (simp_all add: entry_drop slot_serve_drop)

lemma serve_inv_fold_drop: "serve_inv s \<Longrightarrow> serve_inv (fold serve_drop sids s)"
  by (induction sids arbitrary: s) (simp_all add: serve_inv_drop)

definition expired_sids :: "serve_aggregate \<Rightarrow> millis \<Rightarrow> duration \<Rightarrow> session_key list" where
  "expired_sids s now max_parked = map fst (filter (\<lambda>(_, e). park_expired now max_parked e) (sa_index s))"

lemma expired_sids_iff:
  assumes "serve_inv s"
  shows "sid \<in> set (expired_sids s now mp) \<longleftrightarrow>
    (\<exists>e. serve_entry s sid = Some e \<and> park_expired now mp e)"
  using bt_ok_distinct [OF serve_invD(2) [OF assms]]
  by (force simp: expired_sids_def map_of_entry)

lemma distinct_expired_sids:
  assumes "serve_inv s"
  shows "distinct (expired_sids s now mp)"
  using bt_ok_distinct [OF serve_invD(2) [OF assms]]
  by (auto simp: expired_sids_def distinct_map intro: inj_on_subset)

lemma sweep_eq:
  assumes inv: "serve_inv s"
  shows "serve_on_sweep ct_eq s now mp =
    (fold serve_drop (expired_sids s now mp) s,
     map (\<lambda>sid. SEff_Discard sid (ie_lease (the (serve_entry s sid))) Expired) (expired_sids s now mp))"
  unfolding serve_on_sweep_def Let_def expired_sids_def [symmetric]
  by (rule discard_each_eq [OF inv distinct_expired_sids [OF inv]])
    (auto simp: expired_sids_iff [OF inv])

lemma fold_min_Min: "fold min xs x = Min (insert x (set xs))" for x :: "'a::linorder"
  by (simp add: Min.set_eq_fold [symmetric])

lemma iter_min_Some: "iter_min xs = Some x \<longleftrightarrow> xs \<noteq> [] \<and> x = Min (set xs)"
  by (cases xs) (auto simp: fold_min_Min)

lemma parked_pairs:
  assumes inv: "serve_inv s"
  shows "set (List.map_filter (\<lambda>(sid, e). map_option (\<lambda>since. (since, sid)) (ie_parked_since e)) (sa_index s))
    = {(since, sid). \<exists>e. serve_entry s sid = Some e \<and> ie_parked_since e = Some since}"
  using bt_ok_distinct [OF serve_invD(2) [OF inv]]
  by (force simp: map_filter_def map_of_entry)

text \<open>The eviction victim is the parked session with the least \<open>(parked_since, id)\<close>.\<close>

lemma oldest_parked_Some:
  assumes inv: "serve_inv s" and old: "serve_oldest_parked s = Some sid"
  obtains e since where "serve_entry s sid = Some e" and "ie_parked_since e = Some since"
    and "\<And>sid' e' since'. serve_entry s sid' = Some e' \<Longrightarrow> ie_parked_since e' = Some since' \<Longrightarrow>
      (since, sid) \<le> (since', sid')"
proof -
  let ?ps = "List.map_filter (\<lambda>(sid, e). map_option (\<lambda>since. (since, sid)) (ie_parked_since e)) (sa_index s)"
  from old obtain p where "iter_min ?ps = Some p" and sid: "sid = snd p"
    by (auto simp: serve_oldest_parked_def)
  then have ne: "set ?ps \<noteq> {}" and p: "p = Min (set ?ps)" by (simp_all add: iter_min_Some)
  then have "p \<in> set ?ps" and least: "\<And>q. q \<in> set ?ps \<Longrightarrow> p \<le> q"
    using Min_in [of "set ?ps"] by simp_all
  then obtain e since where e: "serve_entry s sid = Some e" "ie_parked_since e = Some since"
    and p: "p = (since, sid)"
    unfolding parked_pairs [OF inv] sid by (cases p) auto
  have "(since, sid) \<le> (since', sid')"
    if "serve_entry s sid' = Some e'" "ie_parked_since e' = Some since'" for sid' e' since'
    using least [unfolded parked_pairs [OF inv], of "(since', sid')"] that p by blast
  with e show thesis by (rule that)
qed

lemma oldest_parked_None:
  assumes inv: "serve_inv s"
  shows "serve_oldest_parked s = None \<longleftrightarrow> (\<forall>sid e. serve_entry s sid = Some e \<longrightarrow> ie_parked_since e = None)"
proof -
  let ?ps = "List.map_filter (\<lambda>(sid, e). map_option (\<lambda>since. (since, sid)) (ie_parked_since e)) (sa_index s)"
  have "serve_oldest_parked s = None \<longleftrightarrow> set ?ps = {}"
    by (cases ?ps) (auto simp: serve_oldest_parked_def)
  then show ?thesis unfolding parked_pairs [OF inv] by auto (metis not_Some_eq)
qed

lemma parked_eq:
  assumes inv: "serve_inv s"
  shows "serve_on_parked ct_eq s sid lease now =
    (case serve_entry s sid of
       Some e \<Rightarrow>
         if ie_lease e \<noteq> lease then (s, [])
         else if ie_unresumable e then (serve_drop sid s, [SEff_Discard sid lease Unresumable])
         else (s\<lparr>sa_index := bt_insert sid (e\<lparr>ie_parked_since := Some now\<rparr>) (sa_index s)\<rparr>,
               [SEff_StoreParked sid lease])
     | None \<Rightarrow> (s, []))"
  by (cases "serve_entry s sid") (auto simp: serve_on_parked_def discard_eq [OF inv])

lemma relay_terminated_eq:
  assumes inv: "serve_inv s"
  shows "serve_on_relay_terminated ct_eq s sid lease reason =
    (if map_option ie_lease (serve_entry s sid) = Some lease then
       (serve_drop sid s, [SEff_Discard sid lease
          (case reason of TcpDied \<Rightarrow> Cause_TcpDied | GuardDropped \<Rightarrow> Cause_GuardDropped)])
     else (s, []))"
  by (cases "serve_entry s sid") (auto simp: serve_on_relay_terminated_def discard_eq [OF inv])

lemma resume_requested_eq:
  assumes inv: "serve_inv s"
  shows "serve_on_resume_requested s sid =
    (case serve_entry s sid of
       Some e \<Rightarrow>
         if ie_unresumable e then (s, [SEff_ResumeRejected sid])
         else if ie_parked_since e = None then (s, [SEff_RequestPreempt sid (ie_lease e)])
         else (s\<lparr>sa_index := bt_insert sid (e\<lparr>ie_parked_since := None\<rparr>) (sa_index s)\<rparr>,
               [SEff_ResumeGranted sid (ie_lease e)])
     | None \<Rightarrow> (s, [SEff_ResumeRejected sid]))"
  using serve_invD(3) [OF inv, of sid]
  by (cases "serve_entry s sid") (auto simp: serve_on_resume_requested_def split: option.splits)

lemma admit_eq:
  assumes inv: "serve_inv s"
  shows "serve_on_admit_requested ct_eq s key =
    (if arb_has_session (sa_arbiter s) (ak_session_id key)
        \<or> arb_session_count (sa_arbiter s) < sa_max_sessions s then
       serve_forward ct_eq s (AEv_HelloReceived key)
     else
       case serve_oldest_parked s of
         None \<Rightarrow> (s, [SEff_Attach (AEff_SendReject key BusyOtherSession)])
       | Some victim \<Rightarrow>
           (fst (serve_forward ct_eq (serve_drop victim s) (AEv_HelloReceived key)),
            SEff_Discard victim (ie_lease (the (serve_entry s victim))) Evicted
            # snd (serve_forward ct_eq (serve_drop victim s) (AEv_HelloReceived key))))"
proof (cases "serve_oldest_parked s")
  case None
  then show ?thesis by (simp add: serve_on_admit_requested_def not_less)
next
  case (Some victim)
  then obtain e where "serve_entry s victim = Some e" by (rule oldest_parked_Some [OF inv])
  from discard_eq [OF inv this] this Some show ?thesis
    by (simp add: serve_on_admit_requested_def not_less case_prod_beta del: forward_fields)
qed

lemma hello_count:
  assumes "arb_inv a" and "unat (arb_next_lease a) + 1 < 2 ^ 64"
    and "arb_has_session a (ak_session_id key) \<and> arb_session_count a \<le> m \<or> arb_session_count a < m"
  shows "arb_session_count (fst (arb_apply ct_eq a (AEv_HelloReceived key))) \<le> m"
  using arb_count_hello [OF assms(1,2), of key] assms(3) by (auto split: if_splits)

lemma count_serve_drop:
  assumes inv: "serve_inv s" and e: "serve_entry s sid = Some e"
  shows "arb_session_count (sa_arbiter (serve_drop sid s)) < sa_max_sessions s"
proof -
  obtain k where "serve_slot s sid = Some (Established k (ie_lease e))" using inv e by (rule entry_slot)
  then have "Suc (arb_session_count (sa_arbiter (serve_drop sid s))) = arb_session_count (sa_arbiter s)"
    using hm.count_del [OF arb_invD(1) [OF serve_invD(1) [OF inv]], of sid]
    by (simp add: arb_session_count_def serve_drop_def arb_drop_def)
  with serve_invD(5) [OF inv] show ?thesis by simp
qed

lemma serve_inv_admit:
  assumes inv: "serve_inv s" and room: "unat (arb_next_lease (sa_arbiter s)) + 1 < 2 ^ 64"
  shows "serve_inv (fst (serve_on_admit_requested ct_eq s key))"
proof (cases "arb_has_session (sa_arbiter s) (ak_session_id key)
    \<or> arb_session_count (sa_arbiter s) < sa_max_sessions s")
  case True
  then have "arb_session_count (fst (arb_apply ct_eq (sa_arbiter s) (AEv_HelloReceived key))) \<le> sa_max_sessions s"
    using serve_invD(5) [OF inv] by (intro hello_count serve_invD(1) [OF inv] room) auto
  with True show ?thesis
    by (simp add: admit_eq [OF inv] serve_inv_forward [OF inv room])
next
  case False
  show ?thesis
  proof (cases "serve_oldest_parked s")
    case None
    with False show ?thesis by (simp add: admit_eq [OF inv] inv)
  next
    case (Some victim)
    then obtain e where e: "serve_entry s victim = Some e" by (rule oldest_parked_Some [OF inv])
    let ?s = "serve_drop victim s"
    have inv': "serve_inv ?s" by (rule serve_inv_drop [OF inv])
    have "arb_session_count (fst (arb_apply ct_eq (sa_arbiter ?s) (AEv_HelloReceived key))) \<le> sa_max_sessions ?s"
      using count_serve_drop [OF inv e] room by (intro hello_count serve_invD(1) [OF inv']) auto
    then have "serve_inv (fst (serve_forward ct_eq ?s (AEv_HelloReceived key)))"
      using room by (intro serve_inv_forward [OF inv']) auto
    with False Some show ?thesis by (simp add: admit_eq [OF inv])
  qed
qed

lemma serve_inv_activated:
  assumes inv: "serve_inv s"
  shows "serve_inv (fst (serve_on_activated ct_eq s key tok grace))"
proof (cases "\<exists>l t h. serve_slot s (ak_session_id key) = Some (PendingActivation key l t h) \<and> ct_eq t tok")
  case False
  then show ?thesis
    by (auto simp: activated_eq [OF inv] inv split: option.splits attach_state.splits)
next
  case True
  then obtain l t h where st: "serve_slot s (ak_session_id key) = Some (PendingActivation key l t h)"
    and tok: "ct_eq t tok" by blast
  let ?a = "arb_put (ak_session_id key) (Established key l) (sa_arbiter s)"
  have arb: "arb_inv ?a"
    by (rule arb_inv_put [OF serve_invD(1) [OF inv] _ st]) simp_all
  have est: "serve_established_lease (s\<lparr>sa_arbiter := ?a, sa_index := m\<rparr>) x =
      (if x = ak_session_id key then Some l else serve_established_lease s x)" for m x
    by (simp add: serve_established_lease_def arb_state_for_def table_simps)
  have "dom (slot ?a) \<subseteq> dom (serve_slot s)" using st by (auto simp: table_simps split: if_splits)
  then have count: "arb_session_count ?a \<le> sa_max_sessions s"
    using arb_count_le [OF serve_invD(1) [OF inv] arb] serve_invD(5) [OF inv] by simp
  show ?thesis
    using st tok serve_invD(3,4) [OF inv] arb count serve_invD(2) [OF inv]
    by (auto simp: activated_eq [OF inv] serve_inv_def est bt.get_ins bt.ok_ins)
qed

lemma serve_inv_step:
  assumes inv: "serve_inv s" and room: "unat (arb_next_lease (sa_arbiter s)) + 1 < 2 ^ 64"
  shows "serve_inv (fst (serve_apply ct_eq s e))"
proof -
  note fwd = serve_inv_forward [OF inv room] order_trans [OF arb_count_step [OF serve_invD(1) [OF inv] room] serve_invD(5) [OF inv]]
  show ?thesis
  proof (cases e)
    case (SEv_AdmitRequested key)
    then show ?thesis by (simp add: serve_inv_admit [OF inv room])
  next
    case (SEv_Activated key tok grace)
    then show ?thesis by (simp add: serve_inv_activated [OF inv])
  next
    case (SEv_RelayEnded lease)
    then show ?thesis
      by (auto simp: relay_ended_eq [OF inv] inv serve_inv_drop split: option.splits)
  next
    case (SEv_Parked sid lease now)
    then show ?thesis
      by (auto simp: parked_eq [OF inv] inv serve_inv_drop intro: serve_inv_update split: option.splits)
  next
    case (SEv_RelayTerminated sid lease reason)
    then show ?thesis by (auto simp: relay_terminated_eq [OF inv] inv serve_inv_drop)
  next
    case (SEv_ResumeUnavailable sid lease)
    then show ?thesis
      by (auto simp: serve_on_resume_unavailable_def inv intro: serve_inv_update split: option.splits)
  next
    case (SEv_Sweep now mp)
    then show ?thesis by (simp add: sweep_eq [OF inv] serve_inv_fold_drop [OF inv])
  next
    case (SEv_ResumeRequested sid)
    then show ?thesis
      by (auto simp: resume_requested_eq [OF inv] inv intro: serve_inv_update split: option.splits)
  qed (auto intro!: fwd simp del: arb_apply.simps)
qed

lemma forward_next_lease:
  assumes "arb_inv (sa_arbiter s)" and "unat (arb_next_lease (sa_arbiter s)) + 1 < 2 ^ 64"
  shows "unat (arb_next_lease (fst (arb_apply ct_eq (sa_arbiter s) e))) \<le> unat (arb_next_lease (sa_arbiter s)) + 1"
  using arb_meter_step [OF assms, of ct_eq e] by simp

lemma serve_meter_step:
  assumes inv: "serve_inv s" and room: "unat (arb_next_lease (sa_arbiter s)) + 1 < 2 ^ 64"
  shows "unat (arb_next_lease (sa_arbiter (fst (serve_apply ct_eq s e)))) \<le> unat (arb_next_lease (sa_arbiter s)) + 1"
proof -
  note fwd = forward_next_lease [OF serve_invD(1) [OF inv] room]
  show ?thesis
  proof (cases e)
    case (SEv_AdmitRequested key)
    have "unat (arb_next_lease (fst (arb_apply ct_eq (sa_arbiter (serve_drop v s)) (AEv_HelloReceived key))))
        \<le> unat (arb_next_lease (sa_arbiter s)) + 1" for v
      using forward_next_lease [OF serve_invD(1) [OF serve_inv_drop [OF inv]], of v ct_eq "AEv_HelloReceived key"] room
      by (simp del: arb_apply.simps)
    with fwd [of ct_eq "AEv_HelloReceived key"] SEv_AdmitRequested show ?thesis
      by (auto simp: admit_eq [OF inv] split: option.splits)
  next
    case (SEv_Activated key tok grace)
    then show ?thesis
      by (auto simp: activated_eq [OF inv] table_simps split: option.splits attach_state.splits)
  next
    case (SEv_RelayEnded lease)
    then show ?thesis by (auto simp: relay_ended_eq [OF inv] split: option.splits)
  next
    case (SEv_Parked sid lease now)
    then show ?thesis by (auto simp: parked_eq [OF inv] split: option.splits)
  next
    case (SEv_RelayTerminated sid lease reason)
    then show ?thesis by (auto simp: relay_terminated_eq [OF inv])
  next
    case (SEv_ResumeUnavailable sid lease)
    then show ?thesis by (auto simp: serve_on_resume_unavailable_def split: option.splits)
  next
    case (SEv_Sweep now mp)
    then show ?thesis by (simp add: sweep_eq [OF inv] fold_drop)
  next
    case (SEv_ResumeRequested sid)
    then show ?thesis by (auto simp: resume_requested_eq [OF inv] split: option.splits)
  qed (use fwd in \<open>simp_all del: arb_apply.simps\<close>)
qed

interpretation serve: metered_reducer "serve_apply ct_eq" serve_inv
  "\<lambda>s. unat (arb_next_lease (sa_arbiter s))" "2 ^ 64" for ct_eq
  by unfold_locales (simp_all only: serve_inv_step serve_meter_step)

section \<open>The shell's socket tables\<close>

text \<open>
  What the effect executor does to its two tables: the registered \<^verbatim>\<open>SessionIo\<close> objects and, among
  them, those that hold a parked target socket. Attach effects do not touch them.
\<close>

type_synonym shell_tables = "(session_key \<times> lease_id) set \<times> (session_key \<times> lease_id) set"

fun shell_step :: "shell_tables \<Rightarrow> serve_effect \<Rightarrow> shell_tables" where
  "shell_step (io, parked) (SEff_RegisterIo sid l _) = (insert (sid, l) io, parked)"
| "shell_step (io, parked) (SEff_Discard sid l _) = (io - {(sid, l)}, parked - {(sid, l)})"
| "shell_step (io, parked) (SEff_StoreParked sid l) = (io, insert (sid, l) parked)"
| "shell_step (io, parked) (SEff_ResumeGranted sid l) = (io, parked - {(sid, l)})"
| "shell_step sh _ = sh"

definition index_tables :: "serve_aggregate \<Rightarrow> shell_tables" where
  "index_tables s =
     ({(sid, l). \<exists>e. serve_entry s sid = Some e \<and> ie_lease e = l},
      {(sid, l). \<exists>e. serve_entry s sid = Some e \<and> ie_lease e = l \<and> ie_parked_since e \<noteq> None})"

lemma shell_attach [simp]: "foldl shell_step sh (map SEff_Attach effs) = sh"
  by (induction effs) auto

lemma tables_drop:
  assumes "serve_entry s sid = Some e"
  shows "shell_step (index_tables s) (SEff_Discard sid (ie_lease e) c) = index_tables (serve_drop sid s)"
  using assms by (auto simp: index_tables_def entry_drop split: if_splits)

lemma tables_drop_each:
  "distinct sids \<Longrightarrow> (\<And>sid. sid \<in> set sids \<Longrightarrow> serve_entry s sid = Some (f sid)) \<Longrightarrow>
   foldl shell_step (index_tables s) (map (\<lambda>sid. SEff_Discard sid (ie_lease (f sid)) c) sids)
   = index_tables (fold serve_drop sids s)"
proof (induction sids arbitrary: s)
  case (Cons sid sids)
  have rest: "serve_entry (serve_drop sid s) x = Some (f x)" if "x \<in> set sids" for x
    using Cons.prems that by (auto simp: entry_drop)
  have e: "serve_entry s sid = Some (f sid)" using Cons.prems(2) by simp
  show ?case using Cons.IH [OF _ rest] Cons.prems(1) by (simp add: tables_drop [OF e] del: shell_step.simps)
qed simp

lemma tables_arbiter [simp]:
  "index_tables (s\<lparr>sa_arbiter := a\<rparr>) = index_tables s"
  "index_tables (fst (serve_forward ct_eq s e)) = index_tables s"
  by (simp_all add: index_tables_def)

lemma tables_step:
  assumes inv: "serve_inv s"
  shows "foldl shell_step (index_tables s) (snd (serve_apply ct_eq s e)) = index_tables (fst (serve_apply ct_eq s e))"
proof -
  note upd = bt.get_ins [OF serve_invD(2) [OF inv]]
  show ?thesis
  proof (cases e)
    case (SEv_AdmitRequested key)
    show ?thesis
    proof (cases "serve_oldest_parked s")
      case None
      with SEv_AdmitRequested show ?thesis by (simp add: admit_eq [OF inv])
    next
      case (Some v)
      then obtain e' where "serve_entry s v = Some e'" by (rule oldest_parked_Some [OF inv])
      with SEv_AdmitRequested Some show ?thesis
        by (simp add: admit_eq [OF inv] tables_drop del: shell_step.simps)
    qed
  next
    case (SEv_Activated key tok grace)
    have "serve_entry s (ak_session_id key) = None"
      if "serve_slot s (ak_session_id key) = Some (PendingActivation k l t h)" for k l t h
      using that entry_slot [OF inv, of "ak_session_id key"] by (cases "serve_entry s (ak_session_id key)") auto
    with SEv_Activated show ?thesis
      by (auto simp: activated_eq [OF inv] index_tables_def upd split: option.splits attach_state.splits if_splits)
  next
    case (SEv_RelayEnded lease)
    have "serve_entry s sid = Some e' \<and> ie_lease e' = lease"
      if "find (\<lambda>(_, e). ie_lease e = lease) (sa_index s) = Some (sid, e')" for sid e'
      using find_in_set [OF that] bt_ok_distinct [OF serve_invD(2) [OF inv]] by simp
    with SEv_RelayEnded show ?thesis
      by (auto simp: relay_ended_eq [OF inv] tables_drop simp del: shell_step.simps split: option.splits)
  next
    case (SEv_Parked sid lease now)
    then show ?thesis
      by (cases "serve_entry s sid") (auto simp: parked_eq [OF inv] index_tables_def upd entry_drop split: if_splits)
  next
    case (SEv_RelayTerminated sid lease reason)
    then show ?thesis
      by (auto simp: relay_terminated_eq [OF inv] tables_drop simp del: shell_step.simps)
  next
    case (SEv_ResumeUnavailable sid lease)
    then show ?thesis
      by (cases "serve_entry s sid") (auto simp: serve_on_resume_unavailable_def index_tables_def upd split: if_splits)
  next
    case (SEv_Sweep now mp)
    have "foldl shell_step (index_tables s)
        (map (\<lambda>sid. SEff_Discard sid (ie_lease (the (serve_entry s sid))) Expired) (expired_sids s now mp))
        = index_tables (fold serve_drop (expired_sids s now mp) s)"
      by (rule tables_drop_each [OF distinct_expired_sids [OF inv]]) (auto simp: expired_sids_iff [OF inv])
    with SEv_Sweep show ?thesis by (simp add: sweep_eq [OF inv])
  next
    case (SEv_ResumeRequested sid)
    then show ?thesis
      by (cases "serve_entry s sid") (auto simp: resume_requested_eq [OF inv] index_tables_def upd split: if_splits)
  qed (simp_all del: arb_apply.simps)
qed

lemma tables_run:
  "serve_inv s \<Longrightarrow> unat (arb_next_lease (sa_arbiter s)) + length es < 2 ^ 64 \<Longrightarrow>
   foldl shell_step (index_tables s) (snd (run (serve_apply ct_eq) s es))
   = index_tables (fst (run (serve_apply ct_eq) s es))"
proof (induction es arbitrary: s)
  case (Cons e es)
  let ?s = "fst (serve_apply ct_eq s e)"
  have room: "unat (arb_next_lease (sa_arbiter s)) + 1 < 2 ^ 64" using Cons.prems(2) by simp
  have "unat (arb_next_lease (sa_arbiter ?s)) + length es < 2 ^ 64"
    using serve_meter_step [OF Cons.prems(1) room, of ct_eq e] Cons.prems(2) by simp
  then show ?case
    by (simp add: tables_step [OF Cons.prems(1)] Cons.IH [OF serve_inv_step [OF Cons.prems(1) room]])
qed simp

section \<open>Effects of single steps\<close>

lemma no_unresumable_io:
  assumes inv: "serve_inv s"
  shows "SEff_RegisterIo sid l True \<notin> set (snd (serve_apply ct_eq s e))"
proof (cases e)
  case (SEv_AdmitRequested key)
  then show ?thesis by (auto simp: admit_eq [OF inv] split: option.splits)
next
  case (SEv_Activated key tok grace)
  then show ?thesis by (auto simp: activated_eq [OF inv] split: option.splits attach_state.splits)
next
  case (SEv_RelayEnded lease)
  then show ?thesis by (auto simp: relay_ended_eq [OF inv] split: option.splits)
next
  case (SEv_Parked sid lease now)
  then show ?thesis by (auto simp: parked_eq [OF inv] split: option.splits)
next
  case (SEv_RelayTerminated sid lease reason)
  then show ?thesis by (auto simp: relay_terminated_eq [OF inv])
next
  case (SEv_ResumeUnavailable sid lease)
  then show ?thesis by (auto simp: serve_on_resume_unavailable_def split: option.splits)
next
  case (SEv_Sweep now mp)
  then show ?thesis by (auto simp: sweep_eq [OF inv])
next
  case (SEv_ResumeRequested sid)
  then show ?thesis by (auto simp: resume_requested_eq [OF inv] split: option.splits)
qed auto

section \<open>Properties\<close>

text \<open>C6. In every execution of fewer than \<open>2^64\<close> events that starts with an empty server, the
  session index and the arbiter agree (a session is indexed exactly when its slot is
  established, with the same lease), no entry that cannot be resumed is parked, and the number of slots
  never exceeds \<^verbatim>\<open>--max-sessions\<close>.\<close>

theorem serve_inv_reachable:
  assumes "length es < 2 ^ 64"
  shows "serve_inv (fst (run (serve_apply ct_eq) (serve_new m) es))"
  using serve.inv_run [of "serve_new m" es ct_eq] assms
  by (simp add: serve_inv_new) (simp add: serve_new_def arb_new_def)

text \<open>C7. Refinement of the shell's tables: interpreting the effects of any execution in order
  gives exactly the registered sessions of the index and exactly the parked ones among them.
  No registration and no parked socket is ever leaked or lost, and each carries the lease of the
  session's current incarnation.\<close>

theorem serve_tables_agree:
  assumes "length es < 2 ^ 64"
  shows "foldl shell_step ({}, {}) (snd (run (serve_apply ct_eq) (serve_new m) es))
    = index_tables (fst (run (serve_apply ct_eq) (serve_new m) es))"
proof -
  have "index_tables (serve_new m) = ({}, {})" by (simp add: index_tables_def serve_new_def)
  moreover have "unat (arb_next_lease (sa_arbiter (serve_new m))) = 0" by (simp add: serve_new_def arb_new_def)
  ultimately show ?thesis
    using tables_run [OF serve_inv_new, of m es ct_eq] assms by simp
qed

text \<open>The capacity fallback of an activation is dead code: because admission keeps the slots within
  \<^verbatim>\<open>--max-sessions\<close>, no session is ever registered as not resumable for lack of room.\<close>

lemma serve_never_unresumable:
  assumes "length es < 2 ^ 64"
  shows "SEff_RegisterIo sid l True \<notin> set (snd (run (serve_apply ct_eq) (serve_new m) es))"
proof
  assume mem: "SEff_RegisterIo sid l True \<in> set (snd (run (serve_apply ct_eq) (serve_new m) es))"
  have "SEff_RegisterIo sid l True \<noteq> SEff_RegisterIo sid l True"
    by (rule serve.effects_run [where P = "\<lambda>f. f \<noteq> SEff_RegisterIo sid l True", OF _ serve_inv_new _ mem])
      (use no_unresumable_io assms in \<open>auto simp: serve_new_def arb_new_def\<close>)
  then show False by simp
qed

text \<open>A sweep discards exactly the parked sessions whose time since parking has reached the shorter of the
  global window and their negotiated grace: each of them once, with its slot freed, and
  nothing else changes.\<close>

lemma serve_sweep_exact:
  assumes "serve_inv s"
  shows "distinct (snd (serve_apply ct_eq s (SEv_Sweep now max_parked)))
    \<and> (f \<in> set (snd (serve_apply ct_eq s (SEv_Sweep now max_parked))) \<longleftrightarrow>
         (\<exists>sid e. f = SEff_Discard sid (ie_lease e) Expired \<and> serve_index_entry s sid = Some e
            \<and> park_expired now max_parked e))
    \<and> serve_index_entry (fst (serve_apply ct_eq s (SEv_Sweep now max_parked))) sid
      = (case serve_index_entry s sid of
           Some e \<Rightarrow> if park_expired now max_parked e then None else Some e | None \<Rightarrow> None)
    \<and> arb_state_for (sa_arbiter (fst (serve_apply ct_eq s (SEv_Sweep now max_parked)))) sid
      = (case serve_index_entry s sid of
           Some e \<Rightarrow> if park_expired now max_parked e then None else arb_state_for (sa_arbiter s) sid
         | None \<Rightarrow> arb_state_for (sa_arbiter s) sid)"
proof -
  have "inj_on (\<lambda>sid. SEff_Discard sid (ie_lease (the (serve_entry s sid))) Expired) A" for A
    by (rule inj_onI) simp
  then have "distinct (map (\<lambda>sid. SEff_Discard sid (ie_lease (the (serve_entry s sid))) Expired) (expired_sids s now max_parked))"
    using distinct_expired_sids [OF assms] by (simp add: distinct_map)
  moreover have "f \<in> set (map (\<lambda>sid. SEff_Discard sid (ie_lease (the (serve_entry s sid))) Expired) (expired_sids s now max_parked))
      \<longleftrightarrow> (\<exists>sid e. f = SEff_Discard sid (ie_lease e) Expired \<and> serve_entry s sid = Some e \<and> park_expired now max_parked e)"
    by (force simp: expired_sids_iff [OF assms])
  ultimately show ?thesis
    unfolding serve_apply.simps sweep_eq [OF assms] fst_conv snd_conv serve_index_entry_def arb_state_for_def fold_drop
    by (simp add: expired_sids_iff [OF assms] split: option.split)
qed

text \<open>A resume is granted exactly to a parked session, with the lease its slot is established on; the grant
  unparks it, so a second request that follows directly is told to preempt the relay instead and
  the parked socket is never handed out twice.\<close>

lemma serve_resume_grant:
  assumes "serve_inv s"
  shows "(if \<exists>e since. serve_index_entry s sid = Some e \<and> ie_parked_since e = Some since \<and> ie_lease e = l
            \<and> serve_established_lease s sid = Some l
     then snd (run (serve_apply ct_eq) s [SEv_ResumeRequested sid, SEv_ResumeRequested sid])
       = [SEff_ResumeGranted sid l, SEff_RequestPreempt sid l]
     else SEff_ResumeGranted sid l \<notin> set (snd (serve_apply ct_eq s (SEv_ResumeRequested sid))))"
proof (cases "\<exists>e since. serve_index_entry s sid = Some e \<and> ie_parked_since e = Some since \<and> ie_lease e = l
            \<and> serve_established_lease s sid = Some l")
  case True
  then obtain e since where e: "serve_entry s sid = Some e" and l: "ie_lease e = l"
    and pk: "ie_parked_since e = Some since" by (auto simp: serve_index_entry_def)
  then have un: "\<not> ie_unresumable e" using serve_invD(4) [OF assms e] by auto
  have "serve_inv (s\<lparr>sa_index := bt_insert sid (e\<lparr>ie_parked_since := None\<rparr>) (sa_index s)\<rparr>)"
    by (rule serve_inv_update [OF assms e]) simp_all
  from resume_requested_eq [OF this, of sid] show ?thesis
    unfolding if_P [OF True] using e l un pk
    by (simp add: resume_requested_eq [OF assms] bt.get_ins [OF serve_invD(2) [OF assms]])
next
  case False
  have "ie_parked_since e = None" if "serve_entry s sid = Some e" "ie_lease e = l" for e
    using False that serve_invD(3) [OF assms, of sid] by (auto simp: serve_index_entry_def)
  then show ?thesis
    unfolding if_not_P [OF False] by (auto simp: resume_requested_eq [OF assms] split: option.splits)
qed

text \<open>Admission when full: a new session is refused with \<open>BusyOtherSession\<close>, without any change of state,
  exactly when nothing is parked; otherwise the session parked longest (ties broken by
  identifier) is discarded and the new one gets a slot and its target connect in the same step.\<close>

lemma serve_admission_full:
  assumes "serve_inv s"
    and "\<not> arb_has_session (sa_arbiter s) (ak_session_id key)"
    and "arb_session_count (sa_arbiter s) = sa_max_sessions s"
  shows "(\<forall>sid e. serve_index_entry s sid = Some e \<longrightarrow> ie_parked_since e = None) \<and>
      serve_apply ct_eq s (SEv_AdmitRequested key)
        = (s, [SEff_Attach (AEff_SendReject key BusyOtherSession)])
    \<or> (\<exists>victim e since. serve_index_entry s victim = Some e \<and> ie_parked_since e = Some since
        \<and> (\<forall>sid' e' since'. serve_index_entry s sid' = Some e' \<longrightarrow> ie_parked_since e' = Some since' \<longrightarrow>
             (since, victim) \<le> (since', sid'))
        \<and> snd (serve_apply ct_eq s (SEv_AdmitRequested key))
          = [SEff_Discard victim (ie_lease e) Evicted,
             SEff_Attach (AEff_ConnectTarget (arb_next_lease (sa_arbiter s)))]
        \<and> arb_state_for (sa_arbiter (fst (serve_apply ct_eq s (SEv_AdmitRequested key)))) victim = None
        \<and> arb_state_for (sa_arbiter (fst (serve_apply ct_eq s (SEv_AdmitRequested key)))) (ak_session_id key)
          = Some (Connecting key (arb_next_lease (sa_arbiter s))))"
proof (cases "serve_oldest_parked s")
  case None
  then have "serve_apply ct_eq s (SEv_AdmitRequested key)
      = (s, [SEff_Attach (AEff_SendReject key BusyOtherSession)])"
    using assms(2,3) by (simp add: admit_eq [OF assms(1)])
  with None show ?thesis by (simp add: oldest_parked_None [OF assms(1)] serve_index_entry_def)
next
  case (Some victim)
  then obtain e since where e: "serve_entry s victim = Some e" "ie_parked_since e = Some since"
    and least: "\<And>sid' e' since'. serve_entry s sid' = Some e' \<Longrightarrow> ie_parked_since e' = Some since' \<Longrightarrow>
      (since, victim) \<le> (since', sid')"
    using oldest_parked_Some [OF assms(1), of victim] by metis
  obtain k where "serve_slot s victim = Some (Established k (ie_lease e))"
    using assms(1) e(1) by (rule entry_slot)
  with assms(2) have "victim \<noteq> ak_session_id key" by (auto simp: arb_has_session_def)
  with assms(2,3) Some e have
    "snd (serve_apply ct_eq s (SEv_AdmitRequested key))
          = [SEff_Discard victim (ie_lease e) Evicted,
             SEff_Attach (AEff_ConnectTarget (arb_next_lease (sa_arbiter s)))]
     \<and> slot (sa_arbiter (fst (serve_apply ct_eq s (SEv_AdmitRequested key)))) victim = None
     \<and> slot (sa_arbiter (fst (serve_apply ct_eq s (SEv_AdmitRequested key)))) (ak_session_id key)
          = Some (Connecting key (arb_next_lease (sa_arbiter s)))"
    by (simp add: admit_eq [OF assms(1)] arb_has_session_def arb_on_hello_received_def slot_serve_drop
        arb_mint_lease_def slot_put)
  with e least show ?thesis unfolding serve_index_entry_def arb_state_for_def by blast
qed

text \<open>Facts about a lease that is not the session's current one are ignored: a late park, termination or
  loss-of-resume report of an earlier incarnation changes nothing and emits nothing.\<close>

lemma serve_stale_facts:
  assumes "map_option ie_lease (serve_index_entry s sid) \<noteq> Some lease"
    and "e \<in> {SEv_Parked sid lease now, SEv_RelayTerminated sid lease reason, SEv_ResumeUnavailable sid lease}"
  shows "serve_apply ct_eq s e = (s, [])"
  using assms
  by (cases "serve_entry s sid")
    (auto simp: serve_index_entry_def serve_on_parked_def serve_on_relay_terminated_def
      serve_on_resume_unavailable_def)

section \<open>Witnesses\<close>

text \<open>A server of capacity one whose only session is parked since time 1000.\<close>

definition sample_serve :: "millis option \<Rightarrow> serve_aggregate" where
  "sample_serve parked =
     \<lparr>sa_arbiter = sample_established,
      sa_index = [(replicate 16 1, \<lparr>ie_lease = 0, ie_parked_since = parked,
        ie_negotiated_grace_secs = Some 60, ie_unresumable = False\<rparr>)],
      sa_max_sessions = 1\<rparr>"

definition other_key :: attach_key where
  "other_key = \<lparr>ak_session_id = replicate 16 3, ak_generation = 1, ak_attempt_id = replicate 16 4\<rparr>"

lemma sample_serve_inv [simp]: "serve_inv (sample_serve parked)"
proof -
  have "map_option ie_lease (serve_entry (sample_serve parked) sid) = serve_established_lease (sample_serve parked) sid" for sid
    by (simp add: sample_serve_def sample_established_def serve_established_lease_def arb_state_for_def)
  moreover have "arb_inv (sa_arbiter (sample_serve parked))" by (simp add: sample_serve_def)
  ultimately show ?thesis
    unfolding serve_inv_def
    by (simp add: sample_serve_def bt_ok_def arb_session_count_def sample_established_def)
qed

theorem serve_inv_reachable_witness:
  "serve_inv (fst (run (serve_apply (=)) (serve_new 1)
     [SEv_AdmitRequested (sample_key 1), SEv_AdmitRequested other_key, SEv_TargetConnected 0 7 (replicate 16 9)]))"
  by (rule serve_inv_reachable) simp

theorem serve_tables_agree_witness:
  "foldl shell_step ({}, {}) (snd (run (serve_apply (=)) (serve_new 1)
     [SEv_AdmitRequested (sample_key 1), SEv_TargetConnected 0 7 (replicate 16 9),
      SEv_Activated (sample_key 1) (replicate 16 9) None, SEv_Parked (replicate 16 1) 0 5]))
   = index_tables (fst (run (serve_apply (=)) (serve_new 1)
     [SEv_AdmitRequested (sample_key 1), SEv_TargetConnected 0 7 (replicate 16 9),
      SEv_Activated (sample_key 1) (replicate 16 9) None, SEv_Parked (replicate 16 1) 0 5]))"
  by (rule serve_tables_agree) simp

end
