(* ===== verification/Backoff.thy ===== *)
theory Backoff
  imports Interfaces
begin

text \<open>
  \<^verbatim>\<open>isekai-transport/src/backoff.rs\<close>: exponential backoff with jitter. The random factor and the
  floating-point product (\<^verbatim>\<open>rand::rngs::StdRng\<close>, \<^verbatim>\<open>gen_range\<close>, \<^verbatim>\<open>Duration::from_secs_f64\<close>)
  are the parameter \<open>jittered\<close>: \<open>jittered j seed base\<close> is what they make of the base delay for a
  jitter fraction \<open>j\<close>. Nothing is assumed about it.
\<close>

type_synonym jitter_fn = "rat \<Rightarrow> u64 \<Rightarrow> duration \<Rightarrow> duration"

record backoff_policy =
  bp_initial :: duration
  bp_max :: duration
  bp_jitter :: rat

text \<open>\<^verbatim>\<open>u64::saturating_mul\<close>.\<close>

definition sat_mul :: "'w::len word \<Rightarrow> 'w word \<Rightarrow> 'w word" where
  "sat_mul a b = (if unat a * unat b < 2 ^ LENGTH('w) then a * b else - 1)"

definition base_delay :: "backoff_policy \<Rightarrow> u32 \<Rightarrow> duration" where
  "base_delay pol attempt =
     (let shift = unat (min attempt 32);
          multiplier = push_bit shift (1 :: u64);
          initial_millis = u64_try_from (as_millis (bp_initial pol));
          max_millis = u64_try_from (as_millis (bp_max pol));
          ms = min (sat_mul initial_millis multiplier) max_millis in
      from_millis (unat ms))"

definition delay_for_attempt :: "jitter_fn \<Rightarrow> backoff_policy \<Rightarrow> u32 \<Rightarrow> u64 \<Rightarrow> duration" where
  "delay_for_attempt jittered pol attempt seed =
     (let base = base_delay pol attempt in
      if bp_jitter pol \<le> 0 then base
      else min (jittered (min (bp_jitter pol) 1) seed base) (bp_max pol))"

definition next_delay :: "jitter_fn \<Rightarrow> backoff_policy \<Rightarrow> u32 \<Rightarrow> u64 \<Rightarrow> duration" where
  "next_delay jittered pol attempt seed = delay_for_attempt jittered pol attempt seed"

lemma unat_sat_mul: "unat (sat_mul a b) = min (unat a * unat b) (2 ^ LENGTH('w) - 1)" for a b :: "'w::len word"
proof (cases "unat a * unat b < 2 ^ LENGTH('w)")
  case True
  then show ?thesis by (simp add: sat_mul_def unat_word_ariths)
next
  case False
  then show ?thesis by (simp add: sat_mul_def unat_minus_one_word)
qed

lemma unat_min: "unat (min a b) = min (unat a) (unat b)" for a b :: "'w::len word"
  by (simp add: min_def word_le_nat_alt)

lemma unat_pow2: "n < 64 \<Longrightarrow> unat (push_bit n (1 :: u64)) = 2 ^ n"
proof -
  assume "n < 64"
  then have "(2 :: nat) ^ n < 2 ^ 64" by (intro power_strict_increasing) simp_all
  moreover have "push_bit n (1 :: u64) = word_of_nat (2 ^ n)" by (simp add: push_bit_eq_mult)
  ultimately show ?thesis
    using unat_of_nat [where 'a = 64, of "2 ^ n"] by (simp add: mod_less)
qed

text \<open>The machine arithmetic computes the intended exponential: \<open>initial * 2^attempt\<close> clamped to the
  maximum, in whole milliseconds.\<close>

lemma base_delay_spec:
  assumes "as_millis (bp_initial pol) < 2 ^ 64" and "as_millis (bp_max pol) < 2 ^ 64"
  shows "base_delay pol attempt =
    from_millis (min (as_millis (bp_initial pol) * 2 ^ min (unat attempt) 32) (as_millis (bp_max pol)))"
proof -
  have sh: "unat (min attempt (32 :: u32)) = min (unat attempt) 32" by (simp add: unat_min)
  then have p: "unat (push_bit (unat (min attempt (32 :: u32))) (1 :: u64)) = 2 ^ min (unat attempt) 32"
    by (simp only: unat_pow2)
  show ?thesis
    using assms unfolding base_delay_def Let_def unat_min [where 'w = 64] unat_sat_mul p unat_u64_try_from
    by (intro arg_cong [where f = from_millis]) (auto simp: min_def)
qed

lemma next_delay_le:
  assumes "as_millis (bp_initial pol) < 2 ^ 64" and "as_millis (bp_max pol) < 2 ^ 64"
  shows "next_delay jittered pol attempt seed \<le> bp_max pol"
proof -
  have "base_delay pol attempt \<le> from_millis (as_millis (bp_max pol))"
    by (simp add: base_delay_spec [OF assms])
  also have "\<dots> \<le> bp_max pol" by (rule from_millis_as_millis)
  finally show ?thesis by (simp add: next_delay_def delay_for_attempt_def Let_def)
qed

section \<open>Properties\<close>

text \<open>The saturating machine arithmetic of the backoff computes the intended schedule for every policy
  whose bounds fit 64-bit milliseconds: without jitter, \<open>initial * 2^attempt\<close> (the exponent capped at
  32) clamped to the maximum in whole milliseconds; with jitter, never more than the maximum whatever the
  random factor.\<close>

lemma backoff_schedule:
  assumes "as_millis (bp_initial pol) < 2 ^ 64" and "as_millis (bp_max pol) < 2 ^ 64"
  shows "(if bp_jitter pol \<le> 0
     then next_delay jittered pol attempt seed =
       from_millis (min (as_millis (bp_initial pol) * 2 ^ min (unat attempt) 32) (as_millis (bp_max pol)))
     else next_delay jittered pol attempt seed \<le> bp_max pol)"
  using base_delay_spec [OF assms] next_delay_le [OF assms]
  by (simp add: next_delay_def delay_for_attempt_def)

end
