(* ===== verification/ResumeFsm.thy ===== *)
theory ResumeFsm
  imports Backoff
begin

text \<open>
  \<^verbatim>\<open>isekai-pipe/src/resume_fsm.rs\<close>: the client's resume planner. After a disconnect it decides
  when to redial, over which path, when to switch to the cross-family relay, and when to give
  up; the bounds of its waits are what keeps a client from retrying past the server's grant.
  \<open>busy_other_session_retry\<close> is the separate retry bound of the very first connect.
\<close>

section \<open>Constants and pure helpers\<close>

definition DEFAULT_RESUME_GRACE_SECS :: nat where
  "DEFAULT_RESUME_GRACE_SECS = 864000"

definition DEFAULT_RESUME_WINDOW :: duration where
  "DEFAULT_RESUME_WINDOW = from_secs DEFAULT_RESUME_GRACE_SECS"

definition millis_after :: "millis \<Rightarrow> duration \<Rightarrow> millis" where
  "millis_after t d = sat_add t (u64_try_from (as_millis d))"

definition RESUME_BACKOFF :: backoff_policy where
  "RESUME_BACKOFF = \<lparr>bp_initial = from_millis 500, bp_max = from_secs 10, bp_jitter = 1 / 4\<rparr>"

definition STUN_TO_CROSS_FAMILY_SWITCH_ATTEMPTS :: u32 where
  "STUN_TO_CROSS_FAMILY_SWITCH_ATTEMPTS = 5"

definition CROSS_FAMILY_SWITCH_DEADLINE :: duration where
  "CROSS_FAMILY_SWITCH_DEADLINE = from_secs 45"

definition TRANSPORT_STEP_TIMEOUT :: duration where
  "TRANSPORT_STEP_TIMEOUT = from_secs 15"

definition CROSS_FAMILY_MIN_PROBE_BUDGET :: duration where
  "CROSS_FAMILY_MIN_PROBE_BUDGET = from_secs (as_secs TRANSPORT_STEP_TIMEOUT + 1)"

definition RECONNECT_NOTIFY_GRACE :: duration where
  "RECONNECT_NOTIFY_GRACE = from_secs 15"

definition BUSY_OTHER_SESSION_RETRY_WINDOW :: duration where
  "BUSY_OTHER_SESSION_RETRY_WINDOW = from_secs 180"

definition UNKNOWN_SESSION_CONFIRM_THRESHOLD :: u32 where
  "UNKNOWN_SESSION_CONFIRM_THRESHOLD = 3"

definition UNKNOWN_SESSION_MIN_ELAPSED_FLOOR :: duration where
  "UNKNOWN_SESSION_MIN_ELAPSED_FLOOR = from_secs 30"

definition resume_window_for :: "u32 \<Rightarrow> duration" where
  "resume_window_for secs = (if secs = 0 then DEFAULT_RESUME_WINDOW else from_secs (unat secs))"

definition clamp_resume_window :: "duration \<Rightarrow> duration option \<Rightarrow> duration" where
  "clamp_resume_window w max_w = (case max_w of Some m \<Rightarrow> min w m | None \<Rightarrow> w)"

definition effective_resume_window :: "u32 \<Rightarrow> duration option \<Rightarrow> duration" where
  "effective_resume_window secs max_w = clamp_resume_window (resume_window_for secs) max_w"

definition update_unknown_session_streak :: "u32 \<Rightarrow> bool \<Rightarrow> duration \<Rightarrow> u32 \<times> bool" where
  "update_unknown_session_streak previous is_unknown elapsed =
     (if \<not> is_unknown then (0, False)
      else
        let streak = sat_add previous 1 in
        (streak, UNKNOWN_SESSION_CONFIRM_THRESHOLD \<le> streak \<and> UNKNOWN_SESSION_MIN_ELAPSED_FLOOR \<le> elapsed))"

definition cross_family_probe_fits :: "duration \<Rightarrow> bool" where
  "cross_family_probe_fits remaining \<longleftrightarrow> CROSS_FAMILY_MIN_PROBE_BUDGET \<le> remaining"

definition should_switch_to_cross_family :: "u32 \<Rightarrow> u32 \<Rightarrow> duration \<Rightarrow> bool" where
  "should_switch_to_cross_family failures attempts remaining \<longleftrightarrow>
     cross_family_probe_fits remaining \<and> (attempts \<le> failures \<or> remaining \<le> CROSS_FAMILY_SWITCH_DEADLINE)"

record switch_budget =
  cb_max_resume_window :: "duration option"
  cb_resume_window :: duration
  cb_deadline :: millis

definition cross_family_switch_budget :: "millis \<Rightarrow> millis \<Rightarrow> u32 \<Rightarrow> switch_budget" where
  "cross_family_switch_budget disconnected_at now secs =
     (let elapsed = millis_sub now disconnected_at;
          max_w = Some (max (elapsed + CROSS_FAMILY_SWITCH_DEADLINE) UNKNOWN_SESSION_MIN_ELAPSED_FLOOR);
          w = effective_resume_window secs max_w in
      \<lparr>cb_max_resume_window = max_w, cb_resume_window = w, cb_deadline = millis_after disconnected_at w\<rparr>)"

definition reconnect_notify_due :: "millis \<Rightarrow> millis \<Rightarrow> bool" where
  "reconnect_notify_due disconnected_at now \<longleftrightarrow> RECONNECT_NOTIFY_GRACE \<le> millis_sub now disconnected_at"

lemmas resume_consts =
  DEFAULT_RESUME_GRACE_SECS_def DEFAULT_RESUME_WINDOW_def STUN_TO_CROSS_FAMILY_SWITCH_ATTEMPTS_def
  CROSS_FAMILY_SWITCH_DEADLINE_def TRANSPORT_STEP_TIMEOUT_def CROSS_FAMILY_MIN_PROBE_BUDGET_def
  RECONNECT_NOTIFY_GRACE_def BUSY_OTHER_SESSION_RETRY_WINDOW_def UNKNOWN_SESSION_CONFIRM_THRESHOLD_def
  UNKNOWN_SESSION_MIN_ELAPSED_FLOOR_def

section \<open>Retrying while another session is busy\<close>

record busy_other_session_retry =
  bo_deadline :: millis
  bo_attempt :: u32

datatype busy_retry_decision = Busy_GiveUp | Busy_RetryAfter duration

definition busy_start :: "millis \<Rightarrow> duration \<Rightarrow> busy_other_session_retry" where
  "busy_start now window = \<lparr>bo_deadline = millis_after now window, bo_attempt = 0\<rparr>"

definition busy_on_failure ::
  "jitter_fn \<Rightarrow> busy_other_session_retry \<Rightarrow> millis \<Rightarrow> bool \<Rightarrow> u64
   \<Rightarrow> busy_other_session_retry \<times> busy_retry_decision" where
  "busy_on_failure jf b now busy seed =
     (if \<not> busy \<or> bo_deadline b \<le> now then (b, Busy_GiveUp)
      else
        let after = min (next_delay jf RESUME_BACKOFF (bo_attempt b) seed) (millis_sub (bo_deadline b) now) in
        (b\<lparr>bo_attempt := sat_add (bo_attempt b) 1\<rparr>, Busy_RetryAfter after))"

section \<open>The planner\<close>

type_synonym resume_token = u64

datatype dial_path = WarmStandby | Primary | CrossFamily

datatype attempt_failure = UnknownSession | Other | ReplayFailed | Unrecoverable

datatype resume_event =
    REv_Disconnected millis bool u64
  | REv_BackoffElapsed resume_token millis bool
  | REv_AttemptOk resume_token millis
  | REv_AttemptFailed resume_token millis attempt_failure u64
  | REv_Tick millis

datatype switch_trigger = NetworkChangeWhileBackingOff | FailuresOrDeadline

datatype give_up_reason = DeadlineExceeded duration | SessionGone | SessionUnrecoverable

datatype continuity_lost = Lost_RelayUnreachable | Lost_SessionGone

fun continuity_lost_as_str :: "continuity_lost \<Rightarrow> string" where
  "continuity_lost_as_str Lost_RelayUnreachable = ''relay-unreachable''"
| "continuity_lost_as_str Lost_SessionGone = ''session-gone''"

datatype resume_cmd =
    Cmd_ShowReconnecting duration duration
  | Cmd_Backoff resume_token duration
  | Cmd_Dial resume_token dial_path
  | Cmd_SwitchedToCrossFamily switch_trigger
  | Cmd_ReportAttemptFailure u32
  | Cmd_Resumed dial_path bool bool
  | Cmd_GiveUp give_up_reason duration bool "continuity_lost option"

record resume_planner_config =
  rc_effective_resume_grace_secs :: u32
  rc_max_resume_window :: "duration option"
  rc_has_cross_family_target :: bool
  rc_has_warm_standby :: bool

datatype awaiting = Await_Backoff resume_token | Await_Dial resume_token dial_path

record episode =
  ep_disconnected_at :: millis
  ep_resume_window :: duration
  ep_deadline :: millis
  ep_max_resume_window :: "duration option"
  ep_switched_this_call :: bool
  ep_stun_failures :: u32
  ep_switch_attempts_before_cross_family :: u32
  ep_attempt :: u32
  ep_awaiting :: awaiting

datatype phase = Phase_Connected | Phase_Recovering episode | Phase_GaveUp

record resume_planner =
  rp_effective_resume_grace_secs :: u32
  rp_has_cross_family_target :: bool
  rp_has_warm_standby :: bool
  rp_max_resume_window :: "duration option"
  rp_resume_window :: duration
  rp_on_cross_family :: bool
  rp_consecutive_unknown_session :: u32
  rp_next_token :: u64
  rp_phase :: phase

definition rp_new :: "resume_planner_config \<Rightarrow> resume_planner" where
  "rp_new c =
     \<lparr>rp_effective_resume_grace_secs = rc_effective_resume_grace_secs c,
      rp_has_cross_family_target = rc_has_cross_family_target c,
      rp_has_warm_standby = rc_has_warm_standby c,
      rp_max_resume_window = rc_max_resume_window c,
      rp_resume_window = effective_resume_window (rc_effective_resume_grace_secs c) (rc_max_resume_window c),
      rp_on_cross_family = False,
      rp_consecutive_unknown_session = 0,
      rp_next_token = 0,
      rp_phase = Phase_Connected\<rparr>"

definition rp_fresh_token :: "resume_planner \<Rightarrow> resume_token \<times> resume_planner" where
  "rp_fresh_token p = (let n = sat_add (rp_next_token p) 1 in (n, p\<lparr>rp_next_token := n\<rparr>))"

definition rp_cross_family_available :: "resume_planner \<Rightarrow> bool" where
  "rp_cross_family_available p \<longleftrightarrow> rp_has_cross_family_target p \<and> \<not> rp_on_cross_family p"

definition rp_dial_path :: "resume_planner \<Rightarrow> episode \<Rightarrow> dial_path" where
  "rp_dial_path p ep = (if rp_on_cross_family p \<or> ep_switched_this_call ep then CrossFamily else Primary)"

definition rp_continuity_lost_if_applicable ::
  "resume_planner \<Rightarrow> episode \<Rightarrow> continuity_lost \<Rightarrow> continuity_lost option" where
  "rp_continuity_lost_if_applicable p ep reason =
     (if rp_on_cross_family p \<or> ep_switched_this_call ep then Some reason else None)"

definition rp_switch_to_cross_family :: "resume_planner \<Rightarrow> episode \<Rightarrow> millis \<Rightarrow> episode" where
  "rp_switch_to_cross_family p ep now =
     (let budget = cross_family_switch_budget (ep_disconnected_at ep) now (rp_effective_resume_grace_secs p) in
      ep\<lparr>ep_max_resume_window := cb_max_resume_window budget,
         ep_resume_window := cb_resume_window budget,
         ep_deadline := cb_deadline budget,
         ep_switched_this_call := True,
         ep_attempt := 0\<rparr>)"

text \<open>The end of an episode: the command the shell turns into an error.\<close>

definition rp_give_up ::
  "resume_planner \<Rightarrow> episode \<Rightarrow> give_up_reason \<Rightarrow> continuity_lost \<Rightarrow> resume_planner \<times> resume_cmd list" where
  "rp_give_up p ep reason lost =
     (p\<lparr>rp_phase := Phase_GaveUp\<rparr>,
      [Cmd_GiveUp reason (ep_resume_window ep) (ep_max_resume_window ep = None)
         (rp_continuity_lost_if_applicable p ep lost)])"

definition rp_loop_top ::
  "jitter_fn \<Rightarrow> resume_planner \<Rightarrow> episode \<Rightarrow> millis \<Rightarrow> u64 \<Rightarrow> resume_planner \<times> resume_cmd list" where
  "rp_loop_top jf p ep now seed =
     (if ep_deadline ep \<le> now then
        rp_give_up p ep (DeadlineExceeded (millis_sub now (ep_deadline ep))) Lost_RelayUnreachable
      else
        let after = min (next_delay jf RESUME_BACKOFF (ep_attempt ep) seed) (millis_sub (ep_deadline ep) now);
            ep = ep\<lparr>ep_attempt := sat_add (ep_attempt ep) 1\<rparr>;
            (token, p) = rp_fresh_token p;
            ep = ep\<lparr>ep_awaiting := Await_Backoff token\<rparr> in
        (p\<lparr>rp_phase := Phase_Recovering ep\<rparr>, [Cmd_Backoff token after]))"

definition rp_begin_episode ::
  "jitter_fn \<Rightarrow> resume_planner \<Rightarrow> millis \<Rightarrow> bool \<Rightarrow> millis \<Rightarrow> u64 \<Rightarrow> resume_planner \<times> resume_cmd list" where
  "rp_begin_episode jf p disconnected_at by_network_change first_check_at seed =
     (let w = rp_resume_window p;
          ep = \<lparr>ep_disconnected_at = disconnected_at,
                ep_resume_window = w,
                ep_deadline = millis_after disconnected_at w,
                ep_max_resume_window = rp_max_resume_window p,
                ep_switched_this_call = False,
                ep_stun_failures = 0,
                ep_switch_attempts_before_cross_family =
                  (if by_network_change then 1 else STUN_TO_CROSS_FAMILY_SWITCH_ATTEMPTS),
                ep_attempt = 0,
                ep_awaiting = Await_Backoff 0\<rparr> in
      if rp_has_warm_standby p then
        let (token, p) = rp_fresh_token p;
            ep = ep\<lparr>ep_awaiting := Await_Dial token WarmStandby\<rparr> in
        (p\<lparr>rp_phase := Phase_Recovering ep\<rparr>, [Cmd_Dial token WarmStandby])
      else rp_loop_top jf p ep first_check_at seed)"

definition rp_on_disconnected ::
  "jitter_fn \<Rightarrow> resume_planner \<Rightarrow> millis \<Rightarrow> bool \<Rightarrow> u64 \<Rightarrow> resume_planner \<times> resume_cmd list" where
  "rp_on_disconnected jf p now by_network_change seed =
     (if rp_phase p \<noteq> Phase_Connected then (p, [])
      else rp_begin_episode jf p now by_network_change now seed)"

definition rp_on_backoff_elapsed ::
  "resume_planner \<Rightarrow> resume_token \<Rightarrow> millis \<Rightarrow> bool \<Rightarrow> resume_planner \<times> resume_cmd list" where
  "rp_on_backoff_elapsed p token now network_changed =
     (case rp_phase p of
        Phase_Recovering ep \<Rightarrow>
          if ep_awaiting ep \<noteq> Await_Backoff token then (p, [])
          else
            let (ep, cmds) =
                  (if \<not> ep_switched_this_call ep \<and> network_changed \<and> 1 \<le> ep_stun_failures ep
                      \<and> cross_family_probe_fits (millis_sub (ep_deadline ep) now)
                      \<and> rp_cross_family_available p
                   then (rp_switch_to_cross_family p ep now,
                         [Cmd_SwitchedToCrossFamily NetworkChangeWhileBackingOff])
                   else (ep, []));
                (token, p) = rp_fresh_token p;
                path = rp_dial_path p ep;
                ep = ep\<lparr>ep_awaiting := Await_Dial token path\<rparr> in
            (p\<lparr>rp_phase := Phase_Recovering ep\<rparr>, cmds @ [Cmd_Dial token path])
      | _ \<Rightarrow> (p, []))"

definition rp_on_attempt_ok ::
  "resume_planner \<Rightarrow> resume_token \<Rightarrow> millis \<Rightarrow> resume_planner \<times> resume_cmd list" where
  "rp_on_attempt_ok p token now =
     (case rp_phase p of
        Phase_Recovering ep \<Rightarrow>
          (case ep_awaiting ep of
             Await_Dial awaited path \<Rightarrow>
               if awaited \<noteq> token then (p, [])
               else
                 let announce = reconnect_notify_due (ep_disconnected_at ep) now in
                 (case path of
                    WarmStandby \<Rightarrow>
                      (p\<lparr>rp_phase := Phase_Connected\<rparr>, [Cmd_Resumed path announce False])
                  | _ \<Rightarrow>
                      let p = p\<lparr>rp_consecutive_unknown_session := 0\<rparr>;
                          p = (if ep_switched_this_call ep then
                                 p\<lparr>rp_on_cross_family := True,
                                   rp_max_resume_window := None,
                                   rp_resume_window :=
                                     effective_resume_window (rp_effective_resume_grace_secs p) None\<rparr>
                               else p) in
                      (p\<lparr>rp_phase := Phase_Connected\<rparr>,
                       [Cmd_Resumed path announce (ep_switched_this_call ep)]))
           | _ \<Rightarrow> (p, []))
      | _ \<Rightarrow> (p, []))"

text \<open>The arm for \<^verbatim>\<open>UnknownSession | Other\<close> on a real path.\<close>

definition rp_count_failure ::
  "jitter_fn \<Rightarrow> resume_planner \<Rightarrow> episode \<Rightarrow> millis \<Rightarrow> attempt_failure \<Rightarrow> u64
   \<Rightarrow> resume_planner \<times> resume_cmd list" where
  "rp_count_failure jf p ep now kind seed =
     (let ep = (if \<not> ep_switched_this_call ep
                then ep\<lparr>ep_stun_failures := sat_add (ep_stun_failures ep) 1\<rparr> else ep);
          (streak, should_give_up) =
            update_unknown_session_streak (rp_consecutive_unknown_session p) (kind = UnknownSession)
              (millis_sub now (ep_disconnected_at ep));
          p = p\<lparr>rp_consecutive_unknown_session := streak\<rparr> in
      if should_give_up then rp_give_up p ep SessionGone Lost_SessionGone
      else
        let (ep, switch) =
              (if \<not> ep_switched_this_call ep
                  \<and> should_switch_to_cross_family (ep_stun_failures ep)
                      (ep_switch_attempts_before_cross_family ep) (millis_sub (ep_deadline ep) now)
                  \<and> rp_cross_family_available p
               then (rp_switch_to_cross_family p ep now, [Cmd_SwitchedToCrossFamily FailuresOrDeadline])
               else (ep, []));
            (p', cmds) = rp_loop_top jf p ep now seed in
        (p', switch @ [Cmd_ReportAttemptFailure (ep_attempt ep)] @ cmds))"

definition rp_on_attempt_failed ::
  "jitter_fn \<Rightarrow> resume_planner \<Rightarrow> resume_token \<Rightarrow> millis \<Rightarrow> attempt_failure \<Rightarrow> u64
   \<Rightarrow> resume_planner \<times> resume_cmd list" where
  "rp_on_attempt_failed jf p token now kind seed =
     (case rp_phase p of
        Phase_Recovering ep \<Rightarrow>
          (case ep_awaiting ep of
             Await_Dial awaited path \<Rightarrow>
               if awaited \<noteq> token then (p, [])
               else if path = WarmStandby then rp_loop_top jf p ep now seed
               else
                 (case kind of
                    Unrecoverable \<Rightarrow> rp_give_up p ep SessionUnrecoverable Lost_SessionGone
                  | ReplayFailed \<Rightarrow>
                      let p = p\<lparr>rp_consecutive_unknown_session := 0\<rparr>;
                          (p', cmds) = rp_loop_top jf p ep now seed in
                      (p', Cmd_ReportAttemptFailure (ep_attempt ep) # cmds)
                  | _ \<Rightarrow> rp_count_failure jf p ep now kind seed)
           | _ \<Rightarrow> (p, []))
      | _ \<Rightarrow> (p, []))"

definition rp_on_tick :: "resume_planner \<Rightarrow> millis \<Rightarrow> resume_planner \<times> resume_cmd list" where
  "rp_on_tick p now =
     (case rp_phase p of
        Phase_Recovering ep \<Rightarrow>
          if reconnect_notify_due (ep_disconnected_at ep) now then
            (p, [Cmd_ShowReconnecting (millis_sub now (ep_disconnected_at ep)) (ep_resume_window ep)])
          else (p, [])
      | _ \<Rightarrow> (p, []))"

fun rp_apply :: "jitter_fn \<Rightarrow> resume_planner \<Rightarrow> resume_event \<Rightarrow> resume_planner \<times> resume_cmd list" where
  "rp_apply jf p (REv_Disconnected now by_network_change seed) = rp_on_disconnected jf p now by_network_change seed"
| "rp_apply jf p (REv_BackoffElapsed token now network_changed) = rp_on_backoff_elapsed p token now network_changed"
| "rp_apply jf p (REv_AttemptOk token now) = rp_on_attempt_ok p token now"
| "rp_apply jf p (REv_AttemptFailed token now kind seed) = rp_on_attempt_failed jf p token now kind seed"
| "rp_apply jf p (REv_Tick now) = rp_on_tick p now"

section \<open>Time arithmetic\<close>

lemma unat_millis_after: "unat (millis_after t d) = min (unat t + as_millis d) (2 ^ 64 - 1)"
  by (simp add: millis_after_def unat_sat_add unat_u64_try_from min_def)

lemma millis_after_mono: "d \<le> d' \<Longrightarrow> millis_after t d \<le> millis_after t d'"
  using as_millis_mono [of d d'] by (auto simp: word_le_nat_alt unat_millis_after)

lemma effective_window_le: "effective_resume_window secs m \<le> resume_window_for secs"
  by (simp add: effective_resume_window_def clamp_resume_window_def split: option.split)

lemma probe_fits_iff: "cross_family_probe_fits (millis_sub a b) \<longleftrightarrow> unat b + 16000 \<le> unat a"
  by (auto simp: cross_family_probe_fits_def resume_consts duration_defs millis_sub_def)

section \<open>Invariant\<close>

text \<open>What an episode keeps, apart from what it waits for: its deadline is the window after the
  disconnect, the window is the server's grant clamped by the episode's own bound, and it has
  switched only if there is a relay to switch to.\<close>

definition ep_base :: "resume_planner \<Rightarrow> episode \<Rightarrow> bool" where
  "ep_base p ep \<longleftrightarrow>
     ep_deadline ep = millis_after (ep_disconnected_at ep) (ep_resume_window ep)
     \<and> ep_resume_window ep = effective_resume_window (rp_effective_resume_grace_secs p) (ep_max_resume_window ep)
     \<and> (ep_switched_this_call ep \<longrightarrow> rp_cross_family_available p)"

text \<open>The planner waits for the reply to the token it issued last, and dials the path its
  state asks for.\<close>

definition ep_waits :: "resume_planner \<Rightarrow> episode \<Rightarrow> bool" where
  "ep_waits p ep \<longleftrightarrow>
     (case ep_awaiting ep of
        Await_Backoff t \<Rightarrow> t = rp_next_token p
      | Await_Dial t path \<Rightarrow> t = rp_next_token p
          \<and> (path = WarmStandby \<and> \<not> ep_switched_this_call ep \<or> path = rp_dial_path p ep))"

definition rp_inv :: "resume_planner \<Rightarrow> bool" where
  "rp_inv p \<longleftrightarrow>
     rp_resume_window p = effective_resume_window (rp_effective_resume_grace_secs p) (rp_max_resume_window p)
     \<and> (case rp_phase p of Phase_Recovering ep \<Rightarrow> ep_base p ep \<and> ep_waits p ep | _ \<Rightarrow> True)"

lemma rp_inv_new: "rp_inv (rp_new c)"
  by (simp add: rp_inv_def rp_new_def)

lemma loop_top_expired:
  "ep_deadline ep \<le> now \<Longrightarrow> rp_loop_top jf p ep now seed =
     rp_give_up p ep (DeadlineExceeded (millis_sub now (ep_deadline ep))) Lost_RelayUnreachable"
  by (simp add: rp_loop_top_def)

lemma loop_top_backoff:
  "\<not> ep_deadline ep \<le> now \<Longrightarrow> rp_loop_top jf p ep now seed =
     (p\<lparr>rp_next_token := sat_add (rp_next_token p) 1,
        rp_phase := Phase_Recovering (ep\<lparr>ep_attempt := sat_add (ep_attempt ep) 1,
          ep_awaiting := Await_Backoff (sat_add (rp_next_token p) 1)\<rparr>)\<rparr>,
      [Cmd_Backoff (sat_add (rp_next_token p) 1)
         (min (next_delay jf RESUME_BACKOFF (ep_attempt ep) seed) (millis_sub (ep_deadline ep) now))])"
  by (simp add: rp_loop_top_def rp_fresh_token_def Let_def)

lemma rp_inv_give_up: "rp_inv p \<Longrightarrow> rp_inv (fst (rp_give_up p ep r l))"
  by (simp add: rp_inv_def rp_give_up_def)

lemma rp_inv_loop_top:
  assumes "rp_inv p" and "ep_base p ep"
  shows "rp_inv (fst (rp_loop_top jf p ep now seed))"
proof (cases "ep_deadline ep \<le> now")
  case True
  then show ?thesis by (simp add: loop_top_expired rp_inv_give_up assms)
next
  case False
  with assms show ?thesis
    by (simp add: loop_top_backoff rp_inv_def ep_base_def ep_waits_def rp_cross_family_available_def)
qed

lemma ep_base_switch:
  "rp_cross_family_available p \<Longrightarrow> ep_base p (rp_switch_to_cross_family p ep now)"
  by (simp add: ep_base_def rp_switch_to_cross_family_def cross_family_switch_budget_def Let_def)

lemma rp_inv_streak: "rp_inv p \<Longrightarrow> rp_phase p = Phase_Recovering ep \<Longrightarrow> rp_inv (p\<lparr>rp_consecutive_unknown_session := n\<rparr>)"
  by (auto simp: rp_inv_def ep_base_def ep_waits_def rp_cross_family_available_def rp_dial_path_def
      split: awaiting.splits)

lemma ep_base_frame [simp]:
  "ep_base (p\<lparr>rp_consecutive_unknown_session := n\<rparr>) ep = ep_base p ep"
  "ep_base p (ep\<lparr>ep_stun_failures := k\<rparr>) = ep_base p ep"
  by (simp_all add: ep_base_def rp_cross_family_available_def)

text \<open>The arm for ordinary failures, with its two possible outcomes.\<close>

lemma count_failure_cases:
  obtains (gone) n ep' where "rp_count_failure jf p ep now kind seed =
      rp_give_up (p\<lparr>rp_consecutive_unknown_session := n\<rparr>) ep' SessionGone Lost_SessionGone"
    and "kind = UnknownSession" and "n = sat_add (rp_consecutive_unknown_session p) 1"
    and "UNKNOWN_SESSION_CONFIRM_THRESHOLD \<le> n"
    and "UNKNOWN_SESSION_MIN_ELAPSED_FLOOR \<le> millis_sub now (ep_disconnected_at ep)"
    and "ep_switched_this_call ep' = ep_switched_this_call ep"
  | (retry) n ep' ep'' switch where "rp_count_failure jf p ep now kind seed =
      (fst (rp_loop_top jf (p\<lparr>rp_consecutive_unknown_session := n\<rparr>) ep'' now seed),
       switch @ [Cmd_ReportAttemptFailure (ep_attempt ep'')]
         @ snd (rp_loop_top jf (p\<lparr>rp_consecutive_unknown_session := n\<rparr>) ep'' now seed))"
    and "n = (if kind = UnknownSession then sat_add (rp_consecutive_unknown_session p) 1 else 0)"
    and "ep' = (if ep_switched_this_call ep then ep else ep\<lparr>ep_stun_failures := sat_add (ep_stun_failures ep) 1\<rparr>)"
    and "switch = [] \<and> ep'' = ep'
      \<or> switch = [Cmd_SwitchedToCrossFamily FailuresOrDeadline] \<and> ep'' = rp_switch_to_cross_family p ep' now
        \<and> \<not> ep_switched_this_call ep \<and> rp_cross_family_available p
        \<and> should_switch_to_cross_family (ep_stun_failures ep') (ep_switch_attempts_before_cross_family ep')
            (millis_sub (ep_deadline ep) now)"
proof -
  define ep' where "ep' = (if ep_switched_this_call ep then ep else ep\<lparr>ep_stun_failures := sat_add (ep_stun_failures ep) 1\<rparr>)"
  define n where "n = (if kind = UnknownSession then sat_add (rp_consecutive_unknown_session p) 1 else 0)"
  define gone where "gone \<longleftrightarrow> kind = UnknownSession \<and> UNKNOWN_SESSION_CONFIRM_THRESHOLD \<le> n
    \<and> UNKNOWN_SESSION_MIN_ELAPSED_FLOOR \<le> millis_sub now (ep_disconnected_at ep)"
  define sw where "sw \<longleftrightarrow> \<not> ep_switched_this_call ep'
    \<and> should_switch_to_cross_family (ep_stun_failures ep') (ep_switch_attempts_before_cross_family ep')
        (millis_sub (ep_deadline ep') now) \<and> rp_cross_family_available p"
  have streak: "update_unknown_session_streak (rp_consecutive_unknown_session p) (kind = UnknownSession)
      (millis_sub now (ep_disconnected_at ep)) = (n, gone)"
    by (simp add: update_unknown_session_streak_def n_def gone_def Let_def)
  have ep': "ep_disconnected_at ep' = ep_disconnected_at ep" "ep_switched_this_call ep' = ep_switched_this_call ep"
    "ep_deadline ep' = ep_deadline ep"
    by (simp_all add: ep'_def)
  have avail: "rp_cross_family_available (p\<lparr>rp_consecutive_unknown_session := m\<rparr>) = rp_cross_family_available p" for m
    by (simp add: rp_cross_family_available_def)
  have switch: "rp_switch_to_cross_family (p\<lparr>rp_consecutive_unknown_session := m\<rparr>) ep0 now
      = rp_switch_to_cross_family p ep0 now" for m ep0
    by (simp add: rp_switch_to_cross_family_def)
  have eq: "rp_count_failure jf p ep now kind seed =
      (if gone then rp_give_up (p\<lparr>rp_consecutive_unknown_session := n\<rparr>) ep' SessionGone Lost_SessionGone
       else let ep'' = (if sw then rp_switch_to_cross_family p ep' now else ep');
                switch = (if sw then [Cmd_SwitchedToCrossFamily FailuresOrDeadline] else []);
                r = rp_loop_top jf (p\<lparr>rp_consecutive_unknown_session := n\<rparr>) ep'' now seed in
            (fst r, switch @ [Cmd_ReportAttemptFailure (ep_attempt ep'')] @ snd r))"
    by (cases "ep_switched_this_call ep")
      (simp_all add: rp_count_failure_def ep'_def streak avail switch sw_def case_prod_beta Let_def)
  show thesis
  proof (cases gone)
    case True
    then show thesis
      using eq ep'(2) by (intro that(1) [of n ep']) (auto simp: gone_def n_def)
  next
    case False
    then show thesis
      using eq ep'(3)
      by (intro that(2) [of n "if sw then rp_switch_to_cross_family p ep' now else ep'"
            "if sw then [Cmd_SwitchedToCrossFamily FailuresOrDeadline] else []" ep'])
        (auto simp: n_def ep'_def sw_def Let_def)
  qed
qed

lemma rp_inv_count_failure:
  assumes "rp_inv p" and "rp_phase p = Phase_Recovering ep"
  shows "rp_inv (fst (rp_count_failure jf p ep now kind seed))"
proof (rule count_failure_cases [of jf p ep now kind seed])
  have base: "ep_base p ep" using assms by (simp add: rp_inv_def)
  note inv = rp_inv_streak [OF assms]
  {
    fix n ep'
    assume "rp_count_failure jf p ep now kind seed =
      rp_give_up (p\<lparr>rp_consecutive_unknown_session := n\<rparr>) ep' SessionGone Lost_SessionGone"
    then show ?thesis by (simp add: rp_inv_give_up inv)
  next
    fix n ep' ep'' switch
    assume eq: "rp_count_failure jf p ep now kind seed =
      (fst (rp_loop_top jf (p\<lparr>rp_consecutive_unknown_session := n\<rparr>) ep'' now seed),
       switch @ [Cmd_ReportAttemptFailure (ep_attempt ep'')]
         @ snd (rp_loop_top jf (p\<lparr>rp_consecutive_unknown_session := n\<rparr>) ep'' now seed))"
      and ep': "ep' = (if ep_switched_this_call ep then ep else ep\<lparr>ep_stun_failures := sat_add (ep_stun_failures ep) 1\<rparr>)"
      and ep'': "switch = [] \<and> ep'' = ep'
      \<or> switch = [Cmd_SwitchedToCrossFamily FailuresOrDeadline] \<and> ep'' = rp_switch_to_cross_family p ep' now
        \<and> \<not> ep_switched_this_call ep \<and> rp_cross_family_available p
        \<and> should_switch_to_cross_family (ep_stun_failures ep') (ep_switch_attempts_before_cross_family ep')
            (millis_sub (ep_deadline ep) now)"
    have "ep_base p ep''" using ep'' ep' base by (auto simp: ep_base_switch)
    then show ?thesis by (simp add: eq rp_inv_loop_top inv)
  }
qed

text \<open>The end of a wait, with the switch a network change may cause.\<close>

definition nc_switch :: "resume_planner \<Rightarrow> episode \<Rightarrow> millis \<Rightarrow> bool \<Rightarrow> bool" where
  "nc_switch p ep now network_changed \<longleftrightarrow>
     \<not> ep_switched_this_call ep \<and> network_changed \<and> 1 \<le> ep_stun_failures ep
     \<and> cross_family_probe_fits (millis_sub (ep_deadline ep) now) \<and> rp_cross_family_available p"

lemma rp_inv_dial:
  assumes "rp_inv p" and "ep_base p ep"
  shows "rp_inv (p\<lparr>rp_next_token := t,
    rp_phase := Phase_Recovering (ep\<lparr>ep_awaiting := Await_Dial t (rp_dial_path p ep)\<rparr>)\<rparr>)"
  using assms by (simp add: rp_inv_def ep_base_def ep_waits_def rp_cross_family_available_def rp_dial_path_def)

lemma backoff_elapsed_eq:
  assumes "rp_phase p = Phase_Recovering ep" and "ep_awaiting ep = Await_Backoff token"
  defines "ep' \<equiv> \<lambda>now nc. if nc_switch p ep now nc then rp_switch_to_cross_family p ep now else ep"
    and "t \<equiv> sat_add (rp_next_token p) 1"
  shows "rp_on_backoff_elapsed p token now nc =
    (p\<lparr>rp_next_token := t,
       rp_phase := Phase_Recovering (ep' now nc\<lparr>ep_awaiting := Await_Dial t (rp_dial_path p (ep' now nc))\<rparr>)\<rparr>,
     (if nc_switch p ep now nc then [Cmd_SwitchedToCrossFamily NetworkChangeWhileBackingOff] else [])
     @ [Cmd_Dial t (rp_dial_path p (ep' now nc))])"
proof -
  have "rp_dial_path (p\<lparr>rp_next_token := n\<rparr>) = rp_dial_path p" for n
    by (rule ext) (simp add: rp_dial_path_def)
  then show ?thesis
    using assms(1,2) unfolding rp_on_backoff_elapsed_def nc_switch_def [symmetric]
    by (simp add: ep'_def t_def rp_fresh_token_def Let_def)
qed

lemma rp_inv_step:
  assumes inv: "rp_inv p"
  shows "rp_inv (fst (rp_apply jf p e))"
proof (cases e)
  case (REv_Disconnected now nc seed)
  consider "rp_phase p \<noteq> Phase_Connected" | "rp_phase p = Phase_Connected" "rp_has_warm_standby p"
    | "rp_phase p = Phase_Connected" "\<not> rp_has_warm_standby p" by blast
  then show ?thesis
  proof cases
    case 1
    then show ?thesis by (simp add: REv_Disconnected rp_on_disconnected_def inv)
  next
    case 2
    with inv show ?thesis
      by (simp add: REv_Disconnected rp_on_disconnected_def rp_begin_episode_def Let_def rp_inv_def
          rp_fresh_token_def ep_base_def ep_waits_def)
  next
    case 3
    have "rp_resume_window p = effective_resume_window (rp_effective_resume_grace_secs p) (rp_max_resume_window p)"
      using inv by (simp add: rp_inv_def)
    with 3 show ?thesis
      by (auto simp: REv_Disconnected rp_on_disconnected_def rp_begin_episode_def Let_def
          ep_base_def intro!: rp_inv_loop_top inv)
  qed
next
  case (REv_BackoffElapsed token now nc)
  show ?thesis
  proof (cases "\<exists>ep. rp_phase p = Phase_Recovering ep \<and> ep_awaiting ep = Await_Backoff token")
    case False
    with inv show ?thesis by (auto simp: REv_BackoffElapsed rp_on_backoff_elapsed_def split: phase.split)
  next
    case True
    then obtain ep where ph: "rp_phase p = Phase_Recovering ep" and aw: "ep_awaiting ep = Await_Backoff token"
      by blast
    have base: "ep_base p ep" using inv ph by (simp add: rp_inv_def)
    have "ep_base p (if nc_switch p ep now nc then rp_switch_to_cross_family p ep now else ep)"
      using base by (simp add: ep_base_switch nc_switch_def)
    then show ?thesis
      using rp_inv_dial [OF inv] by (simp add: REv_BackoffElapsed backoff_elapsed_eq [OF ph aw])
  qed
next
  case (REv_AttemptOk token now)
  with inv show ?thesis
    by (auto simp: rp_on_attempt_ok_def rp_inv_def Let_def split: phase.splits awaiting.splits dial_path.splits)
next
  case (REv_AttemptFailed token now kind seed)
  show ?thesis
  proof (cases "rp_phase p")
    case (Phase_Recovering ep)
    then have base: "ep_base p ep" using inv by (simp add: rp_inv_def)
    have "rp_inv (fst (rp_loop_top jf (p\<lparr>rp_consecutive_unknown_session := 0\<rparr>) ep now seed))"
      using rp_inv_streak [OF inv Phase_Recovering] base by (simp add: rp_inv_loop_top)
    with Phase_Recovering REv_AttemptFailed show ?thesis
      using rp_inv_count_failure [OF inv Phase_Recovering] rp_inv_loop_top [OF inv base] inv
      by (auto simp: rp_on_attempt_failed_def case_prod_beta Let_def rp_inv_give_up
          split: awaiting.splits attempt_failure.splits)
  qed (use inv REv_AttemptFailed in \<open>simp_all add: rp_on_attempt_failed_def\<close>)
next
  case (REv_Tick now)
  with inv show ?thesis by (auto simp: rp_on_tick_def split: phase.splits)
qed

interpretation rp: reducer "rp_apply jf" rp_inv for jf
  by unfold_locales (rule rp_inv_step)

section \<open>Tokens and stale replies\<close>

definition tokens :: "resume_cmd list \<Rightarrow> resume_token list" where
  "tokens cmds = concat (map (\<lambda>c. case c of Cmd_Backoff t _ \<Rightarrow> [t] | Cmd_Dial t _ \<Rightarrow> [t] | _ \<Rightarrow> []) cmds)"

lemma tokens_simps [simp]:
  "tokens [] = []" "tokens (xs @ ys) = tokens xs @ tokens ys"
  "tokens (Cmd_Backoff t d # cs) = t # tokens cs" "tokens (Cmd_Dial t q # cs) = t # tokens cs"
  "tokens (Cmd_SwitchedToCrossFamily g # cs) = tokens cs" "tokens (Cmd_ReportAttemptFailure n # cs) = tokens cs"
  "tokens (Cmd_Resumed q b b' # cs) = tokens cs" "tokens (Cmd_GiveUp r w b c # cs) = tokens cs"
  "tokens (Cmd_ShowReconnecting d d' # cs) = tokens cs"
  by (simp_all add: tokens_def)

definition one_token :: "resume_planner \<Rightarrow> resume_planner \<times> resume_cmd list \<Rightarrow> bool" where
  "one_token p r \<longleftrightarrow>
     tokens (snd r) = [] \<and> rp_next_token (fst r) = rp_next_token p
     \<or> tokens (snd r) = [sat_add (rp_next_token p) 1] \<and> rp_next_token (fst r) = sat_add (rp_next_token p) 1"

lemma one_token_loop_top: "one_token p (rp_loop_top jf p ep now seed)"
  by (cases "ep_deadline ep \<le> now")
    (simp_all add: loop_top_expired loop_top_backoff one_token_def rp_give_up_def)

lemma one_token_count_failure: "one_token p (rp_count_failure jf p ep now kind seed)"
proof (rule count_failure_cases [of jf p ep now kind seed])
  fix n ep'
  assume "rp_count_failure jf p ep now kind seed =
      rp_give_up (p\<lparr>rp_consecutive_unknown_session := n\<rparr>) ep' SessionGone Lost_SessionGone"
  then show ?thesis by (simp add: one_token_def rp_give_up_def)
next
  fix n ep' ep'' switch
  let ?p = "p\<lparr>rp_consecutive_unknown_session := n\<rparr>"
  assume eq: "rp_count_failure jf p ep now kind seed =
      (fst (rp_loop_top jf ?p ep'' now seed),
       switch @ [Cmd_ReportAttemptFailure (ep_attempt ep'')] @ snd (rp_loop_top jf ?p ep'' now seed))"
    and "switch = [] \<and> ep'' = ep'
      \<or> switch = [Cmd_SwitchedToCrossFamily FailuresOrDeadline] \<and> ep'' = rp_switch_to_cross_family p ep' now
        \<and> \<not> ep_switched_this_call ep \<and> rp_cross_family_available p
        \<and> should_switch_to_cross_family (ep_stun_failures ep') (ep_switch_attempts_before_cross_family ep')
            (millis_sub (ep_deadline ep) now)"
  then have "tokens switch = []" by auto
  with one_token_loop_top [of ?p jf ep'' now seed] show ?thesis by (simp add: eq one_token_def)
qed

lemma one_token_step: "one_token p (rp_apply jf p e)"
proof (cases e)
  case (REv_Disconnected now nc seed)
  then show ?thesis
    using one_token_loop_top
    by (auto simp: rp_on_disconnected_def rp_begin_episode_def rp_fresh_token_def Let_def)
      (auto simp: one_token_def)
next
  case (REv_BackoffElapsed token now nc)
  then show ?thesis
    by (auto simp: rp_on_backoff_elapsed_def rp_fresh_token_def Let_def one_token_def split: phase.splits)
next
  case (REv_AttemptOk token now)
  then show ?thesis
    by (auto simp: rp_on_attempt_ok_def Let_def one_token_def split: phase.splits awaiting.splits dial_path.splits)
next
  case (REv_AttemptFailed token now kind seed)
  have "one_token p (p, [])" "one_token p (rp_give_up p ep r l)" for ep r l
    by (simp_all add: one_token_def rp_give_up_def)
  moreover have "one_token p (case rp_loop_top jf (p\<lparr>rp_consecutive_unknown_session := 0\<rparr>) ep now seed of
      (p', cmds) \<Rightarrow> (p', Cmd_ReportAttemptFailure k # cmds))" for ep k
    using one_token_loop_top [of "p\<lparr>rp_consecutive_unknown_session := 0\<rparr>" jf ep now seed]
    by (simp add: one_token_def case_prod_beta)
  ultimately show ?thesis
    using one_token_loop_top one_token_count_failure REv_AttemptFailed
    by (auto simp: rp_on_attempt_failed_def Let_def split: phase.splits awaiting.splits attempt_failure.splits)
next
  case (REv_Tick now)
  then show ?thesis by (auto simp: rp_on_tick_def one_token_def split: phase.splits)
qed

lemma tokens_run:
  "unat (rp_next_token p) + length es < 2 ^ 64 \<Longrightarrow>
   sorted_wrt (<) (tokens (snd (run (rp_apply jf) p es)))
   \<and> (\<forall>t \<in> set (tokens (snd (run (rp_apply jf) p es))). rp_next_token p < t)"
proof (induction es arbitrary: p)
  case (Cons e es)
  let ?p = "fst (rp_apply jf p e)"
  have up: "unat (sat_add (rp_next_token p) 1) = unat (rp_next_token p) + 1"
    using Cons.prems by (simp add: unat_sat_add)
  have "unat (rp_next_token ?p) + length es < 2 ^ 64"
    using one_token_step [of p jf e] Cons.prems up by (auto simp: one_token_def)
  from Cons.IH [OF this] have ih: "sorted_wrt (<) (tokens (snd (run (rp_apply jf) ?p es)))"
    "\<And>t. t \<in> set (tokens (snd (run (rp_apply jf) ?p es))) \<Longrightarrow> rp_next_token ?p < t"
    by blast+
  have less: "rp_next_token p < sat_add (rp_next_token p) 1" by (simp add: word_less_nat_alt up)
  show ?case
    using one_token_step [of p jf e] ih less unfolding one_token_def by (auto intro: less_trans)
qed simp

fun rp_current :: "resume_planner \<Rightarrow> resume_event \<Rightarrow> bool" where
  "rp_current p (REv_Disconnected _ _ _) \<longleftrightarrow> rp_phase p = Phase_Connected"
| "rp_current p (REv_BackoffElapsed t _ _) \<longleftrightarrow>
     (case rp_phase p of Phase_Recovering ep \<Rightarrow> ep_awaiting ep = Await_Backoff t | _ \<Rightarrow> False)"
| "rp_current p (REv_AttemptOk t _) \<longleftrightarrow>
     (case rp_phase p of
        Phase_Recovering ep \<Rightarrow> (case ep_awaiting ep of Await_Dial t' _ \<Rightarrow> t' = t | _ \<Rightarrow> False) | _ \<Rightarrow> False)"
| "rp_current p (REv_AttemptFailed t _ _ _) \<longleftrightarrow>
     (case rp_phase p of
        Phase_Recovering ep \<Rightarrow> (case ep_awaiting ep of Await_Dial t' _ \<Rightarrow> t' = t | _ \<Rightarrow> False) | _ \<Rightarrow> False)"
| "rp_current p (REv_Tick _) \<longleftrightarrow> (case rp_phase p of Phase_Recovering _ \<Rightarrow> True | _ \<Rightarrow> False)"

interpretation rp_stale: stale_guard "rp_apply jf" rp_current for jf
proof
  fix p e
  assume "\<not> rp_current p e"
  then show "rp_apply jf p e = (p, [])"
    by (cases e) (auto simp: rp_on_disconnected_def rp_on_backoff_elapsed_def rp_on_attempt_ok_def
        rp_on_attempt_failed_def rp_on_tick_def split: phase.splits awaiting.splits)
qed

section \<open>Bounds of the waits\<close>

lemma resume_backoff_le: "next_delay jf RESUME_BACKOFF attempt seed \<le> from_secs 10"
  using next_delay_le [of RESUME_BACKOFF jf attempt seed] by (simp add: RESUME_BACKOFF_def duration_defs)

interpretation resume_backoff: backoff_source "next_delay jf RESUME_BACKOFF" "from_secs 10" for jf
  by unfold_locales (rule resume_backoff_le)

fun event_time :: "resume_event \<Rightarrow> millis" where
  "event_time (REv_Disconnected now _ _) = now"
| "event_time (REv_BackoffElapsed _ now _) = now"
| "event_time (REv_AttemptOk _ now) = now"
| "event_time (REv_AttemptFailed _ now _ _) = now"
| "event_time (REv_Tick now) = now"

text \<open>A wait of a step that leaves the planner in an episode: short of the deadline, and of the
  policy's maximum.\<close>

definition wait_ok :: "millis \<Rightarrow> resume_planner \<times> resume_cmd list \<Rightarrow> bool" where
  "wait_ok now r \<longleftrightarrow>
     (\<forall>t after. Cmd_Backoff t after \<in> set (snd r) \<longrightarrow>
        (\<exists>ep. rp_phase (fst r) = Phase_Recovering ep \<and> now < ep_deadline ep
           \<and> after \<le> millis_sub (ep_deadline ep) now \<and> after \<le> from_secs 10))"

lemma wait_ok_loop_top: "wait_ok now (rp_loop_top jf p ep now seed)"
proof (cases "ep_deadline ep \<le> now")
  case True
  then show ?thesis by (simp add: loop_top_expired rp_give_up_def wait_ok_def)
next
  case False
  then show ?thesis
    using resume_backoff.clipped_le [of jf "ep_attempt ep" seed "millis_sub (ep_deadline ep) now"]
    by (simp add: loop_top_backoff wait_ok_def not_le)
qed

lemma wait_ok_prefix:
  "(\<And>t d. Cmd_Backoff t d \<notin> set pre) \<Longrightarrow> wait_ok now r \<Longrightarrow> wait_ok now (fst r, pre @ snd r)"
  by (auto simp: wait_ok_def)

lemma wait_ok_step: "wait_ok (event_time e) (rp_apply jf p e)"
proof (cases e)
  case (REv_Disconnected now nc seed)
  then show ?thesis
    using wait_ok_loop_top
    by (auto simp: rp_on_disconnected_def rp_begin_episode_def rp_fresh_token_def Let_def)
      (auto simp: wait_ok_def)
next
  case (REv_BackoffElapsed token now nc)
  then show ?thesis
    by (auto simp: rp_on_backoff_elapsed_def rp_fresh_token_def Let_def wait_ok_def split: phase.splits)
next
  case (REv_AttemptOk token now)
  then show ?thesis
    by (auto simp: rp_on_attempt_ok_def Let_def wait_ok_def split: phase.splits awaiting.splits dial_path.splits)
next
  case (REv_AttemptFailed token now kind seed)
  have idle: "wait_ok now (p, [])" "wait_ok now (rp_give_up q ep r l)" for q ep r l
    by (simp_all add: wait_ok_def rp_give_up_def)
  have replay: "wait_ok now (case rp_loop_top jf (p\<lparr>rp_consecutive_unknown_session := 0\<rparr>) ep now seed of
      (p', cmds) \<Rightarrow> (p', Cmd_ReportAttemptFailure k # cmds))" for ep k
    using wait_ok_prefix [OF _ wait_ok_loop_top, of "[Cmd_ReportAttemptFailure k]"]
    by (simp add: case_prod_beta)
  have counted: "wait_ok now (rp_count_failure jf p ep now kind seed)" for ep
  proof (rule count_failure_cases [of jf p ep now kind seed], goal_cases)
    case (2 n ep' ep'' switch)
    then show ?case
      using wait_ok_prefix [OF _ wait_ok_loop_top, of "switch @ [Cmd_ReportAttemptFailure (ep_attempt ep'')]"]
      by auto
  qed (simp add: idle)
  show ?thesis
    using idle replay counted wait_ok_loop_top REv_AttemptFailed
    by (auto simp: rp_on_attempt_failed_def Let_def split: phase.splits awaiting.splits attempt_failure.splits)
next
  case (REv_Tick now)
  then show ?thesis by (auto simp: rp_on_tick_def wait_ok_def split: phase.splits)
qed

section \<open>Switching to the relay\<close>

definition switches :: "resume_cmd list \<Rightarrow> nat" where
  "switches cmds = length (filter (\<lambda>c. case c of Cmd_SwitchedToCrossFamily _ \<Rightarrow> True | _ \<Rightarrow> False) cmds)"

lemma switches_simps [simp]:
  "switches [] = 0" "switches (xs @ ys) = switches xs + switches ys"
  "switches (Cmd_Backoff t d # cs) = switches cs" "switches (Cmd_Dial t q # cs) = switches cs"
  "switches (Cmd_SwitchedToCrossFamily g # cs) = Suc (switches cs)"
  "switches (Cmd_ReportAttemptFailure n # cs) = switches cs"
  "switches (Cmd_Resumed q b b' # cs) = switches cs" "switches (Cmd_GiveUp r w b c # cs) = switches cs"
  "switches (Cmd_ShowReconnecting d d' # cs) = switches cs"
  by (simp_all add: switches_def)

text \<open>The session has used its switch, or can no longer make one.\<close>

definition switch_spent :: "resume_planner \<Rightarrow> bool" where
  "switch_spent p \<longleftrightarrow>
     rp_on_cross_family p \<or> rp_phase p = Phase_GaveUp
     \<or> (\<exists>ep. rp_phase p = Phase_Recovering ep \<and> ep_switched_this_call ep)"

definition switch_once :: "resume_planner \<Rightarrow> resume_planner \<times> resume_cmd list \<Rightarrow> bool" where
  "switch_once p r \<longleftrightarrow>
     switches (snd r) \<le> (if switch_spent p then 0 else 1)
     \<and> (switch_spent p \<or> 0 < switches (snd r) \<longrightarrow> switch_spent (fst r))"

lemma loop_top_switches:
  "switches (snd (rp_loop_top jf p ep now seed)) = 0"
  "rp_on_cross_family (fst (rp_loop_top jf p ep now seed)) = rp_on_cross_family p"
  "ep_switched_this_call ep \<Longrightarrow> switch_spent (fst (rp_loop_top jf p ep now seed))"
  by (cases "ep_deadline ep \<le> now"; simp add: loop_top_expired loop_top_backoff rp_give_up_def switch_spent_def)+

lemma switch_once_step:
  assumes inv: "rp_inv p"
  shows "switch_once p (rp_apply jf p e)"
proof (cases "rp_current p e")
  case False
  then show ?thesis by (simp add: rp_stale.stale_step switch_once_def)
next
  case cur: True
  show ?thesis
  proof (cases e)
    case (REv_Disconnected now nc seed)
    with cur show ?thesis
      by (auto simp: rp_on_disconnected_def rp_begin_episode_def rp_fresh_token_def Let_def switch_once_def
          loop_top_switches switch_spent_def)
  next
    case (REv_BackoffElapsed token now nc)
    with cur show ?thesis
      by (auto simp: rp_on_backoff_elapsed_def rp_fresh_token_def Let_def switch_once_def switch_spent_def
          rp_switch_to_cross_family_def rp_cross_family_available_def split: phase.splits)
  next
    case (REv_AttemptOk token now)
    with cur inv show ?thesis
      by (auto simp: rp_on_attempt_ok_def Let_def switch_once_def switch_spent_def rp_inv_def ep_waits_def
          rp_dial_path_def split: phase.splits awaiting.splits dial_path.splits)
  next
    case (REv_AttemptFailed token now kind seed)
    from cur REv_AttemptFailed obtain ep path where ph: "rp_phase p = Phase_Recovering ep"
      and aw: "ep_awaiting ep = Await_Dial token path"
      by (auto split: phase.splits awaiting.splits)
    have give_up: "switch_once p (rp_give_up q ep' r l)" for q ep' r l
      by (simp add: switch_once_def rp_give_up_def switch_spent_def)
    have retry: "switch_once p (fst (rp_loop_top jf q ep' now seed), pre @ snd (rp_loop_top jf q ep' now seed))"
      if "switches pre = 0" "rp_on_cross_family q = rp_on_cross_family p"
        "ep_switched_this_call ep' = ep_switched_this_call ep" for q ep' pre
      using that ph loop_top_switches [where jf = jf and p = q and ep = ep' and now = now and seed = seed]
      by (auto simp: switch_once_def) (auto simp: switch_spent_def)
    have counted: "switch_once p (rp_count_failure jf p ep now kind seed)"
    proof (rule count_failure_cases [of jf p ep now kind seed], goal_cases)
      case 1
      then show ?case by (simp add: give_up)
    next
      case (2 n ep' ep'' switch)
      show ?case
      proof (cases "switch = []")
        case True
        with 2 retry [of "[Cmd_ReportAttemptFailure (ep_attempt ep'')]" "p\<lparr>rp_consecutive_unknown_session := n\<rparr>" ep'']
        show ?thesis by auto
      next
        case False
        with 2 have sw: "switch = [Cmd_SwitchedToCrossFamily FailuresOrDeadline]" "ep_switched_this_call ep''"
          "\<not> switch_spent p"
          using ph by (auto simp: rp_switch_to_cross_family_def Let_def switch_spent_def rp_cross_family_available_def)
        then show ?thesis
          by (simp add: 2(1) switch_once_def loop_top_switches(1,3))
      qed
    qed
    show ?thesis
      using retry [of "[]" p ep] give_up counted
        retry [of "[Cmd_ReportAttemptFailure (ep_attempt ep)]" "p\<lparr>rp_consecutive_unknown_session := 0\<rparr>" ep]
      by (auto simp: REv_AttemptFailed rp_on_attempt_failed_def ph aw Let_def case_prod_beta
          split: attempt_failure.splits)
  next
    case (REv_Tick now)
    then show ?thesis by (auto simp: rp_on_tick_def switch_once_def split: phase.splits)
  qed
qed

lemma switches_run:
  "rp_inv p \<Longrightarrow> switches (snd (run (rp_apply jf) p es)) \<le> (if switch_spent p then 0 else 1)"
proof (induction es arbitrary: p)
  case (Cons e es)
  from Cons.IH [OF rp_inv_step [OF Cons.prems], of jf e] switch_once_step [OF Cons.prems, of jf e]
  show ?case by (auto simp: switch_once_def split: if_splits)
qed simp

text \<open>After a switch there is still time for one probe of the relay.\<close>

lemma as_millis_min_max:
  "as_millis (min a b) = min (as_millis a) (as_millis b)" "as_millis (max a b) = max (as_millis a) (as_millis b)"
  using as_millis_mono [of a b] as_millis_mono [of b a] by (auto simp: min_def max_def)

lemma switch_keeps_probe:
  assumes base: "ep_base p ep" and fits: "cross_family_probe_fits (millis_sub (ep_deadline ep) now)"
  shows "cross_family_probe_fits (millis_sub (ep_deadline (rp_switch_to_cross_family p ep now)) now)"
proof -
  let ?d = "ep_disconnected_at ep" and ?g = "rp_effective_resume_grace_secs p"
  let ?w = "min (resume_window_for ?g) (max (millis_sub now ?d + from_secs 45) (from_secs 30))"
  have new: "ep_deadline (rp_switch_to_cross_family p ep now) = millis_after ?d ?w"
    by (simp add: rp_switch_to_cross_family_def cross_family_switch_budget_def Let_def resume_consts
        effective_resume_window_def clamp_resume_window_def)
  have win: "as_millis (ep_resume_window ep) \<le> as_millis (resume_window_for ?g)"
    using base effective_window_le [of ?g "ep_max_resume_window ep"] by (simp add: ep_base_def as_millis_mono)
  have "as_millis (millis_sub now ?d + from_secs 45) = (unat now - unat ?d) + 45000"
    by (simp add: millis_sub_def duration_defs)
  then have w: "as_millis ?w = min (as_millis (resume_window_for ?g)) (max ((unat now - unat ?d) + 45000) 30000)"
    by (simp add: as_millis_min_max) (simp add: duration_defs)
  from fits base have "unat now + 16000 \<le> min (unat ?d + as_millis (ep_resume_window ep)) (2 ^ 64 - 1)"
    by (simp add: probe_fits_iff ep_base_def unat_millis_after)
  with win have "unat now + 16000 \<le> min (unat ?d + as_millis ?w) (2 ^ 64 - 1)"
    unfolding w by linarith
  then show ?thesis by (simp add: new probe_fits_iff unat_millis_after)
qed

lemma probe_fits_before: "cross_family_probe_fits (millis_sub d now) \<Longrightarrow> \<not> d \<le> now"
  by (simp add: probe_fits_iff word_le_nat_alt)

lemma switch_effect:
  assumes inv: "rp_inv p" and mem: "Cmd_SwitchedToCrossFamily g \<in> set (snd (rp_apply jf p e))"
  shows "\<exists>ep ep'. rp_phase p = Phase_Recovering ep \<and> \<not> ep_switched_this_call ep
    \<and> rp_phase (fst (rp_apply jf p e)) = Phase_Recovering ep' \<and> ep_switched_this_call ep'
    \<and> 1 \<le> ep_stun_failures ep' \<and> ep_disconnected_at ep' = ep_disconnected_at ep
    \<and> cross_family_probe_fits (millis_sub (ep_deadline ep') (event_time e))"
proof -
  have cur: "rp_current p e" using mem rp_stale.stale_step [of p e jf] by (cases "rp_current p e") auto
  have none: "Cmd_SwitchedToCrossFamily g \<notin> set (snd (rp_loop_top jf q ep now seed))" for q ep now seed
    by (cases "ep_deadline ep \<le> now") (simp_all add: loop_top_expired loop_top_backoff rp_give_up_def)
  show ?thesis
  proof (cases e)
    case (REv_BackoffElapsed token now nc)
    with cur obtain ep where ph: "rp_phase p = Phase_Recovering ep" and aw: "ep_awaiting ep = Await_Backoff token"
      by (auto split: phase.splits)
    have base: "ep_base p ep" using inv ph by (simp add: rp_inv_def)
    from mem have sw: "nc_switch p ep now nc"
      by (auto simp: REv_BackoffElapsed backoff_elapsed_eq [OF ph aw] split: if_splits)
    then have "\<not> ep_switched_this_call ep" "1 \<le> ep_stun_failures ep"
      and "cross_family_probe_fits (millis_sub (ep_deadline (rp_switch_to_cross_family p ep now)) now)"
      using switch_keeps_probe [OF base] by (simp_all add: nc_switch_def)
    with sw ph show ?thesis
      by (simp add: REv_BackoffElapsed backoff_elapsed_eq [OF ph aw])
        (simp add: rp_switch_to_cross_family_def Let_def)
  next
    case (REv_AttemptFailed token now kind seed)
    from cur REv_AttemptFailed obtain ep path where ph: "rp_phase p = Phase_Recovering ep"
      and aw: "ep_awaiting ep = Await_Dial token path"
      by (auto split: phase.splits awaiting.splits)
    have base: "ep_base p ep" using inv ph by (simp add: rp_inv_def)
    from mem have mem': "Cmd_SwitchedToCrossFamily g \<in> set (snd (rp_count_failure jf p ep now kind seed))"
      and eq: "rp_apply jf p e = rp_count_failure jf p ep now kind seed"
      using none
      by (auto simp: REv_AttemptFailed rp_on_attempt_failed_def ph aw Let_def case_prod_beta rp_give_up_def
          split: attempt_failure.splits if_splits)
    from mem' show ?thesis
    proof (cases rule: count_failure_cases [of jf p ep now kind seed, case_names gone retry])
      case (gone n ep')
      with mem' show ?thesis by (simp add: rp_give_up_def)
    next
      case (retry n ep' ep'' switch)
      with mem' none have sw: "ep'' = rp_switch_to_cross_family p ep' now" "\<not> ep_switched_this_call ep"
        "should_switch_to_cross_family (ep_stun_failures ep') (ep_switch_attempts_before_cross_family ep')
            (millis_sub (ep_deadline ep) now)"
        by auto
      with retry have ep': "ep' = ep\<lparr>ep_stun_failures := sat_add (ep_stun_failures ep) 1\<rparr>" by simp
      have "unat (1 :: u32) \<le> unat (sat_add (ep_stun_failures ep) 1)"
        by (simp add: unat_sat_add)
      then have pos: "1 \<le> ep_stun_failures ep'" by (simp add: ep' word_le_nat_alt)
      have fits: "cross_family_probe_fits (millis_sub (ep_deadline ep'') now)"
        using sw base by (simp add: switch_keeps_probe ep' should_switch_to_cross_family_def)
      from probe_fits_before [OF this] retry(1) eq ph sw(2) pos fits show ?thesis
        by (simp add: REv_AttemptFailed loop_top_backoff)
          (simp add: sw(1) rp_switch_to_cross_family_def Let_def ep')
    qed
  qed (use mem none in \<open>auto simp: rp_on_disconnected_def rp_begin_episode_def rp_fresh_token_def Let_def
      rp_on_attempt_ok_def rp_on_tick_def split: phase.splits awaiting.splits dial_path.splits if_splits\<close>)
qed

section \<open>Every event is answered\<close>

definition answers :: "resume_planner \<times> resume_cmd list \<Rightarrow> bool" where
  "answers r \<longleftrightarrow> snd r \<noteq> [] \<and>
     (case rp_phase (fst r) of
        Phase_Recovering ep \<Rightarrow>
          (case ep_awaiting ep of
             Await_Backoff t \<Rightarrow> (\<exists>d. last (snd r) = Cmd_Backoff t d)
           | Await_Dial t path \<Rightarrow> last (snd r) = Cmd_Dial t path)
      | Phase_Connected \<Rightarrow> (\<exists>q b b'. last (snd r) = Cmd_Resumed q b b')
      | Phase_GaveUp \<Rightarrow> (\<exists>why w b c. last (snd r) = Cmd_GiveUp why w b c))"

lemma answers_give_up: "answers (rp_give_up p ep r l)"
  by (simp add: answers_def rp_give_up_def)

lemma answers_loop_top: "answers (rp_loop_top jf p ep now seed)"
  by (cases "ep_deadline ep \<le> now") (simp_all add: loop_top_expired loop_top_backoff answers_give_up, simp add: answers_def)

lemma answers_prefix: "answers r \<Longrightarrow> answers (fst r, pre @ snd r)"
  by (simp add: answers_def split: phase.splits awaiting.splits)

lemma answers_count_failure: "answers (rp_count_failure jf p ep now kind seed)"
proof (rule count_failure_cases [of jf p ep now kind seed], goal_cases)
  case (2 n ep' ep'' switch)
  then show ?case
    using answers_prefix [OF answers_loop_top, where pre = "switch @ [Cmd_ReportAttemptFailure (ep_attempt ep'')]"]
    by simp
qed (simp add: answers_give_up)

lemma answers_step:
  assumes cur: "rp_current p e" and "\<forall>now. e \<noteq> REv_Tick now"
  shows "answers (rp_apply jf p e)"
proof (cases e)
  case (REv_Disconnected now nc seed)
  with cur show ?thesis
    using answers_loop_top by (auto simp: rp_on_disconnected_def rp_begin_episode_def rp_fresh_token_def Let_def)
      (auto simp: answers_def)
next
  case (REv_BackoffElapsed token now nc)
  with cur obtain ep where "rp_phase p = Phase_Recovering ep" "ep_awaiting ep = Await_Backoff token"
    by (auto split: phase.splits)
  then show ?thesis by (simp add: REv_BackoffElapsed backoff_elapsed_eq answers_def)
next
  case (REv_AttemptOk token now)
  with cur show ?thesis
    by (auto simp: rp_on_attempt_ok_def Let_def answers_def split: phase.splits awaiting.splits dial_path.splits)
next
  case (REv_AttemptFailed token now kind seed)
  with cur obtain ep path where "rp_phase p = Phase_Recovering ep" "ep_awaiting ep = Await_Dial token path"
    by (auto split: phase.splits awaiting.splits)
  then show ?thesis
    using answers_prefix [OF answers_loop_top, where pre = "[Cmd_ReportAttemptFailure (ep_attempt ep)]"]
    by (auto simp: REv_AttemptFailed rp_on_attempt_failed_def Let_def case_prod_beta answers_give_up
        answers_loop_top answers_count_failure split: attempt_failure.splits)
qed (use assms(2) in simp)

lemma grace_step [simp]:
  "rp_effective_resume_grace_secs (fst (rp_apply jf p e)) = rp_effective_resume_grace_secs p"
proof -
  have top: "rp_effective_resume_grace_secs (fst (rp_loop_top jf q ep now seed)) = rp_effective_resume_grace_secs q"
    for q ep now seed
    by (cases "ep_deadline ep \<le> now") (simp_all add: loop_top_expired loop_top_backoff rp_give_up_def)
  have "rp_effective_resume_grace_secs (fst (rp_count_failure jf p ep now kind seed)) = rp_effective_resume_grace_secs p"
    for ep now kind seed
    by (rule count_failure_cases [of jf p ep now kind seed]) (simp_all add: top rp_give_up_def)
  then show ?thesis
    by (cases e) (auto simp: rp_on_disconnected_def rp_begin_episode_def rp_fresh_token_def Let_def top
        rp_on_backoff_elapsed_def rp_on_attempt_ok_def rp_on_attempt_failed_def rp_on_tick_def rp_give_up_def
        case_prod_beta split: phase.splits awaiting.splits dial_path.splits attempt_failure.splits)
qed

lemma grace_run [simp]:
  "rp_effective_resume_grace_secs (fst (run (rp_apply jf) p es)) = rp_effective_resume_grace_secs p"
  by (induction es arbitrary: p) simp_all

section \<open>Properties\<close>

text \<open>C13. A client never waits past the server's grant: in every execution, whenever the planner asks for a
  backoff, its episode's deadline lies ahead, the wait ends no later than the deadline, the
  deadline is at most the granted resume window after the disconnect, and one wait is at
  most ten seconds, whatever the jitter.\<close>

theorem rp_waits_within_grant:
  assumes "p = fst (run (rp_apply jf) (rp_new c) es)"
    and "Cmd_Backoff t after \<in> set (snd (rp_apply jf p e))"
  shows "\<exists>ep. rp_phase (fst (rp_apply jf p e)) = Phase_Recovering ep
    \<and> event_time e < ep_deadline ep
    \<and> after \<le> millis_sub (ep_deadline ep) (event_time e)
    \<and> ep_deadline ep \<le> millis_after (ep_disconnected_at ep) (resume_window_for (rc_effective_resume_grace_secs c))
    \<and> after \<le> from_secs 10"
proof -
  have inv: "rp_inv (fst (rp_apply jf p e))"
    using rp.inv_run [OF rp_inv_new, of jf c es] assms(1) by (simp add: rp_inv_step)
  have grace: "rp_effective_resume_grace_secs p = rc_effective_resume_grace_secs c"
    by (simp add: assms(1) rp_new_def)
  obtain ep where ep: "rp_phase (fst (rp_apply jf p e)) = Phase_Recovering ep" "event_time e < ep_deadline ep"
    "after \<le> millis_sub (ep_deadline ep) (event_time e)" "after \<le> from_secs 10"
    using wait_ok_step [of e jf p] assms(2) by (auto simp: wait_ok_def)
  have "ep_deadline ep \<le> millis_after (ep_disconnected_at ep) (resume_window_for (rc_effective_resume_grace_secs c))"
    using inv ep(1) millis_after_mono [OF effective_window_le]
    by (simp add: rp_inv_def ep_base_def grace)
  with ep show ?thesis by blast
qed

text \<open>Retrying ends: a failed attempt reported at or after the deadline always gives up, and a client
  that has given up never acts again, whatever arrives later.\<close>

lemma rp_gives_up_at_deadline:
  assumes "rp_phase p = Phase_Recovering ep" and "ep_awaiting ep = Await_Dial t path" and "ep_deadline ep \<le> now"
  shows "\<exists>why w b c. last (snd (rp_apply jf p (REv_AttemptFailed t now kind seed))) = Cmd_GiveUp why w b c
    \<and> snd (run (rp_apply jf) (fst (rp_apply jf p (REv_AttemptFailed t now kind seed))) es) = []"
proof -
  let ?r = "rp_apply jf p (REv_AttemptFailed t now kind seed)"
  have late: "\<not> cross_family_probe_fits (millis_sub (ep_deadline ep) now)"
    using assms(3) probe_fits_before by blast
  have top: "rp_phase (fst (rp_loop_top jf q ep' now seed)) = Phase_GaveUp" if "ep_deadline ep' = ep_deadline ep" for q ep'
    using assms(3) that by (simp add: loop_top_expired rp_give_up_def)
  have counted: "rp_phase (fst (rp_count_failure jf p ep now kind seed)) = Phase_GaveUp"
    by (rule count_failure_cases [of jf p ep now kind seed])
      (auto simp: rp_give_up_def top late should_switch_to_cross_family_def)
  have gone: "rp_phase (fst ?r) = Phase_GaveUp"
    using assms(1,2) counted top [OF refl]
    by (auto simp: rp_on_attempt_failed_def Let_def case_prod_beta rp_give_up_def split: attempt_failure.splits)
  have "answers ?r" using assms(1,2) by (intro answers_step) simp_all
  with gone have "\<exists>why w b c. last (snd ?r) = Cmd_GiveUp why w b c" by (simp add: answers_def)
  moreover have "\<not> rp_current (fst ?r) e" for e using gone by (cases e) simp_all
  then have "run (rp_apply jf) (fst ?r) es = (fst ?r, [])" by (intro rp_stale.stale_run)
  ultimately show ?thesis by (simp del: rp_apply.simps)
qed

text \<open>A single \<open>UnknownSession\<close> reply never ends a session: the planner declares the session gone
  only on such a reply to its own dial, as at least the third in a row, and at least
  thirty seconds after the disconnect.\<close>

lemma rp_session_gone_confirmed:
  assumes "Cmd_GiveUp SessionGone w b c \<in> set (snd (rp_apply jf p e))"
  shows "\<exists>t now seed ep path. e = REv_AttemptFailed t now UnknownSession seed
    \<and> rp_phase p = Phase_Recovering ep \<and> ep_awaiting ep = Await_Dial t path \<and> path \<noteq> WarmStandby
    \<and> 2 \<le> unat (rp_consecutive_unknown_session p)
    \<and> from_secs 30 \<le> millis_sub now (ep_disconnected_at ep)"
proof -
  have cur: "rp_current p e" using assms rp_stale.stale_step [of p e jf] by (cases "rp_current p e") auto
  have none: "Cmd_GiveUp SessionGone w b c \<notin> set (snd (rp_loop_top jf q ep now seed))" for q ep now seed
    by (cases "ep_deadline ep \<le> now") (simp_all add: loop_top_expired loop_top_backoff rp_give_up_def)
  show ?thesis
  proof (cases e)
    case (REv_AttemptFailed t now kind seed)
    from cur REv_AttemptFailed obtain ep path where ph: "rp_phase p = Phase_Recovering ep"
      and aw: "ep_awaiting ep = Await_Dial t path"
      by (auto split: phase.splits awaiting.splits)
    from assms have "path \<noteq> WarmStandby" and mem: "Cmd_GiveUp SessionGone w b c \<in> set (snd (rp_count_failure jf p ep now kind seed))"
      using none
      by (auto simp: REv_AttemptFailed rp_on_attempt_failed_def ph aw Let_def case_prod_beta rp_give_up_def
          split: attempt_failure.splits if_splits)
    from mem show ?thesis
    proof (cases rule: count_failure_cases [of jf p ep now kind seed, case_names gone retry])
      case (gone n ep')
      then have "3 \<le> unat (sat_add (rp_consecutive_unknown_session p) 1)"
        by (simp add: resume_consts word_le_nat_alt)
      then have "2 \<le> unat (rp_consecutive_unknown_session p)" by (simp add: unat_sat_add)
      with gone ph aw \<open>path \<noteq> WarmStandby\<close> show ?thesis
        by (auto simp: REv_AttemptFailed resume_consts)
    next
      case (retry n ep' ep'' switch)
      with mem none show ?thesis by auto
    qed
  qed (use assms none in \<open>auto simp: rp_on_disconnected_def rp_begin_episode_def rp_fresh_token_def Let_def
      rp_on_backoff_elapsed_def rp_on_attempt_ok_def rp_on_tick_def
      split: phase.splits awaiting.splits dial_path.splits if_splits\<close>)
qed

text \<open>Late replies are harmless: an event that is not the answer to what the planner currently
  waits for can be dropped from any execution without changing the outcome, and over a whole execution the
  tokens that identify waits and dials strictly increase, so no old reply can pass for a
  new one.\<close>

lemma rp_stale_replies_ignored:
  assumes "length (es @ e # es') < 2 ^ 64"
    and "\<not> rp_current (fst (run (rp_apply jf) (rp_new c) es)) e"
  shows "run (rp_apply jf) (rp_new c) (es @ e # es') = run (rp_apply jf) (rp_new c) (es @ es')
    \<and> sorted_wrt (<) (tokens (snd (run (rp_apply jf) (rp_new c) (es @ e # es'))))"
  using rp_stale.stale_transparent [OF assms(2)] tokens_run [of "rp_new c" "es @ e # es'" jf] assms(1)
  by (simp add: rp_new_def)

text \<open>A session switches to the cross-family relay at most once, over all its episodes.\<close>

lemma rp_switches_at_most_once:
  "switches (snd (run (rp_apply jf) (rp_new c) es)) \<le> 1"
  using switches_run [OF rp_inv_new, of jf c es] by (simp split: if_splits)

text \<open>A switch is never made blindly or in vain: it needs at least one failed attempt on the original path
  in this episode, and under the new, shorter deadline there still remains the probe budget of
  sixteen seconds.\<close>

lemma rp_switch_leaves_probe:
  assumes "rp_inv p" and "Cmd_SwitchedToCrossFamily g \<in> set (snd (rp_apply jf p e))"
  shows "\<exists>ep ep'. rp_phase p = Phase_Recovering ep \<and> \<not> ep_switched_this_call ep
    \<and> rp_phase (fst (rp_apply jf p e)) = Phase_Recovering ep' \<and> ep_switched_this_call ep'
    \<and> 1 \<le> ep_stun_failures ep' \<and> ep_disconnected_at ep' = ep_disconnected_at ep
    \<and> CROSS_FAMILY_MIN_PROBE_BUDGET \<le> millis_sub (ep_deadline ep') (event_time e)"
  using switch_effect [OF assms] unfolding cross_family_probe_fits_def .

text \<open>C31. The planner is never stuck: every disconnect, elapsed backoff and dial result it accepts is
  answered, last, by exactly the command its new phase waits for, the announcement of success, or the
  announcement that it gives up. A tick, which it accepts while it recovers, changes nothing, so that
  what it waits for stays the same, and is answered by the notice that it is reconnecting if this is
  due, and otherwise by nothing.\<close>

theorem rp_never_stuck:
  assumes "rp_current p e"
  shows "case e of
      REv_Tick now \<Rightarrow> (\<exists>ep. rp_phase p = Phase_Recovering ep \<and> rp_apply jf p e =
        (p, if reconnect_notify_due (ep_disconnected_at ep) now
            then [Cmd_ShowReconnecting (millis_sub now (ep_disconnected_at ep)) (ep_resume_window ep)] else []))
    | _ \<Rightarrow> answers (rp_apply jf p e)"
proof (cases e)
  case (REv_Tick now)
  with assms show ?thesis by (auto simp: rp_on_tick_def split: phase.splits)
qed (use answers_step [OF assms, of jf] in simp_all)

text \<open>Retrying a busy server is bounded by the start time and the window alone: a retry is granted only
  before their sum and never waits past it, and any other failure gives up at once.\<close>

lemma busy_retry_bounded:
  assumes "b = fst (foldl (\<lambda>(b, _) (now, busy, seed). busy_on_failure jf b now busy seed)
      (busy_start start window, Busy_GiveUp) fs)"
  shows "(case snd (busy_on_failure jf b now busy seed) of
      Busy_RetryAfter after \<Rightarrow> busy \<and> now < millis_after start window
        \<and> after \<le> millis_sub (millis_after start window) now \<and> after \<le> from_secs 10
    | Busy_GiveUp \<Rightarrow> \<not> busy \<or> millis_after start window \<le> now)"
proof -
  have "bo_deadline (fst (foldl (\<lambda>(b, _) (now, busy, seed). busy_on_failure jf b now busy seed) (b0, d) fs))
      = bo_deadline b0" for b0 d
    by (induction fs arbitrary: b0 d) (auto simp: busy_on_failure_def Let_def split: prod.split)
  with assms have "bo_deadline b = millis_after start window" by (simp add: busy_start_def)
  then show ?thesis
    using resume_backoff.clipped_le [of jf "bo_attempt b" seed "millis_sub (bo_deadline b) now"]
    by (simp add: busy_on_failure_def Let_def not_le)
qed

section \<open>Witnesses\<close>

text \<open>A STUN session clamped to two minutes, with a relay to fall back to.\<close>

definition sample_resume_config :: resume_planner_config where
  "sample_resume_config =
     \<lparr>rc_effective_resume_grace_secs = 600, rc_max_resume_window = Some (from_secs 120),
      rc_has_cross_family_target = True, rc_has_warm_standby = False\<rparr>"

definition no_jitter :: jitter_fn where
  "no_jitter j seed base = base"

definition sample_episode :: episode where
  "sample_episode =
     \<lparr>ep_disconnected_at = 1000, ep_resume_window = from_secs 120, ep_deadline = 121000,
      ep_max_resume_window = Some (from_secs 120), ep_switched_this_call = False, ep_stun_failures = 4,
      ep_switch_attempts_before_cross_family = 5, ep_attempt = 4, ep_awaiting = Await_Dial 8 Primary\<rparr>"

definition sample_planner :: resume_planner where
  "sample_planner = (rp_new sample_resume_config)\<lparr>rp_next_token := 8,
     rp_consecutive_unknown_session := 2, rp_phase := Phase_Recovering sample_episode\<rparr>"

lemmas sample_resume_defs = sample_planner_def sample_episode_def sample_resume_config_def rp_new_def

lemma sample_planner_inv [simp]: "rp_inv sample_planner"
  by (simp add: rp_inv_def sample_resume_defs ep_base_def ep_waits_def rp_dial_path_def millis_after_def
      effective_resume_window_def clamp_resume_window_def resume_window_for_def duration_defs sat_add_def
      u64_try_from_def)

theorem rp_waits_within_grant_witness:
  "\<exists>ep. rp_phase (fst (rp_apply no_jitter (rp_new sample_resume_config) (REv_Disconnected 1000 False 0)))
      = Phase_Recovering ep \<and> 1000 < ep_deadline ep"
proof -
  have mem: "Cmd_Backoff 1 (from_millis 500) \<in>
      set (snd (rp_apply no_jitter (rp_new sample_resume_config) (REv_Disconnected 1000 False 0)))"
    by (simp add: rp_on_disconnected_def rp_begin_episode_def Let_def sample_resume_defs rp_loop_top_def
        rp_fresh_token_def millis_after_def effective_resume_window_def clamp_resume_window_def
        resume_window_for_def duration_defs sat_add_def u64_try_from_def next_delay_def delay_for_attempt_def
        RESUME_BACKOFF_def no_jitter_def base_delay_def sat_mul_def millis_sub_def)
  show ?thesis
    using rp_waits_within_grant [where es = "[]", OF _ mem] by fastforce
qed

theorem rp_never_stuck_witness:
  "answers (rp_apply no_jitter sample_planner (REv_AttemptOk 8 40000)) \<and>
   fst (rp_apply no_jitter sample_planner (REv_Tick 40000)) = sample_planner"
  using rp_never_stuck [of sample_planner "REv_AttemptOk 8 40000" no_jitter]
    rp_never_stuck [of sample_planner "REv_Tick 40000" no_jitter]
  by (simp add: sample_resume_defs)

end
