(* ===== verification/ReconnectFsm.thy ===== *)
theory ReconnectFsm
  imports Interfaces
begin

text \<open>
  \<^verbatim>\<open>rust-core/src/reconnect_fsm.rs\<close>: the mobile client's reconnect aggregate. It tracks the
  connection phase, runs the automatic reconnect loop (its epoch, tick accounting and in-flight
  guard), and emits the connection edges \<open>Established\<close> and \<open>Lost\<close> that the rest of the core
  follows. Time arrives as durations in the events.
\<close>

section \<open>Model\<close>

record reconnect_policy =
  pol_tick :: duration
  pol_retry_interval :: duration
  pol_timeout :: duration

definition reconnect_policy_default :: reconnect_policy where
  "reconnect_policy_default = \<lparr>pol_tick = from_secs 1, pol_retry_interval = from_secs 3, pol_timeout = from_secs 60\<rparr>"

definition ticks_per_retry :: "reconnect_policy \<Rightarrow> nat" where
  "ticks_per_retry pol = max (pol_retry_interval pol div max (pol_tick pol) 1) 1"

definition timeout_secs :: "reconnect_policy \<Rightarrow> u32" where
  "timeout_secs pol = word_of_nat (as_secs (pol_timeout pol))"

record loop_clock =
  lc_elapsed :: duration
  lc_tick_count :: u64
  lc_armed :: reconnect_policy

datatype conn_phase = Idle | Conn_Connecting | Conn_Connected

datatype background_state = Foreground | Quiescing | Suspended

definition NETWORK_LOST_REASON :: string where
  "NETWORK_LOST_REASON = ''network lost''"

datatype disconnect_kind = GracefulRemoteExit | NetworkLost | TransportError

definition starts_with :: "string \<Rightarrow> string \<Rightarrow> bool" where
  "starts_with s pre \<longleftrightarrow> take (length pre) s = pre"

definition classify :: "string option \<Rightarrow> disconnect_kind" where
  "classify reason =
     (case reason of
        Some r \<Rightarrow>
          if starts_with r ''remote process exited'' then GracefulRemoteExit
          else if r = NETWORK_LOST_REASON then NetworkLost
          else TransportError
      | None \<Rightarrow> TransportError)"

type_synonym attempt_ref = u64

definition next_after :: "attempt_ref option \<Rightarrow> attempt_ref" where
  "next_after prev = (case prev of None \<Rightarrow> 0 | Some p \<Rightarrow> p + 1)"

datatype attempt_source = Source_Tick | Source_PendingWake | Source_NetworkWake

datatype connection_issue_hint = LocalNetworkPermissionPossiblyDenied

record reconnect_state =
  rs_phase :: conn_phase
  rs_reconnect_epoch :: u64
  rs_reconnect_loop_active :: bool
  rs_retry_attempt_in_flight :: bool
  rs_pending_wake :: bool
  rs_user_initiated_disconnect :: bool
  rs_background_state :: background_state
  rs_last_attempt :: "attempt_ref option"
  rs_edge_open :: "u64 option"
  rs_last_established :: "u64 option"
  rs_loop_clock :: "loop_clock option"

definition rs_default :: reconnect_state where
  "rs_default =
     \<lparr>rs_phase = Idle, rs_reconnect_epoch = 0, rs_reconnect_loop_active = False,
      rs_retry_attempt_in_flight = False, rs_pending_wake = False, rs_user_initiated_disconnect = False,
      rs_background_state = Foreground, rs_last_attempt = None, rs_edge_open = None,
      rs_last_established = None, rs_loop_clock = None\<rparr>"

datatype reconnect_event =
    OEv_AttemptConnected u64
  | OEv_AttemptDisconnected u64 disconnect_kind bool
  | OEv_SessionCreated u64
  | OEv_ManualConnectStarted attempt_ref
  | OEv_ReconnectSessionStarting
  | OEv_ForegroundReconnectFailedSync
  | OEv_LoopStarted u64 reconnect_policy
  | OEv_ReconnectWake u64 reconnect_policy
  | OEv_ReconnectTick u64 reconnect_policy
  | OEv_AttemptFailedSync u64
  | OEv_CancelReconnect
  | OEv_UserDisconnect
  | OEv_ManualConnectFailedSync
  | OEv_LoopStartAborted u64

datatype reconnect_effect =
    OEff_InvalidatePathObserver
  | OEff_WakeReconnectLoop
  | OEff_StartReconnectLoop attempt_ref u64
  | OEff_PublishDisconnected "connection_issue_hint option"
  | OEff_PublishConnected
  | OEff_StartAttempt u64 attempt_source
  | OEff_PendingWakeRecorded u64
  | OEff_PublishConnecting
  | OEff_ManualConnectRejected
  | OEff_EdgeEstablished u64
  | OEff_EdgeLost u64
  | OEff_ArmLoopTimer u64 duration u64
  | OEff_PublishReconnecting u32 u32
  | OEff_PublishReconnectTimedOut u32
  | OEff_LoopWokeEarly u64
  | OEff_LoopTicked u64 u64 u64
  | OEff_AbortInFlightAttempt
  | OEff_DisconnectSession

definition rs_close_edge :: "reconnect_state \<Rightarrow> reconnect_state \<times> reconnect_effect list" where
  "rs_close_edge s =
     (case rs_edge_open s of
        Some g \<Rightarrow> (s\<lparr>rs_edge_open := None\<rparr>, [OEff_EdgeLost g])
      | None \<Rightarrow> (s, []))"

definition rs_set_phase :: "reconnect_state \<Rightarrow> conn_phase \<Rightarrow> reconnect_state \<times> reconnect_effect list" where
  "rs_set_phase s ph =
     (let (s, effs) = (if ph \<noteq> Conn_Connected then rs_close_edge s else (s, [])) in
      (s\<lparr>rs_phase := ph\<rparr>, effs))"

definition rs_stop_loop :: "reconnect_state \<Rightarrow> reconnect_state" where
  "rs_stop_loop s =
     s\<lparr>rs_reconnect_epoch := rs_reconnect_epoch s + 1,
       rs_reconnect_loop_active := False,
       rs_retry_attempt_in_flight := False,
       rs_pending_wake := False,
       rs_loop_clock := None\<rparr>"

definition rs_abort_loop_attempt :: "reconnect_state \<Rightarrow> reconnect_state \<times> reconnect_effect list" where
  "rs_abort_loop_attempt s =
     (let (s, effs) = rs_set_phase s Idle in (s, effs @ [OEff_AbortInFlightAttempt]))"

definition rs_loop_is_live :: "reconnect_state \<Rightarrow> u64 \<Rightarrow> bool" where
  "rs_loop_is_live s epoch \<longleftrightarrow>
     epoch = rs_reconnect_epoch s \<and> rs_reconnect_loop_active s \<and> rs_loop_clock s \<noteq> None"

definition rs_arm_loop_timer ::
  "reconnect_state \<Rightarrow> u64 \<Rightarrow> reconnect_policy \<Rightarrow> reconnect_state \<times> reconnect_effect list" where
  "rs_arm_loop_timer s epoch pol =
     (case rs_loop_clock s of
        Some clock \<Rightarrow>
          (s\<lparr>rs_loop_clock := Some (clock\<lparr>lc_armed := pol\<rparr>)\<rparr>,
           [OEff_ArmLoopTimer epoch (pol_tick pol) (word_of_nat (as_secs (lc_elapsed clock)))])
      | None \<Rightarrow> (s, []))"

definition rs_on_loop_started ::
  "reconnect_state \<Rightarrow> u64 \<Rightarrow> reconnect_policy \<Rightarrow> reconnect_state \<times> reconnect_effect list" where
  "rs_on_loop_started s epoch pol =
     (if epoch \<noteq> rs_reconnect_epoch s \<or> \<not> rs_reconnect_loop_active s \<or> rs_loop_clock s \<noteq> None then (s, [])
      else
        let s = s\<lparr>rs_loop_clock := Some \<lparr>lc_elapsed = 0, lc_tick_count = 0, lc_armed = pol\<rparr>\<rparr>;
            (s, arm) = rs_arm_loop_timer s epoch pol in
        (s, OEff_PublishReconnecting 0 (timeout_secs pol) # arm))"

definition rs_on_attempt_connected :: "reconnect_state \<Rightarrow> u64 \<Rightarrow> reconnect_state \<times> reconnect_effect list" where
  "rs_on_attempt_connected s generation =
     (let (s, lost) = (case rs_edge_open s of
            Some g \<Rightarrow> if g \<noteq> generation then rs_close_edge s else (s, [])
          | None \<Rightarrow> (s, []));
          (s, moved) = rs_set_phase s Conn_Connected;
          s = rs_stop_loop s;
          (s, edge) =
            (if rs_edge_open s = None
                \<and> \<not> (case rs_last_established s of Some prev \<Rightarrow> generation \<le> prev | None \<Rightarrow> False) then
               (s\<lparr>rs_edge_open := Some generation, rs_last_established := Some generation\<rparr>,
                [OEff_EdgeEstablished generation])
             else (s, [])) in
      (s, lost @ moved @ [OEff_PublishConnected] @ edge))"

definition rs_on_manual_connect_started ::
  "reconnect_state \<Rightarrow> attempt_ref \<Rightarrow> reconnect_state \<times> reconnect_effect list" where
  "rs_on_manual_connect_started s attempt =
     (if rs_phase s = Conn_Connecting then (s, [OEff_ManualConnectRejected])
      else
        let (s, lost) = rs_set_phase s Conn_Connecting;
            s = s\<lparr>rs_last_attempt := Some attempt, rs_user_initiated_disconnect := False\<rparr>;
            s = rs_stop_loop s;
            s = s\<lparr>rs_background_state := Foreground\<rparr> in
        (s, lost @ [OEff_InvalidatePathObserver, OEff_PublishConnecting]))"

definition rs_on_attempt_disconnected ::
  "reconnect_state \<Rightarrow> disconnect_kind \<Rightarrow> bool \<Rightarrow> reconnect_state \<times> reconnect_effect list" where
  "rs_on_attempt_disconnected s kind targets_local_network =
     (let was_connected = rs_phase s = Conn_Connected;
          user_initiated = rs_user_initiated_disconnect s;
          graceful_exit = kind = GracefulRemoteExit;
          wake_loop = rs_reconnect_loop_active s \<and> rs_pending_wake s;
          s = s\<lparr>rs_user_initiated_disconnect := False\<rparr>;
          (s, lost) = rs_set_phase s Idle;
          s = s\<lparr>rs_retry_attempt_in_flight := False\<rparr>;
          effs = OEff_InvalidatePathObserver # lost in
      if rs_reconnect_loop_active s then
        (s, effs @ (if wake_loop then [OEff_WakeReconnectLoop] else []))
      else if was_connected \<and> \<not> user_initiated \<and> \<not> graceful_exit then
        let s = s\<lparr>rs_pending_wake := False\<rparr> in
        (case rs_last_attempt s of
           Some attempt \<Rightarrow>
             let s = s\<lparr>rs_reconnect_loop_active := True,
                       rs_reconnect_epoch := rs_reconnect_epoch s + 1,
                       rs_loop_clock := None\<rparr> in
             (s, effs @ [OEff_StartReconnectLoop attempt (rs_reconnect_epoch s)])
         | None \<Rightarrow>
             (s\<lparr>rs_background_state := Foreground\<rparr>, effs @ [OEff_PublishDisconnected None]))
      else
        let s = s\<lparr>rs_pending_wake := False\<rparr>;
            issue_hint = (if \<not> was_connected \<and> targets_local_network
                          then Some LocalNetworkPermissionPossiblyDenied else None) in
        (s\<lparr>rs_background_state := Foreground\<rparr>, effs @ [OEff_PublishDisconnected issue_hint]))"

definition rs_on_reconnect_wake ::
  "reconnect_state \<Rightarrow> u64 \<Rightarrow> reconnect_policy \<Rightarrow> reconnect_state \<times> reconnect_effect list" where
  "rs_on_reconnect_wake s epoch pol =
     (if \<not> rs_loop_is_live s epoch then (s, [])
      else
        let (s, start) =
              (if \<not> rs_retry_attempt_in_flight s then
                 (s\<lparr>rs_retry_attempt_in_flight := True, rs_pending_wake := False\<rparr>,
                  [OEff_StartAttempt epoch Source_NetworkWake])
               else (s\<lparr>rs_pending_wake := True\<rparr>, [OEff_PendingWakeRecorded epoch]));
            (s, arm) = rs_arm_loop_timer s epoch pol in
        (s, OEff_LoopWokeEarly epoch # start @ arm))"

definition rs_on_reconnect_tick ::
  "reconnect_state \<Rightarrow> u64 \<Rightarrow> reconnect_policy \<Rightarrow> reconnect_state \<times> reconnect_effect list" where
  "rs_on_reconnect_tick s epoch pol =
     (if \<not> rs_loop_is_live s epoch then (s, [])
      else
        (case rs_loop_clock s of
           None \<Rightarrow> (s, [])
         | Some clock \<Rightarrow>
             let armed = lc_armed clock;
                 elapsed = dur_sat_add (lc_elapsed clock) (pol_tick armed);
                 tick_count = sat_add (lc_tick_count clock) 1;
                 s = s\<lparr>rs_loop_clock := Some (clock\<lparr>lc_elapsed := elapsed, lc_tick_count := tick_count\<rparr>)\<rparr>;
                 ticked = OEff_LoopTicked epoch tick_count (word_of_nat (as_secs elapsed)) in
             if pol_timeout armed \<le> elapsed then
               let s = rs_stop_loop s;
                   (s, abort) = rs_abort_loop_attempt s in
               (s, ticked # abort @ [OEff_PublishReconnectTimedOut (timeout_secs armed)])
             else
               let publish = OEff_PublishReconnecting (word_of_nat (as_secs elapsed)) (timeout_secs armed);
                   due = unat tick_count mod ticks_per_retry armed = 0;
                   (s, start) =
                     (if \<not> rs_retry_attempt_in_flight s \<and> (due \<or> rs_pending_wake s) then
                        let source = (if rs_pending_wake s then Source_PendingWake else Source_Tick) in
                        (s\<lparr>rs_retry_attempt_in_flight := True, rs_pending_wake := False\<rparr>,
                         [OEff_StartAttempt epoch source])
                      else (s, []));
                   (s, arm) = rs_arm_loop_timer s epoch pol in
               (s, ticked # publish # start @ arm)))"

definition rs_on_session_created :: "reconnect_state \<Rightarrow> u64 \<Rightarrow> reconnect_state \<times> reconnect_effect list" where
  "rs_on_session_created s new_generation =
     (case rs_edge_open s of
        Some g \<Rightarrow> if g \<noteq> new_generation then rs_close_edge s else (s, [])
      | None \<Rightarrow> (s, []))"

definition rs_on_attempt_failed_sync :: "reconnect_state \<Rightarrow> u64 \<Rightarrow> reconnect_state \<times> reconnect_effect list" where
  "rs_on_attempt_failed_sync s epoch =
     (if epoch = rs_reconnect_epoch s then
        let s = s\<lparr>rs_retry_attempt_in_flight := False\<rparr> in
        if rs_phase s = Conn_Connecting then rs_set_phase s Idle else (s, [])
      else (s, []))"

definition rs_on_cancel_reconnect :: "reconnect_state \<Rightarrow> reconnect_state \<times> reconnect_effect list" where
  "rs_on_cancel_reconnect s =
     (let was_active = rs_reconnect_loop_active s; s = rs_stop_loop s in
      if was_active then
        let s = s\<lparr>rs_background_state := Foreground\<rparr>;
            (s, abort) = rs_abort_loop_attempt s in
        (s, abort @ [OEff_PublishDisconnected None])
      else (s, []))"

definition rs_on_user_disconnect :: "reconnect_state \<Rightarrow> reconnect_state \<times> reconnect_effect list" where
  "rs_on_user_disconnect s =
     (if rs_reconnect_loop_active s then
        let s = rs_stop_loop s;
            s = s\<lparr>rs_user_initiated_disconnect := False, rs_background_state := Foreground\<rparr>;
            (s, abort) = rs_abort_loop_attempt s in
        (s, OEff_InvalidatePathObserver # abort @ [OEff_PublishDisconnected None])
      else (s\<lparr>rs_user_initiated_disconnect := True\<rparr>, [OEff_DisconnectSession]))"

definition rs_on_loop_start_aborted :: "reconnect_state \<Rightarrow> u64 \<Rightarrow> reconnect_state \<times> reconnect_effect list" where
  "rs_on_loop_start_aborted s epoch =
     (if epoch \<noteq> rs_reconnect_epoch s then (s, [])
      else (s\<lparr>rs_reconnect_loop_active := False, rs_loop_clock := None, rs_background_state := Foreground\<rparr>,
            [OEff_PublishDisconnected None]))"

fun rs_apply :: "reconnect_state \<Rightarrow> reconnect_event \<Rightarrow> reconnect_state \<times> reconnect_effect list" where
  "rs_apply s (OEv_AttemptConnected generation) = rs_on_attempt_connected s generation"
| "rs_apply s (OEv_AttemptDisconnected _ kind local) = rs_on_attempt_disconnected s kind local"
| "rs_apply s (OEv_SessionCreated new_generation) = rs_on_session_created s new_generation"
| "rs_apply s (OEv_ManualConnectStarted attempt) = rs_on_manual_connect_started s attempt"
| "rs_apply s OEv_ReconnectSessionStarting = rs_set_phase s Conn_Connecting"
| "rs_apply s OEv_ForegroundReconnectFailedSync =
     (let (s, effs) = rs_set_phase s Idle in (s, effs @ [OEff_PublishDisconnected None]))"
| "rs_apply s (OEv_LoopStarted epoch pol) = rs_on_loop_started s epoch pol"
| "rs_apply s (OEv_ReconnectWake epoch pol) = rs_on_reconnect_wake s epoch pol"
| "rs_apply s (OEv_ReconnectTick epoch pol) = rs_on_reconnect_tick s epoch pol"
| "rs_apply s (OEv_AttemptFailedSync epoch) = rs_on_attempt_failed_sync s epoch"
| "rs_apply s OEv_CancelReconnect = rs_on_cancel_reconnect s"
| "rs_apply s OEv_UserDisconnect = rs_on_user_disconnect s"
| "rs_apply s OEv_ManualConnectFailedSync =
     (if rs_phase s = Conn_Connecting then rs_set_phase s Idle else (s, []))"
| "rs_apply s (OEv_LoopStartAborted epoch) = rs_on_loop_start_aborted s epoch"

lemmas rs_handler_defs =
  rs_close_edge_def rs_set_phase_def rs_stop_loop_def rs_abort_loop_attempt_def rs_arm_loop_timer_def
  rs_on_loop_started_def rs_on_attempt_connected_def rs_on_manual_connect_started_def
  rs_on_attempt_disconnected_def rs_on_reconnect_wake_def rs_on_reconnect_tick_def
  rs_on_session_created_def rs_on_attempt_failed_sync_def rs_on_cancel_reconnect_def
  rs_on_user_disconnect_def rs_on_loop_start_aborted_def

section \<open>Invariant\<close>

text \<open>
  An edge is open only for the last established generation and only while connected; a clock exists only
  for an active loop; and a loop never runs while connected.
\<close>

definition rs_inv :: "reconnect_state \<Rightarrow> bool" where
  "rs_inv s \<longleftrightarrow>
     (\<forall>g. rs_edge_open s = Some g \<longrightarrow> rs_phase s = Conn_Connected \<and> rs_last_established s = Some g)
     \<and> (rs_loop_clock s \<noteq> None \<longrightarrow> rs_reconnect_loop_active s)
     \<and> (rs_reconnect_loop_active s \<longrightarrow> rs_phase s \<noteq> Conn_Connected)"

lemma rs_inv_default: "rs_inv rs_default"
  by (simp add: rs_inv_def rs_default_def)

lemma rs_inv_step: "rs_inv s \<Longrightarrow> rs_inv (fst (rs_apply s e))"
  by (cases e) (auto simp: rs_handler_defs rs_inv_def rs_loop_is_live_def Let_def split: option.splits if_splits)

interpretation rs: reducer rs_apply rs_inv
  by unfold_locales (rule rs_inv_step)

section \<open>Connection edges\<close>

text \<open>
  The listener's automaton: which edge is open and which generation was established last. An
  establishment is legal only when no edge is open and for a generation larger than every
  earlier one, a loss only for the open edge.
\<close>

fun edge_step :: "(u64 option \<times> u64 option) option \<Rightarrow> reconnect_effect \<Rightarrow> (u64 option \<times> u64 option) option" where
  "edge_step None _ = None"
| "edge_step (Some (cur, prev)) (OEff_EdgeEstablished g) =
     (if cur = None \<and> (case prev of None \<Rightarrow> True | Some l \<Rightarrow> l < g) then Some (Some g, Some g) else None)"
| "edge_step (Some (cur, prev)) (OEff_EdgeLost g) = (if cur = Some g then Some (None, prev) else None)"
| "edge_step (Some v) _ = Some v"

definition edge_view :: "reconnect_state \<Rightarrow> (u64 option \<times> u64 option) option" where
  "edge_view s = Some (rs_edge_open s, rs_last_established s)"

lemma edge_step_sound:
  "rs_inv s \<Longrightarrow> foldl edge_step (edge_view s) (snd (rs_apply s e)) = edge_view (fst (rs_apply s e))"
  by (cases e) (auto simp: rs_handler_defs rs_inv_def rs_loop_is_live_def edge_view_def Let_def
      split: option.splits if_splits)

lemma edges_run:
  "rs_inv s \<Longrightarrow> foldl edge_step (edge_view s) (snd (run rs_apply s es)) = edge_view (fst (run rs_apply s es))"
  by (induction es arbitrary: s) (simp_all add: edge_step_sound rs_inv_step)

section \<open>Stale loop events\<close>

fun rs_current :: "reconnect_state \<Rightarrow> reconnect_event \<Rightarrow> bool" where
  "rs_current s (OEv_LoopStarted epoch _) \<longleftrightarrow>
     epoch = rs_reconnect_epoch s \<and> rs_reconnect_loop_active s \<and> rs_loop_clock s = None"
| "rs_current s (OEv_ReconnectWake epoch _) \<longleftrightarrow> rs_loop_is_live s epoch"
| "rs_current s (OEv_ReconnectTick epoch _) \<longleftrightarrow> rs_loop_is_live s epoch"
| "rs_current s (OEv_AttemptFailedSync epoch) \<longleftrightarrow> epoch = rs_reconnect_epoch s"
| "rs_current s (OEv_LoopStartAborted epoch) \<longleftrightarrow> epoch = rs_reconnect_epoch s"
| "rs_current s _ \<longleftrightarrow> True"

interpretation rs_stale: stale_guard rs_apply rs_current
proof
  fix s e
  assume "\<not> rs_current s e"
  then show "rs_apply s e = (s, [])"
    by (cases e) (auto simp: rs_on_loop_started_def rs_on_reconnect_wake_def rs_on_reconnect_tick_def
        rs_on_attempt_failed_sync_def rs_on_loop_start_aborted_def)
qed

section \<open>Attempts\<close>

definition attempts :: "reconnect_effect list \<Rightarrow> nat" where
  "attempts effs = length (filter (\<lambda>f. case f of OEff_StartAttempt _ _ \<Rightarrow> True | _ \<Rightarrow> False) effs)"

lemma attempts_simps [simp]: "attempts [] = 0" "attempts (xs @ ys) = attempts xs + attempts ys"
  by (simp_all add: attempts_def)

lemma attempt_step:
  "0 < attempts (snd (rs_apply s e)) \<Longrightarrow>
   attempts (snd (rs_apply s e)) = 1 \<and> \<not> rs_retry_attempt_in_flight s \<and> rs_reconnect_loop_active s
   \<and> rs_retry_attempt_in_flight (fst (rs_apply s e))
   \<and> (\<exists>pol. e = OEv_ReconnectTick (rs_reconnect_epoch s) pol \<or> e = OEv_ReconnectWake (rs_reconnect_epoch s) pol)"
  by (cases e) (auto simp: rs_handler_defs rs_loop_is_live_def attempts_def Let_def split: option.splits if_splits)

text \<open>Events that carry the outcome of an attempt, or take the loop away from it.\<close>

fun ends_attempt :: "reconnect_event \<Rightarrow> bool" where
  "ends_attempt (OEv_ReconnectTick _ _) \<longleftrightarrow> False"
| "ends_attempt (OEv_ReconnectWake _ _) \<longleftrightarrow> False"
| "ends_attempt (OEv_LoopStarted _ _) \<longleftrightarrow> False"
| "ends_attempt (OEv_SessionCreated _) \<longleftrightarrow> False"
| "ends_attempt OEv_ReconnectSessionStarting \<longleftrightarrow> False"
| "ends_attempt _ \<longleftrightarrow> True"

lemma in_flight_no_attempt: "rs_retry_attempt_in_flight s \<Longrightarrow> attempts (snd (rs_apply s e)) = 0"
  using attempt_step [of s e] by blast

lemma in_flight_step:
  assumes "\<not> ends_attempt e" and "rs_retry_attempt_in_flight s \<or> \<not> rs_reconnect_loop_active s"
  shows "rs_retry_attempt_in_flight (fst (rs_apply s e)) \<or> \<not> rs_reconnect_loop_active (fst (rs_apply s e))"
  using assms
  by (cases e) (auto simp: rs_handler_defs rs_loop_is_live_def Let_def split: option.splits if_splits)

lemma no_loop_no_attempt: "\<not> rs_reconnect_loop_active s \<Longrightarrow> attempts (snd (rs_apply s e)) = 0"
  using attempt_step [of s e] by blast

lemma in_flight_run:
  "rs_retry_attempt_in_flight s \<or> \<not> rs_reconnect_loop_active s \<Longrightarrow> \<forall>e \<in> set es. \<not> ends_attempt e \<Longrightarrow>
   attempts (snd (run rs_apply s es)) = 0"
proof (induction es arbitrary: s)
  case (Cons e es)
  then have "attempts (snd (rs_apply s e)) = 0"
    using in_flight_no_attempt no_loop_no_attempt by blast
  moreover have "attempts (snd (run rs_apply (fst (rs_apply s e)) es)) = 0"
    using Cons.prems in_flight_step [of e s] by (intro Cons.IH) simp_all
  ultimately show ?case by simp
qed simp

section \<open>After the user hangs up\<close>

definition hung_up :: "reconnect_state \<Rightarrow> bool" where
  "hung_up s \<longleftrightarrow> \<not> rs_reconnect_loop_active s \<and> (rs_phase s \<noteq> Conn_Connected \<or> rs_user_initiated_disconnect s)"

fun starts_loop :: "reconnect_effect \<Rightarrow> bool" where
  "starts_loop (OEff_StartReconnectLoop _ _) \<longleftrightarrow> True"
| "starts_loop (OEff_StartAttempt _ _) \<longleftrightarrow> True"
| "starts_loop _ \<longleftrightarrow> False"

lemma hung_up_disconnect: "hung_up (fst (rs_apply s OEv_UserDisconnect))"
  by (auto simp: rs_handler_defs hung_up_def Let_def split: option.splits)

lemma hung_up_step:
  assumes "hung_up s" and "\<forall>g. e \<noteq> OEv_AttemptConnected g"
  shows "hung_up (fst (rs_apply s e)) \<and> (\<forall>f \<in> set (snd (rs_apply s e)). \<not> starts_loop f)"
  using assms
  by (cases e) (auto simp: rs_handler_defs rs_loop_is_live_def hung_up_def Let_def split: option.splits if_splits)

lemma hung_up_run:
  "hung_up s \<Longrightarrow> \<forall>g. OEv_AttemptConnected g \<notin> set es \<Longrightarrow>
   hung_up (fst (run rs_apply s es)) \<and> (\<forall>f \<in> set (snd (run rs_apply s es)). \<not> starts_loop f)"
proof (induction es arbitrary: s)
  case (Cons e es)
  have "hung_up (fst (rs_apply s e)) \<and> (\<forall>f \<in> set (snd (rs_apply s e)). \<not> starts_loop f)"
    using Cons.prems by (intro hung_up_step) auto
  then show ?case using Cons.IH [of "fst (rs_apply s e)"] Cons.prems(2) by auto
qed simp

section \<open>The loop gives up\<close>

text \<open>The loop of \<open>epoch\<close> runs, has counted \<open>el\<close> so far and its timer was set under \<open>pol\<close>.\<close>

definition ticking :: "reconnect_state \<Rightarrow> u64 \<Rightarrow> reconnect_policy \<Rightarrow> duration \<Rightarrow> bool" where
  "ticking s epoch pol el \<longleftrightarrow>
     epoch = rs_reconnect_epoch s \<and> rs_reconnect_loop_active s
     \<and> (case rs_loop_clock s of Some c \<Rightarrow> lc_armed c = pol \<and> lc_elapsed c = el | None \<Rightarrow> False)"

text \<open>What can happen to a loop whose attempts keep failing: ticks, early wakes, sessions that start
  and end.\<close>

fun loop_event :: "u64 \<Rightarrow> reconnect_policy \<Rightarrow> reconnect_event \<Rightarrow> bool" where
  "loop_event epoch pol (OEv_ReconnectTick ep p) \<longleftrightarrow> ep = epoch \<and> p = pol"
| "loop_event epoch pol (OEv_ReconnectWake ep p) \<longleftrightarrow> ep = epoch \<and> p = pol"
| "loop_event epoch pol (OEv_AttemptFailedSync ep) \<longleftrightarrow> True"
| "loop_event epoch pol OEv_ReconnectSessionStarting \<longleftrightarrow> True"
| "loop_event epoch pol (OEv_AttemptDisconnected g k b) \<longleftrightarrow> True"
| "loop_event epoch pol (OEv_SessionCreated g) \<longleftrightarrow> True"
| "loop_event epoch pol _ \<longleftrightarrow> False"

definition tick_events :: "reconnect_event list \<Rightarrow> nat" where
  "tick_events es = length (filter (\<lambda>e. case e of OEv_ReconnectTick _ _ \<Rightarrow> True | _ \<Rightarrow> False) es)"

lemma ticking_other:
  assumes "ticking s epoch pol el" and "loop_event epoch pol e" and "\<forall>ep p. e \<noteq> OEv_ReconnectTick ep p"
  shows "ticking (fst (rs_apply s e)) epoch pol el"
  using assms
  by (cases e) (auto simp: rs_handler_defs rs_loop_is_live_def ticking_def Let_def split: option.splits if_splits)

lemma ticking_tick:
  assumes "ticking s epoch pol el"
  shows "if pol_timeout pol \<le> dur_sat_add el (pol_tick pol)
     then OEff_PublishReconnectTimedOut (timeout_secs pol) \<in> set (snd (rs_apply s (OEv_ReconnectTick epoch pol)))
       \<and> \<not> rs_reconnect_loop_active (fst (rs_apply s (OEv_ReconnectTick epoch pol)))
     else ticking (fst (rs_apply s (OEv_ReconnectTick epoch pol))) epoch pol (dur_sat_add el (pol_tick pol))"
  using assms
  by (auto simp: rs_handler_defs rs_loop_is_live_def ticking_def Let_def split: option.splits if_splits)

lemma loop_times_out:
  assumes "pol_timeout pol \<le> DURATION_MAX"
  shows "ticking s epoch pol el \<Longrightarrow> \<forall>e \<in> set es. loop_event epoch pol e \<Longrightarrow> el < pol_timeout pol \<Longrightarrow>
    pol_timeout pol \<le> el + tick_events es * pol_tick pol \<Longrightarrow>
    OEff_PublishReconnectTimedOut (timeout_secs pol) \<in> set (snd (run rs_apply s es))"
proof (induction es arbitrary: s el)
  case Nil
  then show ?case by (simp add: tick_events_def)
next
  case (Cons e es)
  show ?case
  proof (cases "e = OEv_ReconnectTick epoch pol")
    case True
    let ?el = "dur_sat_add el (pol_tick pol)"
    show ?thesis
    proof (cases "pol_timeout pol \<le> ?el")
      case out: True
      with ticking_tick [OF Cons.prems(1)] show ?thesis by (simp add: True del: rs_apply.simps)
    next
      case False
      then have el: "?el = el + pol_tick pol" using assms by (simp add: dur_sat_add_def)
      from False ticking_tick [OF Cons.prems(1)] have t: "ticking (fst (rs_apply s e)) epoch pol ?el"
        by (simp add: True del: rs_apply.simps)
      have "pol_timeout pol \<le> ?el + tick_events es * pol_tick pol"
        using Cons.prems(4) by (simp add: True el tick_events_def)
      with Cons.IH [OF t] Cons.prems(2) False show ?thesis by (simp del: rs_apply.simps)
    qed
  next
    case False
    with Cons.prems(2) have other: "\<forall>ep p. e \<noteq> OEv_ReconnectTick ep p" by auto
    then have "tick_events (e # es) = tick_events es" by (cases e) (simp_all add: tick_events_def)
    with Cons.IH [OF ticking_other [OF Cons.prems(1) _ other]] Cons.prems(2,3,4) show ?thesis
      by (simp del: rs_apply.simps)
  qed
qed

section \<open>Properties\<close>

text \<open>In every execution an edge is open only while connected and only for the generation established last,
  a loop clock exists only for an active loop, and the automatic loop never runs while
  connected.\<close>

lemma rs_inv_reachable: "rs_inv (fst (run rs_apply rs_default es))"
  by (rule rs.inv_run [OF rs_inv_default])

text \<open>C14. The connection edges form a protocol: over any execution \<open>Established\<close> and
  \<open>Lost\<close> alternate, each loss is for the generation that is open, established generations
  strictly increase, and what a listener reconstructs from the edges is the reducer's own
  state.\<close>

theorem rs_edges_protocol:
  "foldl edge_step (Some (None, None)) (snd (run rs_apply rs_default es))
   = Some (rs_edge_open (fst (run rs_apply rs_default es)), rs_last_established (fst (run rs_apply rs_default es)))"
  using edges_run [OF rs_inv_default, of es] by (simp add: edge_view_def) (simp add: rs_default_def)

text \<open>At most one reconnect attempt is in flight: after an attempt has been started, no further one is started
  until its outcome is reported or the loop is taken away from it, however many ticks and wakes
  arrive in between.\<close>

lemma rs_one_attempt_in_flight:
  assumes "OEff_StartAttempt epoch src \<in> set (snd (rs_apply s e))" and "\<forall>e' \<in> set es. \<not> ends_attempt e'"
  shows "attempts (snd (run rs_apply s (e # es))) = 1"
proof -
  have "0 < attempts (snd (rs_apply s e))"
    by (auto simp: attempts_def filter_empty_conv intro!: bexI [OF _ assms(1)])
  from attempt_step [OF this] in_flight_run [of "fst (rs_apply s e)" es] assms(2) show ?thesis by simp
qed

text \<open>A user who disconnects is not reconnected: after a user disconnect, no reconnect loop and no attempt
  is started by any sequence of events, network losses and late disconnects included, until some
  session connects again.\<close>

lemma rs_user_disconnect_final:
  assumes "\<forall>g. OEv_AttemptConnected g \<notin> set es"
    and "f \<in> set (snd (run rs_apply (fst (rs_apply s OEv_UserDisconnect)) es))"
  shows "\<not> starts_loop f"
  using hung_up_run [OF hung_up_disconnect assms(1)] assms(2) by blast

text \<open>The automatic loop ends: once its ticks add up to the timeout, it gives up, whatever
  wakes, failed attempts and intermediate sessions occur in between.\<close>

lemma rs_loop_gives_up:
  assumes "rs_reconnect_loop_active s" and "rs_loop_clock s = None" and "0 < pol_timeout pol"
    and "pol_timeout pol \<le> DURATION_MAX"
    and "\<forall>e \<in> set es. loop_event (rs_reconnect_epoch s) pol e"
    and "pol_timeout pol \<le> tick_events es * pol_tick pol"
  shows "OEff_PublishReconnectTimedOut (timeout_secs pol)
    \<in> set (snd (run rs_apply s (OEv_LoopStarted (rs_reconnect_epoch s) pol # es)))"
proof -
  have "ticking (fst (rs_apply s (OEv_LoopStarted (rs_reconnect_epoch s) pol))) (rs_reconnect_epoch s) pol 0"
    using assms(1,2) by (simp add: rs_on_loop_started_def rs_arm_loop_timer_def ticking_def Let_def)
  from loop_times_out [OF assms(4) this assms(5)] assms(3,6) show ?thesis by (simp del: rs_apply.simps)
qed

text \<open>Timers, wakes and results of a loop that is no longer current can be dropped from any execution
  without changing its outcome.\<close>

lemma rs_stale_loop_events:
  assumes "\<not> rs_current (fst (run rs_apply rs_default es)) e"
  shows "run rs_apply rs_default (es @ e # es') = run rs_apply rs_default (es @ es')"
  using assms by (rule rs_stale.stale_transparent)

section \<open>Witnesses\<close>

definition sample_loop :: reconnect_state where
  "sample_loop = rs_default\<lparr>rs_reconnect_loop_active := True, rs_reconnect_epoch := 4, rs_last_attempt := Some 0,
     rs_loop_clock := Some \<lparr>lc_elapsed = 0, lc_tick_count = 2, lc_armed = reconnect_policy_default\<rparr>\<rparr>"

end
