(* ===== verification/ConnectRecovery.thy ===== *)
theory ConnectRecovery
  imports Backoff
begin

text \<open>
  \<^verbatim>\<open>isekai-ssh/src/reconnect_backoff.rs\<close> (the redeploy gate and the reconnect budget) and
  \<^verbatim>\<open>isekai-ssh/src/connect_recovery_fsm.rs\<close> (the reducer that decides what follows a failed connect
  attempt: give up, redeploy the helper, or wait and reconnect). Results: a remote command
  that may have run is never run again, recovery stops only for the listed reasons,
  redeployments keep the gate's distance, and each accepted answer leaves exactly one request
  open.
\<close>

section \<open>The redeploy gate and the budget\<close>

definition RECONNECT_BUDGET :: duration where "RECONNECT_BUDGET = from_secs (24 * 60 * 60)"

definition RECONNECT_BACKOFF :: backoff_policy where
  "RECONNECT_BACKOFF = \<lparr>bp_initial = from_millis 500, bp_max = from_secs 10, bp_jitter = 1 / 4\<rparr>"

definition RECONNECT_STABLE_THRESHOLD :: duration where "RECONNECT_STABLE_THRESHOLD = from_secs 200"

definition REDEPLOY_BACKOFF :: backoff_policy where
  "REDEPLOY_BACKOFF = \<lparr>bp_initial = from_secs 60, bp_max = from_secs 300, bp_jitter = 1 / 4\<rparr>"

definition add_ceil :: "millis \<Rightarrow> duration \<Rightarrow> millis" where
  "add_ceil t delay = sat_add t (u64_try_from ((delay + 999999) div 1000000))"

definition was_stable :: "millis \<Rightarrow> millis \<Rightarrow> bool" where
  "was_stable attempt_started now \<longleftrightarrow> RECONNECT_STABLE_THRESHOLD \<le> millis_sub now attempt_started"

record redeploy_gate =
  rg_next_due_at :: "millis option"
  rg_attempt :: u32

definition gate_new :: redeploy_gate where
  "gate_new = \<lparr>rg_next_due_at = None, rg_attempt = 0\<rparr>"

definition gate_due :: "redeploy_gate \<Rightarrow> millis \<Rightarrow> bool" where
  "gate_due g now = (case rg_next_due_at g of None \<Rightarrow> True | Some t \<Rightarrow> t \<le> now)"

definition gate_record_attempt :: "jitter_fn \<Rightarrow> redeploy_gate \<Rightarrow> millis \<Rightarrow> u64 \<Rightarrow> redeploy_gate" where
  "gate_record_attempt jf g now seed =
     g\<lparr>rg_next_due_at := Some (add_ceil now (next_delay jf REDEPLOY_BACKOFF (rg_attempt g) seed)),
       rg_attempt := rg_attempt g + 1\<rparr>"

definition gate_try_consume :: "jitter_fn \<Rightarrow> redeploy_gate \<Rightarrow> millis \<Rightarrow> u64 \<Rightarrow> redeploy_gate \<times> bool" where
  "gate_try_consume jf g now seed =
     (if \<not> gate_due g now then (g, False) else (gate_record_attempt jf g now seed, True))"

definition gate_reset_if_stable :: "redeploy_gate \<Rightarrow> millis \<Rightarrow> millis \<Rightarrow> redeploy_gate" where
  "gate_reset_if_stable g attempt_started now =
     (if was_stable attempt_started now then g\<lparr>rg_next_due_at := None, rg_attempt := 0\<rparr> else g)"

record recovery_budget =
  rb_attempt :: u32
  rb_lost_since :: "millis option"
  rb_lightweight_retries :: u32

definition budget_default :: recovery_budget where
  "budget_default = \<lparr>rb_attempt = 0, rb_lost_since = None, rb_lightweight_retries = 0\<rparr>"

definition budget_reset_if_stable :: "recovery_budget \<Rightarrow> millis \<Rightarrow> millis \<Rightarrow> recovery_budget" where
  "budget_reset_if_stable b attempt_started now =
     (if was_stable attempt_started now then budget_default else b)"

definition budget_next_backoff ::
  "jitter_fn \<Rightarrow> recovery_budget \<Rightarrow> millis \<Rightarrow> u64 \<Rightarrow> recovery_budget \<times> duration option" where
  "budget_next_backoff jf b now seed =
     (let lost_at = (case rb_lost_since b of Some t \<Rightarrow> t | None \<Rightarrow> now);
          b = b\<lparr>rb_lost_since := Some lost_at\<rparr> in
      if RECONNECT_BUDGET \<le> millis_sub now lost_at then (b, None)
      else
        let delay = next_delay jf RECONNECT_BACKOFF (rb_attempt b) seed in
        (b\<lparr>rb_attempt := rb_attempt b + 1\<rparr>, Some delay))"

section \<open>Decisions\<close>

definition MAX_LIGHTWEIGHT_RETRIES :: u32 where "MAX_LIGHTWEIGHT_RETRIES = 5"

datatype connect_outcome_class = StaleTrust | Unreachable | MidSessionDisconnect | Class_Unknown

datatype connect_failure_recovery_action =
    NoRecoverableSignal
  | AutoBootstrapDisabled
  | RebootstrapAndRetry
  | RetryConnectLightweight

fun decide_connect_failure_recovery ::
  "connect_outcome_class option \<Rightarrow> bool \<Rightarrow> connect_failure_recovery_action" where
  "decide_connect_failure_recovery None should_bootstrap = NoRecoverableSignal"
| "decide_connect_failure_recovery (Some MidSessionDisconnect) should_bootstrap = RetryConnectLightweight"
| "decide_connect_failure_recovery (Some c) should_bootstrap =
     (if \<not> should_bootstrap then AutoBootstrapDisabled else RebootstrapAndRetry)"

fun remote_command_forbids_retry :: "connect_outcome_class \<Rightarrow> bool \<Rightarrow> bool" where
  "remote_command_forbids_retry MidSessionDisconnect has_remote_command = has_remote_command"
| "remote_command_forbids_retry Class_Unknown has_remote_command = has_remote_command"
| "remote_command_forbids_retry StaleTrust has_remote_command = False"
| "remote_command_forbids_retry Unreachable has_remote_command = False"

definition remote_command_forbids_retry_after :: "connect_outcome_class \<Rightarrow> bool \<Rightarrow> bool \<Rightarrow> bool" where
  "remote_command_forbids_retry_after c has_remote_command session_established \<longleftrightarrow>
     remote_command_forbids_retry c has_remote_command \<or> (has_remote_command \<and> session_established)"

section \<open>The reducer\<close>

type_synonym recovery_token = u64

datatype redeploy_result = Redeploy_Succeeded | Redeploy_RetryableFailure | Redeploy_Fatal

datatype recovery_event =
    CEv_AttemptFailed recovery_token millis millis "connect_outcome_class option" bool bool bool u64
  | CEv_RedeployFinished recovery_token millis u64 redeploy_result
  | CEv_BackoffElapsed recovery_token

datatype recovery_log =
    Log_AutoBootstrapDisabled
  | Log_RebootstrapDecision
  | Log_RemoteCommandNotRetried
  | Log_LightweightExhaustedNoBootstrap
  | Log_LightweightExhaustedRedeploying

datatype recovery_effect =
    CEff_Attempt recovery_token bool
  | CEff_Redeploy recovery_token
  | CEff_Backoff recovery_token duration
  | CEff_RebuildIntent
  | CEff_AnnounceReconnect u32
  | CEff_Log recovery_log
  | CEff_GiveUp
  | CEff_FailWithRedeployError

datatype redeploy_origin = Origin_Rebootstrap | Origin_LightweightExhausted

datatype recovery_awaiting =
    NotStarted
  | Await_Attempt recovery_token
  | Await_Redeploy recovery_token redeploy_origin
  | Await_RBackoff recovery_token
  | Done

record connect_recovery_fsm =
  cr_budget :: recovery_budget
  cr_gate :: redeploy_gate
  cr_next_token :: u64
  cr_awaiting :: recovery_awaiting

definition cr_new :: connect_recovery_fsm where
  "cr_new = \<lparr>cr_budget = budget_default, cr_gate = gate_new, cr_next_token = 0, cr_awaiting = NotStarted\<rparr>"

definition cr_issue :: "connect_recovery_fsm \<Rightarrow> recovery_token \<times> connect_recovery_fsm" where
  "cr_issue m = (cr_next_token m, m\<lparr>cr_next_token := cr_next_token m + 1\<rparr>)"

definition cr_attempt :: "connect_recovery_fsm \<Rightarrow> bool \<Rightarrow> connect_recovery_fsm \<times> recovery_effect" where
  "cr_attempt m silent =
     (let (token, m) = cr_issue m in (m\<lparr>cr_awaiting := Await_Attempt token\<rparr>, CEff_Attempt token silent))"

definition cr_redeploy :: "connect_recovery_fsm \<Rightarrow> redeploy_origin \<Rightarrow> connect_recovery_fsm \<times> recovery_effect" where
  "cr_redeploy m origin =
     (let (token, m) = cr_issue m in (m\<lparr>cr_awaiting := Await_Redeploy token origin\<rparr>, CEff_Redeploy token))"

definition cr_finish ::
  "connect_recovery_fsm \<Rightarrow> recovery_effect list \<Rightarrow> recovery_effect \<Rightarrow> connect_recovery_fsm \<times> recovery_effect list" where
  "cr_finish m effs final = (m\<lparr>cr_awaiting := Done\<rparr>, effs @ [final])"

definition cr_start :: "connect_recovery_fsm \<Rightarrow> connect_recovery_fsm \<times> recovery_effect list" where
  "cr_start m =
     (if cr_awaiting m \<noteq> NotStarted then (m, [])
      else let (m, eff) = cr_attempt m False in (m, [eff]))"

definition cr_backoff ::
  "jitter_fn \<Rightarrow> connect_recovery_fsm \<Rightarrow> millis \<Rightarrow> u64 \<Rightarrow> connect_recovery_fsm \<times> recovery_effect list" where
  "cr_backoff jf m now seed =
     (let announce = CEff_AnnounceReconnect (rb_attempt (cr_budget m) + 1);
          (budget, delay) = budget_next_backoff jf (cr_budget m) now seed;
          m = m\<lparr>cr_budget := budget\<rparr> in
      case delay of
        None \<Rightarrow> cr_finish m [announce] CEff_GiveUp
      | Some delay \<Rightarrow>
          let (token, m) = cr_issue m in
          (m\<lparr>cr_awaiting := Await_RBackoff token\<rparr>, [announce, CEff_Backoff token delay]))"

definition cr_rebootstrap_arm ::
  "jitter_fn \<Rightarrow> connect_recovery_fsm \<Rightarrow> millis \<Rightarrow> u64 \<Rightarrow> connect_recovery_fsm \<times> recovery_effect list" where
  "cr_rebootstrap_arm jf m now seed =
     (let (gate, allowed) = gate_try_consume jf (cr_gate m) now seed;
          m = m\<lparr>cr_gate := gate\<rparr> in
      if allowed then
        let (m, eff) = cr_redeploy m Origin_Rebootstrap in (m, [CEff_Log Log_RebootstrapDecision, eff])
      else cr_backoff jf m now seed)"

definition cr_lightweight_arm ::
  "jitter_fn \<Rightarrow> connect_recovery_fsm \<Rightarrow> millis \<Rightarrow> bool \<Rightarrow> u64 \<Rightarrow> connect_recovery_fsm \<times> recovery_effect list" where
  "cr_lightweight_arm jf m now should_bootstrap seed =
     (let m = m\<lparr>cr_budget := (cr_budget m)\<lparr>rb_lightweight_retries := rb_lightweight_retries (cr_budget m) + 1\<rparr>\<rparr> in
      if MAX_LIGHTWEIGHT_RETRIES < rb_lightweight_retries (cr_budget m) then
        (if \<not> should_bootstrap then
           cr_finish m [CEff_Log Log_LightweightExhaustedNoBootstrap] CEff_GiveUp
         else
           let (gate, allowed) = gate_try_consume jf (cr_gate m) now seed;
               m = m\<lparr>cr_gate := gate\<rparr> in
           if allowed then
             let (m, eff) = cr_redeploy m Origin_LightweightExhausted in
             (m, [CEff_Log Log_LightweightExhaustedRedeploying, eff])
           else cr_backoff jf m now seed)
      else cr_backoff jf m now seed)"

definition cr_on_attempt_failed ::
  "jitter_fn \<Rightarrow> connect_recovery_fsm \<Rightarrow> millis \<Rightarrow> millis \<Rightarrow> connect_outcome_class option \<Rightarrow> bool \<Rightarrow> bool \<Rightarrow> bool \<Rightarrow> u64
   \<Rightarrow> connect_recovery_fsm \<times> recovery_effect list" where
  "cr_on_attempt_failed jf m started now outcome should_bootstrap has_remote_command session_established seed =
     (let m = m\<lparr>cr_gate := gate_reset_if_stable (cr_gate m) started now,
                cr_budget := budget_reset_if_stable (cr_budget m) started now\<rparr> in
      case (decide_connect_failure_recovery outcome should_bootstrap, outcome) of
        (NoRecoverableSignal, _) \<Rightarrow> cr_finish m [] CEff_GiveUp
      | (_, None) \<Rightarrow> cr_finish m [] CEff_GiveUp
      | (AutoBootstrapDisabled, Some _) \<Rightarrow> cr_finish m [CEff_Log Log_AutoBootstrapDisabled] CEff_GiveUp
      | (RebootstrapAndRetry, Some c) \<Rightarrow>
          if remote_command_forbids_retry_after c has_remote_command session_established then
            cr_finish m [CEff_Log Log_RemoteCommandNotRetried] CEff_GiveUp
          else cr_rebootstrap_arm jf m now seed
      | (RetryConnectLightweight, Some c) \<Rightarrow>
          if remote_command_forbids_retry_after c has_remote_command session_established then
            cr_finish m [CEff_Log Log_RemoteCommandNotRetried] CEff_GiveUp
          else cr_lightweight_arm jf m now should_bootstrap seed)"

definition cr_on_redeploy_finished ::
  "jitter_fn \<Rightarrow> connect_recovery_fsm \<Rightarrow> redeploy_origin \<Rightarrow> millis \<Rightarrow> u64 \<Rightarrow> redeploy_result
   \<Rightarrow> connect_recovery_fsm \<times> recovery_effect list" where
  "cr_on_redeploy_finished jf m origin now seed result =
     (case result of
        Redeploy_Succeeded \<Rightarrow>
          let m = (case origin of
                     Origin_LightweightExhausted \<Rightarrow> m\<lparr>cr_budget := (cr_budget m)\<lparr>rb_lightweight_retries := 0\<rparr>\<rparr>
                   | Origin_Rebootstrap \<Rightarrow> m);
              (m, eff) = cr_attempt m True in (m, [eff])
      | Redeploy_RetryableFailure \<Rightarrow> cr_backoff jf m now seed
      | Redeploy_Fatal \<Rightarrow> cr_finish m [] CEff_FailWithRedeployError)"

definition cr_apply ::
  "jitter_fn \<Rightarrow> connect_recovery_fsm \<Rightarrow> recovery_event \<Rightarrow> connect_recovery_fsm \<times> recovery_effect list" where
  "cr_apply jf m e =
     (case (cr_awaiting m, e) of
        (Await_Attempt current, CEv_AttemptFailed token started now outcome sb rc se seed) \<Rightarrow>
          if token = current then cr_on_attempt_failed jf m started now outcome sb rc se seed else (m, [])
      | (Await_Redeploy current origin, CEv_RedeployFinished token now seed result) \<Rightarrow>
          if token = current then cr_on_redeploy_finished jf m origin now seed result else (m, [])
      | (Await_RBackoff current, CEv_BackoffElapsed token) \<Rightarrow>
          if token = current then let (m, eff) = cr_attempt m False in (m, [CEff_RebuildIntent, eff])
          else (m, [])
      | _ \<Rightarrow> (m, []))"

section \<open>Requests and answers\<close>

text \<open>The answer the machine accepts in its state.\<close>

fun cr_current :: "connect_recovery_fsm \<Rightarrow> recovery_event \<Rightarrow> bool" where
  "cr_current m (CEv_AttemptFailed token _ _ _ _ _ _ _) \<longleftrightarrow> cr_awaiting m = Await_Attempt token"
| "cr_current m (CEv_RedeployFinished token _ _ _) \<longleftrightarrow>
     (case cr_awaiting m of Await_Redeploy t _ \<Rightarrow> t = token | _ \<Rightarrow> False)"
| "cr_current m (CEv_BackoffElapsed token) \<longleftrightarrow> cr_awaiting m = Await_RBackoff token"

interpretation cr_stale: stale_guard "cr_apply jf" cr_current for jf
proof
  fix m e
  assume "\<not> cr_current m e"
  then show "cr_apply jf m e = (m, [])"
    by (cases e) (auto simp: cr_apply_def split: recovery_awaiting.splits)
qed

text \<open>What a result asks of the shell: its last effect is the one request the new state waits for, carrying
  a fresh token, or the end.\<close>

definition cr_answers :: "connect_recovery_fsm \<Rightarrow> connect_recovery_fsm \<times> recovery_effect list \<Rightarrow> bool" where
  "cr_answers m r \<longleftrightarrow>
     snd r \<noteq> [] \<and>
     (case cr_awaiting (fst r) of
        NotStarted \<Rightarrow> False
      | Await_Attempt t \<Rightarrow> t = cr_next_token m \<and> cr_next_token (fst r) = t + 1 \<and> (\<exists>b. last (snd r) = CEff_Attempt t b)
      | Await_Redeploy t q \<Rightarrow> t = cr_next_token m \<and> cr_next_token (fst r) = t + 1 \<and> last (snd r) = CEff_Redeploy t
      | Await_RBackoff t \<Rightarrow> t = cr_next_token m \<and> cr_next_token (fst r) = t + 1 \<and> (\<exists>d. last (snd r) = CEff_Backoff t d)
      | Done \<Rightarrow> cr_next_token (fst r) = cr_next_token m
          \<and> (last (snd r) = CEff_GiveUp \<or> last (snd r) = CEff_FailWithRedeployError))"

lemmas cr_defs =
  cr_finish_def cr_issue_def cr_attempt_def cr_redeploy_def Let_def

lemma answers_finish:
  "cr_next_token m' = cr_next_token m \<Longrightarrow> cr_answers m (cr_finish m' effs CEff_GiveUp)"
  "cr_next_token m' = cr_next_token m \<Longrightarrow> cr_answers m (cr_finish m' effs CEff_FailWithRedeployError)"
  by (simp_all add: cr_answers_def cr_finish_def)

lemma answers_backoff: "cr_next_token m' = cr_next_token m \<Longrightarrow> cr_answers m (cr_backoff jf m' now seed)"
  by (auto simp: cr_backoff_def cr_answers_def cr_defs split: prod.splits option.splits)

lemma answers_rebootstrap: "cr_next_token m' = cr_next_token m \<Longrightarrow> cr_answers m (cr_rebootstrap_arm jf m' now seed)"
  using answers_backoff [of "m'\<lparr>cr_gate := g\<rparr>" m jf now seed for g]
  by (auto simp: cr_rebootstrap_arm_def cr_redeploy_def cr_issue_def Let_def split: prod.splits)
    (simp add: cr_answers_def)

lemma answers_lightweight: "cr_next_token m' = cr_next_token m \<Longrightarrow> cr_answers m (cr_lightweight_arm jf m' now sb seed)"
  by (auto simp: cr_lightweight_arm_def cr_redeploy_def cr_issue_def Let_def
      intro!: answers_finish answers_backoff split: prod.splits)
    (simp add: cr_answers_def)

lemma answers_attempt_failed: "cr_answers m (cr_on_attempt_failed jf m started now outcome sb rc se seed)"
  by (cases outcome; cases "the outcome"; cases sb)
    (simp_all add: cr_on_attempt_failed_def Let_def answers_finish answers_rebootstrap answers_lightweight)

lemma answers_attempt: "cr_next_token m' = cr_next_token m \<Longrightarrow> cr_answers m (fst (cr_attempt m' b), pre @ [snd (cr_attempt m' b)])"
  by (auto simp: cr_attempt_def cr_issue_def cr_answers_def)

lemma answers_redeploy_finished: "cr_answers m (cr_on_redeploy_finished jf m origin now seed result)"
  using answers_attempt [of _ m True "[]"]
  by (cases result; cases origin)
    (simp_all add: cr_on_redeploy_finished_def answers_finish answers_backoff case_prod_beta Let_def)

lemma cr_answers_step:
  assumes "cr_current m e"
  shows "cr_answers m (cr_apply jf m e)"
proof (cases e)
  case (CEv_BackoffElapsed token)
  with assms answers_attempt [of m m False "[CEff_RebuildIntent]"] show ?thesis
    by (simp add: cr_apply_def case_prod_beta)
qed (use assms in \<open>auto simp: cr_apply_def answers_attempt_failed answers_redeploy_finished
    split: recovery_awaiting.splits\<close>)

lemma done_run: "cr_awaiting m = Done \<Longrightarrow> run (cr_apply jf) m es = (m, [])"
proof (rule cr_stale.stale_run)
  show "\<not> cr_current m e" if "cr_awaiting m = Done" for e using that by (cases e) simp_all
qed

section \<open>Why recovery stops\<close>

definition budget_spent :: "recovery_budget \<Rightarrow> millis \<Rightarrow> bool" where
  "budget_spent b now \<longleftrightarrow>
     (case rb_lost_since b of Some t \<Rightarrow> RECONNECT_BUDGET \<le> millis_sub now t | None \<Rightarrow> False)"

lemma give_up_backoff:
  "CEff_GiveUp \<in> set (snd (cr_backoff jf m now seed)) \<longleftrightarrow> budget_spent (cr_budget m) now"
  by (auto simp: cr_backoff_def budget_next_backoff_def budget_spent_def RECONNECT_BUDGET_def from_secs_def cr_defs
      split: option.splits)

lemma give_up_rebootstrap:
  "CEff_GiveUp \<in> set (snd (cr_rebootstrap_arm jf m now seed)) \<Longrightarrow> budget_spent (cr_budget m) now"
  by (auto simp: cr_rebootstrap_arm_def cr_redeploy_def cr_issue_def give_up_backoff Let_def split: prod.splits if_splits)

lemma give_up_lightweight:
  "CEff_GiveUp \<in> set (snd (cr_lightweight_arm jf m now sb seed)) \<Longrightarrow>
   budget_spent (cr_budget m) now \<or> \<not> sb \<and> MAX_LIGHTWEIGHT_RETRIES < rb_lightweight_retries (cr_budget m) + 1"
  by (auto simp: cr_lightweight_arm_def cr_redeploy_def cr_issue_def give_up_backoff Let_def budget_spent_def
      split: prod.splits if_splits)

definition stop_reason :: "recovery_budget \<Rightarrow> recovery_event \<Rightarrow> bool" where
  "stop_reason b e \<longleftrightarrow>
     (case e of
        CEv_AttemptFailed _ started now outcome sb rc se _ \<Rightarrow>
          let b = budget_reset_if_stable b started now in
          (case outcome of
             None \<Rightarrow> True
           | Some c \<Rightarrow>
               remote_command_forbids_retry_after c rc se
               \<or> \<not> sb \<and> (c \<noteq> MidSessionDisconnect \<or> MAX_LIGHTWEIGHT_RETRIES < rb_lightweight_retries b + 1)
               \<or> budget_spent b now)
      | CEv_RedeployFinished _ now _ _ \<Rightarrow> budget_spent b now
      | CEv_BackoffElapsed _ \<Rightarrow> False)"

lemma give_up_reason:
  assumes "CEff_GiveUp \<in> set (snd (cr_apply jf m e))"
  shows "stop_reason (cr_budget m) e"
proof (cases e)
  case (CEv_AttemptFailed token started now outcome sb rc se seed)
  let ?m = "m\<lparr>cr_gate := gate_reset_if_stable (cr_gate m) started now,
    cr_budget := budget_reset_if_stable (cr_budget m) started now\<rparr>"
  have *: "CEff_GiveUp \<in> set (snd (cr_on_attempt_failed jf m started now outcome sb rc se seed))"
    using assms by (auto simp: CEv_AttemptFailed cr_apply_def split: recovery_awaiting.splits if_splits)
  show ?thesis
  proof (cases outcome)
    case None
    then show ?thesis by (simp add: CEv_AttemptFailed stop_reason_def)
  next
    case (Some c)
    with * show ?thesis
      using give_up_rebootstrap [of jf ?m now seed] give_up_lightweight [of jf ?m now sb seed]
      by (cases c) (auto simp: CEv_AttemptFailed stop_reason_def cr_on_attempt_failed_def Let_def split: if_splits)
  qed
next
  case (CEv_RedeployFinished token now seed result)
  then show ?thesis
    using assms
    by (auto simp: stop_reason_def cr_apply_def cr_on_redeploy_finished_def give_up_backoff cr_defs
        split: recovery_awaiting.splits redeploy_result.splits redeploy_origin.splits if_splits)
next
  case (CEv_BackoffElapsed token)
  with assms show ?thesis by (auto simp: cr_apply_def cr_defs split: recovery_awaiting.splits if_splits)
qed

section \<open>The distance between redeployments\<close>

definition redeploys :: "recovery_effect list \<Rightarrow> bool" where
  "redeploys effs \<longleftrightarrow> (\<exists>f \<in> set effs. case f of CEff_Redeploy _ \<Rightarrow> True | _ \<Rightarrow> False)"

text \<open>Whether a failure counts as the start of a new storm.\<close>

fun stable_failure :: "recovery_event \<Rightarrow> bool" where
  "stable_failure (CEv_AttemptFailed _ started now _ _ _ _ _) \<longleftrightarrow> was_stable started now"
| "stable_failure _ \<longleftrightarrow> False"

lemma gate_backoff: "cr_gate (fst (cr_backoff jf m now seed)) = cr_gate m \<and> \<not> redeploys (snd (cr_backoff jf m now seed))"
  by (auto simp: cr_backoff_def redeploys_def cr_defs split: prod.splits option.splits)

definition gate_use :: "jitter_fn \<Rightarrow> redeploy_gate \<Rightarrow> millis \<Rightarrow> u64 \<Rightarrow> connect_recovery_fsm \<times> recovery_effect list \<Rightarrow> bool" where
  "gate_use jf g now seed r \<longleftrightarrow>
     (if redeploys (snd r) then gate_due g now \<and> cr_gate (fst r) = gate_record_attempt jf g now seed
      else cr_gate (fst r) = g)"

lemma gate_use_finish: "gate_use jf (cr_gate m) now seed (cr_finish m [CEff_Log l] CEff_GiveUp)"
  "gate_use jf (cr_gate m) now seed (cr_finish m [] CEff_GiveUp)"
  by (simp_all add: gate_use_def cr_finish_def redeploys_def)

lemma gate_use_rebootstrap: "gate_use jf (cr_gate m) now seed (cr_rebootstrap_arm jf m now seed)"
  by (auto simp: gate_use_def cr_rebootstrap_arm_def gate_try_consume_def cr_redeploy_def cr_issue_def gate_backoff Let_def)
    (auto simp: redeploys_def)

lemma gate_use_lightweight: "gate_use jf (cr_gate m) now seed (cr_lightweight_arm jf m now sb seed)"
  by (auto simp: gate_use_def cr_lightweight_arm_def gate_try_consume_def cr_redeploy_def cr_issue_def gate_backoff
      cr_finish_def Let_def) (auto simp: redeploys_def)

lemma gate_use_attempt_failed:
  "gate_use jf (gate_reset_if_stable (cr_gate m) started now) now seed
     (cr_on_attempt_failed jf m started now outcome sb rc se seed)"
proof -
  let ?m = "m\<lparr>cr_gate := gate_reset_if_stable (cr_gate m) started now,
    cr_budget := budget_reset_if_stable (cr_budget m) started now\<rparr>"
  show ?thesis
    using gate_use_finish [of jf ?m now seed] gate_use_rebootstrap [of jf ?m now seed] gate_use_lightweight [of jf ?m now seed sb]
    by (cases outcome; cases "the outcome"; cases sb) (simp_all add: cr_on_attempt_failed_def Let_def)
qed

lemma gate_quiet_step:
  assumes "\<not> stable_failure e" and "\<not> redeploys (snd (cr_apply jf m e))"
  shows "cr_gate (fst (cr_apply jf m e)) = cr_gate m"
proof (cases "cr_current m e")
  case False
  then show ?thesis by (simp add: cr_stale.stale_step)
next
  case True
  show ?thesis
  proof (cases e)
    case (CEv_AttemptFailed token started now outcome sb rc se seed)
    with assms True gate_use_attempt_failed [of jf m started now seed outcome sb rc se] show ?thesis
      by (simp add: cr_apply_def gate_use_def gate_reset_if_stable_def)
  qed (use True in \<open>auto simp: cr_apply_def cr_on_redeploy_finished_def gate_backoff cr_defs
      split: recovery_awaiting.splits redeploy_result.splits redeploy_origin.splits\<close>)
qed

lemma gate_quiet_run:
  "\<forall>e \<in> set es. \<not> stable_failure e \<Longrightarrow> \<not> redeploys (snd (run (cr_apply jf) m es)) \<Longrightarrow>
   cr_gate (fst (run (cr_apply jf) m es)) = cr_gate m"
proof (induction es arbitrary: m)
  case (Cons e es)
  then have "\<not> redeploys (snd (cr_apply jf m e))" "\<not> redeploys (snd (run (cr_apply jf) (fst (cr_apply jf m e)) es))"
    by (auto simp: redeploys_def)
  with Cons show ?case by (simp add: gate_quiet_step)
qed simp

lemma redeploy_event:
  assumes "redeploys (snd (cr_apply jf m e))"
  shows "\<exists>token started now outcome sb rc se seed. e = CEv_AttemptFailed token started now outcome sb rc se seed
    \<and> cr_apply jf m e = cr_on_attempt_failed jf m started now outcome sb rc se seed"
proof -
  have "cr_current m e" using assms cr_stale.stale_step [of m e jf] by (cases "cr_current m e") (auto simp: redeploys_def)
  then show ?thesis
    using assms gate_backoff
    by (cases e) (auto simp: cr_apply_def cr_on_redeploy_finished_def cr_defs
        split: recovery_awaiting.splits redeploy_result.splits redeploy_origin.splits, auto simp: redeploys_def)
qed

lemma add_ceil_elapsed:
  assumes "add_ceil t d \<le> now" and "now \<noteq> - 1"
  shows "d \<le> millis_sub now t"
proof -
  let ?c = "(d + 999999) div 1000000"
  have "unat (- 1 :: u64) = 2 ^ 64 - 1" using unat_minus_one_word [where 'w = 64] by simp
  with assms(2) have "unat now \<noteq> 2 ^ 64 - 1" by (auto simp: word_unat_eq_iff)
  then have "unat now < 2 ^ 64 - 1" using unat_less_exp [of now] by simp
  moreover have "unat (add_ceil t d) = min (unat t + ?c) (2 ^ 64 - 1)"
    by (simp add: add_ceil_def unat_sat_add unat_u64_try_from min_def)
  ultimately have "unat t + ?c \<le> unat now"
    using assms(1) by (simp add: word_le_nat_alt)
  then have "?c * 1000000 \<le> (unat now - unat t) * 1000000" by simp
  moreover have "d \<le> ?c * 1000000"
    using div_mult_mod_eq [of "d + 999999" 1000000] mod_less_divisor [of 1000000 "d + 999999"] by linarith
  ultimately show ?thesis by (simp add: millis_sub_def from_millis_def)
qed

section \<open>Properties\<close>

text \<open>C32. A remote command that may already have run is never run again: if the failed attempt carried a remote
  command and its session had been established, or its failure class does not rule that out,
  recovery ends on the spot, and no later event makes it attempt, redeploy or wait
  again.\<close>

theorem cr_remote_command_not_rerun:
  assumes "cr_awaiting m = Await_Attempt t"
    and "session_established \<or> c \<in> {MidSessionDisconnect, Class_Unknown}"
  shows "last (snd (cr_apply jf m (CEv_AttemptFailed t started now (Some c) sb True session_established seed))) = CEff_GiveUp
    \<and> (\<forall>f \<in> set (snd (run (cr_apply jf) m (CEv_AttemptFailed t started now (Some c) sb True session_established seed # es))).
         f = CEff_GiveUp \<or> (\<exists>l. f = CEff_Log l))"
proof -
  let ?e = "CEv_AttemptFailed t started now (Some c) sb True session_established seed"
  have "\<exists>l. snd (cr_apply jf m ?e) = [CEff_Log l, CEff_GiveUp] \<and> cr_awaiting (fst (cr_apply jf m ?e)) = Done"
    using assms by (cases c; cases sb)
      (auto simp: cr_apply_def cr_on_attempt_failed_def remote_command_forbids_retry_after_def cr_finish_def Let_def)
  then show ?thesis using done_run by auto
qed

text \<open>Automatic recovery stops only for a listed reason: no recorded outcome, a remote command that must
  not be repeated, bootstrapping disabled where only a redeployment is left, or
  twenty-four hours of continuous failure. In particular an interactive session with bootstrapping allowed
  keeps reconnecting.\<close>

lemma cr_gives_up_only_when:
  assumes "CEff_GiveUp \<in> set (snd (cr_apply jf m e))"
  shows "stop_reason (cr_budget m) e"
  using assms by (rule give_up_reason)

text \<open>Redeployments keep their distance: between one redeployment and the next within the same storm there
  lies at least the backoff delay drawn for the first, no matter which failures occur in
  between (for clocks that have not reached the end of their range).\<close>

lemma cr_redeploy_spacing:
  assumes "redeploys (snd (cr_apply jf m e1))"
    and "e1 = CEv_AttemptFailed t1 started1 now1 o1 sb1 rc1 se1 seed1"
    and "m' = fst (run (cr_apply jf) (fst (cr_apply jf m e1)) es)"
    and "\<not> redeploys (snd (run (cr_apply jf) (fst (cr_apply jf m e1)) es))"
    and "\<forall>e \<in> set (es @ [e2]). \<not> stable_failure e"
    and "redeploys (snd (cr_apply jf m' e2))"
    and "e2 = CEv_AttemptFailed t2 started2 now2 o2 sb2 rc2 se2 seed2" and "now2 \<noteq> - 1"
  shows "next_delay jf REDEPLOY_BACKOFF (rg_attempt (gate_reset_if_stable (cr_gate m) started1 now1)) seed1
    \<le> millis_sub now2 now1"
proof -
  let ?g = "gate_reset_if_stable (cr_gate m) started1 now1"
  have e1: "cr_gate (fst (cr_apply jf m e1)) = gate_record_attempt jf ?g now1 seed1"
    using redeploy_event [OF assms(1)] assms(1) gate_use_attempt_failed [of jf m started1 now1 seed1 o1 sb1 rc1 se1]
    by (auto simp: assms(2) gate_use_def)
  then have "cr_gate m' = gate_record_attempt jf ?g now1 seed1"
    using gate_quiet_run [OF _ assms(4)] assms(3,5) by simp
  moreover have "gate_due (cr_gate m') now2"
    using redeploy_event [OF assms(6)] assms(5,6) gate_use_attempt_failed [of jf m' started2 now2 seed2 o2 sb2 rc2 se2]
    by (auto simp: assms(7) gate_use_def gate_reset_if_stable_def)
  ultimately have "add_ceil now1 (next_delay jf REDEPLOY_BACKOFF (rg_attempt ?g) seed1) \<le> now2"
    by (simp add: gate_due_def gate_record_attempt_def)
  then show ?thesis using assms(8) by (rule add_ceil_elapsed)
qed

section \<open>Witnesses\<close>

definition sample_recovery :: connect_recovery_fsm where
  "sample_recovery = cr_new\<lparr>cr_next_token := 1, cr_awaiting := Await_Attempt 0\<rparr>"

theorem cr_remote_command_not_rerun_witness:
  "last (snd (cr_apply (\<lambda>_ _ d. d) sample_recovery
     (CEv_AttemptFailed 0 0 5000 (Some Unreachable) True True True 0))) = CEff_GiveUp"
  using cr_remote_command_not_rerun [of sample_recovery 0 True Unreachable "\<lambda>_ _ d. d" 0 5000 True 0 "[]"]
  by (simp add: sample_recovery_def)

end
