(* ===== verification/MuxReconnect.thy ===== *)
theory MuxReconnect
  imports Backoff
begin

text \<open>
  \<^verbatim>\<open>isekai-ssh/src/native/mux/reconnect_fsm.rs\<close>: the reconnect loop of a client that shares
  another process's connection (prepare, dispatch, classify the outcome, wait, retry). Its
  budget and backoff have the values of \<^verbatim>\<open>reconnect_backoff.rs\<close>; its stability threshold is
  60 seconds, not 200. Results: what each accepted failure leads to, and that a remote command whose
  owner died is not run again.
\<close>

definition MUX_RECONNECT_BUDGET :: duration where "MUX_RECONNECT_BUDGET = from_secs (24 * 60 * 60)"

definition MUX_RECONNECT_BACKOFF :: backoff_policy where
  "MUX_RECONNECT_BACKOFF = \<lparr>bp_initial = from_millis 500, bp_max = from_secs 10, bp_jitter = 1 / 4\<rparr>"

definition MUX_RECONNECT_STABLE_THRESHOLD :: duration where "MUX_RECONNECT_STABLE_THRESHOLD = from_secs 60"

definition EXIT_MUX_OWNER_LOST :: u8 where "EXIT_MUX_OWNER_LOST = 254"
definition EXIT_USER_CANCELED :: u8 where "EXIT_USER_CANCELED = 130"

definition mux_was_stable :: "millis \<Rightarrow> millis \<Rightarrow> bool" where
  "mux_was_stable attempt_started now \<longleftrightarrow> MUX_RECONNECT_STABLE_THRESHOLD \<le> millis_sub now attempt_started"

type_synonym mux_token = u64

datatype mux_event =
    MEv_PrepareFailed mux_token millis u64
  | MEv_DispatchFailed mux_token millis u64
  | MEv_DispatchOwnerLost mux_token bool millis millis u64
  | MEv_BackoffElapsed mux_token
  | MEv_BackoffAborted mux_token

datatype mux_log =
    MLog_PrepareFailedRetrying
  | MLog_DispatchFailedRetrying
  | MLog_RemoteCommandInterrupted
  | MLog_OwnerLostReconnecting
  | MLog_Reconnecting duration
  | MLog_BudgetExhausted
  | MLog_Canceled

datatype mux_effect =
    MEff_Prepare mux_token
  | MEff_Dispatch mux_token
  | MEff_Backoff mux_token duration
  | MEff_Log mux_log
  | MEff_GiveUp u8
  | MEff_PropagateFatalError

datatype mux_awaiting =
    Mux_NotStarted
  | Mux_Preparing mux_token
  | Mux_Dispatching mux_token
  | Mux_Backoff mux_token
  | Mux_Done

record mux_fsm =
  mx_attempt :: u32
  mx_lost_since :: "millis option"
  mx_next_token :: u64
  mx_awaiting :: mux_awaiting

definition mx_new :: mux_fsm where
  "mx_new = \<lparr>mx_attempt = 0, mx_lost_since = None, mx_next_token = 0, mx_awaiting = Mux_NotStarted\<rparr>"

definition mx_issue :: "mux_fsm \<Rightarrow> mux_fsm \<times> mux_token" where
  "mx_issue m = (m\<lparr>mx_next_token := mx_next_token m + 1\<rparr>, mx_next_token m)"

definition mx_begin_prepare :: "mux_fsm \<Rightarrow> mux_fsm \<times> mux_effect list" where
  "mx_begin_prepare m =
     (let (m, token) = mx_issue m in (m\<lparr>mx_awaiting := Mux_Preparing token\<rparr>, [MEff_Prepare token]))"

definition mx_finish :: "mux_fsm \<Rightarrow> mux_effect list \<Rightarrow> mux_effect \<Rightarrow> mux_fsm \<times> mux_effect list" where
  "mx_finish m effects final = (m\<lparr>mx_awaiting := Mux_Done\<rparr>, effects @ [final])"

definition mx_start :: "mux_fsm \<Rightarrow> mux_fsm \<times> mux_effect list" where
  "mx_start m = (if mx_awaiting m \<noteq> Mux_NotStarted then (m, []) else mx_begin_prepare m)"

definition mx_begin_dispatch :: "mux_fsm \<Rightarrow> mux_fsm \<times> mux_effect list" where
  "mx_begin_dispatch m =
     (case mx_awaiting m of
        Mux_Preparing _ \<Rightarrow>
          (let (m, token) = mx_issue m in (m\<lparr>mx_awaiting := Mux_Dispatching token\<rparr>, [MEff_Dispatch token]))
      | _ \<Rightarrow> (m, []))"

definition mx_backoff_or_give_up :: "jitter_fn \<Rightarrow> mux_fsm \<Rightarrow> millis \<Rightarrow> u64 \<Rightarrow> mux_fsm \<times> mux_effect list" where
  "mx_backoff_or_give_up jf m now seed =
     (let lost_at = (case mx_lost_since m of Some t \<Rightarrow> t | None \<Rightarrow> now);
          m = m\<lparr>mx_lost_since := Some lost_at\<rparr> in
      if MUX_RECONNECT_BUDGET \<le> millis_sub now lost_at
      then mx_finish m [MEff_Log MLog_BudgetExhausted] (MEff_GiveUp EXIT_MUX_OWNER_LOST)
      else
        let delay = next_delay jf MUX_RECONNECT_BACKOFF (mx_attempt m) seed;
            m = m\<lparr>mx_attempt := mx_attempt m + 1\<rparr>;
            (m, token) = mx_issue m in
        (m\<lparr>mx_awaiting := Mux_Backoff token\<rparr>, [MEff_Log (MLog_Reconnecting delay), MEff_Backoff token delay]))"

definition mx_on_retryable_failure ::
  "jitter_fn \<Rightarrow> mux_fsm \<Rightarrow> millis \<Rightarrow> u64 \<Rightarrow> mux_log \<Rightarrow> mux_fsm \<times> mux_effect list" where
  "mx_on_retryable_failure jf m now seed entry =
     (if mx_lost_since m = None then mx_finish m [] MEff_PropagateFatalError
      else
        let (m, effects) = mx_backoff_or_give_up jf m now seed in
        (m, MEff_Log entry # effects))"

definition mx_on_owner_lost ::
  "jitter_fn \<Rightarrow> mux_fsm \<Rightarrow> bool \<Rightarrow> millis \<Rightarrow> millis \<Rightarrow> u64 \<Rightarrow> mux_fsm \<times> mux_effect list" where
  "mx_on_owner_lost jf m has_remote_command attempt_started now seed =
     (if has_remote_command
      then mx_finish m [MEff_Log MLog_RemoteCommandInterrupted] (MEff_GiveUp EXIT_MUX_OWNER_LOST)
      else
        let m = (if mux_was_stable attempt_started now then m\<lparr>mx_attempt := 0, mx_lost_since := None\<rparr> else m);
            (m, effects) = mx_backoff_or_give_up jf m now seed in
        (m, MEff_Log MLog_OwnerLostReconnecting # effects))"

definition mx_apply :: "jitter_fn \<Rightarrow> mux_fsm \<Rightarrow> mux_event \<Rightarrow> mux_fsm \<times> mux_effect list" where
  "mx_apply jf m event =
     (case (mx_awaiting m, event) of
        (Mux_Preparing cur, MEv_PrepareFailed token now seed) \<Rightarrow>
          (if token = cur then mx_on_retryable_failure jf m now seed MLog_PrepareFailedRetrying else (m, []))
      | (Mux_Dispatching cur, MEv_DispatchFailed token now seed) \<Rightarrow>
          (if token = cur then mx_on_retryable_failure jf m now seed MLog_DispatchFailedRetrying else (m, []))
      | (Mux_Dispatching cur, MEv_DispatchOwnerLost token has_remote_command attempt_started now seed) \<Rightarrow>
          (if token = cur then mx_on_owner_lost jf m has_remote_command attempt_started now seed else (m, []))
      | (Mux_Backoff cur, MEv_BackoffElapsed token) \<Rightarrow>
          (if token = cur then mx_begin_prepare m else (m, []))
      | (Mux_Backoff cur, MEv_BackoffAborted token) \<Rightarrow>
          (if token = cur then mx_finish m [MEff_Log MLog_Canceled] (MEff_GiveUp EXIT_USER_CANCELED) else (m, []))
      | _ \<Rightarrow> (m, []))"

section \<open>The stale guard and the delays\<close>

text \<open>The answer a state is waiting for.\<close>

fun mx_expects :: "mux_awaiting \<Rightarrow> mux_event \<Rightarrow> bool" where
  "mx_expects (Mux_Preparing t) (MEv_PrepareFailed t' _ _) \<longleftrightarrow> t' = t"
| "mx_expects (Mux_Dispatching t) (MEv_DispatchFailed t' _ _) \<longleftrightarrow> t' = t"
| "mx_expects (Mux_Dispatching t) (MEv_DispatchOwnerLost t' _ _ _ _) \<longleftrightarrow> t' = t"
| "mx_expects (Mux_Backoff t) (MEv_BackoffElapsed t') \<longleftrightarrow> t' = t"
| "mx_expects (Mux_Backoff t) (MEv_BackoffAborted t') \<longleftrightarrow> t' = t"
| "mx_expects _ _ \<longleftrightarrow> False"

interpretation mx_stale: stale_guard "mx_apply jf" "\<lambda>m e. mx_expects (mx_awaiting m) e" for jf
proof
  fix m :: mux_fsm and e
  assume "\<not> mx_expects (mx_awaiting m) e"
  then show "mx_apply jf m e = (m, [])"
    by (cases e; cases "mx_awaiting m") (simp_all add: mx_apply_def)
qed

interpretation mux_backoff: backoff_source "next_delay jf MUX_RECONNECT_BACKOFF" "from_secs 10" for jf
proof
  fix attempt seed
  show "next_delay jf MUX_RECONNECT_BACKOFF attempt seed \<le> from_secs 10"
    using next_delay_le [of MUX_RECONNECT_BACKOFF jf attempt seed]
    by (simp add: MUX_RECONNECT_BACKOFF_def duration_defs)
qed

section \<open>What a failure leads to\<close>

text \<open>The clock of the current storm as a failure sees it: restarted when the loop had not lost
  its owner before, or when the lost connection had been stable.\<close>

fun mx_storm_start :: "mux_fsm \<Rightarrow> mux_event \<Rightarrow> millis option" where
  "mx_storm_start m (MEv_DispatchOwnerLost _ _ started now _) =
     (if mux_was_stable started now then Some now
      else case mx_lost_since m of None \<Rightarrow> Some now | Some t \<Rightarrow> Some t)"
| "mx_storm_start m _ = mx_lost_since m"

fun mx_failure_time :: "mux_event \<Rightarrow> millis option" where
  "mx_failure_time (MEv_PrepareFailed _ now _) = Some now"
| "mx_failure_time (MEv_DispatchFailed _ now _) = Some now"
| "mx_failure_time (MEv_DispatchOwnerLost _ _ _ now _) = Some now"
| "mx_failure_time _ = None"

fun mx_runs_remote_command :: "mux_event \<Rightarrow> bool" where
  "mx_runs_remote_command (MEv_DispatchOwnerLost _ b _ _ _) = b"
| "mx_runs_remote_command _ = False"

definition mx_may_retry :: "mux_fsm \<Rightarrow> mux_event \<Rightarrow> millis \<Rightarrow> bool" where
  "mx_may_retry m e now \<longleftrightarrow> \<not> mx_runs_remote_command e \<and>
     (case mx_storm_start m e of None \<Rightarrow> False | Some t \<Rightarrow> millis_sub now t < MUX_RECONNECT_BUDGET)"

lemma mx_backoff_or_give_up_cases:
  "mx_backoff_or_give_up jf m now seed =
     (let lost_at = (case mx_lost_since m of Some t \<Rightarrow> t | None \<Rightarrow> now) in
      if millis_sub now lost_at < MUX_RECONNECT_BUDGET
      then (m\<lparr>mx_lost_since := Some lost_at, mx_attempt := mx_attempt m + 1, mx_next_token := mx_next_token m + 1,
              mx_awaiting := Mux_Backoff (mx_next_token m)\<rparr>,
            [MEff_Log (MLog_Reconnecting (next_delay jf MUX_RECONNECT_BACKOFF (mx_attempt m) seed)),
             MEff_Backoff (mx_next_token m) (next_delay jf MUX_RECONNECT_BACKOFF (mx_attempt m) seed)])
      else (m\<lparr>mx_lost_since := Some lost_at, mx_awaiting := Mux_Done\<rparr>,
            [MEff_Log MLog_BudgetExhausted, MEff_GiveUp EXIT_MUX_OWNER_LOST]))"
  by (simp add: mx_backoff_or_give_up_def mx_finish_def mx_issue_def Let_def)

lemma budget_positive [simp]: "0 < MUX_RECONNECT_BUDGET"
  by (simp add: MUX_RECONNECT_BUDGET_def duration_defs)

definition mx_stops :: "mux_effect list \<Rightarrow> bool" where
  "mx_stops effs \<longleftrightarrow> (\<exists>code. last effs = MEff_GiveUp code) \<or> last effs = MEff_PropagateFatalError"

lemmas mx_failure_defs = mx_apply_def mx_on_retryable_failure_def mx_on_owner_lost_def
  mx_backoff_or_give_up_cases mx_finish_def mx_may_retry_def mx_stops_def

section \<open>Properties\<close>

text \<open>Every failure the loop is waiting for is decided at once. If no remote command was running, the
  loop has lost its owner before (or loses it now), and less than the 24-hour budget has passed since
  the current storm began (a connection that had been stable for 60 s starts a new one), the loop
  asks for exactly one wait of at most ten seconds and waits for its answer; otherwise it
  stops, with an exit code or the original error, and no later event gets anything out of it.\<close>

lemma mx_failure_decided:
  assumes "mx_expects (mx_awaiting m) e" and "mx_failure_time e = Some now"
  shows "if mx_may_retry m e now
    then (\<exists>delay. delay \<le> from_secs 10
       \<and> last (snd (mx_apply jf m e)) = MEff_Backoff (mx_next_token m) delay
       \<and> mx_awaiting (fst (mx_apply jf m e)) = Mux_Backoff (mx_next_token m))
    else mx_stops (snd (mx_apply jf m e)) \<and> (\<forall>es. snd (run (mx_apply jf) (fst (mx_apply jf m e)) es) = [])"
proof -
  have quiet: "snd (run (mx_apply jf) m' es) = []" if "mx_awaiting m' = Mux_Done" for m' es
    using mx_stale.stale_run [of es m' jf] that by simp
  note le = mux_backoff.delay_le
  show ?thesis
    using assms le
    by (cases e; cases "mx_awaiting m")
      (auto simp: mx_failure_defs Let_def case_prod_beta quiet split: option.splits if_splits)
qed

end
