(* ===== verification/PoolIdle.thy ===== *)
theory PoolIdle
  imports Interfaces
begin

text \<open>
  \<^verbatim>\<open>rust-core/src/pool_idle_fsm.rs\<close>: the reference count and idle-timer generation of one pooled
  connection. A pending removal timer is never cancelled; it is disarmed because its generation
  is no longer the current one.
\<close>

record idle_ledger =
  il_refcount :: u32
  il_generation :: u64

datatype idle_event = Attached | Released duration | IdleExpired u64

datatype idle_effect = ArmIdleTimer u64 duration | Remove

definition first_holder :: idle_ledger where
  "first_holder = \<lparr>il_refcount = 1, il_generation = 0\<rparr>"

fun idle_apply :: "idle_ledger \<Rightarrow> idle_event \<Rightarrow> idle_ledger \<times> idle_effect list" where
  "idle_apply l Attached =
     (l\<lparr>il_refcount := sat_add (il_refcount l) 1, il_generation := il_generation l + 1\<rparr>, [])"
| "idle_apply l (Released idle_grace) =
     (let l = l\<lparr>il_refcount := sat_sub (il_refcount l) 1\<rparr> in
      if il_refcount l \<noteq> 0 then (l, [])
      else
        let l = l\<lparr>il_generation := il_generation l + 1\<rparr> in
        (l, [ArmIdleTimer (il_generation l) idle_grace]))"
| "idle_apply l (IdleExpired generation) =
     (if il_refcount l = 0 \<and> il_generation l = generation then (l, [Remove]) else (l, []))"

text \<open>How far the generation counter has moved: at most one per event, at least one per attachment.\<close>

lemma generation_run:
  "\<exists>k. il_generation (fst (run idle_apply l es)) = il_generation l + word_of_nat k
     \<and> k \<le> length es \<and> (Attached \<in> set es \<longrightarrow> 0 < k)"
proof (induction es arbitrary: l)
  case Nil
  show ?case by (intro exI [of _ 0]) simp
next
  case (Cons e es)
  obtain j where j: "il_generation (fst (idle_apply l e)) = il_generation l + word_of_nat j" "j \<le> 1"
    "e = Attached \<longrightarrow> 0 < j"
  proof (cases e)
    case Attached
    then show ?thesis by (intro that [of 1]) simp_all
  next
    case (Released d)
    then show ?thesis
      by (cases "sat_sub (il_refcount l) 1 = 0") (simp_all add: Let_def that [of 1] that [of 0])
  next
    case (IdleExpired g)
    then show ?thesis by (intro that [of 0]) simp_all
  qed
  obtain k where k: "il_generation (fst (run idle_apply (fst (idle_apply l e)) es))
      = il_generation (fst (idle_apply l e)) + word_of_nat k" "k \<le> length es" "Attached \<in> set es \<longrightarrow> 0 < k"
    using Cons.IH by blast
  show ?case
    using j k by (intro exI [of _ "j + k"]) (auto simp: add.assoc simp del: idle_apply.simps)
qed

section \<open>Properties\<close>

text \<open>An idle timer armed before a tab attached again never removes the connection, however many tabs come
  and go in between (short of \<open>2^64\<close> events), and a connection in use is never removed at all.\<close>

lemma idle_stale_timer_harmless:
  assumes "Attached \<in> set es" and "length es < 2 ^ 64"
  shows "snd (idle_apply (fst (run idle_apply l es)) (IdleExpired (il_generation l))) = []"
proof -
  obtain k where k: "il_generation (fst (run idle_apply l es)) = il_generation l + word_of_nat k"
    "k \<le> length es" "0 < k"
    using generation_run [of l es] assms(1) by blast
  with assms(2) have "unat (word_of_nat k :: u64) = k" by (simp add: unat_of_nat)
  with k(3) have "(word_of_nat k :: u64) \<noteq> 0" by (metis less_irrefl unat_0)
  with k(1) show ?thesis by simp
qed

end
