(* ===== verification/RingBuffer.thy ===== *)
theory RingBuffer
  imports Prelude
begin

text \<open>
  \<^verbatim>\<open>isekai-pipe/src/tty/ring_buffer.rs\<close>: the bounded output history of a detached terminal session. The
  abstract specification is the whole output stream; the buffer is shown to hold exactly its last
  \<open>capacity\<close> bytes, however the stream was cut into chunks.
\<close>

definition SOFT_RESET :: "u8 list" where "SOFT_RESET = [0x1b, 0x63]"

record ring_buffer =
  rbuf_buf :: "u8 list"
  rbuf_capacity :: nat

definition rbuf_new :: "nat \<Rightarrow> ring_buffer" where
  "rbuf_new capacity = \<lparr>rbuf_buf = [], rbuf_capacity = capacity\<rparr>"

definition rbuf_append :: "ring_buffer \<Rightarrow> u8 list \<Rightarrow> ring_buffer" where
  "rbuf_append r data =
     (if rbuf_capacity r \<le> length data then r\<lparr>rbuf_buf := drop (length data - rbuf_capacity r) data\<rparr>
      else
        let overflow = length (rbuf_buf r) + length data - rbuf_capacity r;
            buf = (if 0 < overflow then drop overflow (rbuf_buf r) else rbuf_buf r) in
        r\<lparr>rbuf_buf := buf @ data\<rparr>)"

definition rbuf_replay :: "ring_buffer \<Rightarrow> u8 list" where
  "rbuf_replay r = (if rbuf_buf r = [] then [] else SOFT_RESET @ rbuf_buf r)"

text \<open>The last \<open>n\<close> elements of a list.\<close>

definition suffix_of :: "nat \<Rightarrow> 'a list \<Rightarrow> 'a list" where
  "suffix_of n xs = drop (length xs - n) xs"

lemma rbuf_capacity_append [simp]: "rbuf_capacity (rbuf_append r d) = rbuf_capacity r"
  by (simp add: rbuf_append_def Let_def)

lemma suffix_append_long: "n \<le> length ys \<Longrightarrow> suffix_of n (xs @ ys) = suffix_of n ys"
  by (simp add: suffix_of_def)

lemma append_suffix:
  assumes "rbuf_buf r = suffix_of (rbuf_capacity r) s"
  shows "rbuf_buf (rbuf_append r d) = suffix_of (rbuf_capacity r) (s @ d)"
proof (cases "rbuf_capacity r \<le> length d")
  case True
  then show ?thesis by (simp add: rbuf_append_def suffix_append_long) (simp add: suffix_of_def)
next
  case False
  then have "rbuf_buf (rbuf_append r d)
      = drop (length (suffix_of (rbuf_capacity r) s) + length d - rbuf_capacity r) (suffix_of (rbuf_capacity r) s) @ d"
    by (simp add: rbuf_append_def Let_def assms)
  also have "\<dots> = suffix_of (rbuf_capacity r) (s @ d)"
    using False by (cases "length s \<le> rbuf_capacity r") (simp_all add: suffix_of_def add.commute)
  finally show ?thesis .
qed

lemma foldl_append_suffix:
  "rbuf_buf r = suffix_of (rbuf_capacity r) s \<Longrightarrow>
   rbuf_buf (foldl rbuf_append r ds) = suffix_of (rbuf_capacity r) (s @ concat ds)"
proof (induction ds arbitrary: r s)
  case (Cons d ds)
  from Cons.IH [of "rbuf_append r d" "s @ d"] append_suffix [OF Cons.prems] show ?case by simp
qed simp

section \<open>Properties\<close>

text \<open>However the output was chunked, a client that attaches is sent nothing if nothing (visible) was
  written, and otherwise a terminal reset followed by exactly the last \<open>capacity\<close> bytes of the
  stream.\<close>

lemma ring_buffer_replays_suffix:
  "rbuf_replay (foldl rbuf_append (rbuf_new capacity) chunks) =
     (let visible = drop (length (concat chunks) - capacity) (concat chunks) in
      if visible = [] then [] else [0x1b, 0x63] @ visible)"
  using foldl_append_suffix [of "rbuf_new capacity" "[]" chunks]
  by (simp add: rbuf_replay_def rbuf_new_def suffix_of_def SOFT_RESET_def Let_def)

end
