(* ===== verification/ReplayBuffer.thy ===== *)
theory ReplayBuffer
  imports Interfaces
begin

text \<open>
  The replay buffer of \<^verbatim>\<open>quicmux/src/resume.rs\<close> (\<^verbatim>\<open>ReplayBuffer\<close>), which the server
  (\<^verbatim>\<open>OutputBuffer\<close>) and the client (\<^verbatim>\<open>C2hReplayBuffer\<close>) of \<^verbatim>\<open>isekai-pipe\<close> both use. Its abstract
  specification is the stream of all bytes ever appended: the buffer holds exactly the part of
  the stream that has not been confirmed, and a replay from an offset is the stream from there on.
\<close>

section \<open>The buffer\<close>

record replay_buffer =
  rpl_data :: "u8 list"
  rpl_start_offset :: u64
  rpl_capacity :: nat

definition rpl_new :: "nat \<Rightarrow> replay_buffer" where
  "rpl_new capacity = \<lparr>rpl_data = [], rpl_start_offset = 0, rpl_capacity = capacity\<rparr>"

definition rpl_len :: "replay_buffer \<Rightarrow> nat" where
  "rpl_len b = length (rpl_data b)"

definition rpl_is_empty :: "replay_buffer \<Rightarrow> bool" where
  "rpl_is_empty b \<longleftrightarrow> rpl_data b = []"

definition rpl_remaining_capacity :: "replay_buffer \<Rightarrow> nat" where
  "rpl_remaining_capacity b = rpl_capacity b - length (rpl_data b)"

definition rpl_is_full :: "replay_buffer \<Rightarrow> bool" where
  "rpl_is_full b \<longleftrightarrow> rpl_remaining_capacity b = 0"

definition rpl_end_offset :: "replay_buffer \<Rightarrow> u64" where
  "rpl_end_offset b = sat_add (rpl_start_offset b) (word_of_nat (length (rpl_data b)))"

definition rpl_append :: "replay_buffer \<Rightarrow> u8 list \<Rightarrow> replay_buffer \<times> bool" where
  "rpl_append b bytes =
     (if rpl_remaining_capacity b < length bytes then (b, False)
      else (b\<lparr>rpl_data := rpl_data b @ bytes\<rparr>, True))"

definition rpl_advance_start :: "replay_buffer \<Rightarrow> u64 \<Rightarrow> replay_buffer" where
  "rpl_advance_start b confirmed_offset =
     (let discard = unat (min (sat_sub confirmed_offset (rpl_start_offset b)) (word_of_nat (length (rpl_data b)))) in
      b\<lparr>rpl_data := drop discard (rpl_data b), rpl_start_offset := rpl_start_offset b + word_of_nat discard\<rparr>)"

definition rpl_replay_from :: "replay_buffer \<Rightarrow> u64 \<Rightarrow> u8 list option" where
  "rpl_replay_from b from_off =
     (if from_off < rpl_start_offset b \<or> rpl_end_offset b < from_off then None
      else
        let skip = unat (from_off - rpl_start_offset b) in
        Some (drop skip (rpl_data b)))"

section \<open>The window specification\<close>

text \<open>\<open>window s n b\<close>: the buffer holds the bytes of the stream \<open>s\<close> from offset \<open>n\<close> on.\<close>

definition window :: "u8 list \<Rightarrow> nat \<Rightarrow> replay_buffer \<Rightarrow> bool" where
  "window s n b \<longleftrightarrow> n \<le> length s \<and> length s < 2 ^ 64 \<and> rpl_data b = drop n s
     \<and> unat (rpl_start_offset b) = n \<and> length (rpl_data b) \<le> rpl_capacity b"

lemma windowD:
  assumes "window s n b"
  shows "rpl_data b = drop n s" "unat (rpl_start_offset b) = n" "n \<le> length s" "length s < 2 ^ 64"
    "length (rpl_data b) \<le> rpl_capacity b"
  using assms unfolding window_def by blast+

lemma unat_word_of_nat_u64: "k < 2 ^ 64 \<Longrightarrow> unat (word_of_nat k :: u64) = k"
  by (simp add: unat_of_nat)

lemma window_new: "window [] 0 (rpl_new capacity)"
  by (simp add: window_def rpl_new_def)

lemma window_len:
  assumes "window s n b"
  shows "unat (word_of_nat (length (rpl_data b)) :: u64) = length s - n"
proof -
  note w = windowD [OF assms]
  have len: "length (rpl_data b) = length s - n" by (simp add: w(1))
  then have "length (rpl_data b) < 2 ^ 64" using w(4) by simp
  from unat_word_of_nat_u64 [OF this] len show ?thesis by (simp only:)
qed

lemma window_end:
  assumes "window s n b"
  shows "unat (rpl_end_offset b) = length s"
  using windowD(2-4) [OF assms] by (simp add: rpl_end_offset_def unat_sat_add window_len [OF assms])

lemma window_append:
  assumes "window s n b" and "length s + length bytes < 2 ^ 64" and "length bytes \<le> rpl_remaining_capacity b"
  shows "snd (rpl_append b bytes)" and "window (s @ bytes) n (fst (rpl_append b bytes))"
  using assms by (auto simp: window_def rpl_append_def rpl_remaining_capacity_def)

lemma advance_discard:
  assumes "window s n b"
  shows "unat (min (sat_sub off (rpl_start_offset b)) (word_of_nat (length (rpl_data b)) :: u64))
     = min (unat off - n) (length s - n)"
  unfolding min_def word_le_nat_alt unat_sat_sub window_len [OF assms] windowD(2) [OF assms]
  by (simp add: unat_sat_sub window_len [OF assms] windowD(2) [OF assms])

lemma window_advance:
  assumes "window s n b"
  shows "window s (confirm (length s) n (unat off)) (rpl_advance_start b off)"
proof -
  note w = windowD [OF assms]
  define d where "d = min (unat off - n) (length s - n)"
  have d: "n + d = confirm (length s) n (unat off)"
    using w(3) by (auto simp: confirm_def d_def)
  have "n + d \<le> length s" using w(3) by (simp add: d_def)
  then have nd: "n + d < 2 ^ 64" using w(4) by simp
  have "unat (rpl_start_offset b + word_of_nat d) = n + d"
    using w(2) nd by (simp add: unat_word_ariths unat_of_nat)
  moreover have "rpl_advance_start b off
      = b\<lparr>rpl_data := drop d (rpl_data b), rpl_start_offset := rpl_start_offset b + word_of_nat d\<rparr>"
    unfolding rpl_advance_start_def Let_def advance_discard [OF assms] d_def ..
  moreover have "drop d (drop n s) = drop (n + d) s" by (simp add: add.commute)
  ultimately show ?thesis
    using w \<open>n + d \<le> length s\<close> unfolding window_def d [symmetric] by simp
qed

lemma window_replay:
  assumes "window s n b"
  shows "rpl_replay_from b off = (if n \<le> unat off \<and> unat off \<le> length s then Some (drop (unat off) s) else None)"
  using windowD [OF assms] window_end [OF assms]
  by (auto simp: rpl_replay_from_def word_less_nat_alt Let_def unat_sub word_le_nat_alt)

interpretation rpl: replay_window window rpl_replay_from rpl_advance_start
  by unfold_locales (blast dest: windowD(3,4), simp_all add: window_replay window_advance)

lemma rpl_capacity_simps [simp]:
  "rpl_capacity (fst (rpl_append b bytes)) = rpl_capacity b"
  "rpl_capacity (rpl_advance_start b off) = rpl_capacity b"
  by (simp_all add: rpl_append_def rpl_advance_start_def Let_def)

section \<open>Runs of operations\<close>

datatype rpl_op = Rpl_Append "u8 list" | Rpl_Advance u64

text \<open>The reducer view of the buffer (its answer to an append is the effect) and its specification.\<close>

fun rpl_step :: "replay_buffer \<Rightarrow> rpl_op \<Rightarrow> replay_buffer \<times> bool list" where
  "rpl_step b (Rpl_Append bytes) = (fst (rpl_append b bytes), [snd (rpl_append b bytes)])"
| "rpl_step b (Rpl_Advance off) = (rpl_advance_start b off, [])"

fun window_step :: "nat \<Rightarrow> u8 list \<times> nat \<Rightarrow> rpl_op \<Rightarrow> u8 list \<times> nat" where
  "window_step capacity (s, n) (Rpl_Append bytes) =
     (if length s - n + length bytes \<le> capacity then (s @ bytes, n) else (s, n))"
| "window_step capacity (s, n) (Rpl_Advance off) = (s, confirm (length s) n (unat off))"

fun op_bytes :: "rpl_op \<Rightarrow> nat" where
  "op_bytes (Rpl_Append bytes) = length bytes"
| "op_bytes (Rpl_Advance _) = 0"

lemma rpl_step_refines:
  assumes "window s n b" and "length s + op_bytes op < 2 ^ 64"
  shows "case window_step (rpl_capacity b) (s, n) op of (s', n') \<Rightarrow>
     window s' n' (fst (rpl_step b op)) \<and> length s' \<le> length s + op_bytes op"
proof (cases op)
  case (Rpl_Append bytes)
  show ?thesis
  proof (cases "length s - n + length bytes \<le> rpl_capacity b")
    case True
    then have "length bytes \<le> rpl_remaining_capacity b"
      using windowD [OF assms(1)] by (simp add: rpl_remaining_capacity_def)
    with True show ?thesis
      using window_append [OF assms(1), of bytes] assms(2) Rpl_Append by simp
  next
    case False
    then have "rpl_remaining_capacity b < length bytes"
      using windowD [OF assms(1)] by (simp add: rpl_remaining_capacity_def)
    with False show ?thesis using assms(1) Rpl_Append by (simp add: rpl_append_def)
  qed
next
  case (Rpl_Advance off)
  then show ?thesis using window_advance [OF assms(1)] by simp
qed

lemma rpl_run_refines:
  "window s n b \<Longrightarrow> length s + sum_list (map op_bytes ops) < 2 ^ 64 \<Longrightarrow>
   case foldl (window_step (rpl_capacity b)) (s, n) ops of (s', n') \<Rightarrow> window s' n' (fst (run rpl_step b ops))"
proof (induction ops arbitrary: s n b)
  case Nil
  then show ?case by simp
next
  case (Cons op ops)
  obtain s' n' where w: "window_step (rpl_capacity b) (s, n) op = (s', n')"
    by fastforce
  have cap: "rpl_capacity (fst (rpl_step b op)) = rpl_capacity b" by (cases op) simp_all
  from rpl_step_refines [OF Cons.prems(1), of op] Cons.prems(2) w
  have "window s' n' (fst (rpl_step b op))" "length s' + sum_list (map op_bytes ops) < 2 ^ 64"
    by auto
  from Cons.IH [OF this] show ?case by (simp add: cap w del: rpl_step.simps)
qed

section \<open>Properties\<close>

text \<open>C15. The replay buffer refines a window onto the appended stream. After any sequence of appends and
  confirmations (stale and excessive ones included) of fewer than \<open>2^64\<close> bytes in total, the bytes
  accepted so far form a stream and the confirmed prefix a position in it such that a
  replay from an offset returns exactly the rest of the stream from there when the
  offset lies between the confirmed position and the end, and is refused otherwise.\<close>

theorem replay_buffer_refines_window:
  assumes "sum_list (map op_bytes ops) < 2 ^ 64"
  shows "\<exists>s n. foldl (window_step capacity) ([], 0) ops = (s, n)
    \<and> (\<forall>off. rpl_replay_from (fst (run rpl_step (rpl_new capacity) ops)) off =
        (if n \<le> unat off \<and> unat off \<le> length s then Some (drop (unat off) s) else None))
    \<and> unat (rpl_end_offset (fst (run rpl_step (rpl_new capacity) ops))) = length s"
proof -
  obtain s n where sn: "foldl (window_step capacity) ([], 0) ops = (s, n)" by fastforce
  have "rpl_capacity (rpl_new capacity) = capacity" by (simp add: rpl_new_def)
  with rpl_run_refines [OF window_new [of capacity], of ops] assms sn
  have "window s n (fst (run rpl_step (rpl_new capacity) ops))" by simp
  with sn show ?thesis by (simp add: window_replay window_end)
qed

theorem replay_buffer_refines_window_witness:
  "rpl_replay_from (fst (run rpl_step (rpl_new 4) [Rpl_Append [1, 2, 3], Rpl_Advance 2, Rpl_Append [4, 5, 6]])) 3
     = Some [4, 5, 6]"
  using replay_buffer_refines_window [of "[Rpl_Append [1, 2, 3], Rpl_Advance 2, Rpl_Append [4, 5, 6]]" 4]
  by (simp add: confirm_def del: rpl_step.simps)

end
