(* ===== verification/SessionStreams.thy ===== *)
theory SessionStreams
  imports ReplayBuffer "HOL-Library.Sublist"
begin

text \<open>
  The two byte streams of one session across disconnections and resumptions.
  Server to client: \<^verbatim>\<open>relay_buffered\<close>, \<^verbatim>\<open>spawn_app_ack_tasks\<close> and \<^verbatim>\<open>handle_resume_stream\<close> of
  \<^verbatim>\<open>isekai-pipe/src/engine/mod.rs\<close> against \<^verbatim>\<open>pump_h2c\<close> of \<^verbatim>\<open>isekai-pipe/src/resume_loop.rs\<close>. Client to
  server: \<^verbatim>\<open>pump_c2h\<close>, \<^verbatim>\<open>dial_and_replay\<close> and \<^verbatim>\<open>replay_and_advance\<close> of \<^verbatim>\<open>resume_loop.rs\<close> against
  \<^verbatim>\<open>relay_buffered\<close>. The await points of the tasks are the events: a write to the network accepts
  a prefix of what it was given (all of it when it succeeds), a connection may be lost at any
  time, acknowledgements arrive late. The bytes on the wire of an abandoned connection can still
  arrive until the next resumption. The fields for the bytes produced and consumed are history
  variables; everything else is the programs' state.
\<close>

section \<open>Server to client\<close>

record s2c_session =
  sc_buf :: replay_buffer
  sc_up :: bool
  sc_app_ack_unavailable :: bool
  sc_replay_disabled :: bool
  sc_resumable :: bool
  sc_produced :: "u8 list"
  sc_wire :: "u8 list"
  sc_stdout :: "u8 list"
  sc_delivered :: u64

definition s2c_new :: "nat \<Rightarrow> s2c_session" where
  "s2c_new capacity =
     \<lparr>sc_buf = rpl_new capacity, sc_up = True, sc_app_ack_unavailable = False, sc_replay_disabled = False,
      sc_resumable = True, sc_produced = [], sc_wire = [], sc_stdout = [], sc_delivered = 0\<rparr>"

definition RELAY_BUF_LEN :: nat where "RELAY_BUF_LEN = 16 * 1024"

text \<open>How much the relay may read from the target, and whether it gives up on replay first.\<close>

definition s2c_read_len :: "s2c_session \<Rightarrow> nat \<times> bool" where
  "s2c_read_len s =
     (if sc_replay_disabled s then (RELAY_BUF_LEN, False)
      else if sc_app_ack_unavailable s \<and> rpl_is_full (sc_buf s) then (RELAY_BUF_LEN, True)
      else (min (rpl_remaining_capacity (sc_buf s)) RELAY_BUF_LEN, False))"

text \<open>Writing \<open>data\<close> to the data stream, of which \<open>accepted\<close> bytes go out; fewer than all is the
  write error (or the preemption) that ends this relay.\<close>

definition s2c_send :: "s2c_session \<Rightarrow> u8 list \<Rightarrow> nat \<Rightarrow> s2c_session" where
  "s2c_send s data accepted =
     s\<lparr>sc_wire := sc_wire s @ take accepted data, sc_up := (length data \<le> accepted)\<rparr>"

text \<open>One turn of the relay loop that reads \<open>data\<close> from the target.\<close>

definition s2c_relay_turn :: "s2c_session \<Rightarrow> u8 list \<Rightarrow> nat \<Rightarrow> s2c_session" where
  "s2c_relay_turn s data accepted =
     (let (read_len, give_up_replay) = s2c_read_len s in
      if \<not> sc_up s \<or> data = [] \<or> read_len < length data then s
      else
        let s = (if give_up_replay then s\<lparr>sc_resumable := False, sc_replay_disabled := True\<rparr> else s);
            s = s\<lparr>sc_produced := sc_produced s @ data\<rparr> in
        if sc_replay_disabled s then s2c_send s data accepted
        else
          let (buf, ok) = rpl_append (sc_buf s) data in
          if \<not> ok then s\<lparr>sc_up := False\<rparr>
          else s2c_send (s\<lparr>sc_buf := buf\<rparr>) data accepted)"

text \<open>\<^verbatim>\<open>pump_h2c\<close>: read some bytes, write them to standard output, count them.\<close>

definition s2c_pump :: "s2c_session \<Rightarrow> nat \<Rightarrow> s2c_session" where
  "s2c_pump s n =
     (let data = take n (sc_wire s) in
      s\<lparr>sc_wire := drop n (sc_wire s), sc_stdout := sc_stdout s @ data,
        sc_delivered := sc_delivered s + word_of_nat (length data)\<rparr>)"

text \<open>\<^verbatim>\<open>pump_h2c\<close> cancelled after \<open>written\<close> bytes reached standard output and before they were counted:
  the surrounding \<^verbatim>\<open>select!\<close> drops it when the network changes or the other direction fails.\<close>

definition s2c_pump_cut :: "s2c_session \<Rightarrow> nat \<Rightarrow> nat \<Rightarrow> s2c_session" where
  "s2c_pump_cut s n written =
     (let data = take n (sc_wire s) in
      s\<lparr>sc_wire := [], sc_stdout := sc_stdout s @ take written data, sc_up := False\<rparr>)"

text \<open>An \<^verbatim>\<open>APP_ACK\<close> that carries the delivered offset as it was \<open>lag\<close> bytes ago.\<close>

definition s2c_app_ack :: "s2c_session \<Rightarrow> nat \<Rightarrow> s2c_session" where
  "s2c_app_ack s lag = s\<lparr>sc_buf := rpl_advance_start (sc_buf s) (word_of_nat (unat (sc_delivered s) - lag))\<rparr>"

text \<open>\<^verbatim>\<open>handle_resume_stream\<close> for a session the aggregate grants (a running relay is preempted
  first): replay from the client's offset, or park again if the offset is out of the buffer.\<close>

definition s2c_resume :: "s2c_session \<Rightarrow> nat \<Rightarrow> s2c_session" where
  "s2c_resume s accepted =
     (if \<not> sc_resumable s then s
      else
        case rpl_replay_from (sc_buf s) (sc_delivered s) of
          None \<Rightarrow> s\<lparr>sc_wire := [], sc_up := False\<rparr>
        | Some replay \<Rightarrow>
            s\<lparr>sc_wire := take accepted replay, sc_up := (length replay \<le> accepted),
              sc_replay_disabled := False, sc_app_ack_unavailable := False\<rparr>)"

datatype s2c_event =
    S2C_TargetOutput "u8 list" nat
  | S2C_Pump nat
  | S2C_PumpCut nat nat
  | S2C_AppAck nat
  | S2C_ControlFailed
  | S2C_Lost
  | S2C_Resume nat

fun s2c_step :: "s2c_session \<Rightarrow> s2c_event \<Rightarrow> s2c_session" where
  "s2c_step s (S2C_TargetOutput data accepted) = s2c_relay_turn s data accepted"
| "s2c_step s (S2C_Pump n) = s2c_pump s n"
| "s2c_step s (S2C_PumpCut n written) = s2c_pump_cut s n written"
| "s2c_step s (S2C_AppAck lag) = s2c_app_ack s lag"
| "s2c_step s S2C_ControlFailed = s\<lparr>sc_app_ack_unavailable := True\<rparr>"
| "s2c_step s S2C_Lost = s\<lparr>sc_up := False\<rparr>"
| "s2c_step s (S2C_Resume accepted) = s2c_resume s accepted"

section \<open>Client to server\<close>

record c2s_session =
  cs_buf :: replay_buffer
  cs_up :: bool
  cs_acked :: u64
  cs_committed :: u64
  cs_unrecoverable :: bool
  cs_stdin :: "u8 list"
  cs_wire :: "u8 list"
  cs_target :: "u8 list"

definition c2s_new :: "nat \<Rightarrow> c2s_session" where
  "c2s_new capacity =
     \<lparr>cs_buf = rpl_new capacity, cs_up = True, cs_acked = 0, cs_committed = 0, cs_unrecoverable = False,
      cs_stdin = [], cs_wire = [], cs_target = []\<rparr>"

text \<open>One turn of \<^verbatim>\<open>pump_c2h\<close> that reads \<open>data\<close> from standard input; a full buffer waits.\<close>

definition c2s_pump :: "c2s_session \<Rightarrow> u8 list \<Rightarrow> nat \<Rightarrow> c2s_session" where
  "c2s_pump s data accepted =
     (if \<not> cs_up s then s
      else
        let s = s\<lparr>cs_buf := rpl_advance_start (cs_buf s) (cs_acked s)\<rparr> in
        if rpl_is_full (cs_buf s) then s
        else
          let read_len = min (16 * 1024) (rpl_remaining_capacity (cs_buf s)) in
          if data = [] \<or> read_len < length data then s
          else
            let s = s\<lparr>cs_stdin := cs_stdin s @ data\<rparr>;
                (buf, ok) = rpl_append (cs_buf s) data in
            if \<not> ok then s\<lparr>cs_up := False\<rparr>
            else s\<lparr>cs_buf := buf, cs_wire := cs_wire s @ take accepted data, cs_up := (length data \<le> accepted)\<rparr>)"

text \<open>The relay writes \<open>n\<close> bytes to the target, counting each write as it returns.\<close>

definition c2s_commit :: "c2s_session \<Rightarrow> nat \<Rightarrow> c2s_session" where
  "c2s_commit s n =
     (let data = take n (cs_wire s) in
      s\<lparr>cs_wire := drop n (cs_wire s), cs_target := cs_target s @ data,
        cs_committed := cs_committed s + word_of_nat (length data)\<rparr>)"

text \<open>The same, preempted with the rest of the chunk read but not written.\<close>

definition c2s_commit_cut :: "c2s_session \<Rightarrow> nat \<Rightarrow> c2s_session" where
  "c2s_commit_cut s n = (c2s_commit s n)\<lparr>cs_wire := [], cs_up := False\<rparr>"

definition committed_offset_out_of_replay_range :: "replay_buffer \<Rightarrow> u64 \<Rightarrow> bool" where
  "committed_offset_out_of_replay_range b off \<longleftrightarrow> off < rpl_start_offset b \<or> rpl_end_offset b < off"

text \<open>\<^verbatim>\<open>replay_and_advance\<close>: \<open>accepted\<close> bytes of the replay go out; the flag is its answer.\<close>

definition replay_and_advance :: "c2s_session \<Rightarrow> u64 \<Rightarrow> nat \<Rightarrow> c2s_session \<times> bool" where
  "replay_and_advance s committed_offset accepted =
     (case rpl_replay_from (cs_buf s) committed_offset of
        None \<Rightarrow> (s, False)
      | Some bytes \<Rightarrow>
          let s = s\<lparr>cs_wire := cs_wire s @ take accepted bytes\<rparr> in
          if accepted < length bytes then (s, False)
          else (s\<lparr>cs_buf := rpl_advance_start (cs_buf s) committed_offset\<rparr>, True))"

text \<open>\<^verbatim>\<open>dial_and_replay\<close> with an accepted \<^verbatim>\<open>RESUME\<close>: the helper reports its committed offset.\<close>

definition dial_and_replay :: "c2s_session \<Rightarrow> nat \<Rightarrow> c2s_session" where
  "dial_and_replay s accepted =
     (let s = s\<lparr>cs_wire := [], cs_up := False\<rparr>; committed = cs_committed s in
      if committed_offset_out_of_replay_range (cs_buf s) committed then s\<lparr>cs_unrecoverable := True\<rparr>
      else
        let (s, ok) = replay_and_advance s committed accepted in
        if \<not> ok then s else s\<lparr>cs_up := True\<rparr>)"

datatype c2s_event =
    C2S_StdinInput "u8 list" nat
  | C2S_Commit nat
  | C2S_CommitCut nat
  | C2S_AppAck nat
  | C2S_Lost
  | C2S_Resume nat

fun c2s_step :: "c2s_session \<Rightarrow> c2s_event \<Rightarrow> c2s_session" where
  "c2s_step s (C2S_StdinInput data accepted) = c2s_pump s data accepted"
| "c2s_step s (C2S_Commit n) = c2s_commit s n"
| "c2s_step s (C2S_CommitCut n) = c2s_commit_cut s n"
| "c2s_step s (C2S_AppAck lag) = s\<lparr>cs_acked := word_of_nat (unat (cs_committed s) - lag)\<rparr>"
| "c2s_step s C2S_Lost = s\<lparr>cs_up := False\<rparr>"
| "c2s_step s (C2S_Resume accepted) = dial_and_replay s accepted"

section \<open>Shared facts\<close>

text \<open>The bytes consumed, then the bytes on the wire, are a prefix of the bytes produced, all of
  them while the connection is up.\<close>

definition in_order :: "bool \<Rightarrow> u8 list \<Rightarrow> u8 list \<Rightarrow> u8 list \<Rightarrow> bool" where
  "in_order up consumed wire produced \<longleftrightarrow>
     prefix (consumed @ wire) produced \<and> (up \<longrightarrow> consumed @ wire = produced)"

lemma in_order_lost: "in_order up c w p \<Longrightarrow> in_order False c w p"
  by (simp add: in_order_def)

lemma in_order_consume: "in_order up c w p \<Longrightarrow> in_order up (c @ take n w) (drop n w) p"
  by (simp add: in_order_def)

lemma in_order_abandon: "in_order up c w p \<Longrightarrow> in_order False c [] p"
  by (auto simp: in_order_def dest: append_prefixD)

lemma in_order_send:
  assumes "in_order True c w p"
  shows "in_order (length d \<le> k) c (w @ take k d) (p @ d)"
proof -
  from assms have p: "p = c @ w" by (simp add: in_order_def)
  have "prefix (take k d) d" by (rule take_is_prefix)
  with p show ?thesis by (simp add: in_order_def)
qed

lemma in_order_replay:
  assumes "prefix c p"
  shows "in_order (length (drop (length c) p) \<le> k) c (take k (drop (length c) p)) p"
proof -
  from assms obtain r where p: "p = c @ r" by (auto elim: prefixE)
  have "prefix (take k r) r" by (rule take_is_prefix)
  with p show ?thesis by (auto simp: in_order_def)
qed

lemma unat_add_length:
  assumes "unat a = length c" and "length c + length d < 2 ^ 64"
  shows "unat (a + word_of_nat (length d) :: u64) = length (c @ d)"
  using assms by (simp add: unat_word_ariths unat_of_nat)

lemma in_order_length: "in_order up c w p \<Longrightarrow> length c + length w \<le> length p"
  using prefix_length_le [of "c @ w" p] by (simp add: in_order_def)

section \<open>Server to client: the invariant\<close>

definition s2c_inv :: "s2c_session \<Rightarrow> bool" where
  "s2c_inv s \<longleftrightarrow> length (sc_produced s) < 2 ^ 64
     \<and> in_order (sc_up s) (sc_stdout s) (sc_wire s) (sc_produced s)
     \<and> unat (sc_delivered s) = length (sc_stdout s)
     \<and> (sc_resumable s \<longrightarrow> (\<exists>n \<le> length (sc_stdout s). window (sc_produced s) n (sc_buf s)))
     \<and> (sc_replay_disabled s \<longrightarrow> \<not> sc_resumable s)"

fun s2c_bytes :: "s2c_event \<Rightarrow> nat" where
  "s2c_bytes (S2C_TargetOutput data _) = length data"
| "s2c_bytes _ = 0"

fun is_pump_cut :: "s2c_event \<Rightarrow> bool" where
  "is_pump_cut (S2C_PumpCut _ _) = True"
| "is_pump_cut _ = False"

lemma s2c_new_inv: "s2c_inv (s2c_new capacity)"
  using window_new by (simp add: s2c_inv_def s2c_new_def in_order_def)

lemma s2c_inv_replay:
  assumes "s2c_inv s" and "sc_resumable s"
  shows "rpl_replay_from (sc_buf s) (sc_delivered s) = Some (drop (length (sc_stdout s)) (sc_produced s))"
  using assms in_order_length [of "sc_up s" "sc_stdout s" "sc_wire s" "sc_produced s"]
  by (auto simp: s2c_inv_def window_replay)

lemma s2c_inv_resume:
  assumes "s2c_inv s"
  shows "s2c_inv (s2c_resume s accepted)"
proof (cases "sc_resumable s")
  case True
  have "prefix (sc_stdout s) (sc_produced s)"
    using assms by (auto simp: s2c_inv_def in_order_def dest: append_prefixD)
  from in_order_replay [OF this, of accepted] True assms show ?thesis
    unfolding s2c_resume_def s2c_inv_replay [OF assms True] by (simp add: s2c_inv_def)
qed (use assms in \<open>simp add: s2c_resume_def\<close>)

lemma s2c_inv_pump:
  assumes "s2c_inv s"
  shows "s2c_inv (s2c_pump s n)"
proof -
  let ?d = "take n (sc_wire s)"
  have order: "in_order (sc_up s) (sc_stdout s @ ?d) (drop n (sc_wire s)) (sc_produced s)"
    using assms in_order_consume by (simp add: s2c_inv_def)
  have "length (sc_stdout s) + length ?d < 2 ^ 64"
    using in_order_length [OF order] assms by (simp add: s2c_inv_def)
  with assms have "unat (sc_delivered s + word_of_nat (length ?d)) = length (sc_stdout s @ ?d)"
    by (intro unat_add_length) (simp_all add: s2c_inv_def)
  with order assms show ?thesis
    by (auto simp: s2c_inv_def s2c_pump_def Let_def intro: trans_le_add1 simp del: length_take)
qed

lemma s2c_inv_app_ack:
  assumes "s2c_inv s"
  shows "s2c_inv (s2c_app_ack s lag)"
proof (cases "sc_resumable s")
  case True
  with assms obtain n where n: "n \<le> length (sc_stdout s)" "window (sc_produced s) n (sc_buf s)"
    by (auto simp: s2c_inv_def)
  let ?off = "word_of_nat (unat (sc_delivered s) - lag) :: u64"
  have "unat (sc_delivered s) - lag < 2 ^ 64"
    using unat_less_exp [of "sc_delivered s"] by simp
  then have "unat ?off \<le> length (sc_stdout s)"
    using assms by (simp add: unat_word_of_nat_u64 s2c_inv_def)
  from rpl.advance_within [OF n this] assms show ?thesis
    by (auto simp: s2c_inv_def s2c_app_ack_def simp del: of_nat_diff)
qed (use assms in \<open>simp add: s2c_inv_def s2c_app_ack_def\<close>)

lemma s2c_inv_send:
  assumes "s2c_inv s" and "sc_up s" and "length (sc_produced s) + length data < 2 ^ 64"
    and "sc_resumable s \<Longrightarrow> \<exists>n \<le> length (sc_stdout s). window (sc_produced s @ data) n buf"
  shows "s2c_inv (s2c_send (s\<lparr>sc_produced := sc_produced s @ data, sc_buf := buf\<rparr>) data accepted)"
  using assms in_order_send [of "sc_stdout s" "sc_wire s" "sc_produced s" data accepted]
  by (auto simp: s2c_inv_def s2c_send_def)

lemma s2c_inv_relay_turn:
  assumes inv: "s2c_inv s" and len: "length (sc_produced s) + length data < 2 ^ 64"
  shows "s2c_inv (s2c_relay_turn s data accepted)"
proof (cases "\<not> sc_up s \<or> data = [] \<or> fst (s2c_read_len s) < length data")
  case True
  then show ?thesis using inv by (simp add: s2c_relay_turn_def case_prod_beta Let_def)
next
  case False
  let ?p = "sc_produced s @ data"
  show ?thesis
  proof (cases "sc_replay_disabled s \<or> snd (s2c_read_len s)")
    case True
    let ?s = "s\<lparr>sc_resumable := False, sc_replay_disabled := True\<rparr>"
    have "s2c_inv ?s" using inv by (simp add: s2c_inv_def)
    then have "s2c_inv (s2c_send (?s\<lparr>sc_produced := ?p, sc_buf := sc_buf s\<rparr>) data accepted)"
      using False len s2c_inv_send [of ?s data "sc_buf s" accepted] by simp
    moreover have "s2c_relay_turn s data accepted = s2c_send (?s\<lparr>sc_produced := ?p, sc_buf := sc_buf s\<rparr>) data accepted"
      using True False inv
      by (auto simp: s2c_relay_turn_def s2c_send_def case_prod_beta Let_def s2c_read_len_def s2c_inv_def split: if_splits)
    ultimately show ?thesis by simp
  next
    case tee: False
    then have room: "length data \<le> rpl_remaining_capacity (sc_buf s)"
      using False by (auto simp: s2c_read_len_def split: if_splits)
    let ?buf = "fst (rpl_append (sc_buf s) data)"
    have ok: "snd (rpl_append (sc_buf s) data)" using room by (simp add: rpl_append_def)
    have "s2c_inv (s2c_send (s\<lparr>sc_produced := ?p, sc_buf := ?buf\<rparr>) data accepted)"
      using False len window_append(2) [OF _ len room] inv
      by (intro s2c_inv_send inv) (auto simp: s2c_inv_def)
    moreover have "s2c_relay_turn s data accepted = s2c_send (s\<lparr>sc_produced := ?p, sc_buf := ?buf\<rparr>) data accepted"
      using tee False ok by (simp add: s2c_relay_turn_def case_prod_beta Let_def)
    ultimately show ?thesis by simp
  qed
qed

lemma s2c_inv_step:
  assumes "s2c_inv s" and "\<not> is_pump_cut e" and "length (sc_produced s) + s2c_bytes e < 2 ^ 64"
  shows "s2c_inv (s2c_step s e)"
proof (cases e)
  case S2C_ControlFailed
  with assms(1) show ?thesis by (simp add: s2c_inv_def)
next
  case S2C_Lost
  with assms(1) show ?thesis by (auto simp: s2c_inv_def dest: in_order_lost)
qed (use assms in \<open>simp_all add: s2c_inv_relay_turn s2c_inv_pump s2c_inv_app_ack s2c_inv_resume\<close>)

lemma s2c_produced_step: "length (sc_produced (s2c_step s e)) \<le> length (sc_produced s) + s2c_bytes e"
  by (cases e) (auto simp: s2c_relay_turn_def s2c_pump_def s2c_pump_cut_def s2c_app_ack_def s2c_resume_def
      s2c_send_def Let_def case_prod_beta split: option.splits)

lemma s2c_inv_run:
  "s2c_inv s \<Longrightarrow> \<not> list_ex is_pump_cut es \<Longrightarrow> length (sc_produced s) + sum_list (map s2c_bytes es) < 2 ^ 64 \<Longrightarrow>
   s2c_inv (foldl s2c_step s es)"
proof (induction es arbitrary: s)
  case (Cons e es)
  then have "s2c_inv (s2c_step s e)" by (intro s2c_inv_step) simp_all
  with Cons.IH [of "s2c_step s e"] Cons.prems s2c_produced_step [of s e] show ?case by simp
qed simp

text \<open>A resumption whose replay goes out in full, then read to the end, delivers everything.\<close>

lemma s2c_catch_up:
  assumes "s2c_inv s" and "sc_resumable s" and "length (sc_produced s) \<le> k"
  shows "sc_stdout (s2c_pump (s2c_resume s k) k) = sc_produced s"
proof -
  have "prefix (sc_stdout s) (sc_produced s)"
    using assms(1) by (auto simp: s2c_inv_def in_order_def dest: append_prefixD)
  with assms(3) show ?thesis
    using assms(2) s2c_inv_replay [OF assms(1,2)]
    by (auto simp: s2c_resume_def s2c_pump_def Let_def elim!: prefixE)
qed

section \<open>Client to server: the invariant\<close>

definition c2s_inv :: "c2s_session \<Rightarrow> bool" where
  "c2s_inv s \<longleftrightarrow> length (cs_stdin s) < 2 ^ 64
     \<and> in_order (cs_up s) (cs_target s) (cs_wire s) (cs_stdin s)
     \<and> unat (cs_committed s) = length (cs_target s)
     \<and> unat (cs_acked s) \<le> length (cs_target s)
     \<and> (\<exists>n \<le> length (cs_target s). window (cs_stdin s) n (cs_buf s))
     \<and> \<not> cs_unrecoverable s"

fun c2s_bytes :: "c2s_event \<Rightarrow> nat" where
  "c2s_bytes (C2S_StdinInput data _) = length data"
| "c2s_bytes _ = 0"

lemma c2s_new_inv: "c2s_inv (c2s_new capacity)"
  using window_new by (simp add: c2s_inv_def c2s_new_def in_order_def)

lemma c2s_inv_commit:
  assumes "c2s_inv s"
  shows "c2s_inv (c2s_commit s n)"
proof -
  let ?d = "take n (cs_wire s)"
  have order: "in_order (cs_up s) (cs_target s @ ?d) (drop n (cs_wire s)) (cs_stdin s)"
    using assms in_order_consume by (simp add: c2s_inv_def)
  have "length (cs_target s) + length ?d < 2 ^ 64"
    using in_order_length [OF order] assms by (simp add: c2s_inv_def)
  with assms have "unat (cs_committed s + word_of_nat (length ?d)) = length (cs_target s @ ?d)"
    by (intro unat_add_length) (simp_all add: c2s_inv_def)
  with order assms show ?thesis
    by (auto simp: c2s_inv_def c2s_commit_def Let_def intro: trans_le_add1 simp del: length_take)
qed

lemma c2s_inv_lost: "c2s_inv s \<Longrightarrow> c2s_inv (s\<lparr>cs_up := False\<rparr>)"
  by (auto simp: c2s_inv_def dest: in_order_lost)

lemma c2s_inv_abandon: "c2s_inv s \<Longrightarrow> c2s_inv (s\<lparr>cs_wire := [], cs_up := False\<rparr>)"
  by (auto simp: c2s_inv_def dest: in_order_abandon)

lemma c2s_inv_ack:
  assumes "c2s_inv s"
  shows "c2s_inv (s\<lparr>cs_acked := word_of_nat (unat (cs_committed s) - lag)\<rparr>)"
proof -
  have "unat (cs_committed s) - lag < 2 ^ 64"
    using unat_less_exp [of "cs_committed s"] by simp
  then have "unat (word_of_nat (unat (cs_committed s) - lag) :: u64) \<le> length (cs_target s)"
    using assms unat_word_of_nat_u64 [of "unat (cs_committed s) - lag"] by (simp add: c2s_inv_def del: of_nat_diff)
  with assms show ?thesis by (simp add: c2s_inv_def del: of_nat_diff)
qed

lemma c2s_inv_pump:
  assumes inv: "c2s_inv s" and len: "length (cs_stdin s) + length data < 2 ^ 64"
  shows "c2s_inv (c2s_pump s data accepted)"
proof (cases "cs_up s")
  case True
  define b where "b = rpl_advance_start (cs_buf s) (cs_acked s)"
  from inv have "\<exists>n \<le> length (cs_target s). window (cs_stdin s) n b"
    unfolding b_def c2s_inv_def by (meson rpl.advance_within)
  then obtain n where n: "n \<le> length (cs_target s)" "window (cs_stdin s) n b" by blast
  then have inv': "c2s_inv (s\<lparr>cs_buf := b\<rparr>)" using inv by (auto simp: c2s_inv_def)
  show ?thesis
  proof (cases "rpl_is_full b \<or> data = [] \<or> min (16 * 1024) (rpl_remaining_capacity b) < length data")
    case True
    then have "c2s_pump s data accepted = s\<lparr>cs_buf := b\<rparr>"
      using \<open>cs_up s\<close> by (auto simp: c2s_pump_def Let_def b_def [symmetric])
    with inv' show ?thesis by simp
  next
    case False
    then have room: "length data \<le> rpl_remaining_capacity b" by auto
    let ?b = "fst (rpl_append b data)"
    have "snd (rpl_append b data)" using room by (simp add: rpl_append_def)
    then have "c2s_pump s data accepted = s\<lparr>cs_buf := ?b, cs_stdin := cs_stdin s @ data,
        cs_wire := cs_wire s @ take accepted data, cs_up := (length data \<le> accepted)\<rparr>"
      using \<open>cs_up s\<close> False by (simp add: c2s_pump_def Let_def case_prod_beta b_def [symmetric])
    moreover have "in_order (length data \<le> accepted) (cs_target s) (cs_wire s @ take accepted data) (cs_stdin s @ data)"
      using inv \<open>cs_up s\<close> in_order_send by (simp add: c2s_inv_def)
    ultimately show ?thesis
      using inv len n window_append(2) [OF n(2) len room] by (auto simp: c2s_inv_def)
  qed
qed (use inv in \<open>simp add: c2s_pump_def\<close>)

text \<open>A resumption finds the committed offset in the buffer and replays the rest.\<close>

lemma c2s_resume_replays:
  assumes "c2s_inv s"
  shows "dial_and_replay s accepted =
    (let rest = drop (length (cs_target s)) (cs_stdin s) in
     s\<lparr>cs_wire := take accepted rest, cs_up := (length rest \<le> accepted),
       cs_buf := (if length rest \<le> accepted then rpl_advance_start (cs_buf s) (cs_committed s) else cs_buf s)\<rparr>)"
proof -
  from assms obtain n where n: "n \<le> length (cs_target s)" "window (cs_stdin s) n (cs_buf s)"
    by (auto simp: c2s_inv_def)
  have m: "unat (cs_committed s) = length (cs_target s)" "length (cs_target s) \<le> length (cs_stdin s)"
    using assms in_order_length [of "cs_up s" "cs_target s" "cs_wire s" "cs_stdin s"] by (auto simp: c2s_inv_def)
  have "\<not> committed_offset_out_of_replay_range (cs_buf s) (cs_committed s)"
    using windowD(2) [OF n(2)] window_end [OF n(2)] m n(1)
    by (simp add: committed_offset_out_of_replay_range_def word_less_nat_alt)
  moreover have "rpl_replay_from (cs_buf s) (cs_committed s) = Some (drop (length (cs_target s)) (cs_stdin s))"
    using window_replay [OF n(2)] m n(1) by simp
  ultimately show ?thesis
    by (auto simp: dial_and_replay_def replay_and_advance_def Let_def)
qed

lemma c2s_inv_resume:
  assumes "c2s_inv s"
  shows "c2s_inv (dial_and_replay s accepted)"
proof -
  have "prefix (cs_target s) (cs_stdin s)"
    using assms by (auto simp: c2s_inv_def in_order_def dest: append_prefixD)
  from in_order_replay [OF this, of accepted] assms rpl.advance_within show ?thesis
    unfolding c2s_resume_replays [OF assms] by (fastforce simp: c2s_inv_def Let_def)
qed

lemma c2s_inv_step:
  assumes "c2s_inv s" and "length (cs_stdin s) + c2s_bytes e < 2 ^ 64"
  shows "c2s_inv (c2s_step s e)"
  using assms
  by (cases e) (simp_all add: c2s_inv_pump c2s_inv_commit c2s_commit_cut_def c2s_inv_abandon c2s_inv_ack
      c2s_inv_lost c2s_inv_resume del: of_nat_diff)

lemma c2s_stdin_step: "length (cs_stdin (c2s_step s e)) \<le> length (cs_stdin s) + c2s_bytes e"
  by (cases e) (auto simp: c2s_pump_def c2s_commit_def c2s_commit_cut_def dial_and_replay_def replay_and_advance_def
      Let_def case_prod_beta split: option.splits)

lemma c2s_inv_run:
  "c2s_inv s \<Longrightarrow> length (cs_stdin s) + sum_list (map c2s_bytes es) < 2 ^ 64 \<Longrightarrow> c2s_inv (foldl c2s_step s es)"
proof (induction es arbitrary: s)
  case (Cons e es)
  then have "c2s_inv (c2s_step s e)" by (intro c2s_inv_step) simp_all
  with Cons.IH [of "c2s_step s e"] Cons.prems c2s_stdin_step [of s e] show ?case by simp
qed simp

lemma c2s_catch_up:
  assumes "c2s_inv s" and "length (cs_stdin s) \<le> k"
  shows "cs_target (c2s_commit (dial_and_replay s k) k) = cs_stdin s"
proof -
  have "prefix (cs_target s) (cs_stdin s)"
    using assms(1) by (auto simp: c2s_inv_def in_order_def dest: append_prefixD)
  with assms(2) show ?thesis
    unfolding c2s_resume_replays [OF assms(1)] by (auto simp: c2s_commit_def Let_def elim!: prefixE)
qed

section \<open>Properties\<close>

text \<open>C1. Server to client, exactly once and in order: whatever the target writes, however the connection
  is cut, acknowledged, starved of acknowledgements, preempted and resumed (fewer than \<open>2^64\<close> bytes in
  all), what the client has written to standard output is a prefix of what the target produced; and
  unless the session gave up resumability, the next resumption is never refused for its offset
  and, once its replay is read, nothing is missing. The one await point left out is a client
  cancelled between writing bytes and counting them.\<close>

theorem s2c_exactly_once:
  assumes "\<not> list_ex is_pump_cut es" and "sum_list (map s2c_bytes es) < 2 ^ 64"
    and "s = foldl s2c_step (s2c_new capacity) es"
  shows "prefix (sc_stdout s) (sc_produced s)
    \<and> (sc_resumable s \<and> length (sc_produced s) \<le> k
        \<longrightarrow> rpl_replay_from (sc_buf s) (sc_delivered s) \<noteq> None
          \<and> sc_stdout (s2c_step (s2c_step s (S2C_Resume k)) (S2C_Pump k)) = sc_produced s)"
proof -
  have inv: "s2c_inv s"
    using s2c_inv_run [OF s2c_new_inv assms(1), of capacity] assms(2,3) by (simp add: s2c_new_def)
  then have "prefix (sc_stdout s) (sc_produced s)"
    by (auto simp: s2c_inv_def in_order_def dest: append_prefixD)
  with s2c_catch_up [OF inv] s2c_inv_replay [OF inv] show ?thesis by simp
qed

theorem s2c_exactly_once_witness:
  "sc_stdout (foldl s2c_step (s2c_new 16)
     [S2C_TargetOutput [1, 2, 3] 2, S2C_Pump 1, S2C_AppAck 0, S2C_Lost, S2C_Resume 3, S2C_Pump 3]) = [1, 2, 3]"
proof -
  let ?es = "[S2C_TargetOutput [1, 2, 3] 2, S2C_Pump 1, S2C_AppAck 0, S2C_Lost]"
  let ?s = "foldl s2c_step (s2c_new 16) ?es"
  have s: "sc_produced ?s = [1, 2, 3]" "sc_resumable ?s"
    by (simp_all add: s2c_new_def s2c_relay_turn_def s2c_read_len_def s2c_send_def s2c_pump_def s2c_app_ack_def
        rpl_new_def rpl_append_def rpl_remaining_capacity_def rpl_is_full_def RELAY_BUF_LEN_def Let_def)
  have "sc_stdout (s2c_step (s2c_step ?s (S2C_Resume 3)) (S2C_Pump 3)) = sc_produced ?s"
    using s2c_exactly_once [of ?es ?s 16 3] s by simp
  with s show ?thesis by simp
qed

text \<open>C2. Client to server, exactly once and in order: what the target has received is always a prefix of what
  the client read from its standard input, through partial writes, preemption in the middle of a
  chunk, lost connections and late acknowledgements; the session is never declared unrecoverable by its own
  accounting, and a resumption whose replay goes through delivers everything outstanding.\<close>

theorem c2s_exactly_once:
  assumes "sum_list (map c2s_bytes es) < 2 ^ 64" and "s = foldl c2s_step (c2s_new capacity) es"
  shows "prefix (cs_target s) (cs_stdin s) \<and> \<not> cs_unrecoverable s
    \<and> (length (cs_stdin s) \<le> k \<longrightarrow> cs_target (c2s_step (c2s_step s (C2S_Resume k)) (C2S_Commit k)) = cs_stdin s)"
proof -
  have inv: "c2s_inv s"
    using c2s_inv_run [OF c2s_new_inv, of capacity es] assms by (simp add: c2s_new_def)
  then have "prefix (cs_target s) (cs_stdin s)" and "\<not> cs_unrecoverable s"
    by (auto simp: c2s_inv_def in_order_def dest: append_prefixD)
  with c2s_catch_up [OF inv] show ?thesis by simp
qed

theorem c2s_exactly_once_witness:
  "cs_target (foldl c2s_step (c2s_new 16)
     [C2S_StdinInput [1, 2, 3] 3, C2S_CommitCut 1, C2S_AppAck 0, C2S_Resume 3, C2S_Commit 3]) = [1, 2, 3]"
proof -
  let ?es = "[C2S_StdinInput [1, 2, 3] 3, C2S_CommitCut 1, C2S_AppAck 0]"
  let ?s = "foldl c2s_step (c2s_new 16) ?es"
  have s: "cs_stdin ?s = [1, 2, 3]"
    by (simp add: c2s_new_def c2s_pump_def c2s_commit_cut_def c2s_commit_def rpl_new_def rpl_append_def
        rpl_remaining_capacity_def rpl_is_full_def rpl_advance_start_def Let_def)
  with c2s_exactly_once [of ?es ?s 16 3]
  have "cs_target (c2s_step (c2s_step ?s (C2S_Resume 3)) (C2S_Commit 3)) = cs_stdin ?s" by simp
  with s show ?thesis by simp
qed

text \<open>C39. The uncounted write: in any state such executions reach, with the session resumable, if the client writes
  the next \<open>n\<close> bytes of the wire to standard output and is cancelled before it counts them, the next
  resumption replays them and standard output gets them twice.\<close>

theorem s2c_cut_duplicates:
  assumes "\<not> list_ex is_pump_cut es" and "sum_list (map s2c_bytes es) < 2 ^ 64"
    and "s = foldl s2c_step (s2c_new capacity) es" and "sc_resumable s" and "length (sc_produced s) \<le> k"
  shows "sc_stdout (foldl s2c_step s [S2C_PumpCut n n, S2C_Resume k, S2C_Pump k])
     = sc_stdout s @ take n (sc_wire s) @ drop (length (sc_stdout s)) (sc_produced s)"
proof -
  have inv: "s2c_inv s"
    using s2c_inv_run [OF s2c_new_inv assms(1), of capacity] assms(2,3) by (simp add: s2c_new_def)
  from s2c_inv_replay [OF inv assms(4)] assms(4,5) show ?thesis
    by (simp add: s2c_pump_cut_def s2c_resume_def s2c_pump_def Let_def)
qed

theorem s2c_cut_duplicates_witness:
  "sc_stdout (foldl s2c_step (s2c_new 16)
     [S2C_TargetOutput [1, 2, 3] 3, S2C_PumpCut 2 2, S2C_Resume 3, S2C_Pump 3]) = [1, 2, 1, 2, 3]"
proof -
  let ?es = "[S2C_TargetOutput [1, 2, 3] 3]"
  let ?s = "foldl s2c_step (s2c_new 16) ?es"
  have s: "sc_produced ?s = [1, 2, 3]" "sc_resumable ?s" "sc_wire ?s = [1, 2, 3]" "sc_stdout ?s = []"
    by (simp_all add: s2c_new_def s2c_relay_turn_def s2c_read_len_def s2c_send_def
        rpl_new_def rpl_append_def rpl_remaining_capacity_def rpl_is_full_def RELAY_BUF_LEN_def Let_def)
  have "sc_stdout (foldl s2c_step ?s [S2C_PumpCut 2 2, S2C_Resume 3, S2C_Pump 3])
      = sc_stdout ?s @ take 2 (sc_wire ?s) @ drop (length (sc_stdout ?s)) (sc_produced ?s)"
    using s(1,2) by (intro s2c_cut_duplicates [of ?es _ 16]) simp_all
  then show ?thesis using s by simp
qed

end
