(* ===== verification/ResumeExchange.thy ===== *)
theory ResumeExchange
  imports Interfaces
begin

text \<open>
  The request and response frames of \<^verbatim>\<open>quicmux/src/resume.rs\<close>: \<^verbatim>\<open>encode_resume_request\<close>,
  \<^verbatim>\<open>decode_resume_request\<close>, \<^verbatim>\<open>request_resume\<close>, \<^verbatim>\<open>respond_resume_accepted\<close> and
  \<^verbatim>\<open>respond_resume_rejected\<close>. A receive stream is the sequence of what its reads will find: pieces of
  bytes of any size, or a failure. The errors carry the data of their messages instead of the text.
\<close>

section \<open>Streams\<close>

datatype resume_violation =
    TokenTooLarge
  | AuthBlobTooLarge
  | FieldTooLong string nat
  | UnknownReason u8
  | UnexpectedResponse u8

datatype mux_error =
    StreamEnded nat nat
  | ReadFailed string
  | ProtocolViolation resume_violation

datatype arrival = Bytes "u8 list" | Broken string

text \<open>\<^verbatim>\<open>read_exact\<close>: a read fills at most the rest of the buffer from the next piece; no byte is the
  end of the stream.\<close>

function read_exact_loop :: "arrival list \<Rightarrow> nat \<Rightarrow> u8 list \<Rightarrow> mux_error + (u8 list \<times> arrival list)" where
  "read_exact_loop arr want acc =
     (if want \<le> length acc then Inr (acc, arr)
      else case arr of
          [] \<Rightarrow> Inl (StreamEnded want (length acc))
        | Broken e # _ \<Rightarrow> Inl (ReadFailed e)
        | Bytes c # rest \<Rightarrow>
            (let n = min (length c) (want - length acc) in
             if n = 0 then Inl (StreamEnded want (length acc))
             else read_exact_loop (if n < length c then Bytes (drop n c) # rest else rest) want (acc @ take n c)))"
  by pat_completeness auto
termination
proof (relation "measure (\<lambda>(_, want, acc). want - length acc)", goal_cases)
  case (2 arr want acc x21 x22 x1 n)
  then have "0 < n" and "n \<le> want - length acc" and "n \<le> length x1" by simp_all
  then show ?case by (simp add: diff_less_mono2)
qed simp

declare read_exact_loop.simps [simp del]

definition read_exact :: "arrival list \<Rightarrow> nat \<Rightarrow> mux_error + (u8 list \<times> arrival list)" where
  "read_exact arr n = read_exact_loop arr n []"

section \<open>Frames\<close>

definition FRAME_RESUME :: u8 where "FRAME_RESUME = 0x01"
definition FRAME_RESUME_ACK :: u8 where "FRAME_RESUME_ACK = 0x02"
definition FRAME_RESUME_REJECT :: u8 where "FRAME_RESUME_REJECT = 0x03"
definition MAX_RESUME_FIELD_LEN :: nat where "MAX_RESUME_FIELD_LEN = 1024"

datatype resume_reject_reason = Reject_Auth | Reject_UnknownToken | Reject_OffsetGone

fun reject_to_wire :: "resume_reject_reason \<Rightarrow> u8" where
  "reject_to_wire Reject_Auth = 0"
| "reject_to_wire Reject_UnknownToken = 1"
| "reject_to_wire Reject_OffsetGone = 2"

definition reject_from_wire :: "u8 \<Rightarrow> resume_reject_reason option" where
  "reject_from_wire byte =
     (if byte = 0 then Some Reject_Auth
      else if byte = 1 then Some Reject_UnknownToken
      else if byte = 2 then Some Reject_OffsetGone
      else None)"

record resume_request =
  rq_token :: "u8 list"
  rq_auth_blob :: "u8 list"
  rq_conn_exporter :: "u8 list"
  rq_client_sent_offset :: u64
  rq_client_delivered_offset :: u64

definition encode_resume_request :: "u8 list \<Rightarrow> u8 list \<Rightarrow> u64 \<Rightarrow> u64 \<Rightarrow> mux_error + u8 list" where
  "encode_resume_request token auth_blob sent_off delivered_off =
     (if MAX_RESUME_FIELD_LEN < length token then Inl (ProtocolViolation TokenTooLarge)
      else if MAX_RESUME_FIELD_LEN < length auth_blob then Inl (ProtocolViolation AuthBlobTooLarge)
      else Inr (FRAME_RESUME # u16_to_be (word_of_nat (length token)) @ token
             @ u16_to_be (word_of_nat (length auth_blob)) @ auth_blob
             @ u64_to_be sent_off @ u64_to_be delivered_off))"

definition bounded_field_len :: "u8 list \<Rightarrow> string \<Rightarrow> mux_error + nat" where
  "bounded_field_len len_prefix field =
     (let len = unat (u16_from_be len_prefix) in
      if MAX_RESUME_FIELD_LEN < len then Inl (ProtocolViolation (FieldTooLong field len)) else Inr len)"

text \<open>The body of a request, the type byte being already consumed.\<close>

definition decode_resume_request ::
  "arrival list \<Rightarrow> u8 list \<Rightarrow> mux_error + (resume_request \<times> arrival list)" where
  "decode_resume_request recv conn_exporter =
     res_bind (read_exact recv 2) (\<lambda>(token_len, recv).
     res_bind (bounded_field_len token_len ''token'') (\<lambda>tn.
     res_bind (read_exact recv tn) (\<lambda>(token, recv).
     res_bind (read_exact recv 2) (\<lambda>(auth_len, recv).
     res_bind (bounded_field_len auth_len ''auth_blob'') (\<lambda>an.
     res_bind (read_exact recv an) (\<lambda>(auth_blob, recv).
     res_bind (read_exact recv 8) (\<lambda>(sent_off, recv).
     res_bind (read_exact recv 8) (\<lambda>(delivered_off, recv).
       Inr (\<lparr>rq_token = token, rq_auth_blob = auth_blob, rq_conn_exporter = conn_exporter,
             rq_client_sent_offset = u64_from_be sent_off,
             rq_client_delivered_offset = u64_from_be delivered_off\<rparr>, recv)))))))))"

definition respond_resume_accepted :: "u64 \<Rightarrow> u64 \<Rightarrow> u8 list \<Rightarrow> u8 list" where
  "respond_resume_accepted committed_offset sent_offset replay =
     FRAME_RESUME_ACK # u64_to_be committed_offset @ u64_to_be sent_offset @ replay"

definition respond_resume_rejected :: "resume_reject_reason \<Rightarrow> u8 list" where
  "respond_resume_rejected reason = [FRAME_RESUME_REJECT, reject_to_wire reason]"

datatype resume_request_error = Req_Mux mux_error | Req_Rejected resume_reject_reason

record resume_ack_outcome =
  ra_committed_offset :: u64
  ra_sent_offset :: u64
  ra_stream :: "arrival list"

definition lift_mux :: "mux_error + 'a \<Rightarrow> resume_request_error + 'a" where
  "lift_mux r = (case r of Inl e \<Rightarrow> Inl (Req_Mux e) | Inr x \<Rightarrow> Inr x)"

text \<open>\<^verbatim>\<open>request_resume\<close> once the request is written: what the client makes of the response.\<close>

definition request_resume_response :: "arrival list \<Rightarrow> resume_request_error + resume_ack_outcome" where
  "request_resume_response recv =
     res_bind (lift_mux (read_exact recv 1)) (\<lambda>(frame_type, recv).
       if hd frame_type = FRAME_RESUME_ACK then
         res_bind (lift_mux (read_exact recv 8)) (\<lambda>(committed, recv).
         res_bind (lift_mux (read_exact recv 8)) (\<lambda>(sent_offset, recv).
           Inr \<lparr>ra_committed_offset = u64_from_be committed, ra_sent_offset = u64_from_be sent_offset,
                ra_stream = recv\<rparr>))
       else if hd frame_type = FRAME_RESUME_REJECT then
         res_bind (lift_mux (read_exact recv 1)) (\<lambda>(reason_byte, recv).
           case reject_from_wire (hd reason_byte) of
             None \<Rightarrow> Inl (Req_Mux (ProtocolViolation (UnknownReason (hd reason_byte))))
           | Some reason \<Rightarrow> Inl (Req_Rejected reason))
       else Inl (Req_Mux (ProtocolViolation (UnexpectedResponse (hd frame_type)))))"

definition request_resume ::
  "u8 list \<Rightarrow> u8 list \<Rightarrow> u64 \<Rightarrow> u64 \<Rightarrow> arrival list \<Rightarrow> u8 list \<times> (resume_request_error + resume_ack_outcome)" where
  "request_resume token auth_blob sent_off delivered_off recv =
     (case encode_resume_request token auth_blob sent_off delivered_off of
        Inl e \<Rightarrow> ([], Inl (Req_Mux e))
      | Inr frame \<Rightarrow> (frame, request_resume_response recv))"

section \<open>Reading a chunked stream\<close>

text \<open>\<open>carries arr bs\<close>: the pieces, none of them empty and none a failure, spell out \<open>bs\<close>.\<close>

fun carries :: "arrival list \<Rightarrow> u8 list \<Rightarrow> bool" where
  "carries [] bs \<longleftrightarrow> bs = []"
| "carries (Broken _ # _) bs \<longleftrightarrow> False"
| "carries (Bytes c # rest) bs \<longleftrightarrow> c \<noteq> [] \<and> (\<exists>bs'. bs = c @ bs' \<and> carries rest bs')"

lemma read_exact_loop_carries:
  "carries arr (xs @ ys) \<Longrightarrow> length acc + length xs = want \<Longrightarrow>
   \<exists>arr'. read_exact_loop arr want acc = Inr (acc @ xs, arr') \<and> carries arr' ys"
proof (induction arr want acc arbitrary: xs rule: read_exact_loop.induct)
  case (1 arr want acc)
  show ?case
  proof (cases "xs = []")
    case True
    with 1(2,3) show ?thesis by (simp add: read_exact_loop.simps [of arr])
  next
    case False
    with 1(3) have lt: "\<not> want \<le> length acc" by auto
    from False 1(2) obtain c rest bs' where arr: "arr = Bytes c # rest" "c \<noteq> []" "xs @ ys = c @ bs'" "carries rest bs'"
      by (cases arr; cases "hd arr") auto
    define n where "n = min (length c) (length xs)"
    have n: "n = min (length c) (want - length acc)" using 1(3) by (auto simp: n_def)
    have n0: "n \<noteq> 0" using False arr(2) by (simp add: n_def)
    let ?arr = "if n < length c then Bytes (drop n c) # rest else rest"
    have eq: "take n c = take n xs" "xs @ ys = take n c @ drop n xs @ ys"
      using arr(3) by (auto simp: n_def min_def) (metis append_eq_append_conv_if append_take_drop_id)+
    have car: "carries ?arr (drop n xs @ ys)"
    proof (cases "n < length c")
      case True
      then have "n = length xs" by (simp add: n_def min_def split: if_splits)
      with True arr(3,4) show ?thesis by (auto simp: append_eq_append_conv_if split: if_splits)
    next
      case False
      then have "n = length c" by (simp add: n_def)
      with False arr(3,4) eq(2) show ?thesis by simp
    qed
    have "length (acc @ take n c) + length (drop n xs) = want"
      using 1(3) eq(1) by (simp add: n_def)
    from 1(1) [OF lt arr(1) refl n _ car this] n0
    obtain arr' where "read_exact_loop ?arr want (acc @ take n c) = Inr ((acc @ take n c) @ drop n xs, arr')"
      "carries arr' ys" by auto
    moreover have "read_exact_loop arr want acc = read_exact_loop ?arr want (acc @ take n c)"
      using lt n0 by (subst read_exact_loop.simps) (simp add: arr(1) n [symmetric] Let_def)
    ultimately show ?thesis by (simp add: eq(1))
  qed
qed

lemma read_exact_carries:
  assumes "carries arr (xs @ ys)" and "length xs = n"
  shows "\<exists>arr'. read_exact arr n = Inr (xs, arr') \<and> carries arr' ys"
  using read_exact_loop_carries [OF assms(1), of "[]" n] assms(2) by (simp add: read_exact_def)

lemma read_exact_loop_stops:
  "\<not> want \<le> length acc \<Longrightarrow> read_exact_loop [] want acc = Inl (StreamEnded want (length acc))"
  "\<not> want \<le> length acc \<Longrightarrow> read_exact_loop (Bytes [] # rest) want acc = Inl (StreamEnded want (length acc))"
  "\<not> want \<le> length acc \<Longrightarrow> read_exact_loop (Broken e # rest) want acc = Inl (ReadFailed e)"
  by (simp_all add: read_exact_loop.simps [of "[]"] read_exact_loop.simps [of "Bytes [] # rest"]
      read_exact_loop.simps [of "Broken e # rest"])

lemma length_read_exact_loop:
  "read_exact_loop arr want acc = Inr (bs, arr') \<Longrightarrow> length acc \<le> want \<Longrightarrow> length bs = want"
proof (induction arr want acc rule: read_exact_loop.induct)
  case (1 arr want acc)
  show ?case
  proof (cases "want \<le> length acc")
    case True
    with 1(2,3) show ?thesis by (simp add: read_exact_loop.simps [of arr want acc])
  next
    case False
    with 1(2) obtain c rest where arr: "arr = Bytes c # rest" "c \<noteq> []"
      by (cases rule: carries.cases [of "(arr, [])"]) (auto simp: read_exact_loop_stops, metis Inr_not_Inl read_exact_loop_stops(2))
    define n where "n = min (length c) (want - length acc)"
    have n: "n \<noteq> 0" "length (acc @ take n c) \<le> want" using arr(2) False by (simp_all add: n_def)
    have "read_exact_loop arr want acc
        = read_exact_loop (if n < length c then Bytes (drop n c) # rest else rest) want (acc @ take n c)"
      using False n(1) by (subst read_exact_loop.simps) (simp add: arr(1) n_def [symmetric] Let_def)
    with 1(2) have "read_exact_loop (if n < length c then Bytes (drop n c) # rest else rest) want (acc @ take n c)
        = Inr (bs, arr')" by simp
    from 1(1) [OF False arr(1) refl n_def n(1) this n(2)] show ?thesis .
  qed
qed

lemma length_read_exact: "read_exact arr n = Inr (bs, arr') \<Longrightarrow> length bs = n"
  using length_read_exact_loop [of arr n "[]"] by (simp add: read_exact_def)

lemma field_len_roundtrip:
  assumes "n \<le> MAX_RESUME_FIELD_LEN"
  shows "bounded_field_len (u16_to_be (word_of_nat n)) field = Inr n"
proof -
  have "n < 2 ^ 16" using assms by (simp add: MAX_RESUME_FIELD_LEN_def)
  then have "unat (word_of_nat n :: u16) = n" by (simp add: unat_of_nat)
  with assms show ?thesis by (simp add: bounded_field_len_def)
qed

lemma decode_encode_request:
  assumes "encode_resume_request token auth sent_off delivered_off = Inr frame"
    and "carries arr (tl frame @ rest)"
  shows "\<exists>arr'. decode_resume_request arr exporter =
      Inr (\<lparr>rq_token = token, rq_auth_blob = auth, rq_conn_exporter = exporter,
            rq_client_sent_offset = sent_off, rq_client_delivered_offset = delivered_off\<rparr>, arr')
    \<and> carries arr' rest"
proof -
  let ?tl = "u16_to_be (word_of_nat (length token))" and ?al = "u16_to_be (word_of_nat (length auth))"
  have bounds: "length token \<le> MAX_RESUME_FIELD_LEN" "length auth \<le> MAX_RESUME_FIELD_LEN"
    and 0: "carries arr (?tl @ token @ ?al @ auth @ u64_to_be sent_off @ u64_to_be delivered_off @ rest)"
    using assms by (auto simp: encode_resume_request_def split: if_splits)
  from read_exact_carries [OF 0, of 2] obtain a1 where 1: "read_exact arr 2 = Inr (?tl, a1)"
    "carries a1 (token @ ?al @ auth @ u64_to_be sent_off @ u64_to_be delivered_off @ rest)" by auto
  from read_exact_carries [OF 1(2)] obtain a2 where 2: "read_exact a1 (length token) = Inr (token, a2)"
    "carries a2 (?al @ auth @ u64_to_be sent_off @ u64_to_be delivered_off @ rest)" by auto
  from read_exact_carries [OF 2(2), of 2] obtain a3 where 3: "read_exact a2 2 = Inr (?al, a3)"
    "carries a3 (auth @ u64_to_be sent_off @ u64_to_be delivered_off @ rest)" by auto
  from read_exact_carries [OF 3(2)] obtain a4 where 4: "read_exact a3 (length auth) = Inr (auth, a4)"
    "carries a4 (u64_to_be sent_off @ u64_to_be delivered_off @ rest)" by auto
  from read_exact_carries [OF 4(2), of 8] obtain a5 where 5: "read_exact a4 8 = Inr (u64_to_be sent_off, a5)"
    "carries a5 (u64_to_be delivered_off @ rest)" by auto
  from read_exact_carries [OF 5(2), of 8] obtain a6 where 6: "read_exact a5 8 = Inr (u64_to_be delivered_off, a6)"
    "carries a6 rest" by auto
  show ?thesis
    using 6(2) by (simp add: decode_resume_request_def 1 2 3 4 5 6 bounds field_len_roundtrip)
qed

lemma decode_request_bounded:
  assumes "decode_resume_request arr exporter = Inr (rq, arr')"
  shows "length (rq_token rq) \<le> MAX_RESUME_FIELD_LEN \<and> length (rq_auth_blob rq) \<le> MAX_RESUME_FIELD_LEN"
  using assms
  by (auto simp: decode_resume_request_def res_bind_eq_Inr bounded_field_len_def Let_def
      dest!: length_read_exact split: if_splits)

lemma response_accepted:
  assumes "carries arr (respond_resume_accepted committed sent_off replay)"
  shows "\<exists>arr'. request_resume_response arr =
      Inr \<lparr>ra_committed_offset = committed, ra_sent_offset = sent_off, ra_stream = arr'\<rparr> \<and> carries arr' replay"
proof -
  have 0: "carries arr ([FRAME_RESUME_ACK] @ u64_to_be committed @ u64_to_be sent_off @ replay)"
    using assms by (simp add: respond_resume_accepted_def)
  from read_exact_carries [OF 0, of 1] obtain a1 where 1: "read_exact arr 1 = Inr ([FRAME_RESUME_ACK], a1)"
    "carries a1 (u64_to_be committed @ u64_to_be sent_off @ replay)" by auto
  from read_exact_carries [OF 1(2), of 8] obtain a2 where 2: "read_exact a1 8 = Inr (u64_to_be committed, a2)"
    "carries a2 (u64_to_be sent_off @ replay)" by auto
  from read_exact_carries [OF 2(2), of 8] obtain a3 where 3: "read_exact a2 8 = Inr (u64_to_be sent_off, a3)"
    "carries a3 replay" by auto
  note r = 1(1) [unfolded One_nat_def] 1(1) 2(1) 3(1)
  show ?thesis using 3(2) by (simp add: request_resume_response_def lift_mux_def r)
qed

lemma reject_wire_roundtrip: "reject_from_wire (reject_to_wire r) = Some r"
  by (cases r) (simp_all add: reject_from_wire_def)

lemma response_rejected:
  assumes "carries arr (respond_resume_rejected reason)"
  shows "request_resume_response arr = Inl (Req_Rejected reason)"
proof -
  have 0: "carries arr ([FRAME_RESUME_REJECT] @ [reject_to_wire reason])"
    using assms by (simp add: respond_resume_rejected_def)
  from read_exact_carries [OF 0, of 1] obtain a1 where 1: "read_exact arr 1 = Inr ([FRAME_RESUME_REJECT], a1)"
    "carries a1 ([reject_to_wire reason] @ [])" by auto
  from read_exact_carries [OF 1(2), of 1] obtain a2 where 2: "read_exact a1 1 = Inr ([reject_to_wire reason], a2)"
    by auto
  note r = 1(1) [unfolded One_nat_def] 2 [unfolded One_nat_def]
  show ?thesis
    by (simp add: request_resume_response_def lift_mux_def r FRAME_RESUME_ACK_def FRAME_RESUME_REJECT_def
        reject_wire_roundtrip)
qed

section \<open>Properties\<close>

text \<open>C16. A resume exchange arrives as it was sent, however the network cuts the bytes. Whatever request
  the client could encode, the server decodes the same token, proof and offsets and leaves what
  follows on the stream untouched; an acceptance gives the client the server's two offsets and the rest of
  the stream is exactly the replay; a rejection arrives as its reason. A request the server decodes
  never holds more than 1024 bytes of token or proof, whatever its length prefixes claim.\<close>

theorem resume_exchange_faithful:
  shows "(\<forall>token auth sent_off delivered_off frame arr rest exporter.
      encode_resume_request token auth sent_off delivered_off = Inr frame \<and> carries arr (tl frame @ rest) \<longrightarrow>
      hd frame = FRAME_RESUME \<and>
      (\<exists>arr'. decode_resume_request arr exporter =
          Inr (\<lparr>rq_token = token, rq_auth_blob = auth, rq_conn_exporter = exporter,
                rq_client_sent_offset = sent_off, rq_client_delivered_offset = delivered_off\<rparr>, arr')
        \<and> carries arr' rest))
    \<and> (\<forall>committed sent_off replay arr. carries arr (respond_resume_accepted committed sent_off replay) \<longrightarrow>
      (\<exists>arr'. request_resume_response arr =
          Inr \<lparr>ra_committed_offset = committed, ra_sent_offset = sent_off, ra_stream = arr'\<rparr> \<and> carries arr' replay))
    \<and> (\<forall>reason arr. carries arr (respond_resume_rejected reason) \<longrightarrow>
      request_resume_response arr = Inl (Req_Rejected reason))
    \<and> (\<forall>arr exporter rq arr'. decode_resume_request arr exporter = Inr (rq, arr') \<longrightarrow>
      length (rq_token rq) \<le> 1024 \<and> length (rq_auth_blob rq) \<le> 1024)"
proof (intro conjI allI impI)
  fix token auth sent_off delivered_off frame arr rest
  assume "encode_resume_request token auth sent_off delivered_off = Inr frame \<and> carries arr (tl frame @ rest)"
  then show "hd frame = FRAME_RESUME" by (auto simp: encode_resume_request_def split: if_splits)
qed (use decode_encode_request response_accepted response_rejected decode_request_bounded in
      \<open>auto simp: MAX_RESUME_FIELD_LEN_def\<close>)

theorem resume_exchange_faithful_witness:
  "request_resume_response [Bytes [0x03], Bytes [2]] = Inl (Req_Rejected Reject_OffsetGone)"
proof -
  have "carries [Bytes [0x03], Bytes [2]] (respond_resume_rejected Reject_OffsetGone)"
    by (simp add: respond_resume_rejected_def FRAME_RESUME_REJECT_def)
  with resume_exchange_faithful show ?thesis by blast
qed

end
