(* ===== verification/ReattachClient.thy ===== *)
theory ReattachClient
  imports Interfaces "HOL-Library.Sublist"
begin

text \<open>
  \<^verbatim>\<open>rust-core/src/resume_client.rs\<close>: the reattaching stream under the mobile clients' SSH session, with its own
  replay buffer (it evicts its oldest bytes where \<^verbatim>\<open>quicmux::ReplayBuffer\<close> refuses new ones), and the pump
  that moves bytes between the caller and the helper.

  A write that returns \<^verbatim>\<open>Ok\<close> has only handed its bytes to the connection: they are on their way,
  \<open>rt_wire\<close>, until they reach the helper, and when the connection is lost only some first part of
  them does. A script gives what the network does: how far the bytes on their way get, which writes
  fail, which reattachments succeed, and whether a wait was cut short by a returning network. The
  helper's side is the list of bytes it has committed. The attempt counters stay below ten and are
  natural numbers. Results: reattaching always ends; over any number of lost connections the helper gets
  the caller's bytes exactly once and in order, as long as a failed write has delivered nothing
  of its own chunk and no more bytes are on their way than the buffer holds; a half-delivered
  write is sent twice, and bytes that the buffer has evicted are lost without an error.
\<close>

section \<open>The evicting replay buffer\<close>

record evicting_buffer =
  ev_data :: "u8 list"
  ev_start_offset :: u64
  ev_capacity :: nat

definition ev_new :: "nat \<Rightarrow> evicting_buffer" where
  "ev_new capacity = \<lparr>ev_data = [], ev_start_offset = 0, ev_capacity = capacity\<rparr>"

fun ev_evict :: "nat \<Rightarrow> u8 list \<Rightarrow> u64 \<Rightarrow> u8 list \<times> u64" where
  "ev_evict capacity [] start_off = ([], start_off)"
| "ev_evict capacity (x # xs) start_off =
     (if capacity < length (x # xs) then ev_evict capacity xs (start_off + 1) else (x # xs, start_off))"

definition ev_append :: "evicting_buffer \<Rightarrow> u8 list \<Rightarrow> evicting_buffer" where
  "ev_append b bytes =
     (let (data, start_off) = ev_evict (ev_capacity b) (ev_data b @ bytes) (ev_start_offset b) in
      b\<lparr>ev_data := data, ev_start_offset := start_off\<rparr>)"

fun ev_discard :: "u64 \<Rightarrow> u8 list \<Rightarrow> u64 \<Rightarrow> u8 list \<times> u64" where
  "ev_discard confirmed [] start_off = ([], start_off)"
| "ev_discard confirmed (x # xs) start_off =
     (if start_off < confirmed then ev_discard confirmed xs (start_off + 1) else (x # xs, start_off))"

definition ev_advance_start :: "evicting_buffer \<Rightarrow> u64 \<Rightarrow> evicting_buffer" where
  "ev_advance_start b confirmed_offset =
     (let (data, start_off) = ev_discard confirmed_offset (ev_data b) (ev_start_offset b) in
      b\<lparr>ev_data := data, ev_start_offset := start_off\<rparr>)"

definition ev_end_offset :: "evicting_buffer \<Rightarrow> u64" where
  "ev_end_offset b = ev_start_offset b + word_of_nat (length (ev_data b))"

definition ev_replay_from :: "evicting_buffer \<Rightarrow> u64 \<Rightarrow> u8 list option" where
  "ev_replay_from b from_off =
     (if from_off < ev_start_offset b \<or> ev_end_offset b < from_off then None
      else Some (drop (unat (from_off - ev_start_offset b)) (ev_data b)))"

section \<open>Reattaching\<close>

definition REATTACH_MAX_RETRIES :: nat where "REATTACH_MAX_RETRIES = 5"
definition NETWORK_WAKE_BONUS_RETRIES :: nat where "NETWORK_WAKE_BONUS_RETRIES = 3"

record reattach_state =
  rt_buf :: evicting_buffer
  rt_session_id :: "u8 list option"
  rt_client_delivered_offset :: u64
  rt_helper_read_done :: bool
  rt_helper :: "u8 list"
  rt_wire :: "u8 list"
  rt_delivered :: "u8 list"

text \<open>One attempt: what one call of \<^verbatim>\<open>reattach_fn\<close> and the replay after it come to: a failure of the dial, or
  a new connection, whose write of the replay may fail with an error after some bytes of it reached
  the helper; and, for a failed attempt, whether the wait after it is cut short by the network
  coming back.\<close>

datatype dial_script = Dial_Failed string bool | Dial_Ok "(nat \<times> string) option" bool

definition reattach_once :: "reattach_state \<Rightarrow> dial_script \<Rightarrow> reattach_state \<times> (string + unit)" where
  "reattach_once st d =
     (case d of
        Dial_Failed e _ \<Rightarrow> (st, Inl e)
      | Dial_Ok failure _ \<Rightarrow>
          let helper_committed_offset = word_of_nat (length (rt_helper st));
              st = st\<lparr>rt_buf := ev_advance_start (rt_buf st) helper_committed_offset\<rparr> in
          case ev_replay_from (rt_buf st) helper_committed_offset of
            None \<Rightarrow> (st, Inr ())
          | Some bytes \<Rightarrow>
              if bytes = [] then (st, Inr ())
              else (case failure of
                  None \<Rightarrow> (st\<lparr>rt_wire := bytes\<rparr>, Inr ())
                | Some (landed, e) \<Rightarrow>
                    (st\<lparr>rt_helper := rt_helper st @ take landed bytes\<rparr>, Inl (''failed to replay C->S bytes: '' @ e))))"

fun dial_woke :: "dial_script \<Rightarrow> bool" where
  "dial_woke (Dial_Failed _ woke) = woke"
| "dial_woke (Dial_Ok _ woke) = woke"

fun attempt_reattach ::
  "reattach_state \<Rightarrow> nat \<Rightarrow> nat \<Rightarrow> dial_script list \<Rightarrow> reattach_state \<times> (string + unit) option" where
  "attempt_reattach st attempt bonus_used [] = (st, None)"
| "attempt_reattach st attempt bonus_used (d # ds) =
     (if rt_session_id st = None
      then (st, Some (Inl ''no session_id, resume not supported for this connection''))
      else case reattach_once st d of
          (st, Inr _) \<Rightarrow> (st, Some (Inr ()))
        | (st, Inl e) \<Rightarrow>
            if REATTACH_MAX_RETRIES \<le> attempt + 1 then (st, Some (Inl e))
            else if dial_woke d \<and> bonus_used < NETWORK_WAKE_BONUS_RETRIES
            then attempt_reattach st attempt (bonus_used + 1) ds
            else attempt_reattach st (attempt + 1) bonus_used ds)"

text \<open>A connection is lost: some first part of the bytes on their way still reaches the helper, or all of
  them and a part of the chunk whose write failed.\<close>

datatype cut = Cut_Earlier nat | Cut_In_Chunk nat

fun lose_connection :: "cut \<Rightarrow> u8 list \<Rightarrow> reattach_state \<Rightarrow> reattach_state" where
  "lose_connection (Cut_Earlier k) chunk st = st\<lparr>rt_helper := rt_helper st @ take k (rt_wire st), rt_wire := []\<rparr>"
| "lose_connection (Cut_In_Chunk k) chunk st = st\<lparr>rt_helper := rt_helper st @ rt_wire st @ take k chunk, rt_wire := []\<rparr>"

text \<open>\<^verbatim>\<open>write_with_reattach\<close>: each entry of the script is one \<^verbatim>\<open>write_all\<close>; if it fails, how the connection
  was lost, and the reattachment that follows.\<close>

datatype write_script = Write_Ok | Write_Failed cut "dial_script list"

fun write_with_reattach ::
  "reattach_state \<Rightarrow> u8 list \<Rightarrow> write_script list \<Rightarrow> reattach_state \<times> (string + unit) option" where
  "write_with_reattach st chunk [] = (st, None)"
| "write_with_reattach st chunk (Write_Ok # writes) =
     (st\<lparr>rt_wire := rt_wire st @ chunk, rt_buf := ev_append (rt_buf st) chunk\<rparr>, Some (Inr ()))"
| "write_with_reattach st chunk (Write_Failed c dials # writes) =
     (case attempt_reattach (lose_connection c chunk st) 0 0 dials of
        (st, Some (Inr _)) \<Rightarrow> write_with_reattach (st\<lparr>rt_helper_read_done := False\<rparr>) chunk writes
      | (st, r) \<Rightarrow> (st, r))"

section \<open>The pump\<close>

text \<open>The loop of \<^verbatim>\<open>run_pump\<close>. It runs, or waits for something the script does not tell any more, or
  it has returned, with a terminal error or without.\<close>

datatype pump_status = Pump_Running | Pump_Waiting | Pump_Closed | Pump_Broken string

record pump =
  pm_state :: reattach_state
  pm_status :: pump_status

definition pump_new :: "nat \<Rightarrow> pump" where
  "pump_new capacity = \<lparr>pm_state = \<lparr>rt_buf = ev_new capacity, rt_session_id = None, rt_client_delivered_offset = 0,
     rt_helper_read_done = False, rt_helper = [], rt_wire = [], rt_delivered = []\<rparr>, pm_status = Pump_Running\<rparr>"

text \<open>The events of \<^verbatim>\<open>next_pump_event\<close> (for bytes from the helper, whether the caller could take them; for a
  failed read, how many of the bytes on their way still reach the helper), and two of the surroundings:
  bytes on their way reach the helper, and the control stream has told the session's id.\<close>

datatype pump_event =
    PE_FromCaller "u8 list" "write_script list"
  | PE_FromCallerClosed
  | PE_FromHelper "u8 list" bool
  | PE_FromHelperClosed
  | PE_Failed nat "dial_script list"
  | PE_Landed nat
  | PE_SessionId "u8 list"

fun pump_status_after :: "(string + unit) option \<Rightarrow> pump_status" where
  "pump_status_after None = Pump_Waiting"
| "pump_status_after (Some (Inl e)) = Pump_Broken e"
| "pump_status_after (Some (Inr _)) = Pump_Running"

fun pump_handle :: "reattach_state \<Rightarrow> pump_event \<Rightarrow> reattach_state \<times> pump_status" where
  "pump_handle st (PE_FromCaller chunk writes) = map_prod id pump_status_after (write_with_reattach st chunk writes)"
| "pump_handle st PE_FromCallerClosed = (st, Pump_Closed)"
| "pump_handle st (PE_FromHelper chunk caller_takes) =
     (if rt_helper_read_done st then (st, Pump_Running)
      else if caller_takes
      then (st\<lparr>rt_delivered := rt_delivered st @ chunk,
          rt_client_delivered_offset := rt_client_delivered_offset st + word_of_nat (length chunk)\<rparr>, Pump_Running)
      else (st, Pump_Closed))"
| "pump_handle st PE_FromHelperClosed = (st\<lparr>rt_helper_read_done := True\<rparr>, Pump_Running)"
| "pump_handle st (PE_Failed k dials) =
     (if rt_helper_read_done st then (st, Pump_Running)
      else case attempt_reattach (lose_connection (Cut_Earlier k) [] st) 0 0 dials of
          (st, Some (Inr _)) \<Rightarrow> (st\<lparr>rt_helper_read_done := False\<rparr>, Pump_Running)
        | (st, r) \<Rightarrow> (st, pump_status_after r))"
| "pump_handle st (PE_Landed k) =
     (st\<lparr>rt_helper := rt_helper st @ take k (rt_wire st), rt_wire := drop k (rt_wire st)\<rparr>, Pump_Running)"
| "pump_handle st (PE_SessionId sid) = (st\<lparr>rt_session_id := Some sid\<rparr>, Pump_Running)"

definition pump_step :: "pump \<Rightarrow> pump_event \<Rightarrow> pump" where
  "pump_step p e =
     (if pm_status p = Pump_Running
      then let (st, status) = pump_handle (pm_state p) e in \<lparr>pm_state = st, pm_status = status\<rparr>
      else p)"

section \<open>The buffer as a window\<close>

definition ev_window :: "u8 list \<Rightarrow> nat \<Rightarrow> evicting_buffer \<Rightarrow> bool" where
  "ev_window s n b \<longleftrightarrow> n \<le> length s \<and> length s < 2 ^ 64 \<and> unat (ev_start_offset b) = n \<and> ev_data b = drop n s"

lemma ev_evict_drop:
  "unat o1 + length d < 2 ^ 64 \<Longrightarrow>
   ev_evict c d o1 = (drop (length d - c) d, o1 + word_of_nat (length d - c))
     \<and> unat (o1 + word_of_nat (length d - c)) = unat o1 + (length d - c)"
proof (induction d arbitrary: o1)
  case Nil
  then show ?case by simp
next
  case (Cons x d)
  show ?case
  proof (cases "c < length (x # d)")
    case True
    have u: "unat (o1 + 1) = unat o1 + 1" using Cons.prems by (intro unat_succ) simp
    have k: "length (x # d) - c = Suc (length d - c)" using True by simp
    show ?thesis
      unfolding k using True u Cons.prems Cons.IH [of "o1 + 1"] by (simp add: add.assoc)
  qed simp
qed

lemma ev_discard_drop:
  "unat o1 + length d < 2 ^ 64 \<Longrightarrow>
   \<exists>k. ev_discard confirmed d o1 = (drop k d, o1 + word_of_nat k) \<and> unat (o1 + word_of_nat k) = unat o1 + k
     \<and> k = min (unat confirmed - unat o1) (length d)"
proof (induction d arbitrary: o1)
  case Nil
  then show ?case by simp
next
  case (Cons x d)
  show ?case
  proof (cases "o1 < confirmed")
    case False
    then show ?thesis by (intro exI [of _ 0]) (simp add: word_less_nat_alt)
  next
    case True
    then have lt: "unat o1 < unat confirmed" by (simp add: word_less_nat_alt)
    have u: "unat (o1 + 1) = unat o1 + 1" using Cons.prems by (intro unat_succ) simp
    with Cons.prems Cons.IH [of "o1 + 1"] obtain k where k:
      "ev_discard confirmed d (o1 + 1) = (drop k d, o1 + 1 + word_of_nat k)"
      "unat (o1 + 1 + word_of_nat k) = unat (o1 + 1) + k" "k = min (unat confirmed - unat (o1 + 1)) (length d)"
      by auto
    have m: "Suc k = min (unat confirmed - unat o1) (length (x # d))"
      using lt u k(3) by auto
    show ?thesis
      using True u k(1,2) by (intro exI [of _ "Suc k"] conjI m) (simp_all add: add.assoc)
  qed
qed

lemma ev_window_append:
  assumes "ev_window s n b" and "length s + length bytes < 2 ^ 64"
  shows "ev_window (s @ bytes) (max n (length (s @ bytes) - ev_capacity b)) (ev_append b bytes)"
    "ev_capacity (ev_append b bytes) = ev_capacity b"
proof -
  have n: "unat (ev_start_offset b) = n" "n \<le> length s" and d: "ev_data b @ bytes = drop n (s @ bytes)"
    using assms(1) by (simp_all add: ev_window_def)
  let ?k = "length (ev_data b @ bytes) - ev_capacity b"
  have len: "n + length (ev_data b @ bytes) = length (s @ bytes)"
    using assms(1) by (simp add: ev_window_def)
  then have k: "max n (length (s @ bytes) - ev_capacity b) = n + ?k" by linarith
  from len n assms(2) have "unat (ev_start_offset b) + length (ev_data b @ bytes) < 2 ^ 64" by simp
  note ev = ev_evict_drop [OF this, of "ev_capacity b"]
  have "drop ?k (ev_data b @ bytes) = drop (n + ?k) (s @ bytes)"
    unfolding d by (simp only: drop_drop add.commute)
  moreover have "n + ?k \<le> length (s @ bytes)" using len by simp
  ultimately show "ev_window (s @ bytes) (max n (length (s @ bytes) - ev_capacity b)) (ev_append b bytes)"
    unfolding k using ev n assms(2) by (simp only: ev_window_def ev_append_def Let_def prod.case evicting_buffer.simps) simp
  show "ev_capacity (ev_append b bytes) = ev_capacity b" by (simp add: ev_append_def case_prod_beta Let_def)
qed

lemma ev_window_end:
  assumes "ev_window s n b"
  shows "unat (ev_end_offset b) = length s"
proof -
  have w: "unat (ev_start_offset b) = n" "n \<le> length s" "length s < 2 ^ 64" "length (ev_data b) = length s - n"
    using assms by (simp_all add: ev_window_def)
  show ?thesis
    using w(1-3) unfolding ev_end_offset_def w(4)
    by (simp add: unat_word_ariths unat_of_nat mod_less del: of_nat_diff)
qed

interpretation ev: replay_window ev_window ev_replay_from ev_advance_start
proof
  fix s n b and off :: u64
  assume w: "ev_window s n b"
  then show "n \<le> length s \<and> length s < 2 ^ 64" by (simp add: ev_window_def)
  have st: "unat (ev_start_offset b) = n" "ev_data b = drop n s" "n \<le> length s" "length s < 2 ^ 64"
    using w by (simp_all add: ev_window_def)
  show "ev_replay_from b off = (if n \<le> unat off \<and> unat off \<le> length s then Some (drop (unat off) s) else None)"
    using st ev_window_end [OF w]
    by (auto simp: ev_replay_from_def word_less_nat_alt unat_sub word_le_nat_alt)
  have "unat (ev_start_offset b) + length (ev_data b) < 2 ^ 64" using st by simp
  from ev_discard_drop [OF this, of off] obtain k where k:
    "ev_discard off (ev_data b) (ev_start_offset b) = (drop k (ev_data b), ev_start_offset b + word_of_nat k)"
    "unat (ev_start_offset b + word_of_nat k) = unat (ev_start_offset b) + k"
    "k = min (unat off - unat (ev_start_offset b)) (length (ev_data b))" by blast
  have nk: "confirm (length s) n (unat off) = n + k" and le: "n + k \<le> length s"
    using k(3) st by (auto simp: confirm_def)
  have "drop k (ev_data b) = drop (n + k) s" unfolding st(2) by (simp only: drop_drop add.commute)
  then show "ev_window s (confirm (length s) n (unat off)) (ev_advance_start b off)"
    unfolding nk using le st(1,4) k(1,2) by (simp add: ev_window_def ev_advance_start_def)
qed

section \<open>Termination and delivery\<close>

text \<open>Five attempts, and three more when the network comes back in between: a script of that length is
  always enough.\<close>

lemma attempt_reattach_ends:
  "attempt < REATTACH_MAX_RETRIES \<Longrightarrow>
   (REATTACH_MAX_RETRIES - attempt) + (NETWORK_WAKE_BONUS_RETRIES - bonus_used) \<le> length ds \<Longrightarrow>
   snd (attempt_reattach st attempt bonus_used ds) \<noteq> None"
proof (induction st attempt bonus_used ds rule: attempt_reattach.induct)
  case (2 st attempt bonus_used d ds)
  obtain st' r where r: "reattach_once st d = (st', r)" by fastforce
  show ?case
  proof (cases "rt_session_id st = None \<or> r = Inr () \<or> REATTACH_MAX_RETRIES \<le> attempt + 1")
    case True
    then show ?thesis by (auto simp: r split: sum.splits unit.splits)
  next
    case False
    then obtain e where e: "r = Inl e" by (cases r) auto
    have re: "(st', Inl e) = reattach_once st d" using r e by simp
    show ?thesis
      using False r e 2(3,4) 2(1,2) [OF _ re refl] by (auto simp: not_le)
  qed
qed simp

text \<open>\<open>delivered s st\<close>: what the helper has and what is on its way to it make up the bytes of the completed
  writes, \<open>s\<close>, and the buffer is a window onto them. While bytes are evicted, the buffer still
  holds the last ones up to its capacity; when it reaches back to what the helper has, a lost
  connection can be mended, \<open>ready\<close>; between two connections nothing is on its way, \<open>cut_off\<close>.\<close>

definition reaches :: "nat \<Rightarrow> u8 list \<Rightarrow> evicting_buffer \<Rightarrow> bool" where
  "reaches m s b \<longleftrightarrow> (\<exists>n \<le> m. ev_window s n b)"

lemma reaches_mono: "reaches m s b \<Longrightarrow> m \<le> m' \<Longrightarrow> reaches m' s b"
  by (meson reaches_def le_trans)

definition delivered :: "u8 list \<Rightarrow> reattach_state \<Rightarrow> bool" where
  "delivered s st \<longleftrightarrow> rt_helper st @ rt_wire st = s \<and> (\<exists>n. ev_window s n (rt_buf st))"

definition kept :: "u8 list \<Rightarrow> reattach_state \<Rightarrow> bool" where
  "kept s st \<longleftrightarrow> rt_helper st @ rt_wire st = s \<and>
     reaches (max (length (rt_helper st)) (length s - ev_capacity (rt_buf st))) s (rt_buf st)"

definition ready :: "u8 list \<Rightarrow> reattach_state \<Rightarrow> bool" where
  "ready s st \<longleftrightarrow> rt_helper st @ rt_wire st = s \<and> reaches (length (rt_helper st)) s (rt_buf st)"

definition cut_off :: "u8 list \<Rightarrow> reattach_state \<Rightarrow> bool" where
  "cut_off s st \<longleftrightarrow> prefix (rt_helper st) s \<and> rt_wire st = [] \<and> reaches (length (rt_helper st)) s (rt_buf st)"

lemma ready_kept: "ready s st \<Longrightarrow> kept s st"
  by (auto simp: ready_def kept_def elim: reaches_mono)

lemma kept_ready: "kept s st \<Longrightarrow> length (rt_wire st) \<le> ev_capacity (rt_buf st) \<Longrightarrow> ready s st"
  by (auto simp: ready_def kept_def elim: reaches_mono)

lemma ready_cut: "ready s st \<Longrightarrow> cut_off s (lose_connection (Cut_Earlier k) chunk st)"
  by (auto simp: ready_def cut_off_def take_is_prefix elim: reaches_mono)

lemma take_prefix: "prefix h s \<Longrightarrow> prefix (h @ take k (drop (length h) s)) s"
  by (auto simp: prefix_def) (metis append_take_drop_id)

lemma reattach_once_mends:
  assumes "cut_off s st" "reattach_once st d = (st', r)"
  shows "case r of Inr _ \<Rightarrow> ready s st' | Inl _ \<Rightarrow> cut_off s st'"
proof (cases d)
  case (Dial_Failed e woke)
  then show ?thesis using assms by (auto simp: reattach_once_def)
next
  case (Dial_Ok failure woke)
  let ?off = "word_of_nat (length (rt_helper st)) :: u64"
  let ?st = "st\<lparr>rt_buf := ev_advance_start (rt_buf st) ?off\<rparr>"
  from assms(1) obtain n where st: "prefix (rt_helper st) s" "rt_wire st = []" "n \<le> length (rt_helper st)"
    and w: "ev_window s n (rt_buf st)"
    by (auto simp: cut_off_def reaches_def)
  have le: "length (rt_helper st) \<le> length s" using st(1) by (rule prefix_length_le)
  then have off: "unat ?off = length (rt_helper st)" using ev.win_bounds [OF w] by (simp add: unat_of_nat)
  have rp: "ev_replay_from (rt_buf ?st) ?off = Some (drop (length (rt_helper st)) s)"
    using ev.replay_after_advance [OF w, of ?off] st(3) le off by simp
  have split: "rt_helper st @ drop (length (rt_helper st)) s = s"
    using st(1) by (auto simp: prefix_def)
  obtain n' where n': "n' \<le> length (rt_helper st)" "ev_window s n' (rt_buf ?st)"
    using ev.advance_within [OF st(3) w, of ?off] off by auto
  then have grown: "reaches (length (rt_helper st)) s (rt_buf ?st)" by (auto simp: reaches_def)
  show ?thesis
  proof (cases "drop (length (rt_helper st)) s = [] \<or> failure = None")
    case True
    then have "r = Inr () \<and> rt_helper st' @ rt_wire st' = s \<and> rt_helper st' = rt_helper st \<and> rt_buf st' = rt_buf ?st"
      using assms(2) rp split st(2) Dial_Ok by (auto simp: reattach_once_def Let_def split: if_splits)
    then show ?thesis using grown by (auto simp: ready_def)
  next
    case False
    then obtain landed e where "failure = Some (landed, e)" by auto
    with False have "r = Inl (''failed to replay C->S bytes: '' @ e) \<and>
        st' = ?st\<lparr>rt_helper := rt_helper st @ take landed (drop (length (rt_helper st)) s)\<rparr>"
      using assms(2) rp Dial_Ok by (simp add: reattach_once_def Let_def)
    then show ?thesis using grown take_prefix [OF st(1)] st(2) by (auto simp: cut_off_def elim: reaches_mono)
  qed
qed

lemma attempt_reattach_mends:
  "cut_off s st \<Longrightarrow> attempt_reattach st attempt bonus_used ds = (st', r) \<Longrightarrow>
   if r = Some (Inr ()) then ready s st' else cut_off s st'"
proof (induction st attempt bonus_used ds rule: attempt_reattach.induct)
  case (2 st attempt bonus_used d ds)
  obtain st1 r1 where r: "reattach_once st d = (st1, r1)" by fastforce
  note mend = reattach_once_mends [OF 2(3) r]
  show ?case
  proof (cases r1)
    case (Inr u)
    then show ?thesis using r mend 2(3,4) by (auto split: if_splits)
  next
    case (Inl e)
    have re: "(st1, Inl e) = reattach_once st d" using r Inl by simp
    show ?thesis using r Inl mend 2(3,4) 2(1,2) [OF _ re refl] by (auto split: if_splits)
  qed
qed auto

lemma ready_append:
  assumes "ready s st" "length s + length chunk < 2 ^ 64"
  shows "kept (s @ chunk) (st\<lparr>rt_wire := rt_wire st @ chunk, rt_buf := ev_append (rt_buf st) chunk\<rparr>)"
proof -
  from assms(1) obtain n where n: "n \<le> length (rt_helper st)" "ev_window s n (rt_buf st)" and s: "rt_helper st @ rt_wire st = s"
    by (auto simp: ready_def reaches_def)
  have "max n (length (s @ chunk) - ev_capacity (rt_buf st)) \<le>
      max (length (rt_helper st)) (length (s @ chunk) - ev_capacity (rt_buf st))"
    using n(1) by (rule max.mono) simp
  with ev_window_append(1) [OF n(2) assms(2)]
  have "reaches (max (length (rt_helper st)) (length (s @ chunk) - ev_capacity (rt_buf st))) (s @ chunk)
      (ev_append (rt_buf st) chunk)"
    unfolding reaches_def by blast
  with s ev_window_append(2) [OF n(2) assms(2)] show ?thesis by (simp add: kept_def)
qed

text \<open>A failed write that has delivered nothing of its own chunk.\<close>

fun clean_write :: "write_script \<Rightarrow> bool" where
  "clean_write Write_Ok = True"
| "clean_write (Write_Failed (Cut_Earlier _) _) = True"
| "clean_write (Write_Failed (Cut_In_Chunk k) _) \<longleftrightarrow> k = 0"

lemma clean_cut:
  "clean_write (Write_Failed c dials) \<Longrightarrow> ready s st \<Longrightarrow> cut_off s (lose_connection c chunk st)"
  by (cases c) (auto simp: ready_def cut_off_def take_is_prefix elim: reaches_mono)

lemma ready_read_done: "ready s (st\<lparr>rt_helper_read_done := b\<rparr>) = ready s st"
  by (simp add: ready_def)

lemma write_mends:
  "ready s st \<Longrightarrow> length s + length chunk < 2 ^ 64 \<Longrightarrow> list_all clean_write writes \<Longrightarrow>
   write_with_reattach st chunk writes = (st', r) \<Longrightarrow>
   if r = Some (Inr ()) then kept (s @ chunk) st' else prefix (rt_helper st' @ rt_wire st') s"
proof (induction st chunk writes rule: write_with_reattach.induct)
  case (1 st chunk)
  then show ?case by (auto simp: ready_def)
next
  case (2 st chunk writes)
  then show ?case using ready_append by auto
next
  case (3 st chunk c dials writes)
  obtain st1 r1 where r1: "attempt_reattach (lose_connection c chunk st) 0 0 dials = (st1, r1)" by fastforce
  have "cut_off s (lose_connection c chunk st)" using 3(2,4) by (intro clean_cut [of c dials]) simp_all
  note mend = attempt_reattach_mends [OF this r1]
  show ?case
  proof (cases "r1 = Some (Inr ())")
    case True
    have re: "(st1, Some (Inr ())) = attempt_reattach (lose_connection c chunk st) 0 0 dials" using r1 True by simp
    show ?thesis
      using 3(1) [OF re refl refl] mend True r1 3(3,4,5) by (simp add: ready_read_done)
  next
    case False
    with 3(5) r1 have "st' = st1" "r = r1" by (auto split: option.splits sum.splits unit.splits)
    with False mend show ?thesis by (simp add: cut_off_def)
  qed
qed

section \<open>Runs of the pump\<close>

fun caller_bytes :: "pump_event list \<Rightarrow> u8 list" where
  "caller_bytes [] = []"
| "caller_bytes (PE_FromCaller chunk _ # es) = chunk @ caller_bytes es"
| "caller_bytes (_ # es) = caller_bytes es"

fun clean_event :: "pump_event \<Rightarrow> bool" where
  "clean_event (PE_FromCaller _ writes) = list_all clean_write writes"
| "clean_event _ = True"

text \<open>At every event of the run at most as many bytes are on their way as the buffer holds.\<close>

fun calm :: "pump \<Rightarrow> pump_event list \<Rightarrow> bool" where
  "calm p [] = True"
| "calm p (e # es) \<longleftrightarrow> length (rt_wire (pm_state p)) \<le> ev_capacity (rt_buf (pm_state p)) \<and> clean_event e \<and>
     calm (pump_step p e) es"

definition pump_inv :: "u8 list \<Rightarrow> pump \<Rightarrow> bool" where
  "pump_inv s p \<longleftrightarrow> (if pm_status p = Pump_Running then kept s (pm_state p)
     else prefix (rt_helper (pm_state p) @ rt_wire (pm_state p)) s)"

lemma landed_kept:
  "kept s st \<Longrightarrow> kept s (st\<lparr>rt_helper := rt_helper st @ take k (rt_wire st), rt_wire := drop k (rt_wire st)\<rparr>)"
  by (auto simp: kept_def elim!: reaches_mono)

lemma pump_inv_step:
  assumes "pump_inv s p" "calm p [e]" "length (s @ caller_bytes [e]) < 2 ^ 64"
  shows "pump_inv (s @ caller_bytes [e]) (pump_step p e)"
proof (cases "pm_status p = Pump_Running")
  case False
  with assms(1) show ?thesis by (auto simp: pump_inv_def pump_step_def prefix_def)
next
  case run: True
  let ?st = "pm_state p"
  have k: "kept s ?st" and r: "ready s ?st" using assms run kept_ready by (auto simp: pump_inv_def)
  show ?thesis
  proof (cases e)
    case (PE_FromCaller chunk writes)
    obtain st' w where w: "write_with_reattach ?st chunk writes = (st', w)" by fastforce
    from write_mends [OF r _ _ w] assms PE_FromCaller
    have "if w = Some (Inr ()) then kept (s @ chunk) st' else prefix (rt_helper st' @ rt_wire st') s" by simp
    then show ?thesis
      using run w PE_FromCaller
      by (cases w rule: pump_status_after.cases) (auto simp: pump_inv_def pump_step_def prefix_def)
  next
    case (PE_Failed n dials)
    obtain st' w where w: "attempt_reattach (lose_connection (Cut_Earlier n) [] ?st) 0 0 dials = (st', w)" by fastforce
    from attempt_reattach_mends [OF ready_cut [OF r] w]
    have "if w = Some (Inr ()) then kept s st' else prefix (rt_helper st' @ rt_wire st') s"
      using ready_kept by (auto simp: cut_off_def)
    then show ?thesis
      using run w k PE_Failed
      by (cases w rule: pump_status_after.cases) (auto simp: pump_inv_def pump_step_def kept_def)
  qed (use run k landed_kept in \<open>auto simp: pump_inv_def pump_step_def kept_def\<close>)
qed

lemma pump_inv_run:
  "pump_inv s p \<Longrightarrow> calm p es \<Longrightarrow> length (s @ caller_bytes es) < 2 ^ 64 \<Longrightarrow>
   pump_inv (s @ caller_bytes es) (foldl pump_step p es)"
proof (induction es arbitrary: s p)
  case (Cons e es)
  have c: "caller_bytes (e # es) = caller_bytes [e] @ caller_bytes es" by (cases e) simp_all
  with Cons.prems have "pump_inv (s @ caller_bytes [e]) (pump_step p e)" by (intro pump_inv_step) simp_all
  from Cons.IH [OF this] Cons.prems c show ?case by simp
qed simp

lemma pump_inv_new: "pump_inv [] (pump_new capacity)"
  by (auto simp: pump_inv_def pump_new_def kept_def reaches_def ev_window_def ev_new_def)

lemma reattach_delivered_fields:
  "attempt_reattach st attempt bonus_used ds = (st', r) \<Longrightarrow>
   rt_delivered st' = rt_delivered st \<and> rt_client_delivered_offset st' = rt_client_delivered_offset st"
proof (induction st attempt bonus_used ds rule: attempt_reattach.induct)
  case (2 st attempt bonus_used d ds)
  obtain st1 r1 where r: "reattach_once st d = (st1, r1)" by fastforce
  then have f: "rt_delivered st1 = rt_delivered st \<and> rt_client_delivered_offset st1 = rt_client_delivered_offset st"
    by (auto simp: reattach_once_def Let_def split: dial_script.splits option.splits if_splits)
  show ?case
  proof (cases r1)
    case (Inl e)
    have re: "(st1, Inl e) = reattach_once st d" using r Inl by simp
    show ?thesis using r f Inl 2(3) 2(1,2) [OF _ re refl] by (auto split: if_splits)
  qed (use r f 2(3) in \<open>auto split: if_splits\<close>)
qed simp

lemma write_delivered_fields:
  "write_with_reattach st chunk writes = (st', r) \<Longrightarrow>
   rt_delivered st' = rt_delivered st \<and> rt_client_delivered_offset st' = rt_client_delivered_offset st"
proof (induction st chunk writes rule: write_with_reattach.induct)
  case (3 st chunk c dials writes)
  obtain st1 r1 where r1: "attempt_reattach (lose_connection c chunk st) 0 0 dials = (st1, r1)" by fastforce
  have f: "rt_delivered st1 = rt_delivered st \<and> rt_client_delivered_offset st1 = rt_client_delivered_offset st"
    using reattach_delivered_fields [OF r1] by (cases c) simp_all
  show ?case
  proof (cases "r1 = Some (Inr ())")
    case True
    have re: "(st1, Some (Inr ())) = attempt_reattach (lose_connection c chunk st) 0 0 dials" using r1 True by simp
    show ?thesis using 3(1) [OF re refl refl] 3(2) r1 True f by simp
  next
    case False
    with 3(2) r1 f show ?thesis by (auto split: option.splits sum.splits unit.splits)
  qed
qed auto

text \<open>What the client announces as delivered when it reattaches is what its caller has taken.\<close>

lemma pump_offset_exact:
  "rt_client_delivered_offset (pm_state (foldl pump_step (pump_new capacity) es)) =
     word_of_nat (length (rt_delivered (pm_state (foldl pump_step (pump_new capacity) es))))"
proof (induction es rule: rev_induct)
  case Nil
  show ?case by (simp add: pump_new_def)
next
  case (snoc e es)
  define p where "p = foldl pump_step (pump_new capacity) es"
  have "rt_client_delivered_offset (fst (pump_handle (pm_state p) e)) = word_of_nat (length (rt_delivered (fst (pump_handle (pm_state p) e))))"
  proof (cases e)
    case (PE_FromCaller chunk writes)
    then show ?thesis
      using snoc write_delivered_fields [OF surjective_pairing, of "pm_state p" chunk writes] by (simp add: p_def)
  next
    case (PE_Failed k dials)
    then show ?thesis
      using snoc reattach_delivered_fields [OF surjective_pairing, of "lose_connection (Cut_Earlier k) [] (pm_state p)" 0 0 dials]
      by (auto simp: p_def split: prod.splits option.splits sum.splits unit.splits)
  qed (use snoc in \<open>auto simp: p_def\<close>)
  moreover have "pm_state (pump_step p e) = (if pm_status p = Pump_Running then fst (pump_handle (pm_state p) e) else pm_state p)"
    by (simp add: pump_step_def case_prod_beta Let_def)
  ultimately show ?case using snoc by (simp add: p_def)
qed

section \<open>Properties\<close>

text \<open>C33. The caller's bytes are delivered exactly once and in order, through any number of lost connections,
  failed writes, failed replays and reattachments: at any time what the helper has, followed by what
  is on its way to it, is a first part of what the caller has written, and all of it while the pump
  runs. This holds as long as no failed write has delivered part of its chunk and never more bytes
  are on their way than the replay buffer holds; without these two, bytes come twice or are lost. Each
  reattachment is decided after at most eight dials.\<close>

theorem reattach_stream_exact:
  assumes "calm (pump_new capacity) es" and "length (caller_bytes es) < 2 ^ 64"
  shows "(let p = foldl pump_step (pump_new capacity) es;
       sent = rt_helper (pm_state p) @ rt_wire (pm_state p) in
     prefix sent (caller_bytes es) \<and> (pm_status p = Pump_Running \<longrightarrow> sent = caller_bytes es)) \<and>
    (\<forall>ds st. 8 \<le> length ds \<longrightarrow> snd (attempt_reattach st 0 0 ds) \<noteq> None)"
proof
  show "\<forall>ds st. 8 \<le> length ds \<longrightarrow> snd (attempt_reattach st 0 0 ds) \<noteq> None"
    using attempt_reattach_ends [of 0 0] by (simp add: REATTACH_MAX_RETRIES_def NETWORK_WAKE_BONUS_RETRIES_def)
  show "let p = foldl pump_step (pump_new capacity) es; sent = rt_helper (pm_state p) @ rt_wire (pm_state p) in
      prefix sent (caller_bytes es) \<and> (pm_status p = Pump_Running \<longrightarrow> sent = caller_bytes es)"
    using pump_inv_run [OF pump_inv_new, of capacity es] assms
    by (auto simp: pump_inv_def kept_def Let_def split: if_splits)
qed

definition sample_pump_run :: "pump_event list" where
  "sample_pump_run = [PE_SessionId [7], PE_FromCaller [1, 2, 3] [Write_Ok], PE_Landed 1,
     PE_Failed 1 [Dial_Failed ''x'' True, Dial_Ok None False],
     PE_FromCaller [4, 5] [Write_Failed (Cut_Earlier 0) [Dial_Ok None False], Write_Ok]]"

theorem reattach_stream_exact_witness:
  "rt_helper (pm_state (foldl pump_step (pump_new 16) sample_pump_run)) = [1, 2] \<and>
   rt_wire (pm_state (foldl pump_step (pump_new 16) sample_pump_run)) = [3, 4, 5]"
proof -
  note defs = sample_pump_run_def pump_new_def pump_step_def reattach_once_def ev_new_def ev_append_def
    ev_advance_start_def ev_replay_from_def ev_end_offset_def Let_def REATTACH_MAX_RETRIES_def NETWORK_WAKE_BONUS_RETRIES_def
  have "calm (pump_new 16) sample_pump_run" "length (caller_bytes sample_pump_run) < 2 ^ 64" by (simp_all add: defs)
  note exact = reattach_stream_exact [OF this]
  have "pm_status (foldl pump_step (pump_new 16) sample_pump_run) = Pump_Running"
    "rt_helper (pm_state (foldl pump_step (pump_new 16) sample_pump_run)) = [1, 2]" by (simp_all add: defs)
  with exact show ?thesis by (simp add: Let_def sample_pump_run_def)
qed

text \<open>Bytes that were evicted before they reached the helper are lost without an error: nothing is
  replayed, and the reattachment counts as a success.\<close>

lemma evicted_bytes_lost:
  assumes "ev_window s n (rt_buf st)" "length (rt_helper st) < n" "rt_session_id st = Some sid"
  shows "\<exists>b. attempt_reattach st 0 0 (Dial_Ok failure woke # ds) = (st\<lparr>rt_buf := b\<rparr>, Some (Inr ()))"
proof -
  let ?off = "word_of_nat (length (rt_helper st)) :: u64"
  have off: "unat ?off = length (rt_helper st)" using ev.win_bounds [OF assms(1)] assms(2) by (simp add: unat_of_nat)
  have "confirm (length s) n (unat ?off) = n" using off assms(2) ev.win_bounds [OF assms(1)] by (simp add: confirm_def)
  then have "ev_replay_from (ev_advance_start (rt_buf st) ?off) ?off = None"
    using ev.win_replay [OF ev.win_advance [OF assms(1)], of ?off ?off] off assms(2) by simp
  with assms(3) show ?thesis by (auto simp: reattach_once_def Let_def)
qed

text \<open>C40. A half-delivered write is sent twice: if \<open>k\<close> bytes of a chunk reach the helper before the connection is lost,
  the helper's offset is beyond the end of the client's buffer, the replay is skipped without an
  error, and the retried write sends the whole chunk, so the helper has its first \<open>k\<close> bytes twice.\<close>

theorem partial_write_duplicates:
  assumes "delivered s st" and "rt_session_id st = Some sid" and "k < length chunk" and "0 < k"
    and "length s + length chunk < 2 ^ 64"
  shows "let st' = fst (write_with_reattach st chunk
       [Write_Failed (Cut_In_Chunk k) [Dial_Ok failure woke], Write_Ok]) in
     rt_helper st' @ rt_wire st' = s @ take k chunk @ chunk"
proof -
  from assms(1) obtain n where st: "rt_helper st @ rt_wire st = s" and w: "ev_window s n (rt_buf st)"
    by (auto simp: delivered_def)
  let ?off = "word_of_nat (length (rt_helper st @ rt_wire st @ take k chunk)) :: u64"
  have len: "length (rt_helper st @ rt_wire st @ take k chunk) = length s + k" using st assms(3) by auto
  have off: "unat ?off = length s + k"
    unfolding len using assms(3,5) unat_of_nat [where 'a = 64, of "length s + k"] by (simp del: of_nat_add)
  have "ev_replay_from (ev_advance_start (rt_buf st) ?off) ?off = None"
    using ev.win_replay [OF ev.win_advance [OF w], of ?off ?off] off assms(4) by simp
  with assms(2) show ?thesis by (simp add: reattach_once_def Let_def st [symmetric] del: length_append)
qed

theorem partial_write_duplicates_witness:
  "let st' = fst (write_with_reattach
      (pm_state (pump_new 16)\<lparr>rt_session_id := Some [7]\<rparr>) [1, 2, 3]
      [Write_Failed (Cut_In_Chunk 2) [Dial_Ok None False], Write_Ok]) in
   rt_helper st' @ rt_wire st' = [1, 2, 1, 2, 3]"
proof -
  have "delivered [] (pm_state (pump_new 16)\<lparr>rt_session_id := Some [7]\<rparr>)"
    by (simp add: delivered_def pump_new_def ev_window_def ev_new_def)
  from partial_write_duplicates [OF this, of "[7]" 2 "[1, 2, 3]" None False] show ?thesis by simp
qed

end
