(* ===== verification/Panics.thy ===== *)
theory Panics
  imports Prelude "HOL-Library.Monad_Syntax"
begin

text \<open>
  Code that may panic, as functions into \<open>option\<close>: \<open>None\<close> is a panic (an index or a slice out of
  bounds, a \<^verbatim>\<open>clamp\<close> with its bounds crossed, a subtraction on \<^verbatim>\<open>usize\<close> below zero,
  which panics in a debug build and wraps in a release build). \<open>vget\<close>, \<open>vset\<close>,
  \<open>vslice\<close> and \<open>vfill\<close> are the accesses to a \<^verbatim>\<open>Vec\<close>; \<open>ofold\<close> is a
  \<^verbatim>\<open>for\<close> loop over a list; \<open>safe m Q\<close> says that \<open>m\<close> does not panic and its result
  satisfies \<open>Q\<close>. The locale \<open>panic_free\<close> is the contract of a machine none of whose steps
  panics in a state with the invariant.
\<close>

named_theorems safe_rules \<open>rules for computations that do not panic\<close>

section \<open>Vectors\<close>

definition vget :: "'a list \<Rightarrow> nat \<Rightarrow> 'a option" where
  "vget xs i = (if i < length xs then Some (xs ! i) else None)"

definition vset :: "'a list \<Rightarrow> nat \<Rightarrow> 'a \<Rightarrow> 'a list option" where
  "vset xs i x = (if i < length xs then Some (xs[i := x]) else None)"

text \<open>\<^verbatim>\<open>&v[from..to]\<close>, and writing a slice of the same length in its place.\<close>

definition vslice :: "'a list \<Rightarrow> nat \<Rightarrow> nat \<Rightarrow> 'a list option" where
  "vslice xs from to = (if from \<le> to \<and> to \<le> length xs then Some (take (to - from) (drop from xs)) else None)"

definition vsplice :: "'a list \<Rightarrow> nat \<Rightarrow> 'a list \<Rightarrow> 'a list" where
  "vsplice xs from ys = take from xs @ ys @ drop (from + length ys) xs"

text \<open>\<^verbatim>\<open>v[from..to].fill(x)\<close>.\<close>

definition vfill :: "'a list \<Rightarrow> nat \<Rightarrow> nat \<Rightarrow> 'a \<Rightarrow> 'a list option" where
  "vfill xs from to x =
     (if from \<le> to \<and> to \<le> length xs then Some (vsplice xs from (replicate (to - from) x)) else None)"

text \<open>\<^verbatim>\<open>a - b\<close> on \<^verbatim>\<open>usize\<close>, and \<^verbatim>\<open>Ord::clamp\<close>.\<close>

definition usub :: "nat \<Rightarrow> nat \<Rightarrow> nat option" where
  "usub a b = (if b \<le> a then Some (a - b) else None)"

definition uclamp :: "nat \<Rightarrow> nat \<Rightarrow> nat \<Rightarrow> nat option" where
  "uclamp x lo hi = (if lo \<le> hi then Some (max lo (min x hi)) else None)"

text \<open>\<^verbatim>\<open>Vec::resize\<close>.\<close>

definition vresize :: "'a list \<Rightarrow> nat \<Rightarrow> 'a \<Rightarrow> 'a list" where
  "vresize xs n x = take n xs @ replicate (n - length xs) x"

lemma length_vresize [simp]: "length (vresize xs n x) = n"
  by (simp add: vresize_def min_def)

lemma length_vsplice [simp]: "from + length ys \<le> length xs \<Longrightarrow> length (vsplice xs from ys) = length xs"
  by (simp add: vsplice_def)

lemma nth_vsplice:
  "from + length ys \<le> length xs \<Longrightarrow> i < length xs \<Longrightarrow>
   vsplice xs from ys ! i = (if from \<le> i \<and> i < from + length ys then ys ! (i - from) else xs ! i)"
  by (auto simp: vsplice_def nth_append min_def)

lemma set_vsplice: "set (vsplice xs from ys) \<subseteq> set xs \<union> set ys"
  by (auto simp: vsplice_def dest: in_set_takeD in_set_dropD)

lemma set_vresize: "set (vresize xs n x) \<subseteq> insert x (set xs)"
  by (auto simp: vresize_def dest: in_set_takeD)

section \<open>Loops\<close>

text \<open>\<^verbatim>\<open>for x in xs { s = f(x, s) }\<close>.\<close>

fun ofold :: "('a \<Rightarrow> 's \<Rightarrow> 's option) \<Rightarrow> 'a list \<Rightarrow> 's \<Rightarrow> 's option" where
  "ofold f [] s = Some s"
| "ofold f (x # xs) s = f x s \<bind> ofold f xs"

lemma ofold_append: "ofold f (xs @ ys) s = ofold f xs s \<bind> ofold f ys"
  by (induction xs arbitrary: s) (auto split: Option.bind_splits)

text \<open>\<^verbatim>\<open>Iterator::find\<close> with a predicate that may panic.\<close>

fun ofind :: "('a \<Rightarrow> bool option) \<Rightarrow> 'a list \<Rightarrow> 'a option option" where
  "ofind p [] = Some None"
| "ofind p (x # xs) = p x \<bind> (\<lambda>b. if b then Some (Some x) else ofind p xs)"

section \<open>Computations that do not panic\<close>

definition safe :: "'a option \<Rightarrow> ('a \<Rightarrow> bool) \<Rightarrow> bool" where
  "safe m Q \<longleftrightarrow> (\<exists>x. m = Some x \<and> Q x)"

lemma safe_Some [simp]: "safe (Some x) Q \<longleftrightarrow> Q x"
  by (simp add: safe_def)

lemma safe_None [simp]: "\<not> safe None Q"
  by (simp add: safe_def)

lemma safe_bind [simp]: "safe (m \<bind> f) Q \<longleftrightarrow> safe m (\<lambda>x. safe (f x) Q)"
  by (cases m) simp_all

lemma safe_bindI: "safe m P \<Longrightarrow> (\<And>x. P x \<Longrightarrow> safe (f x) Q) \<Longrightarrow> safe (m \<bind> f) Q"
  by (auto simp: safe_def)

lemma safe_if [simp]: "safe (if b then m else m') Q \<longleftrightarrow> (b \<longrightarrow> safe m Q) \<and> (\<not> b \<longrightarrow> safe m' Q)"
  by simp

lemma safe_mono: "safe m P \<Longrightarrow> (\<And>x. P x \<Longrightarrow> Q x) \<Longrightarrow> safe m Q"
  by (auto simp: safe_def)

lemma safe_conj: "safe m P \<Longrightarrow> safe m Q \<Longrightarrow> safe m (\<lambda>x. P x \<and> Q x)"
  by (auto simp: safe_def)

lemma safe_eq_SomeD: "safe m Q \<Longrightarrow> m = Some x \<Longrightarrow> Q x"
  by (simp add: safe_def)

lemma safe_vget [simp]: "safe (vget xs i) Q \<longleftrightarrow> i < length xs \<and> Q (xs ! i)"
  by (auto simp: vget_def)

lemma safe_vset [simp]: "safe (vset xs i x) Q \<longleftrightarrow> i < length xs \<and> Q (xs[i := x])"
  by (auto simp: vset_def)

lemma safe_usub [simp]: "safe (usub a b) Q \<longleftrightarrow> b \<le> a \<and> Q (a - b)"
  by (auto simp: usub_def)

lemma safe_uclamp [simp]: "safe (uclamp x lo hi) Q \<longleftrightarrow> lo \<le> hi \<and> Q (max lo (min x hi))"
  by (auto simp: uclamp_def)

lemma safe_vslice [simp]:
  "safe (vslice xs from to) Q \<longleftrightarrow> from \<le> to \<and> to \<le> length xs \<and> Q (take (to - from) (drop from xs))"
  by (auto simp: vslice_def)

lemma safe_vfill [simp]:
  "safe (vfill xs from to x) Q \<longleftrightarrow>
   from \<le> to \<and> to \<le> length xs \<and> Q (vsplice xs from (replicate (to - from) x))"
  by (auto simp: vfill_def)

text \<open>A loop whose body keeps an invariant, and a counting loop whose invariant is indexed.\<close>

lemma safe_ofold:
  assumes "I s" and "\<And>x s. x \<in> set xs \<Longrightarrow> I s \<Longrightarrow> safe (f x s) I"
  shows "safe (ofold f xs s) I"
  using assms
proof (induction xs arbitrary: s)
  case (Cons x xs)
  from Cons.prems have "safe (f x s) I" by simp
  then have "safe (f x s) (\<lambda>s'. safe (ofold f xs s') I)"
    by (rule safe_mono) (rule Cons.IH, simp_all add: Cons.prems(2))
  then show ?case by simp
qed simp

lemma safe_ofold_upt:
  assumes "I m s" and "\<And>i s. m \<le> i \<Longrightarrow> i < n \<Longrightarrow> I i s \<Longrightarrow> safe (f i s) (I (Suc i))" and "m \<le> n"
  shows "safe (ofold f [m..<n] s) (I n)"
  using assms
proof (induction "n - m" arbitrary: m s)
  case (Suc d)
  then have m: "[m..<n] = m # [Suc m..<n]" by (simp add: upt_conv_Cons)
  have "safe (f m s) (I (Suc m))" using Suc by simp
  then have "safe (f m s) (\<lambda>s'. safe (ofold f [Suc m..<n] s') (I n))"
    by (rule safe_mono) (rule Suc.hyps(1), use Suc in auto)
  then show ?case unfolding m by simp
qed simp

lemma safe_ofold_downt:
  assumes "I n s" and "\<And>i s. m \<le> i \<Longrightarrow> i < n \<Longrightarrow> I (Suc i) s \<Longrightarrow> safe (f i s) (I i)" and "m \<le> n"
  shows "safe (ofold f (rev [m..<n]) s) (I m)"
  using assms
proof (induction n arbitrary: s)
  case (Suc n)
  show ?case
  proof (cases "m \<le> n")
    case True
    have "safe (f n s) (I n)" using Suc.prems True by simp
    then have "safe (f n s) (\<lambda>s'. safe (ofold f (rev [m..<n]) s') (I m))"
      by (rule safe_mono) (rule Suc.IH, use Suc.prems(2) True in auto)
    then show ?thesis using True by simp
  next
    case False
    with Suc.prems show ?thesis by (simp add: le_Suc_eq)
  qed
qed simp

lemma safe_ofind:
  assumes "\<And>x. x \<in> set xs \<Longrightarrow> safe (p x) (\<lambda>_. True)" and "Q None"
    and "\<And>x. x \<in> set xs \<Longrightarrow> Q (Some x)"
  shows "safe (ofind p xs) Q"
  using assms
proof (induction xs)
  case (Cons x xs)
  from Cons.prems(1) [of x] obtain b where "p x = Some b" by (auto simp: safe_def)
  then show ?case using Cons by auto
qed simp

section \<open>Machines that do not panic\<close>

locale panic_free =
  fixes step :: "'s \<Rightarrow> 'e \<Rightarrow> 's option"
    and inv :: "'s \<Rightarrow> bool"
  assumes step_safe: "inv s \<Longrightarrow> safe (step s e) inv"
begin

lemma run_safe: "inv s \<Longrightarrow> safe (ofold (\<lambda>e s. step s e) es s) inv"
  by (rule safe_ofold) (simp_all add: step_safe)

lemma never_panics: "inv s \<Longrightarrow> \<exists>s'. ofold (\<lambda>e s. step s e) es s = Some s' \<and> inv s'"
  using run_safe [of s es] by (simp add: safe_def)

end

end
