(* ===== verification/NetAddr.thy ===== *)
theory NetAddr
  imports Prelude
begin

text \<open>
  Socket addresses, shared by the relay link and the STUN client. A \<^verbatim>\<open>SocketAddr\<close> is its address
  octets and its port: the codecs read and build nothing else (\<^verbatim>\<open>SocketAddr::new\<close> leaves the flow
  label and the scope of an IPv6 address zero).
\<close>

datatype ip_addr = V4 "u8 list" | V6 "u8 list"

record socket_addr =
  sa_ip :: ip_addr
  sa_port :: u16

text \<open>The octet arrays of Rust have their length in their type.\<close>

fun octets_ok :: "ip_addr \<Rightarrow> bool" where
  "octets_ok (V4 b) \<longleftrightarrow> length b = 4"
| "octets_ok (V6 b) \<longleftrightarrow> length b = 16"

definition addr_ok :: "socket_addr \<Rightarrow> bool" where
  "addr_ok a \<longleftrightarrow> octets_ok (sa_ip a)"

end
