(* ===== verification/Masque.thy ===== *)
theory Masque
  imports Interfaces Panics NetAddr
begin

text \<open>
  The codecs of the relay link, \<^verbatim>\<open>isekai-link-masque\<close>: QUIC variable-length integers
  (\<^verbatim>\<open>varint.rs\<close>), socket addresses (\<^verbatim>\<open>addr_codec.rs\<close>), the payload of forwarded datagrams
  (\<^verbatim>\<open>datagram_codec.rs\<close>), capsules and the reader that reassembles them from arbitrary pieces
  (\<^verbatim>\<open>capsule.rs\<close>), and the wait for the relay's acknowledgement (\<^verbatim>\<open>relay_client.rs\<close>).

  An encoder that may panic (a value beyond \<open>2^62 - 1\<close>, an \<^verbatim>\<open>Unknown\<close> capsule) returns an
  \<open>option\<close>. \<^verbatim>\<open>usize\<close> has 64 bits.
\<close>

unbundle bit_operations_syntax

section \<open>Variable-length integers\<close>

definition decode_var_int :: "u8 list \<Rightarrow> (u64 \<times> u8 list) option" where
  "decode_var_int data = (case data of
       [] \<Rightarrow> None
     | b0 # _ \<Rightarrow>
        let v = (ucast b0 :: u64);
            prefix = drop_bit 6 v;
            len = push_bit (unat prefix) 1 :: nat in
        if length data < len then None
        else Some (foldl (\<lambda>v b. push_bit 8 v + ucast b) (v AND 0x3f) (drop 1 (take len data)),
                   drop len data))"

definition MAX_VARINT :: u64 where "MAX_VARINT = push_bit 62 1 - 1"

text \<open>The loop that fills the buffer from its last byte to its first.\<close>

fun var_int_bytes :: "nat \<Rightarrow> u64 \<Rightarrow> u8 list" where
  "var_int_bytes 0 rem = []"
| "var_int_bytes (Suc n) rem = var_int_bytes n (drop_bit 8 rem) @ [ucast (rem AND 0xff)]"

definition encode_var_int :: "u64 \<Rightarrow> u8 list option" where
  "encode_var_int v =
     (if \<not> v \<le> MAX_VARINT then None
      else
        let (len, prefix) = (if v < push_bit 6 1 then (1, 0)
                             else if v < push_bit 14 1 then (2, 1)
                             else if v < push_bit 30 1 then (4, 2)
                             else (8, 3 :: u8));
            buf = var_int_bytes len v in
        Some (buf[0 := buf ! 0 OR push_bit 6 prefix]))"

section \<open>Socket addresses\<close>

definition encode_addr :: "socket_addr \<Rightarrow> u8 list" where
  "encode_addr addr =
     (case sa_ip addr of V4 octets \<Rightarrow> 4 # octets | V6 octets \<Rightarrow> 6 # octets) @ u16_to_be (sa_port addr)"

definition decode_addr :: "u8 list \<Rightarrow> (socket_addr \<times> u8 list) option" where
  "decode_addr data = (case data of
       [] \<Rightarrow> None
     | ip_version # rest \<Rightarrow>
        if ip_version = 4 then
          if length rest < 6 then None
          else Some (\<lparr>sa_ip = V4 (take 4 rest), sa_port = u16_from_be (slice 4 2 rest)\<rparr>, drop 6 rest)
        else if ip_version = 6 then
          if length rest < 18 then None
          else Some (\<lparr>sa_ip = V6 (take 16 rest), sa_port = u16_from_be (slice 16 2 rest)\<rparr>, drop 18 rest)
        else None)"

section \<open>Datagrams\<close>

definition encode_datagram_payload :: "u64 \<Rightarrow> socket_addr option \<Rightarrow> u8 list \<Rightarrow> u8 list option" where
  "encode_datagram_payload context_id addr payload =
     encode_var_int context_id \<bind> (\<lambda>ctx.
     Some (ctx @ (case addr of Some a \<Rightarrow> encode_addr a | None \<Rightarrow> []) @ payload))"

definition decode_datagram_payload ::
    "u8 list \<Rightarrow> bool \<Rightarrow> (u64 \<times> socket_addr option \<times> u8 list) option" where
  "decode_datagram_payload data context_is_compressed =
     decode_var_int data \<bind> (\<lambda>(context_id, rest).
     if context_is_compressed then Some (context_id, None, rest)
     else decode_addr rest \<bind> (\<lambda>(addr, payload_rest). Some (context_id, Some addr, payload_rest)))"

definition peek_context_id :: "u8 list \<Rightarrow> u64 option" where
  "peek_context_id data = map_option fst (decode_var_int data)"

section \<open>Capsules\<close>

definition COMPRESSION_ASSIGN :: u64 where "COMPRESSION_ASSIGN = 0x11"
definition COMPRESSION_ACK :: u64 where "COMPRESSION_ACK = 0x12"
definition COMPRESSION_CLOSE :: u64 where "COMPRESSION_CLOSE = 0x13"
definition MAX_CAPSULE_PAYLOAD_LEN :: nat where "MAX_CAPSULE_PAYLOAD_LEN = 64 * 1024"
definition USIZE_MAX :: nat where "USIZE_MAX = 2 ^ 64 - 1"

lemmas capsule_types = COMPRESSION_ASSIGN_def COMPRESSION_ACK_def COMPRESSION_CLOSE_def

datatype capsule =
    CompressionAssign u64 "socket_addr option"
  | CompressionAck u64
  | CompressionClose u64
  | UnknownCapsule u64

datatype capsule_decode_error =
    LengthOverflow | TooLarge nat nat | MissingContextId | MissingIpVersion | MalformedAddr

fun capsule_payload :: "capsule \<Rightarrow> (u64 \<times> u8 list) option" where
  "capsule_payload (CompressionAssign context_id addr) =
     encode_var_int context_id \<bind> (\<lambda>payload.
     Some (COMPRESSION_ASSIGN, payload @ (case addr of Some a \<Rightarrow> encode_addr a | None \<Rightarrow> [0])))"
| "capsule_payload (CompressionAck context_id) =
     map_option (Pair COMPRESSION_ACK) (encode_var_int context_id)"
| "capsule_payload (CompressionClose context_id) =
     map_option (Pair COMPRESSION_CLOSE) (encode_var_int context_id)"
| "capsule_payload (UnknownCapsule _) = None"

definition encode_capsule :: "capsule \<Rightarrow> u8 list option" where
  "encode_capsule c =
     capsule_payload c \<bind> (\<lambda>(capsule_type, payload).
     encode_var_int capsule_type \<bind> (\<lambda>ty.
     encode_var_int (word_of_nat (length payload)) \<bind> (\<lambda>len.
     Some (ty @ len @ payload))))"

definition ok_or :: "'e \<Rightarrow> 'a option \<Rightarrow> 'e + 'a" where
  "ok_or e x = (case x of None \<Rightarrow> Inl e | Some y \<Rightarrow> Inr y)"

definition decode_capsule_payload :: "u64 \<Rightarrow> u8 list \<Rightarrow> capsule_decode_error + capsule" where
  "decode_capsule_payload capsule_type payload =
     (if capsule_type = COMPRESSION_ASSIGN then
        res_bind (ok_or MissingContextId (decode_var_int payload)) (\<lambda>(context_id, addr_payload).
        case addr_payload of
          [] \<Rightarrow> Inl MissingIpVersion
        | ip_version # _ \<Rightarrow>
            if ip_version = 0 then Inr (CompressionAssign context_id None)
            else res_bind (ok_or MalformedAddr (decode_addr addr_payload))
                   (\<lambda>(addr, _). Inr (CompressionAssign context_id (Some addr))))
      else if capsule_type = COMPRESSION_ACK then
        res_bind (ok_or MissingContextId (decode_var_int payload))
          (\<lambda>(context_id, _). Inr (CompressionAck context_id))
      else if capsule_type = COMPRESSION_CLOSE then
        res_bind (ok_or MissingContextId (decode_var_int payload))
          (\<lambda>(context_id, _). Inr (CompressionClose context_id))
      else Inr (UnknownCapsule capsule_type))"

definition decode_capsule :: "u8 list \<Rightarrow> capsule_decode_error + (capsule \<times> u8 list) option" where
  "decode_capsule data = (case decode_var_int data of
       None \<Rightarrow> Inr None
     | Some (capsule_type, after_type) \<Rightarrow>
        (case decode_var_int after_type of
           None \<Rightarrow> Inr None
         | Some (len, after_length) \<Rightarrow>
            let payload_len = unat len in
            if USIZE_MAX < payload_len then Inl LengthOverflow
            else if MAX_CAPSULE_PAYLOAD_LEN < payload_len
            then Inl (TooLarge payload_len MAX_CAPSULE_PAYLOAD_LEN)
            else if length after_length < payload_len then Inr None
            else res_bind (decode_capsule_payload capsule_type (take payload_len after_length))
                   (\<lambda>capsule. Inr (Some (capsule, drop payload_len after_length)))))"

text \<open>\<^verbatim>\<open>CapsuleReader\<close>.\<close>

record capsule_reader =
  cr_buf :: "u8 list"

definition reader_new :: capsule_reader where
  "reader_new = \<lparr>cr_buf = []\<rparr>"

definition reader_feed :: "capsule_reader \<Rightarrow> u8 list \<Rightarrow> capsule_reader" where
  "reader_feed r data = r\<lparr>cr_buf := cr_buf r @ data\<rparr>"

definition next_capsule :: "capsule_reader \<Rightarrow> (capsule_decode_error + capsule option) \<times> capsule_reader" where
  "next_capsule r = (case decode_capsule (cr_buf r) of
       Inl e \<Rightarrow> (Inl e, r)
     | Inr None \<Rightarrow> (Inr None, r)
     | Inr (Some (capsule, rest)) \<Rightarrow>
        let consumed = length (cr_buf r) - length rest in
        (Inr (Some capsule), r\<lparr>cr_buf := drop consumed (cr_buf r)\<rparr>))"

section \<open>Waiting for the acknowledgement\<close>

definition UNCOMPRESSED_CONTEXT_ID :: u64 where "UNCOMPRESSED_CONTEXT_ID = 0"

datatype ack_error =
    CapsuleReadFailed capsule_decode_error
  | StreamReadFailed string
  | CompressionRejected
  | UnexpectedCapsule capsule
  | StreamClosed

fun ack_verdict :: "capsule \<Rightarrow> ack_error + unit" where
  "ack_verdict (CompressionAck context_id) =
     (if context_id = UNCOMPRESSED_CONTEXT_ID then Inr ()
      else Inl (UnexpectedCapsule (CompressionAck context_id)))"
| "ack_verdict (CompressionClose context_id) =
     (if context_id = UNCOMPRESSED_CONTEXT_ID then Inl CompressionRejected
      else Inl (UnexpectedCapsule (CompressionClose context_id)))"
| "ack_verdict other = Inl (UnexpectedCapsule other)"

text \<open>What the reads of the response stream give, in order: a piece of the body or a failure; after
  the last one the stream is closed. The pieces received before the answer bound the loop.\<close>

fun await_compression_ack :: "capsule_reader \<Rightarrow> (string + u8 list) list \<Rightarrow> ack_error + unit" where
  "await_compression_ack reader recv = (case next_capsule reader of
       (Inl e, _) \<Rightarrow> Inl (CapsuleReadFailed e)
     | (Inr (Some capsule), _) \<Rightarrow>
        ack_verdict capsule
     | (Inr None, reader') \<Rightarrow>
        (case recv of
           [] \<Rightarrow> Inl StreamClosed
         | Inl e # _ \<Rightarrow> Inl (StreamReadFailed e)
         | Inr chunk # rest \<Rightarrow> await_compression_ack (reader_feed reader' chunk) rest))"

declare await_compression_ack.simps [simp del]

section \<open>Arithmetic of the variable-length integers\<close>

lemma push_bit_8_eq: "push_bit 8 (v :: u64) = v * 256"
  by (simp add: push_bit_eq_mult)

lemma fold_bytes:
  "foldl (\<lambda>v b. push_bit 8 v + ucast b) (word_of_nat a :: u64) bs =
   word_of_nat (foldl (\<lambda>acc b. acc * 256 + unat b) a bs)"
proof (induction bs arbitrary: a)
  case (Cons b bs)
  have "push_bit 8 (word_of_nat a :: u64) + ucast b = word_of_nat (a * 256 + unat b)"
    by (simp add: push_bit_8_eq)
  with Cons.IH [of "a * 256 + unat b"] show ?case by simp
qed simp

lemma foldl_nat_of_be: "foldl (\<lambda>acc b. acc * 256 + unat b) a bs = a * 256 ^ length bs + nat_of_be bs"
proof (induction bs rule: rev_induct)
  case (snoc b bs)
  then show ?case by (simp add: algebra_simps)
qed simp

lemma unat_drop_bit: "unat (drop_bit n w) = unat w div 2 ^ n" for w :: "'w::len word"
proof -
  have "unat (drop_bit n w) = drop_bit n (unat w)"
    by (simp only: unsigned_drop_bit_eq take_bit_tightened_less_eq_nat unsigned_take_bit_eq)
      (simp add: take_bit_nat_eq_self drop_bit_nat_def)
  then show ?thesis by (simp only: drop_bit_eq_div)
qed

lemma unat_take_bit: "unat (take_bit n w) = unat w mod 2 ^ n" for w :: "'w::len word"
proof -
  have "unat (take_bit n w) = take_bit n (unat w)" by (rule unsigned_take_bit_eq)
  then show ?thesis by (simp only: take_bit_eq_mod)
qed

lemma unat_u64_of_byte: "unat (ucast (b :: u8) :: u64) = unat b"
  using unat_byte_less [of b] by (simp add: unsigned_ucast_eq take_bit_nat_eq_self)

lemma unat_low6: "unat ((ucast (b :: u8) :: u64) AND 0x3f) = unat b mod 64"
proof -
  have "(0x3f :: u64) = mask 6" by (simp add: mask_eq_exp_minus_1)
  then have "(ucast b :: u64) AND 0x3f = take_bit 6 (ucast b)" by (simp only: take_bit_eq_mask)
  then show ?thesis by (simp only: unat_take_bit unat_u64_of_byte) simp
qed

lemma unat_prefix: "unat (drop_bit 6 (ucast (b :: u8) :: u64)) = unat b div 64"
  by (simp only: unat_drop_bit unat_u64_of_byte) simp

text \<open>The decoder in terms of natural numbers.\<close>

lemma decode_var_int_Cons:
  "decode_var_int (b # bs) =
     (let len = 2 ^ (unat b div 64) in
      if length bs + 1 < len then None
      else Some (word_of_nat ((unat b mod 64) * 256 ^ (len - 1) + nat_of_be (take (len - 1) bs)), drop (len - 1) bs))"
proof -
  let ?len = "2 ^ (unat b div 64) :: nat"
  have low: "(ucast b :: u64) AND 0x3f = word_of_nat (unat b mod 64)"
    by (rule word_unat_eq_iff [THEN iffD2]) (simp add: unat_low6 unat_of_nat)
  have split: "drop 1 (take ?len (b # bs)) = take (?len - 1) bs" "drop ?len (b # bs) = drop (?len - 1) bs"
    by (simp_all add: take_Cons' drop_Cons')
  have len: "length (drop 1 (take ?len (b # bs))) = ?len - 1" if "\<not> length bs + 1 < ?len"
    using that by (simp add: min_def)
  show ?thesis
    unfolding decode_var_int_def list.case Let_def unat_prefix low fold_bytes foldl_nat_of_be
    using len by (simp add: push_bit_eq_mult split [unfolded One_nat_def])
qed

lemma var_int_bytes_eq: "var_int_bytes n v = be_of_nat n (unat v)"
proof (induction n arbitrary: v)
  case (Suc n)
  have "(ucast (v AND 0xff) :: u8) = word_of_nat (unat v mod 256)"
  proof (rule word_unat_eq_iff [THEN iffD2])
    have "(0xff :: u64) = mask 8" by (simp add: mask_eq_exp_minus_1)
    then have "unat (v AND 0xff) = unat v mod 256"
      by (simp only: take_bit_eq_mask [symmetric] unat_take_bit) simp
    then show "unat (ucast (v AND 0xff) :: u8) = unat (word_of_nat (unat v mod 256) :: u8)"
      by (simp add: unsigned_ucast_eq unat_of_nat take_bit_eq_mod)
  qed
  with Suc.IH [of "drop_bit 8 v"] show ?case by (simp add: unat_drop_bit)
qed simp

lemma or_prefix:
  assumes "unat (b :: u8) < 64" "p < 4"
  shows "unat (b OR push_bit 6 (word_of_nat p)) = unat b + 64 * p"
proof -
  have small: "take_bit 6 b = b"
    by (rule word_unat_eq_iff [THEN iffD2]) (simp only: unat_take_bit, simp add: assms(1))
  have "b OR push_bit 6 (word_of_nat p) = b + push_bit 6 (word_of_nat p)"
  proof (rule disjunctive_add [symmetric])
    fix n
    show "\<not> bit b n \<or> \<not> bit (push_bit 6 (word_of_nat p :: u8)) n"
      by (subst small [symmetric]) (auto simp: bit_take_bit_iff bit_push_bit_iff)
  qed
  moreover have "unat (b + push_bit 6 (word_of_nat p)) = unat b + 64 * p"
  proof -
    have "unat (push_bit 6 (word_of_nat p :: u8)) = 64 * p"
      using assms(2) by (simp add: push_bit_eq_mult unat_word_ariths unat_of_nat)
    with assms show ?thesis by (simp add: unat_word_ariths)
  qed
  ultimately show ?thesis by simp
qed


lemma be_of_nat_Cons: "be_of_nat (Suc n) v = word_of_nat (v div 256 ^ n mod 256) # be_of_nat n v"
proof (induction n arbitrary: v)
  case (Suc n)
  have "be_of_nat (Suc (Suc n)) v = be_of_nat (Suc n) (v div 256) @ [word_of_nat (v mod 256)]"
    by simp
  also have "\<dots> = word_of_nat (v div 256 div 256 ^ n mod 256) # be_of_nat (Suc n) v"
    by (simp only: Suc.IH [of "v div 256"]) simp
  finally show ?case by (simp add: div_mult2_eq)
qed simp

definition tagged_bytes :: "nat \<Rightarrow> nat \<Rightarrow> nat \<Rightarrow> u8 list" where
  "tagged_bytes len p v = (be_of_nat len v)[0 := be_of_nat len v ! 0 OR push_bit 6 (word_of_nat p)]"

lemma decode_tagged_bytes:
  assumes "v < 64 * 256 ^ (len - 1)" "p < 4" "2 ^ p = len"
  shows "decode_var_int (tagged_bytes len p v @ rest) = Some (word_of_nat v, rest)"
proof -
  obtain n where n: "len = Suc n" using assms(3) by (cases len) simp_all
  let ?h = "word_of_nat (v div 256 ^ n mod 256) :: u8"
  have "v div 256 ^ n < 64" using assms(1) by (simp add: n less_mult_imp_div_less)
  then have h: "unat ?h = v div 256 ^ n" by (simp add: unat_of_nat)
  then have "unat (?h OR push_bit 6 (word_of_nat p)) = v div 256 ^ n + 64 * p"
    using or_prefix [of ?h p] assms(2) \<open>v div 256 ^ n < 64\<close> by simp
  with \<open>v div 256 ^ n < 64\<close> have tag: "unat (?h OR push_bit 6 (word_of_nat p)) div 64 = p"
    "unat (?h OR push_bit 6 (word_of_nat p)) mod 64 = v div 256 ^ n" by simp_all
  have "be_of_nat (Suc n) v ! 0 = ?h" by (simp add: be_of_nat_Cons del: be_of_nat.simps)
  moreover have "v div 256 ^ n * 256 ^ n + v mod 256 ^ n = v" by (rule div_mult_mod_eq)
  ultimately show ?thesis
    using assms(3)
    by (simp add: tagged_bytes_def n be_of_nat_Cons decode_var_int_Cons tag nat_of_be_of_nat Let_def
        del: be_of_nat.simps of_nat_add of_nat_mult)
qed

lemma encode_var_int_eq:
  "encode_var_int v =
     (if unat v < 2 ^ 62 then
        Some (if unat v < 64 then tagged_bytes 1 0 (unat v) else if unat v < 16384 then tagged_bytes 2 1 (unat v)
          else if unat v < 1073741824 then tagged_bytes 4 2 (unat v) else tagged_bytes 8 3 (unat v))
      else None)"
proof -
  have max: "v \<le> MAX_VARINT \<longleftrightarrow> unat v < 2 ^ 62"
    by (simp add: word_le_nat_alt MAX_VARINT_def push_bit_eq_mult, arith)
  have lt: "v < push_bit 6 1 \<longleftrightarrow> unat v < 64" "v < push_bit 14 1 \<longleftrightarrow> unat v < 16384"
    "v < push_bit 30 1 \<longleftrightarrow> unat v < 1073741824"
    by (simp_all add: word_less_nat_alt push_bit_eq_mult)
  show ?thesis
    unfolding encode_var_int_def var_int_bytes_eq Let_def max lt tagged_bytes_def by simp
qed

lemma decode_encode_var_int:
  assumes "encode_var_int v = Some bs"
  shows "decode_var_int (bs @ rest) = Some (v, rest)"
proof -
  from assms have le: "unat v < 2 ^ 62" by (simp add: encode_var_int_eq split: if_splits)
  show ?thesis
  proof -
    consider "unat v < 64" "bs = tagged_bytes 1 0 (unat v)" | "unat v < 16384" "bs = tagged_bytes 2 1 (unat v)"
      | "unat v < 1073741824" "bs = tagged_bytes 4 2 (unat v)" | "bs = tagged_bytes 8 3 (unat v)"
      using assms by (simp add: encode_var_int_eq split: if_splits)
    then show ?thesis by cases (use le in \<open>simp_all add: decode_tagged_bytes\<close>)
  qed
qed

lemma length_tagged_bytes [simp]: "length (tagged_bytes len p v) = len"
  by (simp add: tagged_bytes_def)

lemma encode_var_int_total:
  "unat v < 2 ^ 62 \<Longrightarrow> \<exists>bs. encode_var_int v = Some bs \<and> 0 < length bs \<and> length bs \<le> 8"
  by (simp add: encode_var_int_eq del: length_greater_0_conv)

lemma decode_var_int_more:
  "decode_var_int d = Some (v, r) \<Longrightarrow> decode_var_int (d @ e) = Some (v, r @ e)"
  by (cases d) (auto simp: decode_var_int_Cons Let_def decode_var_int_def [of "[]"] split: if_splits)

section \<open>Addresses and datagrams\<close>

lemma decode_encode_addr: "addr_ok a \<Longrightarrow> decode_addr (encode_addr a @ rest) = Some (a, rest)"
  by (cases a; cases "sa_ip a") (auto simp: addr_ok_def encode_addr_def decode_addr_def slice_def)

lemma length_encode_addr: "addr_ok a \<Longrightarrow> length (encode_addr a) \<le> 19"
  by (cases a; cases "sa_ip a") (auto simp: addr_ok_def encode_addr_def)

lemma hd_encode_addr: "\<exists>h t. encode_addr a = h # t \<and> h \<noteq> 0"
  by (cases "sa_ip a") (auto simp: encode_addr_def)

text \<open>A decoded address is well formed.\<close>

lemma decode_addr_ok: "decode_addr d = Some (a, r) \<Longrightarrow> addr_ok a"
  by (cases d) (auto simp: decode_addr_def addr_ok_def split: if_splits)

section \<open>Capsules on a stream\<close>

text \<open>The capsules that can be sent: a context id in range and a proper address.\<close>

fun capsule_ok :: "capsule \<Rightarrow> bool" where
  "capsule_ok (CompressionAssign c a) \<longleftrightarrow> unat c < 2 ^ 62 \<and> (case a of None \<Rightarrow> True | Some a \<Rightarrow> addr_ok a)"
| "capsule_ok (CompressionAck c) \<longleftrightarrow> unat c < 2 ^ 62"
| "capsule_ok (CompressionClose c) \<longleftrightarrow> unat c < 2 ^ 62"
| "capsule_ok (UnknownCapsule _) \<longleftrightarrow> False"

definition capsule_bytes :: "capsule \<Rightarrow> u8 list" where
  "capsule_bytes c = the (encode_capsule c)"

lemma capsule_payload_ok:
  assumes "capsule_ok c"
  obtains ty payload where "capsule_payload c = Some (ty, payload)" "unat ty < 2 ^ 62" "length payload \<le> 27"
    "decode_capsule_payload ty payload = Inr c"
proof -
  from assms obtain x b where x: "encode_var_int x = Some b" "length b \<le> 8" "0 < length b"
    and c: "(\<exists>a. c = CompressionAssign x a) \<or> c = CompressionAck x \<or> c = CompressionClose x"
    using encode_var_int_total by (cases c) (auto, blast+)
  note d = decode_encode_var_int [OF x(1)] decode_encode_var_int [OF x(1), of "[]"]
  from c show thesis
  proof (elim disjE exE)
    fix a assume a: "c = CompressionAssign x a"
    show thesis
    proof (cases a)
      case None
      with a x d show thesis
        by (intro that [of COMPRESSION_ASSIGN "b @ [0]"])
          (auto simp: decode_capsule_payload_def capsule_types ok_or_def)
    next
      case (Some y)
      with a assms have y: "addr_ok y" by simp
      obtain h t where "encode_addr y = h # t" "h \<noteq> 0" using hd_encode_addr by blast
      with a Some x d y length_encode_addr [OF y] decode_encode_addr [OF y, of "[]"] show thesis
        by (intro that [of COMPRESSION_ASSIGN "b @ encode_addr y"])
          (auto simp: decode_capsule_payload_def capsule_types ok_or_def)
    qed
  qed (use x d in \<open>auto intro!: that simp: decode_capsule_payload_def capsule_types ok_or_def\<close>)
qed

lemma encode_capsule_total:
  assumes "capsule_ok c"
  obtains ty len payload t where "encode_capsule c = Some (ty @ len @ payload)"
    "encode_var_int t = Some ty" "encode_var_int (word_of_nat (length payload)) = Some len"
    "length payload \<le> 27" "decode_capsule_payload t payload = Inr c"
proof -
  obtain t payload where p: "capsule_payload c = Some (t, payload)" "unat t < 2 ^ 62" "length payload \<le> 27"
    "decode_capsule_payload t payload = Inr c"
    using capsule_payload_ok [OF assms] by blast
  then have "unat (word_of_nat (length payload) :: u64) < 2 ^ 62" by (simp add: unat_of_nat)
  with p encode_var_int_total obtain ty len where "encode_var_int t = Some ty"
    "encode_var_int (word_of_nat (length payload)) = Some len" by blast
  with p show thesis by (intro that) (simp_all add: encode_capsule_def)
qed

lemma decode_capsule_bytes:
  assumes "capsule_ok c"
  shows "decode_capsule (capsule_bytes c) = Inr (Some (c, []))"
  using assms
proof (rule encode_capsule_total)
  fix ty len payload t
  assume a: "encode_capsule c = Some (ty @ len @ payload)" "encode_var_int t = Some ty"
    "encode_var_int (word_of_nat (length payload)) = Some len" "length payload \<le> 27"
    "decode_capsule_payload t payload = Inr c"
  have "unat (word_of_nat (length payload) :: u64) = length payload" using a(4) by (simp add: unat_of_nat)
  with a decode_encode_var_int [OF a(2), of "len @ payload"] decode_encode_var_int [OF a(3), of payload]
  show ?thesis
    by (simp add: capsule_bytes_def decode_capsule_def Let_def USIZE_MAX_def MAX_CAPSULE_PAYLOAD_LEN_def)
qed

lemma decode_capsule_extend:
  assumes "decode_capsule d \<noteq> Inr None"
  shows "decode_capsule (d @ e) = (case decode_capsule d of Inl x \<Rightarrow> Inl x
    | Inr y \<Rightarrow> Inr (map_option (\<lambda>(c, r). (c, r @ e)) y))"
proof -
  from assms obtain t a n r where h: "decode_var_int d = Some (t, a)" "decode_var_int a = Some (n, r)"
    by (auto simp: decode_capsule_def split: option.splits)
  note h' = decode_var_int_more [OF h(1), of e] decode_var_int_more [OF h(2), of e]
  show ?thesis
  proof (cases "length r < unat n")
    case True
    with assms h h' show ?thesis by (auto simp: decode_capsule_def Let_def)
  next
    case False
    then show ?thesis
      by (cases "decode_capsule_payload t (take (unat n) r)") (simp_all add: decode_capsule_def Let_def h h')
  qed
qed

interpretation cs: framed_stream decode_capsule capsule_bytes capsule_ok
proof
  show "decode_capsule [] = Inr None" by (simp add: decode_capsule_def decode_var_int_def)
qed (simp_all add: decode_capsule_extend decode_capsule_bytes)

lemma decode_var_int_suffix: "decode_var_int d = Some (v, r) \<Longrightarrow> \<exists>p. d = p @ r"
  by (cases d) (auto simp: decode_var_int_def Let_def split: if_splits intro: append_take_drop_id [symmetric])

lemma decode_capsule_suffix: "decode_capsule d = Inr (Some (c, r)) \<Longrightarrow> \<exists>p. d = p @ r"
proof -
  assume "decode_capsule d = Inr (Some (c, r))"
  then obtain t a n b where "decode_var_int d = Some (t, a)" "decode_var_int a = Some (n, b)" "r = drop (unat n) b"
    by (auto simp: decode_capsule_def Let_def res_bind_eq_Inr split: option.splits if_splits)
  then show "\<exists>p. d = p @ r"
    by (metis decode_var_int_suffix append.assoc append_take_drop_id)
qed

text \<open>A run of the reader: pieces arrive and capsules are asked for, in any order.\<close>

fun reader_run ::
    "capsule_reader \<Rightarrow> stream_op list \<Rightarrow> (capsule_decode_error + capsule option) list \<times> capsule_reader" where
  "reader_run r [] = ([], r)"
| "reader_run r (Arrive b # ops) = reader_run (reader_feed r b) ops"
| "reader_run r (Poll # ops) = (let (x, r') = next_capsule r; (xs, r'') = reader_run r' ops in (x # xs, r''))"

lemma reader_run_eq:
  "reader_run r ops = (let (rs, buf) = poll_run decode_capsule (cr_buf r) ops in (rs, r\<lparr>cr_buf := buf\<rparr>))"
proof (induction ops arbitrary: r)
  case (Cons op ops)
  show ?case
  proof (cases op)
    case (Arrive b)
    with Cons show ?thesis by (simp add: reader_feed_def)
  next
    case Poll
    show ?thesis
    proof (cases "decode_capsule (cr_buf r)")
      case (Inl e)
      with Poll Cons show ?thesis by (simp add: next_capsule_def case_prod_beta Let_def)
    next
      case (Inr z)
      show ?thesis
      proof (cases z)
        case None
        with Inr Poll Cons show ?thesis by (simp add: next_capsule_def case_prod_beta Let_def)
      next
        case (Some y)
        obtain c rest where y: "y = (c, rest)" by (cases y)
        with Inr Some decode_capsule_suffix obtain p where "cr_buf r = p @ rest" by blast
        with y Inr Some Poll Cons show ?thesis by (simp add: next_capsule_def case_prod_beta Let_def)
      qed
    qed
  qed
qed simp

lemma decode_var_int_needs: "decode_var_int d = None \<Longrightarrow> length d < 8"
proof (cases d)
  case (Cons b bs)
  have "unat b div 64 \<le> 3" using unat_byte_less [of b] by simp
  then have "(2::nat) ^ (unat b div 64) \<le> 2 ^ 3" by (rule power_increasing) simp
  moreover assume "decode_var_int d = None"
  ultimately show ?thesis using Cons by (auto simp: decode_var_int_Cons Let_def split: if_splits)
qed simp

lemma decode_var_int_uses: "decode_var_int d = Some (v, r) \<Longrightarrow> length d \<le> length r + 8"
proof (cases d)
  case (Cons b bs)
  have "unat b div 64 \<le> 3" using unat_byte_less [of b] by simp
  then have "(2::nat) ^ (unat b div 64) \<le> 2 ^ 3" by (rule power_increasing) simp
  moreover assume "decode_var_int d = Some (v, r)"
  ultimately show ?thesis using Cons by (auto simp: decode_var_int_Cons Let_def split: if_splits)
qed (simp add: decode_var_int_def)

text \<open>A reader that waits for more holds less than the two header integers and the largest
  payload.\<close>

lemma capsule_wait_bounded:
  assumes "decode_capsule d = Inr None"
  shows "length d < 16 + MAX_CAPSULE_PAYLOAD_LEN"
proof (cases "decode_var_int d")
  case None
  then show ?thesis using decode_var_int_needs [OF None] by simp
next
  case (Some x)
  obtain t a where a: "decode_var_int d = Some (t, a)" using Some by (cases x) simp
  show ?thesis
  proof (cases "decode_var_int a")
    case None
    then show ?thesis using decode_var_int_needs [OF None] decode_var_int_uses [OF a] by simp
  next
    case (Some y)
    obtain n b where b: "decode_var_int a = Some (n, b)" using Some by (cases y) simp
    with a assms have "length b < MAX_CAPSULE_PAYLOAD_LEN"
      by (auto simp: decode_capsule_def Let_def res_bind_eq_Inr split: if_splits)
    with decode_var_int_uses [OF a] decode_var_int_uses [OF b] show ?thesis by simp
  qed
qed

lemma await_ack_from:
  "await_compression_ack r (map Inr chunks) =
     (case decode_capsule (cr_buf r @ concat chunks) of
        Inl e \<Rightarrow> Inl (CapsuleReadFailed e)
      | Inr None \<Rightarrow> Inl StreamClosed
      | Inr (Some (c, _)) \<Rightarrow> ack_verdict c)"
proof (induction chunks arbitrary: r)
  case Nil
  show ?case
    by (subst await_compression_ack.simps) (auto simp: next_capsule_def Let_def split: sum.splits option.splits)
next
  case (Cons b chunks)
  show ?case
  proof (cases "decode_capsule (cr_buf r) = Inr None")
    case True
    with Cons show ?thesis
      by (subst await_compression_ack.simps) (simp add: next_capsule_def reader_feed_def)
  next
    case False
    from decode_capsule_extend [OF this, of "concat (b # chunks)"] False show ?thesis
      by (subst await_compression_ack.simps)
        (auto simp: next_capsule_def Let_def split: sum.splits option.splits)
  qed
qed

lemma datagrams_exact:
  assumes "encode_datagram_payload ctx addr payload = Some b" "pred_option addr_ok addr"
  shows "decode_datagram_payload b (addr = None) = Some (ctx, addr, payload) \<and> peek_context_id b = Some ctx"
  using assms
  by (cases addr) (auto simp: encode_datagram_payload_def decode_datagram_payload_def peek_context_id_def
      decode_encode_var_int decode_encode_addr bind_eq_Some_conv)

section \<open>Properties\<close>

text \<open>C10. Whatever pieces the capsules a relay sends are cut into and whenever the reader is asked, it never
  reports an error and has given back exactly the first of these capsules in their order; asked again,
  it gives the next one if all of its bytes have arrived, and otherwise nothing; and when it has
  nothing to give, it holds less than 64 KiB and the header.\<close>

theorem capsules_delivered:
  assumes "list_all capsule_ok cs"
    and "arrived ops @ rest = concat (map capsule_bytes cs)"
    and "reader_run reader_new ops = (rs, r)"
  shows "list_all (\<lambda>x. \<not> isl x) rs \<and>
    (\<exists>todo. cs = yielded rs @ todo \<and> cr_buf r @ rest = concat (map capsule_bytes todo) \<and>
       fst (next_capsule r) = (case todo of
           [] \<Rightarrow> Inr None
         | c # _ \<Rightarrow> if length (capsule_bytes c) \<le> length (cr_buf r) then Inr (Some c) else Inr None)) \<and>
    (fst (next_capsule r) = Inr None \<longrightarrow> length (cr_buf r) < 65552)"
proof -
  let ?p = "poll_run decode_capsule [] ops"
  have p: "fst ?p = rs" "snd ?p = cr_buf r"
    using assms(3) by (auto simp: reader_run_eq reader_new_def case_prod_beta Let_def)
  have nxt: "fst (next_capsule r) = map_sum id (map_option fst) (decode_capsule (cr_buf r))"
    by (auto simp: next_capsule_def Let_def split: sum.split option.split)
  have "decode_capsule (cr_buf r) = Inr None" if "fst (next_capsule r) = Inr None"
    using that by (auto simp: nxt map_sum_def split: sum.splits)
  then have "length (cr_buf r) < 65552" if "fst (next_capsule r) = Inr None"
    using that capsule_wait_bounded by (auto simp: MAX_CAPSULE_PAYLOAD_LEN_def)
  with cs.poll_run_next [OF assms(1), of "[]" ops rest] assms(2) show ?thesis
    unfolding p nxt append_Nil by blast
qed

theorem capsules_delivered_witness:
  "\<exists>todo. [CompressionAck 0, CompressionClose 7] =
     yielded [Inr None, Inr None, Inr (Some (CompressionAck 0)) :: capsule_decode_error + capsule option] @ todo \<and>
     [0x13] @ [0x01, 0x07] = concat (map capsule_bytes todo)"
proof -
  let ?ops = "[Poll, Arrive [0x12, 0x01], Poll, Arrive [0x00, 0x13], Poll]"
  let ?rs = "[Inr None, Inr None, Inr (Some (CompressionAck 0)) :: capsule_decode_error + capsule option]"
  have "list_all capsule_ok [CompressionAck 0, CompressionClose 7]" by simp
  moreover have "arrived ?ops @ [0x01, 0x07] = concat (map capsule_bytes [CompressionAck 0, CompressionClose 7])"
    by code_simp
  moreover have "reader_run reader_new ?ops = (?rs, \<lparr>cr_buf = [0x13]\<rparr>)"
    by (simp add: reader_new_def reader_feed_def next_capsule_def decode_capsule_def decode_capsule_payload_def
        decode_var_int_Cons decode_var_int_def [of "[]"] nat_of_be_def capsule_types ok_or_def Let_def
        USIZE_MAX_def MAX_CAPSULE_PAYLOAD_LEN_def)
  ultimately show ?thesis
    using capsules_delivered [of "[CompressionAck 0, CompressionClose 7]" ?ops "[0x01, 0x07]" ?rs] by fastforce
qed

text \<open>Waiting for the relay's acknowledgement does not depend on how the answer is cut into pieces:
  the outcome is the verdict on the first capsule of the bytes received, whatever the pieces.\<close>

lemma await_ack_any_chunks:
  "await_compression_ack reader_new (map Inr chunks) =
     (case decode_capsule (concat chunks) of
        Inl e \<Rightarrow> Inl (CapsuleReadFailed e)
      | Inr None \<Rightarrow> Inl StreamClosed
      | Inr (Some (c, _)) \<Rightarrow> ack_verdict c)"
  by (simp add: await_ack_from reader_new_def)

end
