(* ===== verification/Stun.thy ===== *)
theory Stun
  imports Interfaces NetAddr
begin

text \<open>
  \<^verbatim>\<open>isekai-stun/src/lib.rs\<close>: the STUN client that asks how a socket is seen from outside. The
  Binding Request, the parser of the response with its attribute loop, and the query loop. The
  random transaction ids and what the socket receives within an attempt's window are inputs.
\<close>

unbundle bit_operations_syntax

definition MAGIC_COOKIE :: u32 where "MAGIC_COOKIE = 0x2112A442"
definition BINDING_REQUEST :: u16 where "BINDING_REQUEST = 0x0001"
definition BINDING_SUCCESS_RESPONSE :: u16 where "BINDING_SUCCESS_RESPONSE = 0x0101"
definition XOR_MAPPED_ADDRESS :: u16 where "XOR_MAPPED_ADDRESS = 0x0020"
definition MAPPED_ADDRESS :: u16 where "MAPPED_ADDRESS = 0x0001"
definition HEADER_LEN :: nat where "HEADER_LEN = 20"

lemmas stun_consts = MAGIC_COOKIE_def BINDING_REQUEST_def BINDING_SUCCESS_RESPONSE_def
  XOR_MAPPED_ADDRESS_def MAPPED_ADDRESS_def HEADER_LEN_def

datatype stun_error =
    TooShort | NotBindingSuccess u16 | BadMagicCookie | TransactionIdMismatch | NoMappedAddress
  | UnknownFamily | TruncatedAddress | StunIo string | StunTimeout socket_addr nat

definition build_binding_request :: "u8 list \<Rightarrow> u8 list" where
  "build_binding_request transaction_id =
     u16_to_be BINDING_REQUEST @ u16_to_be 0 @ u32_to_be MAGIC_COOKIE @ transaction_id"

definition decode_xor_mapped_address :: "u8 list \<Rightarrow> u8 list \<Rightarrow> stun_error + socket_addr" where
  "decode_xor_mapped_address value transaction_id =
     (if length value < 4 then Inl TruncatedAddress
      else
        let family = value ! 1;
            xport = u16_from_be (slice 2 2 value);
            port = xport XOR ucast (drop_bit 16 MAGIC_COOKIE) in
        if family = 0x01 then
          if length value < 8 then Inl TruncatedAddress
          else let xaddr = u32_from_be (slice 4 4 value) in
            Inr \<lparr>sa_ip = V4 (u32_to_be (xaddr XOR MAGIC_COOKIE)), sa_port = port\<rparr>
        else if family = 0x02 then
          if length value < 20 then Inl TruncatedAddress
          else let cookie_and_tx = u32_to_be MAGIC_COOKIE @ transaction_id in
            Inr \<lparr>sa_ip = V6 (map (\<lambda>i. (value ! (4 + i)) XOR (cookie_and_tx ! i)) [0..<16]), sa_port = port\<rparr>
        else Inl UnknownFamily)"

definition decode_mapped_address :: "u8 list \<Rightarrow> stun_error + socket_addr" where
  "decode_mapped_address value =
     (if length value < 4 then Inl TruncatedAddress
      else
        let family = value ! 1;
            port = u16_from_be (slice 2 2 value) in
        if family = 0x01 then
          if length value < 8 then Inl TruncatedAddress
          else Inr \<lparr>sa_ip = V4 (slice 4 4 value), sa_port = port\<rparr>
        else if family = 0x02 then
          if length value < 20 then Inl TruncatedAddress
          else Inr \<lparr>sa_ip = V6 (slice 4 16 value), sa_port = port\<rparr>
        else Inl UnknownFamily)"

definition padded :: "nat \<Rightarrow> nat" where
  "padded n = (n + 3) div 4 * 4"

definition ok :: "'e + 'a \<Rightarrow> 'a option" where
  "ok x = (case x of Inl _ \<Rightarrow> None | Inr y \<Rightarrow> Some y)"

text \<open>The attribute loop, with what it has found so far; it ends by returning from the function or
  by leaving the loop.\<close>

function attr_loop ::
    "u8 list \<Rightarrow> u8 list \<Rightarrow> socket_addr option \<Rightarrow> stun_error option \<Rightarrow> stun_error + socket_addr" where
  "attr_loop transaction_id attrs fallback xor_error =
     (let finish = (\<lambda>fallback xor_error. case fallback of
            Some addr \<Rightarrow> Inr addr
          | None \<Rightarrow> Inl (case xor_error of Some e \<Rightarrow> e | None \<Rightarrow> NoMappedAddress)) in
      if length attrs < 4 then finish fallback xor_error
      else
        let attr_type = u16_from_be (slice 0 2 attrs);
            attr_len = unat (u16_from_be (slice 2 2 attrs));
            padded_len = padded attr_len in
        if length attrs < 4 + attr_len then finish fallback xor_error
        else
          let value = slice 4 attr_len attrs;
              continue = (\<lambda>fallback xor_error.
                if length attrs < 4 + padded_len then finish fallback xor_error
                else attr_loop transaction_id (drop (4 + padded_len) attrs) fallback xor_error) in
          if attr_type = XOR_MAPPED_ADDRESS then
            (case decode_xor_mapped_address value transaction_id of
               Inr addr \<Rightarrow> Inr addr
             | Inl e \<Rightarrow> continue fallback (Some e))
          else if attr_type = MAPPED_ADDRESS \<and> fallback = None then
            continue (ok (decode_mapped_address value)) xor_error
          else continue fallback xor_error)"
  by pat_completeness auto
termination by (relation "measure (\<lambda>(_, attrs, _). length attrs)") auto

declare attr_loop.simps [simp del]

definition parse_binding_response :: "u8 list \<Rightarrow> u8 list \<Rightarrow> stun_error + socket_addr" where
  "parse_binding_response data expected_transaction_id =
     (if length data < HEADER_LEN then Inl TooShort
      else
        let message_type = u16_from_be (slice 0 2 data) in
        if message_type \<noteq> BINDING_SUCCESS_RESPONSE then Inl (NotBindingSuccess message_type)
        else
          let message_length = unat (u16_from_be (slice 2 2 data));
              magic_cookie = u32_from_be (slice 4 4 data) in
          if magic_cookie \<noteq> MAGIC_COOKIE then Inl BadMagicCookie
          else if slice 8 12 data \<noteq> expected_transaction_id then Inl TransactionIdMismatch
          else
            let body_end = min (HEADER_LEN + message_length) (length data) in
            attr_loop expected_transaction_id (drop HEADER_LEN (take body_end data)) None None)"

text \<open>\<^verbatim>\<open>to_ipv4_mapped\<close> recognises \<^verbatim>\<open>::ffff:a.b.c.d\<close>.\<close>

definition canonical :: "socket_addr \<Rightarrow> socket_addr" where
  "canonical addr = (case sa_ip addr of
       V6 o6 \<Rightarrow>
        if take 12 o6 = replicate 10 0 @ [0xff, 0xff] then addr\<lparr>sa_ip := V4 (drop 12 o6)\<rparr> else addr
     | V4 _ \<Rightarrow> addr)"

section \<open>The query\<close>

datatype recv_event = Datagram "u8 list" socket_addr | RecvError string

text \<open>What an attempt leaves: an answer, or the last error to report (possibly none) and a retry.\<close>

fun attempt_loop ::
    "socket_addr \<Rightarrow> u8 list \<Rightarrow> stun_error option \<Rightarrow> recv_event list \<Rightarrow> stun_error option + socket_addr" where
  "attempt_loop stun_server transaction_id last_err [] = Inl last_err"
| "attempt_loop stun_server transaction_id last_err (Datagram buf from # rest) =
     (if canonical from = canonical stun_server then
        (case parse_binding_response buf transaction_id of
           Inr addr \<Rightarrow> Inr addr
         | Inl TransactionIdMismatch \<Rightarrow> attempt_loop stun_server transaction_id last_err rest
         | Inl e \<Rightarrow> Inl (Some e))
      else attempt_loop stun_server transaction_id last_err rest)"
| "attempt_loop stun_server transaction_id last_err (RecvError e # _) = Inl (Some (StunIo e))"

record attempt =
  at_transaction_id :: "u8 list"
  at_send :: "string option"
  at_window :: "recv_event list"

definition ATTEMPTS :: nat where "ATTEMPTS = 3"

fun query_attempts :: "socket_addr \<Rightarrow> stun_error option \<Rightarrow> attempt list \<Rightarrow> stun_error + socket_addr" where
  "query_attempts stun_server last_err [] =
     Inl (case last_err of Some e \<Rightarrow> e | None \<Rightarrow> StunTimeout stun_server ATTEMPTS)"
| "query_attempts stun_server last_err (a # rest) = (case at_send a of
       Some e \<Rightarrow> query_attempts stun_server (Some (StunIo e)) rest
     | None \<Rightarrow>
        (case attempt_loop stun_server (at_transaction_id a) last_err (at_window a) of
           Inr addr \<Rightarrow> Inr addr
         | Inl last_err' \<Rightarrow> query_attempts stun_server last_err' rest))"

definition query_stun :: "socket_addr \<Rightarrow> attempt list \<Rightarrow> stun_error + socket_addr" where
  "query_stun stun_server attempts = query_attempts stun_server None (take ATTEMPTS attempts)"

section \<open>What a response says\<close>

text \<open>
  A well-formed response: the header and a list of attributes, each a type, a value and its padding.
  The specification of the parser reads the list: the first valid XOR-MAPPED-ADDRESS, else the
  first valid MAPPED-ADDRESS, else the last error an XOR-MAPPED-ADDRESS gave.
\<close>

record stun_attr =
  sat_type :: u16
  sat_value :: "u8 list"
  sat_pad :: "u8 list"

definition attr_ok :: "stun_attr \<Rightarrow> bool" where
  "attr_ok a \<longleftrightarrow> length (sat_value a) < 65536 \<and> length (sat_pad a) = padded (length (sat_value a)) - length (sat_value a)"

definition attr_bytes :: "stun_attr \<Rightarrow> u8 list" where
  "attr_bytes a = u16_to_be (sat_type a) @ u16_to_be (word_of_nat (length (sat_value a))) @ sat_value a @ sat_pad a"

definition response_bytes :: "u8 list \<Rightarrow> stun_attr list \<Rightarrow> u8 list" where
  "response_bytes transaction_id attrs =
     (let body = concat (map attr_bytes attrs) in
      u16_to_be BINDING_SUCCESS_RESPONSE @ u16_to_be (word_of_nat (length body)) @ u32_to_be MAGIC_COOKIE @
      transaction_id @ body)"

definition xor_results :: "u8 list \<Rightarrow> stun_attr list \<Rightarrow> (stun_error + socket_addr) list" where
  "xor_results tid attrs =
     map (\<lambda>a. decode_xor_mapped_address (sat_value a) tid) (filter (\<lambda>a. sat_type a = XOR_MAPPED_ADDRESS) attrs)"

definition mapped_results :: "stun_attr list \<Rightarrow> (stun_error + socket_addr) list" where
  "mapped_results attrs =
     map (\<lambda>a. decode_mapped_address (sat_value a)) (filter (\<lambda>a. sat_type a = MAPPED_ADDRESS) attrs)"

fun oks :: "('e + 'a) list \<Rightarrow> 'a list" where
  "oks [] = []"
| "oks (Inr a # rs) = a # oks rs"
| "oks (Inl _ # rs) = oks rs"

fun errs :: "('e + 'a) list \<Rightarrow> 'e list" where
  "errs [] = []"
| "errs (Inl e # rs) = e # errs rs"
| "errs (Inr _ # rs) = errs rs"

definition stun_verdict ::
    "socket_addr list \<Rightarrow> socket_addr list \<Rightarrow> stun_error list \<Rightarrow> stun_error + socket_addr" where
  "stun_verdict xors mapped es =
     (if xors \<noteq> [] then Inr (hd xors) else if mapped \<noteq> [] then Inr (hd mapped)
      else Inl (if es \<noteq> [] then last es else NoMappedAddress))"

lemma padded_ge: "n \<le> padded n"
  by (simp add: padded_def)

lemma attr_loop_Nil:
  "attr_loop tid [] fb xe = stun_verdict [] (case fb of None \<Rightarrow> [] | Some a \<Rightarrow> [a]) (case xe of None \<Rightarrow> [] | Some e \<Rightarrow> [e])"
  by (subst attr_loop.simps) (simp add: stun_verdict_def split: option.splits)

lemma attr_loop_step:
  assumes "attr_ok a"
  shows "attr_loop tid (attr_bytes a @ rest) fb xe =
    (if sat_type a = XOR_MAPPED_ADDRESS then
       (case decode_xor_mapped_address (sat_value a) tid of
          Inr addr \<Rightarrow> Inr addr | Inl e \<Rightarrow> attr_loop tid rest fb (Some e))
     else if sat_type a = MAPPED_ADDRESS \<and> fb = None
     then attr_loop tid rest (ok (decode_mapped_address (sat_value a))) xe
     else attr_loop tid rest fb xe)"
proof -
  let ?d = "attr_bytes a @ rest" and ?n = "length (sat_value a)"
  have n: "unat (word_of_nat ?n :: u16) = ?n" using assms by (simp add: attr_ok_def unat_of_nat)
  have "length (attr_bytes a) = 4 + padded ?n"
    using assms padded_ge [of ?n] by (simp add: attr_bytes_def attr_ok_def)
  then have len: "\<not> length ?d < 4" "\<not> length ?d < 4 + ?n" "\<not> length ?d < 4 + padded ?n" "drop (4 + padded ?n) ?d = rest"
    using padded_ge [of ?n] by simp_all
  have fields: "u16_from_be (slice 0 2 ?d) = sat_type a" "u16_from_be (slice 2 2 ?d) = word_of_nat ?n"
    "slice 4 ?n ?d = sat_value a"
    by (simp_all add: attr_bytes_def)
  show ?thesis
    by (subst attr_loop.simps) (simp only: Let_def fields n len if_False)
qed

lemma attr_loop_attrs:
  "list_all attr_ok attrs \<Longrightarrow>
   attr_loop tid (concat (map attr_bytes attrs)) fb xe =
     stun_verdict (oks (xor_results tid attrs)) ((case fb of None \<Rightarrow> [] | Some a \<Rightarrow> [a]) @ oks (mapped_results attrs))
       ((case xe of None \<Rightarrow> [] | Some e \<Rightarrow> [e]) @ errs (xor_results tid attrs))"
proof (induction attrs arbitrary: fb xe)
  case Nil
  then show ?case by (simp add: attr_loop_Nil xor_results_def mapped_results_def)
next
  case (Cons a attrs)
  have distinct: "XOR_MAPPED_ADDRESS \<noteq> MAPPED_ADDRESS" by (simp add: stun_consts)
  consider (xor) "sat_type a = XOR_MAPPED_ADDRESS" | (mapped) "sat_type a = MAPPED_ADDRESS"
    | (other) "sat_type a \<noteq> XOR_MAPPED_ADDRESS" "sat_type a \<noteq> MAPPED_ADDRESS" by blast
  then show ?case
  proof cases
    case xor
    with Cons distinct show ?thesis
      by (cases "decode_xor_mapped_address (sat_value a) tid"; cases xe)
        (auto simp: attr_loop_step xor_results_def mapped_results_def stun_verdict_def)
  next
    case mapped
    with Cons distinct show ?thesis
      by (cases "decode_mapped_address (sat_value a)"; cases fb)
        (auto simp: attr_loop_step xor_results_def mapped_results_def stun_verdict_def ok_def)
  next
    case other
    with Cons show ?thesis by (simp add: attr_loop_step xor_results_def mapped_results_def)
  qed
qed

section \<open>The value of an XOR-MAPPED-ADDRESS\<close>

text \<open>How RFC 8489, section 14.2, has a server write an address.\<close>

fun xor_ip :: "u8 list \<Rightarrow> ip_addr \<Rightarrow> u8 list" where
  "xor_ip tid (V4 octets) = 0x01 # map2 (XOR) octets (u32_to_be MAGIC_COOKIE)"
| "xor_ip tid (V6 octets) = 0x02 # map2 (XOR) octets (u32_to_be MAGIC_COOKIE @ tid)"

definition xor_value :: "u8 list \<Rightarrow> socket_addr \<Rightarrow> u8 list" where
  "xor_value tid addr = [0, hd (xor_ip tid (sa_ip addr))] @ u16_to_be (sa_port addr XOR 0x2112) @ tl (xor_ip tid (sa_ip addr))"

lemma xor_word_of_nat: "(word_of_nat (a XOR b) :: 'w::len word) = word_of_nat a XOR word_of_nat b"
  by (rule bit_word_eqI) (simp add: bit_simps)

lemma be_of_nat_xor: "be_of_nat n (a XOR b) = map2 (XOR) (be_of_nat n a) (be_of_nat n b)"
proof (induction n arbitrary: a b)
  case (Suc n)
  have "(a XOR b) div 256 = (a div 256) XOR (b div 256)"
    using drop_bit_xor [of 8 a b] by (simp add: drop_bit_eq_div)
  moreover have "(a XOR b) mod 256 = (a mod 256) XOR (b mod 256)"
    using take_bit_xor [of 8 a b] by (simp add: take_bit_eq_mod)
  ultimately show ?case
    using Suc.IH [of "a div 256" "b div 256"] by (simp add: xor_word_of_nat)
qed simp

lemma u32_to_be_xor: "u32_to_be (a XOR b) = map2 (XOR) (u32_to_be a) (u32_to_be b)"
  by (simp add: u32_to_be_def unsigned_xor_eq be_of_nat_xor)

lemma cookie_bytes: "u32_to_be MAGIC_COOKIE = [0x21, 0x12, 0xA4, 0x42]"
proof -
  have four: "4 = Suc (Suc (Suc (Suc 0)))" by simp
  show ?thesis unfolding u32_to_be_def four by (simp add: MAGIC_COOKIE_def)
qed

lemma map2_xor_cancel: "length xs = length ys \<Longrightarrow> map2 (XOR) (map2 (XOR) xs ys) ys = xs" for xs :: "u8 list"
  by (induction xs ys rule: list_induct2) (simp_all add: xor.assoc)

lemma decode_xor_value:
  assumes "addr_ok addr" "length tid = 12"
  shows "decode_xor_mapped_address (xor_value tid addr) tid = Inr addr"
proof -
  let ?v = "xor_value tid addr"
  have port: "(sa_port addr XOR 0x2112) XOR ucast (drop_bit 16 MAGIC_COOKIE) = sa_port addr"
    by (simp add: MAGIC_COOKIE_def xor.assoc)
  show ?thesis
  proof (cases "sa_ip addr")
    case (V4 octets)
    with assms have len: "length octets = 4" by (simp add: addr_ok_def)
    have v: "?v = [0, 1] @ u16_to_be (sa_port addr XOR 0x2112) @ map2 (XOR) octets (u32_to_be MAGIC_COOKIE)"
      by (simp add: xor_value_def V4)
    have "u32_to_be (u32_from_be (map2 (XOR) octets (u32_to_be MAGIC_COOKIE)) XOR MAGIC_COOKIE) = octets"
      using len by (simp add: u32_to_be_xor to_be_from_be map2_xor_cancel)
    moreover have "\<not> length ?v < 8" "?v ! 1 = 1" "slice 2 2 ?v = u16_to_be (sa_port addr XOR 0x2112)"
      "slice 4 4 ?v = map2 (XOR) octets (u32_to_be MAGIC_COOKIE)"
      using len by (simp_all add: v)
    ultimately show ?thesis
      unfolding decode_xor_mapped_address_def Let_def using port V4 by (cases addr) simp
  next
    case (V6 octets)
    with assms have len: "length octets = 16" by (simp add: addr_ok_def)
    let ?c = "u32_to_be MAGIC_COOKIE @ tid"
    have v: "?v = [0, 2] @ u16_to_be (sa_port addr XOR 0x2112) @ map2 (XOR) octets ?c"
      by (simp add: xor_value_def V6)
    have len': "length (map2 (XOR) octets ?c) = 16" using len assms by simp
    have "map (\<lambda>i. ?v ! (4 + i) XOR ?c ! i) [0..<16] = map2 (XOR) (map2 (XOR) octets ?c) ?c"
      using len' assms(2) by (intro nth_equalityI) (simp_all add: v nth_append)
    also have "\<dots> = octets" using len assms(2) by (intro map2_xor_cancel) simp
    finally have o: "map (\<lambda>i. ?v ! (4 + i) XOR ?c ! i) [0..<16] = octets" .
    have f: "\<not> length ?v < 20" "?v ! 1 = 2" "slice 2 2 ?v = u16_to_be (sa_port addr XOR 0x2112)"
      using len' by (simp_all add: v)
    show ?thesis
      unfolding decode_xor_mapped_address_def Let_def
      using o f port V6 by (cases addr) simp
  qed
qed

section \<open>Queries\<close>

lemma attempt_loop_sound:
  "attempt_loop server tid le evs = Inr addr \<Longrightarrow>
   \<exists>buf from. Datagram buf from \<in> set evs \<and> canonical from = canonical server \<and>
     parse_binding_response buf tid = Inr addr"
  by (induction server tid le evs rule: attempt_loop.induct)
    (auto split: if_splits sum.splits stun_error.splits)

lemma query_attempts_sound:
  "query_attempts server le as = Inr addr \<Longrightarrow>
   \<exists>a \<in> set as. at_send a = None \<and> (\<exists>buf from. Datagram buf from \<in> set (at_window a) \<and>
     canonical from = canonical server \<and> parse_binding_response buf (at_transaction_id a) = Inr addr)"
proof (induction as arbitrary: le)
  case (Cons a as)
  show ?case
  proof (cases "at_send a")
    case None
    show ?thesis
    proof (cases "attempt_loop server (at_transaction_id a) le (at_window a)")
      case (Inl le')
      with None Cons show ?thesis by auto
    next
      case (Inr addr')
      with None Cons.prems attempt_loop_sound [OF Inr] show ?thesis by auto
    qed
  next
    case (Some e)
    with Cons show ?thesis by auto
  qed
qed simp

lemma parse_ok_header:
  assumes "parse_binding_response d tid = Inr addr"
  shows "20 \<le> length d \<and> take 2 d = [1, 1] \<and> slice 4 4 d = u32_to_be MAGIC_COOKIE \<and> slice 8 12 d = tid"
proof -
  have h: "20 \<le> length d" "u16_from_be (slice 0 2 d) = 0x0101" "u32_from_be (slice 4 4 d) = MAGIC_COOKIE"
    "slice 8 12 d = tid"
    using assms by (auto simp: parse_binding_response_def Let_def HEADER_LEN_def BINDING_SUCCESS_RESPONSE_def
        split: if_splits)
  have "slice 0 2 d = u16_to_be 0x0101" using h to_be_from_be(1) [of "slice 0 2 d"] by simp
  moreover have "u16_to_be 0x0101 = [1, 1]" by (simp add: u16_to_be_bytes)
  moreover have "slice 4 4 d = u32_to_be MAGIC_COOKIE" using h to_be_from_be(2) [of "slice 4 4 d"] by simp
  ultimately show ?thesis using h by (simp add: slice_def)
qed

lemma parse_response:
  assumes "length tid = 12" "list_all attr_ok attrs" "length (concat (map attr_bytes attrs)) < 65536"
  shows "parse_binding_response (response_bytes tid attrs @ trailing) tid =
    stun_verdict (oks (xor_results tid attrs)) (oks (mapped_results attrs)) (errs (xor_results tid attrs))"
proof -
  let ?b = "concat (map attr_bytes attrs)" and ?d = "response_bytes tid attrs @ trailing"
  have n: "unat (word_of_nat (length ?b) :: u16) = length ?b"
    using assms(3) by (simp add: unat_of_nat del: length_concat)
  have d: "?d = u16_to_be BINDING_SUCCESS_RESPONSE @ u16_to_be (word_of_nat (length ?b)) @ u32_to_be MAGIC_COOKIE @
      tid @ ?b @ trailing"
    by (simp add: response_bytes_def Let_def)
  have f: "u16_from_be (slice 0 2 ?d) = BINDING_SUCCESS_RESPONSE" "u16_from_be (slice 2 2 ?d) = word_of_nat (length ?b)"
    "u32_from_be (slice 4 4 ?d) = MAGIC_COOKIE" "slice 8 12 ?d = tid" "\<not> length ?d < HEADER_LEN"
    unfolding d HEADER_LEN_def using assms(1) by simp_all
  have body: "drop HEADER_LEN (take (min (HEADER_LEN + length ?b) (length ?d)) ?d) = ?b"
    unfolding d HEADER_LEN_def using assms(1) by (simp del: length_concat)
  have "parse_binding_response ?d tid = attr_loop tid ?b None None"
    unfolding parse_binding_response_def Let_def by (simp only: f n body if_False simp_thms)
  with attr_loop_attrs [OF assms(2)] show ?thesis by simp
qed

section \<open>Properties\<close>

text \<open>On every well-formed response, with whatever attributes in whatever order and anything behind
  it, the parser answers what the attributes say: the first valid XOR-MAPPED-ADDRESS, else the first
  valid MAPPED-ADDRESS, else the last error; and it undoes the XOR encoding of RFC 8489 for every
  IPv4 and IPv6 address.\<close>

lemma stun_response_exact:
  assumes "length tid = 12" "list_all attr_ok attrs" "length (concat (map attr_bytes attrs)) < 65536"
    and "addr_ok addr"
  shows "parse_binding_response (response_bytes tid attrs @ trailing) tid =
      stun_verdict (oks (xor_results tid attrs)) (oks (mapped_results attrs)) (errs (xor_results tid attrs)) \<and>
    decode_xor_mapped_address (xor_value tid addr) tid = Inr addr"
  using parse_response [OF assms(1-3)] decode_xor_value [OF assms(4,1)] by blast

text \<open>C11. An address the query reports was taken from a datagram that came from the STUN server's address
  within one of at most three attempts, is a Binding Success Response with the magic cookie, and
  carries the transaction id of that very attempt.\<close>

theorem stun_answer_authentic:
  assumes "query_stun server attempts = Inr addr"
  shows "\<exists>a \<in> set (take 3 attempts). \<exists>buf from. Datagram buf from \<in> set (at_window a) \<and>
    canonical from = canonical server \<and> at_send a = None \<and> 20 \<le> length buf \<and> take 2 buf = [1, 1] \<and>
    slice 4 4 buf = [0x21, 0x12, 0xA4, 0x42] \<and> slice 8 12 buf = at_transaction_id a \<and>
    parse_binding_response buf (at_transaction_id a) = Inr addr"
proof -
  obtain a buf sender where a: "a \<in> set (take 3 attempts)" "at_send a = None"
    "Datagram buf sender \<in> set (at_window a)" "canonical sender = canonical server"
    "parse_binding_response buf (at_transaction_id a) = Inr addr"
    using query_attempts_sound [of server None "take 3 attempts" addr] assms
    by (auto simp: query_stun_def ATTEMPTS_def)
  with parse_ok_header [OF a(5)] show ?thesis
    by (intro bexI [of _ a] exI [of _ buf] exI [of _ sender]) (simp_all add: cookie_bytes)
qed

theorem stun_answer_authentic_witness:
  "let addr = \<lparr>sa_ip = V4 [203, 0, 113, 5], sa_port = 0xc151\<rparr>; server = \<lparr>sa_ip = V4 [1, 1, 1, 1], sa_port = 3478\<rparr>;
       buf = [1, 1, 0, 12, 0x21, 0x12, 0xA4, 0x42, 7, 7, 7, 7, 7, 7, 7, 7, 7, 7, 7, 7,
              0, 0x20, 0, 8, 0, 1, 0xe0, 0x43, 0xea, 0x12, 0xd5, 0x47];
       as = [\<lparr>at_transaction_id = [7, 7, 7, 7, 7, 7, 7, 7, 7, 7, 7, 7], at_send = None, at_window = [Datagram buf server]\<rparr>] in
   query_stun server as = Inr addr \<and> (\<exists>a \<in> set (take 3 as). slice 8 12 buf = at_transaction_id a)"
proof -
  let ?addr = "\<lparr>sa_ip = V4 [203, 0, 113, 5], sa_port = 0xc151\<rparr>" and ?server = "\<lparr>sa_ip = V4 [1, 1, 1, 1], sa_port = 3478\<rparr>"
  let ?buf = "[1, 1, 0, 12, 0x21, 0x12, 0xA4, 0x42, 7, 7, 7, 7, 7, 7, 7, 7, 7, 7, 7, 7,
    0, 0x20, 0, 8, 0, 1, 0xe0, 0x43, 0xea, 0x12, 0xd5, 0x47] :: u8 list"
  let ?as = "[\<lparr>at_transaction_id = [7, 7, 7, 7, 7, 7, 7, 7, 7, 7, 7, 7], at_send = None, at_window = [Datagram ?buf ?server]\<rparr>]"
  let ?attrs = "[\<lparr>sat_type = 0x20, sat_value = xor_value [7, 7, 7, 7, 7, 7, 7, 7, 7, 7, 7, 7] ?addr, sat_pad = []\<rparr>]"
  have v: "xor_value [7, 7, 7, 7, 7, 7, 7, 7, 7, 7, 7, 7] ?addr = [0, 1, 0xe0, 0x43, 0xea, 0x12, 0xd5, 0x47]"
    by (simp add: xor_value_def cookie_bytes u16_to_be_bytes)
  have "?buf = response_bytes [7, 7, 7, 7, 7, 7, 7, 7, 7, 7, 7, 7] ?attrs @ []"
    by (simp add: v response_bytes_def attr_bytes_def cookie_bytes u16_to_be_bytes BINDING_SUCCESS_RESPONSE_def Let_def)
  moreover have "parse_binding_response (response_bytes [7, 7, 7, 7, 7, 7, 7, 7, 7, 7, 7, 7] ?attrs @ []) [7, 7, 7, 7, 7, 7, 7, 7, 7, 7, 7, 7] = Inr ?addr"
    by (subst parse_response) (simp_all add: v attr_ok_def padded_def attr_bytes_def xor_results_def
        XOR_MAPPED_ADDRESS_def stun_verdict_def decode_xor_value [of ?addr "[7, 7, 7, 7, 7, 7, 7, 7, 7, 7, 7, 7]", simplified v] addr_ok_def)
  ultimately have q: "query_stun ?server ?as = Inr ?addr" by (simp add: query_stun_def ATTEMPTS_def)
  from stun_answer_authentic [OF q] q show ?thesis by (simp add: Let_def)
qed

end
