(* ===== verification/TtyProtocol.thy ===== *)
theory TtyProtocol
  imports ResumeExchange Utf8
begin

text \<open>
  The frames between \<^verbatim>\<open>isekai-pipe tty daemon\<close> and \<^verbatim>\<open>isekai-pipe tty attach\<close>
  (\<^verbatim>\<open>isekai-pipe/src/tty/protocol.rs\<close>) and the loop that shows them
  (\<^verbatim>\<open>relay\<close> of \<^verbatim>\<open>attach.rs\<close>). A socket is the sequence of what its reads will find, as for the
  resume frames, and \<^verbatim>\<open>read_exact\<close> is the same loop. An error carries the reason instead of the
  text of its message.
\<close>

section \<open>Frames\<close>

definition MAX_FRAME_PAYLOAD :: nat where "MAX_FRAME_PAYLOAD = 1024 * 1024"
definition MAX_FRAME_LEN :: nat where "MAX_FRAME_LEN = 1 + MAX_FRAME_PAYLOAD"
definition MAX_TERM_LEN :: nat where "MAX_TERM_LEN = 256"

definition TAG_HELLO :: u8 where "TAG_HELLO = 0x01"
definition TAG_HELLO_ACK :: u8 where "TAG_HELLO_ACK = 0x02"
definition TAG_STDIN :: u8 where "TAG_STDIN = 0x10"
definition TAG_RESIZE :: u8 where "TAG_RESIZE = 0x11"
definition TAG_STDOUT :: u8 where "TAG_STDOUT = 0x20"
definition TAG_EXIT :: u8 where "TAG_EXIT = 0x21"
definition TAG_PREEMPTED :: u8 where "TAG_PREEMPTED = 0x22"

lemmas tty_tags = TAG_HELLO_def TAG_HELLO_ACK_def TAG_STDIN_def TAG_RESIZE_def TAG_STDOUT_def
  TAG_EXIT_def TAG_PREEMPTED_def

datatype tty_frame =
    TF_Hello "u8 list" u16 u16
  | TF_HelloAck
  | TF_Stdin "u8 list"
  | TF_Resize u16 u16
  | TF_Stdout "u8 list"
  | TF_Exit u8
  | TF_Preempted

datatype malformed_frame =
    TermTooLong | TrailingOrTruncated | TermNotUtf8 | ExitMissing | ExitTrailing | UnknownTag u8
  | FieldTruncated | OutgoingTooLarge | LengthOutOfRange nat

datatype tty_error = Malformed malformed_frame | UnexpectedEof | TtyIo string

fun encode_frame :: "tty_frame \<Rightarrow> u8 list" where
  "encode_frame (TF_Hello term cols rows) =
     TAG_HELLO # u16_to_be cols @ u16_to_be rows @ u16_to_be (word_of_nat (length term)) @ term"
| "encode_frame TF_HelloAck = [TAG_HELLO_ACK]"
| "encode_frame (TF_Stdin data) = TAG_STDIN # data"
| "encode_frame (TF_Resize cols rows) = TAG_RESIZE # u16_to_be cols @ u16_to_be rows"
| "encode_frame (TF_Stdout data) = TAG_STDOUT # data"
| "encode_frame (TF_Exit code) = [TAG_EXIT, code]"
| "encode_frame TF_Preempted = [TAG_PREEMPTED]"

definition read_u16 :: "u8 list \<Rightarrow> nat \<Rightarrow> tty_error + u16" where
  "read_u16 payload offset =
     (if length payload < offset + 2 then Inl (Malformed FieldTruncated)
      else Inr (u16_from_be (slice offset 2 payload)))"

definition decode_frame :: "u8 \<Rightarrow> u8 list \<Rightarrow> tty_error + tty_frame" where
  "decode_frame tag payload =
     (if tag = TAG_HELLO then
        res_bind (read_u16 payload 0) (\<lambda>cols.
        res_bind (read_u16 payload 2) (\<lambda>rows.
        res_bind (read_u16 payload 4) (\<lambda>term_len.
          let term_end = 6 + unat term_len in
          if MAX_TERM_LEN < unat term_len then Inl (Malformed TermTooLong)
          else if length payload \<noteq> term_end then Inl (Malformed TrailingOrTruncated)
          else if \<not> utf8_ok (slice 6 (unat term_len) payload) then Inl (Malformed TermNotUtf8)
          else Inr (TF_Hello (slice 6 (unat term_len) payload) cols rows))))
      else if tag = TAG_HELLO_ACK then Inr TF_HelloAck
      else if tag = TAG_STDIN then Inr (TF_Stdin payload)
      else if tag = TAG_RESIZE then
        res_bind (read_u16 payload 0) (\<lambda>cols. res_bind (read_u16 payload 2) (\<lambda>rows. Inr (TF_Resize cols rows)))
      else if tag = TAG_STDOUT then Inr (TF_Stdout payload)
      else if tag = TAG_EXIT then
        (case payload of
           [] \<Rightarrow> Inl (Malformed ExitMissing)
         | code # _ \<Rightarrow> if length payload \<noteq> 1 then Inl (Malformed ExitTrailing) else Inr (TF_Exit code))
      else if tag = TAG_PREEMPTED then Inr TF_Preempted
      else Inl (Malformed (UnknownTag tag)))"

text \<open>\<^verbatim>\<open>write_frame\<close>: what it writes to a socket that takes it.\<close>

definition write_frame :: "tty_frame \<Rightarrow> tty_error + u8 list" where
  "write_frame frame =
     (let body = encode_frame frame in
      if MAX_FRAME_LEN < length body then Inl (Malformed OutgoingTooLarge)
      else Inr (u32_to_be (word_of_nat (length body)) @ body))"

text \<open>A read into a buffer of one byte.\<close>

fun read_byte :: "arrival list \<Rightarrow> tty_error + (u8 option \<times> arrival list)" where
  "read_byte [] = Inr (None, [])"
| "read_byte (Broken e # rest) = Inl (TtyIo e)"
| "read_byte (Bytes [] # rest) = Inr (None, rest)"
| "read_byte (Bytes (b # bs) # rest) = Inr (Some b, if bs = [] then rest else Bytes bs # rest)"

fun lift_read :: "mux_error + 'a \<Rightarrow> tty_error + 'a" where
  "lift_read (Inl (ReadFailed e)) = Inl (TtyIo e)"
| "lift_read (Inl _) = Inl UnexpectedEof"
| "lift_read (Inr x) = Inr x"

definition read_frame :: "arrival list \<Rightarrow> tty_error + (tty_frame option \<times> arrival list)" where
  "read_frame r =
     res_bind (read_byte r) (\<lambda>(first, r).
     case first of
       None \<Rightarrow> Inr (None, r)
     | Some b0 \<Rightarrow>
        res_bind (lift_read (read_exact r 3)) (\<lambda>(len_rest, r).
        let frame_len = unat (u32_from_be (b0 # len_rest)) in
        if \<not> (1 \<le> frame_len \<and> frame_len \<le> MAX_FRAME_LEN) then Inl (Malformed (LengthOutOfRange frame_len))
        else
          res_bind (lift_read (read_exact r frame_len)) (\<lambda>(body, r).
          res_bind (decode_frame (body ! 0) (drop 1 body)) (\<lambda>frame. Inr (Some frame, r)))))"

section \<open>The attached client\<close>

datatype attach_outcome = AttachExited u8 | AttachClosed | AttachFailed tty_error

text \<open>The display loop of \<^verbatim>\<open>relay\<close>, over the results of its reads and whether standard output took
  what was written: what it wrote there, and the outcome; none while it still waits.\<close>

fun attach_relay :: "((tty_error + tty_frame option) \<times> bool) list \<Rightarrow> u8 list \<times> attach_outcome option" where
  "attach_relay [] = ([], None)"
| "attach_relay ((Inr (Some (TF_Stdout data)), write_ok) # rs) =
     (if write_ok then let (out, oc) = attach_relay rs in (data @ out, oc) else ([], Some (AttachExited 1)))"
| "attach_relay ((Inr (Some (TF_Exit code)), _) # rs) = ([], Some (AttachExited code))"
| "attach_relay ((Inr (Some TF_Preempted), _) # rs) = ([], Some (AttachExited 1))"
| "attach_relay ((Inr (Some other), _) # rs) = attach_relay rs"
| "attach_relay ((Inr None, _) # rs) = ([], Some AttachClosed)"
| "attach_relay ((Inl e, _) # rs) = ([], Some (AttachFailed e))"

section \<open>Frames survive the socket\<close>

text \<open>The frames both ends can send: \<^verbatim>\<open>TERM\<close> is a string within the cap, and a chunk fits.\<close>

fun frame_ok :: "tty_frame \<Rightarrow> bool" where
  "frame_ok (TF_Hello term _ _) \<longleftrightarrow> utf8_ok term \<and> length term \<le> MAX_TERM_LEN"
| "frame_ok (TF_Stdin data) \<longleftrightarrow> length data \<le> MAX_FRAME_PAYLOAD"
| "frame_ok (TF_Stdout data) \<longleftrightarrow> length data \<le> MAX_FRAME_PAYLOAD"
| "frame_ok _ \<longleftrightarrow> True"

lemma decode_encode_frame: "frame_ok f \<Longrightarrow> decode_frame (encode_frame f ! 0) (drop 1 (encode_frame f)) = Inr f"
  by (cases f) (auto simp: decode_frame_def tty_tags read_u16_def MAX_TERM_LEN_def unat_of_nat Let_def)

lemma length_encode_frame: "frame_ok f \<Longrightarrow> 1 \<le> length (encode_frame f) \<and> length (encode_frame f) \<le> MAX_FRAME_LEN"
  by (cases f) (auto simp: MAX_FRAME_LEN_def MAX_FRAME_PAYLOAD_def MAX_TERM_LEN_def)

lemma read_byte_carries:
  "carries r (b # bs) \<Longrightarrow> \<exists>r'. read_byte r = Inr (Some b, r') \<and> carries r' bs"
  by (cases r rule: read_byte.cases) (auto simp: append_eq_Cons_conv)

lemma carries_Nil: "carries r [] \<Longrightarrow> r = []"
  by (cases r rule: read_byte.cases) auto

lemma read_frame_carries:
  assumes "frame_ok f" "write_frame f = Inr bs" "carries r (bs @ tail)"
  shows "\<exists>r'. read_frame r = Inr (Some f, r') \<and> carries r' tail"
proof -
  let ?body = "encode_frame f"
  have len: "1 \<le> length ?body" "length ?body \<le> MAX_FRAME_LEN" using length_encode_frame [OF assms(1)] by simp_all
  define lb where "lb = u32_to_be (word_of_nat (length ?body))"
  have bs: "bs = lb @ ?body" using assms(2) len(2) by (simp add: write_frame_def Let_def lb_def)
  have "length lb = 4" by (simp add: lb_def)
  then obtain b0 l3 where lb: "lb = b0 # l3" "length l3 = 3" by (cases lb) simp_all
  have "carries r (b0 # l3 @ ?body @ tail)" using assms(3) bs lb by simp
  then obtain r1 where r1: "read_byte r = Inr (Some b0, r1)" "carries r1 (l3 @ ?body @ tail)"
    using read_byte_carries by blast
  obtain r2 where r2: "read_exact r1 3 = Inr (l3, r2)" "carries r2 (?body @ tail)"
    using read_exact_carries [OF r1(2) lb(2)] by blast
  obtain r3 where r3: "read_exact r2 (length ?body) = Inr (?body, r3)" "carries r3 tail"
    using read_exact_carries [OF r2(2) refl] by blast
  have n: "unat (u32_from_be (b0 # l3)) = length ?body"
    using len(2) by (simp add: lb(1) [symmetric] lb_def unat_of_nat MAX_FRAME_LEN_def MAX_FRAME_PAYLOAD_def)
  show ?thesis
    using r1(1) r2(1) r3 len decode_encode_frame [OF assms(1)] by (simp add: read_frame_def n)
qed

text \<open>Reading up to the end of the stream.\<close>

fun read_frames :: "nat \<Rightarrow> arrival list \<Rightarrow> (tty_error + tty_frame option) list" where
  "read_frames 0 r = []"
| "read_frames (Suc n) r = (case read_frame r of
       Inl e \<Rightarrow> [Inl e]
     | Inr (None, _) \<Rightarrow> [Inr None]
     | Inr (Some f, r') \<Rightarrow> Inr (Some f) # read_frames n r')"

definition wire :: "tty_frame \<Rightarrow> u8 list" where
  "wire f = (case write_frame f of Inl _ \<Rightarrow> [] | Inr bs \<Rightarrow> bs)"

lemma write_frame_ok: "frame_ok f \<Longrightarrow> write_frame f = Inr (wire f)"
  using length_encode_frame [of f] by (simp add: wire_def write_frame_def Let_def)

lemma read_exact_short:
  assumes "carries r bs" "length bs < n"
  shows "lift_read (read_exact r n) = Inl UnexpectedEof"
proof -
  have "read_exact_loop r n acc = Inl (StreamEnded n (length acc + length bs))"
    if "carries r bs" "length acc + length bs < n" for acc
    using that
  proof (induction r arbitrary: acc bs)
    case Nil
    then show ?case by (simp add: read_exact_loop_stops)
  next
    case (Cons a r)
    then obtain c bs' where c: "a = Bytes c" "c \<noteq> []" "bs = c @ bs'" "carries r bs'"
      by (cases a) auto
    have n: "min (length c) (n - length acc) = length c" using Cons.prems c by simp
    have "read_exact_loop (a # r) n acc = read_exact_loop r n (acc @ c)"
      using Cons.prems c by (subst read_exact_loop.simps) (simp add: n)
    with Cons.IH [of bs' "acc @ c"] Cons.prems c show ?case by simp
  qed
  from this [of "[]"] assms show ?thesis by (simp add: read_exact_def)
qed

text \<open>A frame that is cut anywhere is an error and never a clean end.\<close>

lemma read_frame_cut:
  assumes "frame_ok f" "wire f = p @ q" "p \<noteq> []" "q \<noteq> []" "carries r p"
  shows "read_frame r = Inl UnexpectedEof"
proof -
  let ?body = "encode_frame f"
  have len: "1 \<le> length ?body" "length ?body \<le> MAX_FRAME_LEN" using length_encode_frame [OF assms(1)] by simp_all
  define lb where "lb = u32_to_be (word_of_nat (length ?body))"
  have w: "wire f = lb @ ?body" using len(2) by (simp add: wire_def write_frame_def Let_def lb_def)
  have "length lb = 4" by (simp add: lb_def)
  then obtain b0 l3 where lb: "lb = b0 # l3" "length l3 = 3" by (cases lb) simp_all
  obtain p' where p: "p = b0 # p'" "l3 @ ?body = p' @ q" using assms(2,3) w lb by (cases p) auto
  obtain r1 where r1: "read_byte r = Inr (Some b0, r1)" "carries r1 p'"
    using assms(5) p(1) read_byte_carries by blast
  show ?thesis
  proof (cases "length p' < 3")
    case True
    from read_exact_short [OF r1(2) True] r1 show ?thesis by (auto simp: read_frame_def)
  next
    case False
    have "take 3 p' = l3" "drop 3 p' @ q = ?body"
      using arg_cong [OF p(2), of "take 3"] arg_cong [OF p(2), of "drop 3"] False lb(2) by simp_all
    then obtain p'' where p'': "p' = l3 @ p''" "?body = p'' @ q" by (metis append_take_drop_id)
    then obtain r2 where r2: "read_exact r1 3 = Inr (l3, r2)" "carries r2 p''"
      using r1(2) read_exact_carries lb(2) by blast
    have n: "unat (u32_from_be (b0 # l3)) = length ?body"
      using len(2) by (simp add: lb(1) [symmetric] lb_def unat_of_nat MAX_FRAME_LEN_def MAX_FRAME_PAYLOAD_def)
    have "length p'' < length ?body" using p''(2) assms(4) by simp
    from read_exact_short [OF r2(2) this] r1(1) r2(1) n len show ?thesis
      by (auto simp: read_frame_def p''(2))
  qed
qed

text \<open>What a client displays of a daemon's frames, up to the exit of the shell.\<close>

fun shown_by :: "tty_frame list \<Rightarrow> u8 list" where
  "shown_by [] = []"
| "shown_by (TF_Stdout data # fs) = data @ shown_by fs"
| "shown_by (_ # fs) = shown_by fs"

lemma attach_relay_shows:
  "TF_Preempted \<notin> set fs \<Longrightarrow> list_all (\<lambda>f. \<forall>c. f \<noteq> TF_Exit c) fs \<Longrightarrow>
   attach_relay (map (\<lambda>f. (Inr (Some f), True)) (fs @ [TF_Exit code])) = (shown_by fs, Some (AttachExited code))"
  by (induction fs rule: shown_by.induct) auto

section \<open>Properties\<close>

text \<open>The frames one side of the local socket writes are read by the other exactly as written and in
  order, however the bytes are cut into reads, and then the end of the stream; a stream that ends
  inside a frame gives an error, never a clean end.\<close>

lemma tty_frames_roundtrip:
  assumes "list_all frame_ok fs" "frame_ok f" "wire f = p @ q" "q \<noteq> []"
    and "carries r (concat (map wire fs) @ p)"
  shows "read_frames (length fs + 1) r =
    map (\<lambda>f. Inr (Some f)) fs @ [if p = [] then Inr None else Inl UnexpectedEof]"
  using assms
proof (induction fs arbitrary: r)
  case Nil
  then show ?case
    using carries_Nil [of r] read_frame_cut [of f p q r] by (cases "p = []") (simp_all add: read_frame_def)
next
  case (Cons g fs)
  then have "frame_ok g" "carries r (wire g @ concat (map wire fs) @ p)" by simp_all
  then obtain r' where "read_frame r = Inr (Some g, r')" "carries r' (concat (map wire fs) @ p)"
    using read_frame_carries write_frame_ok by blast
  with Cons show ?case by simp
qed

end
