(* ===== verification/TtyDaemon.thy ===== *)
theory TtyDaemon
  imports TtyProtocol RingBuffer Interfaces "HOL-Library.Sublist"
begin

text \<open>
  The daemon that keeps a shell alive across disconnects: the slot of the one attached client
  (\<^verbatim>\<open>isekai-pipe/src/tty/attach_slot.rs\<close>) and the tasks around it
  (\<^verbatim>\<open>run\<close> and \<^verbatim>\<open>handle_client\<close> of \<^verbatim>\<open>daemon.rs\<close>). The tasks are the pty read loop, and for
  every client a writer and a reader; each runs between its await points in one step, and the steps
  of all tasks interleave in any order. Events carry what the outside decides: the output read, the
  frames a client sends, whether a write succeeds.

  Clients are numbered in the order of their attachment. A channel is the queue of its client; its
  sender lives in the slot, its receiver until the writer ends. A write that fails ends the writer;
  what part of the frame went out is not recorded. The ghost list \<open>td_history\<close> keeps the chunks
  the shell has written.
\<close>

section \<open>The slot\<close>

datatype relay_msg = RM_Data "u8 list" | RM_Exit u8

definition OCCUPANT_CHANNEL_CAPACITY :: nat where "OCCUPANT_CHANNEL_CAPACITY = 256"
definition RING_BUFFER_CAPACITY :: nat where "RING_BUFFER_CAPACITY = 256 * 1024"

record slot_state =
  sl_generation :: u64
  sl_occupant :: "nat option"
  sl_ring :: ring_buffer
  sl_missed :: bool

definition slot_new :: "nat \<Rightarrow> slot_state" where
  "slot_new ring_capacity =
     \<lparr>sl_generation = 0, sl_occupant = None, sl_ring = rbuf_new ring_capacity, sl_missed = False\<rparr>"

definition take_missed :: "u64 \<Rightarrow> slot_state \<Rightarrow> bool \<times> slot_state" where
  "take_missed gen s =
     (if sl_generation s \<noteq> gen then (False, s) else (sl_missed s, s\<lparr>sl_missed := False\<rparr>))"

definition current_replay :: "slot_state \<Rightarrow> u8 list" where
  "current_replay s = rbuf_replay (sl_ring s)"

definition slot_install :: "nat \<Rightarrow> slot_state \<Rightarrow> (u64 \<times> u8 list) \<times> slot_state" where
  "slot_install tx s =
     (let s' = s\<lparr>sl_generation := sl_generation s + 1, sl_occupant := Some tx, sl_missed := False\<rparr> in
      ((sl_generation s', rbuf_replay (sl_ring s')), s'))"

definition is_current :: "u64 \<Rightarrow> slot_state \<Rightarrow> bool" where
  "is_current gen s \<longleftrightarrow> sl_generation s = gen"

definition slot_vacate :: "u64 \<Rightarrow> slot_state \<Rightarrow> slot_state" where
  "slot_vacate gen s = (if sl_generation s = gen then s\<lparr>sl_occupant := None\<rparr> else s)"

section \<open>Clients and the daemon\<close>

text \<open>Where a writer is: about to acknowledge, at the top of its loop, about to send a resync, at
  \<^verbatim>\<open>recv\<close>, about to report the exit, or ended.\<close>

datatype writer_pc = W_Hello "u8 list" | W_Check | W_Resync | W_Recv | W_Exit u8 | W_Done

datatype reader_pc = R_Read | R_Write tty_frame | R_Leaving | R_Done

record tty_client =
  cl_generation :: u64
  cl_queue :: "relay_msg list"
  cl_writer :: writer_pc
  cl_reader :: reader_pc
  cl_sent :: "tty_frame list"

text \<open>What reached the pty: the client, its frame and the number of clients attached so far.\<close>

record tty_daemon =
  td_slot :: slot_state
  td_clients :: "tty_client list"
  td_pty :: "(nat \<times> tty_frame \<times> nat) list"
  td_size :: "u16 \<times> u16"
  td_history :: "u8 list list"

definition daemon_new :: tty_daemon where
  "daemon_new = \<lparr>td_slot = slot_new RING_BUFFER_CAPACITY, td_clients = [], td_pty = [], td_size = (80, 24),
     td_history = []\<rparr>"

definition try_send :: "tty_client \<Rightarrow> relay_msg \<Rightarrow> tty_client option" where
  "try_send c m =
     (if cl_writer c = W_Done \<or> OCCUPANT_CHANNEL_CAPACITY \<le> length (cl_queue c) then None
      else Some (c\<lparr>cl_queue := cl_queue c @ [m]\<rparr>))"

definition set_client :: "nat \<Rightarrow> tty_client \<Rightarrow> tty_daemon \<Rightarrow> tty_daemon" where
  "set_client k c d = d\<lparr>td_clients := (td_clients d)[k := c]\<rparr>"

definition set_slot :: "slot_state \<Rightarrow> tty_daemon \<Rightarrow> tty_daemon" where
  "set_slot s d = d\<lparr>td_slot := s\<rparr>"

definition broadcast :: "u8 list \<Rightarrow> tty_daemon \<Rightarrow> tty_daemon" where
  "broadcast data d =
     (let s = (td_slot d)\<lparr>sl_ring := rbuf_append (sl_ring (td_slot d)) data\<rparr>;
          d = d\<lparr>td_slot := s, td_history := td_history d @ [data]\<rparr> in
      case sl_occupant s of
        None \<Rightarrow> d
      | Some k \<Rightarrow>
         (case try_send (td_clients d ! k) (RM_Data data) of
            Some c \<Rightarrow> set_client k c d
          | None \<Rightarrow> set_slot (s\<lparr>sl_missed := True\<rparr>) d))"

text \<open>One round of \<^verbatim>\<open>notify_exit\<close>, which repeats it, with a pause, until one succeeds.\<close>

definition notify_exit :: "u8 \<Rightarrow> tty_daemon \<Rightarrow> bool \<times> tty_daemon" where
  "notify_exit code d = (case sl_occupant (td_slot d) of
       None \<Rightarrow> (True, d)
     | Some k \<Rightarrow>
        (case try_send (td_clients d ! k) (RM_Exit code) of
           Some c \<Rightarrow> (True, set_client k c d)
         | None \<Rightarrow> (False, d)))"

text \<open>\<^verbatim>\<open>handle_client\<close> up to the spawning of the writer, once the client's hello has arrived.\<close>

definition client_attach :: "u16 \<Rightarrow> u16 \<Rightarrow> tty_daemon \<Rightarrow> tty_daemon" where
  "client_attach cols rows d =
     (let k = length (td_clients d);
          ((gen, replay), s) = slot_install k (td_slot d) in
      d\<lparr>td_size := (cols, rows), td_slot := s,
        td_clients := td_clients d @ [\<lparr>cl_generation = gen, cl_queue = [], cl_writer = W_Hello replay,
          cl_reader = R_Read, cl_sent = []\<rparr>]\<rparr>)"

definition replay_frames :: "u8 list \<Rightarrow> tty_frame list" where
  "replay_frames replay = (if replay = [] then [] else [TF_Stdout replay])"

definition writer_step :: "nat \<Rightarrow> bool \<Rightarrow> tty_daemon \<Rightarrow> tty_daemon" where
  "writer_step k write_ok d =
     (let c = td_clients d ! k; s = td_slot d;
          sends = (\<lambda>fs pc. if write_ok then c\<lparr>cl_sent := cl_sent c @ fs, cl_writer := pc\<rparr>
                           else c\<lparr>cl_writer := W_Done\<rparr>) in
      case cl_writer c of
        W_Hello replay \<Rightarrow> set_client k (sends (TF_HelloAck # replay_frames replay) W_Check) d
      | W_Check \<Rightarrow>
         (let (m, s') = take_missed (cl_generation c) s in
          set_client k (c\<lparr>cl_writer := if m then W_Resync else W_Recv\<rparr>) (set_slot s' d))
      | W_Resync \<Rightarrow> set_client k (sends [TF_Stdout (current_replay s)] W_Recv) d
      | W_Recv \<Rightarrow>
         (case cl_queue c of
            RM_Data data # q \<Rightarrow> set_client k ((sends [TF_Stdout data] W_Check)\<lparr>cl_queue := q\<rparr>) d
          | RM_Exit code # q \<Rightarrow> set_client k (c\<lparr>cl_queue := q, cl_writer := W_Exit code\<rparr>) d
          | [] \<Rightarrow> if sl_occupant s = Some k then d else set_client k (sends [TF_Preempted] W_Done) d)
      | W_Exit code \<Rightarrow> set_client k (sends [TF_Stdout (current_replay s), TF_Exit code] W_Done) d
      | W_Done \<Rightarrow> d)"

text \<open>A frame arrives at a reader, which checks that its client is still the current one.\<close>

definition reader_frame :: "nat \<Rightarrow> tty_frame \<Rightarrow> tty_daemon \<Rightarrow> tty_daemon" where
  "reader_frame k frame d =
     (let c = td_clients d ! k in
      if cl_reader c \<noteq> R_Read then d
      else if \<not> is_current (cl_generation c) (td_slot d)
      then set_client k (c\<lparr>cl_reader := R_Leaving\<rparr>) (set_slot (slot_vacate (cl_generation c) (td_slot d)) d)
      else set_client k (c\<lparr>cl_reader := R_Write frame\<rparr>) d)"

text \<open>The write to the pty that follows; other tasks may have run in between.\<close>

definition reader_write :: "nat \<Rightarrow> bool \<Rightarrow> tty_daemon \<Rightarrow> tty_daemon" where
  "reader_write k write_ok d =
     (let c = td_clients d ! k in
      case cl_reader c of
        R_Write frame \<Rightarrow>
         (case frame of
            TF_Stdin data \<Rightarrow>
              if write_ok
              then set_client k (c\<lparr>cl_reader := R_Read\<rparr>)
                     (d\<lparr>td_pty := td_pty d @ [(k, frame, length (td_clients d))]\<rparr>)
              else set_client k (c\<lparr>cl_reader := R_Leaving\<rparr>)
                     (set_slot (slot_vacate (cl_generation c) (td_slot d)) d)
          | TF_Resize cols rows \<Rightarrow>
              set_client k (c\<lparr>cl_reader := R_Read\<rparr>)
                (d\<lparr>td_size := (if write_ok then (cols, rows) else td_size d),
                   td_pty := td_pty d @ [(k, frame, length (td_clients d))]\<rparr>)
          | _ \<Rightarrow> set_client k (c\<lparr>cl_reader := R_Read\<rparr>) d)
      | _ \<Rightarrow> d)"

text \<open>The stream of a client ends or is malformed: it leaves the slot and then aborts its writer.\<close>

definition reader_eof :: "nat \<Rightarrow> tty_daemon \<Rightarrow> tty_daemon" where
  "reader_eof k d =
     (let c = td_clients d ! k in
      if cl_reader c \<noteq> R_Read then d
      else set_client k (c\<lparr>cl_reader := R_Leaving\<rparr>) (set_slot (slot_vacate (cl_generation c) (td_slot d)) d))"

definition reader_abort :: "nat \<Rightarrow> tty_daemon \<Rightarrow> tty_daemon" where
  "reader_abort k d =
     (let c = td_clients d ! k in
      if cl_reader c \<noteq> R_Leaving then d
      else set_client k (c\<lparr>cl_reader := R_Done, cl_writer := W_Done\<rparr>) d)"

datatype tty_event =
    TE_Output "u8 list"
  | TE_ShellExit u8
  | TE_Attach u16 u16
  | TE_Writer nat bool
  | TE_Frame nat tty_frame
  | TE_PtyWrite nat bool
  | TE_Eof nat
  | TE_Abort nat

text \<open>A read of no bytes ends the read loop; an event for a client that does not exist is none.\<close>

fun tty_step :: "tty_daemon \<Rightarrow> tty_event \<Rightarrow> tty_daemon" where
  "tty_step d (TE_Output data) = (if data = [] then d else broadcast data d)"
| "tty_step d (TE_ShellExit code) = snd (notify_exit code d)"
| "tty_step d (TE_Attach cols rows) = client_attach cols rows d"
| "tty_step d (TE_Writer k w) = (if k < length (td_clients d) then writer_step k w d else d)"
| "tty_step d (TE_Frame k f) = (if k < length (td_clients d) then reader_frame k f d else d)"
| "tty_step d (TE_PtyWrite k w) = (if k < length (td_clients d) then reader_write k w d else d)"
| "tty_step d (TE_Eof k) = (if k < length (td_clients d) then reader_eof k d else d)"
| "tty_step d (TE_Abort k) = (if k < length (td_clients d) then reader_abort k d else d)"

definition tty_run :: "tty_event list \<Rightarrow> tty_daemon" where
  "tty_run es = foldl tty_step daemon_new es"

section \<open>What a client has seen\<close>

fun datas :: "relay_msg list \<Rightarrow> u8 list list" where
  "datas [] = []"
| "datas (RM_Data x # q) = x # datas q"
| "datas (RM_Exit _ # q) = datas q"

lemma datas_append [simp]: "datas (q @ q') = datas q @ datas q'"
  by (induction q rule: datas.induct) simp_all

text \<open>The replay of the history as it was after \<open>p\<close> chunks.\<close>

definition replay_at :: "u8 list list \<Rightarrow> nat \<Rightarrow> u8 list" where
  "replay_at hist p = rbuf_replay (foldl rbuf_append (rbuf_new RING_BUFFER_CAPACITY) (take p hist))"

text \<open>
  With what is still queued, the client has, after some earlier frames, a snapshot of the history
  and every chunk written since; between the two come chunks that the snapshot already holds.
\<close>

definition complete_with :: "u8 list list \<Rightarrow> tty_frame list \<Rightarrow> u8 list list \<Rightarrow> bool" where
  "complete_with hist sent queued \<longleftrightarrow>
     (\<exists>pre snap p old shown. p \<le> length hist \<and> subseq old (take p hist) \<and>
        (snap = replay_frames (replay_at hist p) \<or> snap = [TF_Stdout (replay_at hist p)]) \<and>
        sent = pre @ snap @ map TF_Stdout shown \<and> shown @ queued = old @ drop p hist)"

lemma complete_withI:
  "p \<le> length hist \<Longrightarrow> subseq old (take p hist) \<Longrightarrow>
   snap = replay_frames (replay_at hist p) \<or> snap = [TF_Stdout (replay_at hist p)] \<Longrightarrow>
   sent = pre @ snap @ map TF_Stdout shown \<Longrightarrow> shown @ queued = old @ drop p hist \<Longrightarrow>
   complete_with hist sent queued"
  unfolding complete_with_def by blast

lemma complete_with_output:
  assumes "complete_with hist sent q"
  shows "complete_with (hist @ [x]) sent (q @ [x])"
proof -
  from assms obtain pre snap p old shown where h: "p \<le> length hist" "subseq old (take p hist)"
    "snap = replay_frames (replay_at hist p) \<or> snap = [TF_Stdout (replay_at hist p)]"
    "sent = pre @ snap @ map TF_Stdout shown" "shown @ q = old @ drop p hist"
    unfolding complete_with_def by blast
  show ?thesis
    by (rule complete_withI [of p _ old snap _ pre shown]) (use h in \<open>simp_all add: replay_at_def\<close>)
qed

lemma complete_with_send:
  assumes "complete_with hist sent (x # q)"
  shows "complete_with hist (sent @ [TF_Stdout x]) q"
proof -
  from assms obtain pre snap p old shown where h: "p \<le> length hist" "subseq old (take p hist)"
    "snap = replay_frames (replay_at hist p) \<or> snap = [TF_Stdout (replay_at hist p)]"
    "sent = pre @ snap @ map TF_Stdout shown" "shown @ x # q = old @ drop p hist"
    unfolding complete_with_def by blast
  show ?thesis
    by (rule complete_withI [of p _ old snap _ pre "shown @ [x]"]) (use h in simp_all)
qed

lemma complete_with_resync:
  "subseq q hist \<Longrightarrow> complete_with hist (sent @ [TF_Stdout (replay_at hist (length hist))]) q"
  by (rule complete_withI [of "length hist" _ q _ _ sent "[]"]) auto

lemma complete_with_attach:
  "complete_with hist (TF_HelloAck # replay_frames (replay_at hist (length hist))) []"
  by (rule complete_withI [of "length hist" _ "[]" _ _ "[TF_HelloAck]" "[]"]) auto

section \<open>Invariants\<close>

text \<open>What holds of the writer of the attached client: it is complete, or the drop of a chunk is still
  flagged and the writer will look at the flag before it waits for the channel again.\<close>

definition synced :: "bool \<Rightarrow> u8 list list \<Rightarrow> tty_client \<Rightarrow> bool" where
  "synced missed hist c = (case cl_writer c of
       W_Hello replay \<Rightarrow> missed \<or> complete_with hist (cl_sent c @ TF_HelloAck # replay_frames replay) (datas (cl_queue c))
     | W_Check \<Rightarrow> missed \<or> complete_with hist (cl_sent c) (datas (cl_queue c))
     | W_Resync \<Rightarrow> missed \<longrightarrow> cl_queue c \<noteq> []
     | W_Recv \<Rightarrow> if missed then cl_queue c \<noteq> [] else complete_with hist (cl_sent c) (datas (cl_queue c))
     | _ \<Rightarrow> True)"

definition numbered :: "tty_daemon \<Rightarrow> bool" where
  "numbered d \<longleftrightarrow>
     sl_generation (td_slot d) = word_of_nat (length (td_clients d)) \<and>
     (\<forall>k < length (td_clients d). cl_generation (td_clients d ! k) = word_of_nat (Suc k)) \<and>
     (\<forall>k. sl_occupant (td_slot d) = Some k \<longrightarrow> Suc k = length (td_clients d))"

definition history_inv :: "tty_daemon \<Rightarrow> bool" where
  "history_inv d \<longleftrightarrow>
     sl_ring (td_slot d) = foldl rbuf_append (rbuf_new RING_BUFFER_CAPACITY) (td_history d) \<and>
     (\<forall>c \<in> set (td_clients d). subseq (datas (cl_queue c)) (td_history d))"

definition occupant_inv :: "tty_daemon \<Rightarrow> bool" where
  "occupant_inv d \<longleftrightarrow>
     (\<forall>k. sl_occupant (td_slot d) = Some k \<longrightarrow> synced (sl_missed (td_slot d)) (td_history d) (td_clients d ! k))"

text \<open>Frames of a client that reached the pty after a newer client had attached.\<close>

definition stale_writes :: "nat \<Rightarrow> tty_daemon \<Rightarrow> (nat \<times> tty_frame \<times> nat) list" where
  "stale_writes k d = filter (\<lambda>(j, f, n). j = k \<and> n \<noteq> Suc k) (td_pty d)"

definition fenced :: "tty_daemon \<Rightarrow> bool" where
  "fenced d \<longleftrightarrow> list_all (\<lambda>(j, f, n). j < length (td_clients d)) (td_pty d) \<and>
     (\<forall>k < length (td_clients d). stale_writes k d = [] \<or>
        length (stale_writes k d) = 1 \<and> Suc k < length (td_clients d) \<and>
        (\<forall>f. cl_reader (td_clients d ! k) \<noteq> R_Write f))"

lemmas tty_step_defs = broadcast_def notify_exit_def client_attach_def writer_step_def reader_frame_def
  reader_write_def reader_eof_def reader_abort_def set_client_def set_slot_def slot_install_def
  slot_vacate_def take_missed_def is_current_def current_replay_def try_send_def Let_def

lemma tty_clients_mono: "length (td_clients d) \<le> length (td_clients (tty_step d e))"
  by (cases e) (auto simp: tty_step_defs split: option.splits writer_pc.splits list.splits relay_msg.splits
      reader_pc.splits tty_frame.splits)

lemma generation_unique:
  assumes "numbered d" "k < length (td_clients d)" "length (td_clients d) < 2 ^ 64"
  shows "cl_generation (td_clients d ! k) = sl_generation (td_slot d) \<longleftrightarrow> Suc k = length (td_clients d)"
proof -
  have "unat (word_of_nat (Suc k) :: u64) = Suc k" "unat (word_of_nat (length (td_clients d)) :: u64) = length (td_clients d)"
    using assms by (simp_all add: unat_of_nat del: of_nat_Suc)
  moreover have "cl_generation (td_clients d ! k) = word_of_nat (Suc k)"
    "sl_generation (td_slot d) = word_of_nat (length (td_clients d))"
    using assms(1,2) by (simp_all add: numbered_def del: of_nat_Suc)
  ultimately show ?thesis by metis
qed

lemma numbered_step: "numbered d \<Longrightarrow> numbered (tty_step d e)"
  by (cases e) (auto simp: numbered_def tty_step_defs nth_append nth_list_update less_Suc_eq
      split: option.splits writer_pc.splits list.splits relay_msg.splits reader_pc.splits tty_frame.splits)

lemma subseq_snoc: "subseq q h \<Longrightarrow> subseq (q @ [x]) (h @ [x])"
  by (simp add: list_emb_append_mono)

lemma subseq_more: "subseq q h \<Longrightarrow> subseq q (h @ [x])"
  using list_emb_append_mono [of "(=)" q h "[]" "[x]"] by simp

lemma subseq_datas_tl: "subseq (datas (m # q)) h \<Longrightarrow> subseq (datas q) h"
  by (cases m) (auto dest: subseq_Cons')

lemma nth_update: "xs[k := x] ! j = (if j = k \<and> k < length xs then x else xs ! j)"
  by (cases "k < length xs") (auto simp: nth_list_update list_update_beyond)

lemmas in_update = set_update_subset_insert [THEN subsetD]

lemma history_inv_slot_client:
  "history_inv d \<Longrightarrow> subseq (datas (cl_queue c)) (td_history d) \<Longrightarrow> sl_ring s = sl_ring (td_slot d) \<Longrightarrow>
   history_inv (set_client k c (set_slot s d)) \<and> history_inv (set_client k c d)"
  unfolding history_inv_def set_client_def set_slot_def by (auto dest!: in_update)

lemma history_inv_client_queue:
  "history_inv d \<Longrightarrow> k < length (td_clients d) \<Longrightarrow> subseq (datas (cl_queue (td_clients d ! k))) (td_history d)"
  unfolding history_inv_def by auto

lemma history_inv_broadcast:
  assumes "history_inv d" "numbered d"
  shows "history_inv (broadcast data d)"
proof -
  let ?h = "td_history d @ [data]"
  have q: "subseq (datas (cl_queue c)) (td_history d)" if "c \<in> set (td_clients d)" for c
    using assms(1) that by (simp add: history_inv_def)
  have k: "td_clients d ! k \<in> set (td_clients d)" if "sl_occupant (td_slot d) = Some k" for k
    using assms(2) that by (simp add: numbered_def)
  show ?thesis
    unfolding history_inv_def broadcast_def Let_def try_send_def set_client_def set_slot_def
    using assms(1) q k
    by (auto simp: history_inv_def subseq_more subseq_snoc split: option.splits
        dest!: in_update)
qed

lemma history_inv_step:
  assumes "history_inv d" "numbered d"
  shows "history_inv (tty_step d e)"
proof (cases e)
  case (TE_Output data)
  with assms history_inv_broadcast show ?thesis by simp
next
  case (TE_ShellExit code)
  have "subseq (datas (cl_queue (td_clients d ! k))) (td_history d)" if "sl_occupant (td_slot d) = Some k" for k
    using assms that by (intro history_inv_client_queue) (auto simp: numbered_def)
  with assms(1) TE_ShellExit show ?thesis
    by (auto simp: notify_exit_def try_send_def history_inv_slot_client split: option.splits)
next
  case (TE_Attach cols rows)
  with assms(1) show ?thesis by (auto simp: history_inv_def client_attach_def slot_install_def Let_def)
next
  case (TE_Writer k w)
  show ?thesis
  proof (cases "k < length (td_clients d)")
    case True
    note q = history_inv_client_queue [OF assms(1) True]
    have "subseq (datas q') (td_history d)" if "cl_queue (td_clients d ! k) = m # q'" for m q'
      using q that subseq_datas_tl by metis
    with q TE_Writer True assms(1) show ?thesis
      by (auto simp: writer_step_def Let_def take_missed_def history_inv_slot_client
          split: writer_pc.splits list.splits relay_msg.splits)
  qed (use TE_Writer assms in simp)
next
  case (TE_PtyWrite k w)
  with assms(1) show ?thesis
    using history_inv_client_queue [OF assms(1), of k]
    by (auto simp: reader_write_def slot_vacate_def history_inv_def set_client_def set_slot_def Let_def
        dest!: in_update split: reader_pc.splits tty_frame.splits)
qed (use assms(1) history_inv_client_queue [OF assms(1)] in
    \<open>auto simp: reader_frame_def reader_eof_def reader_abort_def slot_vacate_def Let_def history_inv_slot_client\<close>)

text \<open>Only the current client can take the flag or leave the slot.\<close>

lemma occupant_current:
  assumes "numbered d" "sl_occupant (td_slot d) = Some k"
  shows "k < length (td_clients d)" "cl_generation (td_clients d ! k) = sl_generation (td_slot d)"
proof -
  from assms have "Suc k = length (td_clients d)" by (simp add: numbered_def)
  then show "k < length (td_clients d)" by simp
  with assms(1) \<open>Suc k = length (td_clients d)\<close>
  show "cl_generation (td_clients d ! k) = sl_generation (td_slot d)" by (simp add: numbered_def del: of_nat_Suc)
qed

lemma synced_cong:
  "synced m h c \<Longrightarrow> cl_writer c' = cl_writer c \<Longrightarrow> cl_sent c' = cl_sent c \<Longrightarrow> cl_queue c' = cl_queue c \<Longrightarrow> synced m h c'"
  by (auto simp: synced_def split: writer_pc.splits)

lemma synced_output:
  assumes "synced m h c" "try_send c (RM_Data x) = Some c'"
  shows "synced m (h @ [x]) c'"
  using assms complete_with_output [of h _ "datas (cl_queue c)" x]
  by (auto simp: try_send_def synced_def split: if_splits writer_pc.splits)

lemma synced_missed:
  assumes "try_send c (RM_Data x) = None"
  shows "synced True h c"
  using assms by (auto simp: try_send_def synced_def OCCUPANT_CHANNEL_CAPACITY_def split: if_splits writer_pc.splits)

lemma synced_exit:
  assumes "synced m h c" "try_send c (RM_Exit x) = Some c'"
  shows "synced m h c'"
  using assms by (auto simp: try_send_def synced_def split: if_splits writer_pc.splits)

lemma occupant_inv_broadcast:
  assumes "occupant_inv d" "numbered d"
  shows "occupant_inv (broadcast data d)"
proof (cases "sl_occupant (td_slot d)")
  case None
  then show ?thesis by (simp add: occupant_inv_def broadcast_def Let_def)
next
  case (Some k)
  note c = occupant_current [OF assms(2) Some]
  from assms(1) Some have "synced (sl_missed (td_slot d)) (td_history d) (td_clients d ! k)"
    by (simp add: occupant_inv_def)
  then show ?thesis
    using c(1) Some synced_output synced_missed
    by (auto simp: occupant_inv_def broadcast_def Let_def set_client_def set_slot_def split: option.splits)
qed

lemma occupant_inv_writer:
  assumes "occupant_inv d" "numbered d" "history_inv d" "k < length (td_clients d)" "length (td_clients d) < 2 ^ 64"
  shows "occupant_inv (writer_step k w d)"
proof (cases "sl_occupant (td_slot d) = Some k")
  case True
  note gen = occupant_current(2) [OF assms(2) True]
  from assms(1) True have s: "synced (sl_missed (td_slot d)) (td_history d) (td_clients d ! k)"
    by (simp add: occupant_inv_def)
  have q: "subseq (datas (cl_queue (td_clients d ! k))) (td_history d)"
    using history_inv_client_queue [OF assms(3,4)] .
  have r: "current_replay (td_slot d) = replay_at (td_history d) (length (td_history d))"
    using assms(3) by (simp add: history_inv_def current_replay_def replay_at_def)
  let ?c = "td_clients d ! k"
  show ?thesis
  proof (cases "cl_writer ?c")
    case W_Recv
    show ?thesis
    proof (cases "cl_queue ?c")
      case (Cons m q')
      with W_Recv s True assms(4) complete_with_send show ?thesis
        by (cases m; cases w) (auto simp: writer_step_def Let_def occupant_inv_def synced_def set_client_def split: if_splits)
    qed (use W_Recv True assms(1) in \<open>simp add: writer_step_def\<close>)
  next
    case W_Resync
    with s True assms(4) complete_with_resync [OF q] r show ?thesis
      by (cases w) (simp_all add: writer_step_def Let_def occupant_inv_def synced_def set_client_def)
  next
    case W_Check
    with s True assms(4) gen show ?thesis
      by (cases "sl_missed (td_slot d)")
        (simp_all add: writer_step_def Let_def occupant_inv_def synced_def set_client_def set_slot_def take_missed_def)
  next
    case W_Hello
    with s True assms(4) show ?thesis
      by (cases w) (simp_all add: writer_step_def Let_def occupant_inv_def synced_def set_client_def)
  next
    case W_Exit
    with True assms(4) show ?thesis
      by (cases w) (simp_all add: writer_step_def Let_def occupant_inv_def synced_def set_client_def)
  next
    case W_Done
    with assms(1) show ?thesis by (simp add: writer_step_def)
  qed
next
  case False
  have other: "td_clients (writer_step k w d) ! j = td_clients d ! j" if "j \<noteq> k" for j
    using that by (auto simp: writer_step_def Let_def set_client_def set_slot_def take_missed_def
        split: writer_pc.splits list.splits relay_msg.splits)
  have occ: "sl_occupant (td_slot (writer_step k w d)) = sl_occupant (td_slot d)"
    "td_history (writer_step k w d) = td_history d"
    by (auto simp: writer_step_def Let_def set_client_def set_slot_def take_missed_def
        split: writer_pc.splits list.splits relay_msg.splits)
  have "sl_missed (td_slot (writer_step k w d)) = sl_missed (td_slot d)" if "sl_occupant (td_slot d) = Some j" for j
  proof -
    from that assms(2) have "Suc j = length (td_clients d)" by (simp add: numbered_def)
    with that False have "cl_generation (td_clients d ! k) \<noteq> sl_generation (td_slot d)"
      using generation_unique [OF assms(2,4,5)] by auto
    then show ?thesis
      by (auto simp: writer_step_def Let_def set_client_def set_slot_def take_missed_def
          split: writer_pc.splits list.splits relay_msg.splits)
  qed
  with assms(1) False other occ show ?thesis by (auto simp: occupant_inv_def)
qed

lemma occupant_inv_leave:
  assumes "occupant_inv d" "cl_writer c = cl_writer (td_clients d ! k)" "cl_sent c = cl_sent (td_clients d ! k)"
    "cl_queue c = cl_queue (td_clients d ! k)"
  shows "occupant_inv (set_client k c d)" "occupant_inv (set_client k c (set_slot (slot_vacate g (td_slot d)) d))"
  using assms
  by (auto simp: occupant_inv_def set_client_def set_slot_def slot_vacate_def nth_update intro: synced_cong)

lemma occupant_inv_step:
  assumes "occupant_inv d" "numbered d" "history_inv d" "length (td_clients d) < 2 ^ 64"
  shows "occupant_inv (tty_step d e)"
proof (cases e)
  case (TE_Output data)
  with assms occupant_inv_broadcast show ?thesis by simp
next
  case (TE_ShellExit code)
  with assms occupant_current [OF assms(2)] synced_exit show ?thesis
    by (auto simp: notify_exit_def occupant_inv_def set_client_def split: option.splits)
next
  case (TE_Attach cols rows)
  have "sl_ring (td_slot d) = foldl rbuf_append (rbuf_new RING_BUFFER_CAPACITY) (td_history d)"
    using assms(3) by (simp add: history_inv_def)
  with complete_with_attach [of "td_history d"] TE_Attach show ?thesis
    by (simp add: client_attach_def slot_install_def Let_def occupant_inv_def synced_def replay_at_def)
next
  case (TE_Writer k w)
  with assms occupant_inv_writer show ?thesis by simp
next
  case (TE_PtyWrite k w)
  with assms(1) show ?thesis
    by (auto simp: reader_write_def Let_def occupant_inv_leave split: reader_pc.splits tty_frame.splits)
      (auto simp: occupant_inv_def set_client_def nth_update intro: synced_cong)
next
  case (TE_Abort k)
  moreover have "synced m h (c\<lparr>cl_reader := R_Done, cl_writer := W_Done\<rparr>)" for m h c by (simp add: synced_def)
  ultimately show ?thesis
    using assms(1) by (simp add: reader_abort_def Let_def occupant_inv_def set_client_def nth_update)
qed (use assms(1) in \<open>auto simp: reader_frame_def reader_eof_def Let_def occupant_inv_leave\<close>)

lemma fenced_mono:
  assumes "fenced d" "td_pty d' = td_pty d" "length (td_clients d) \<le> length (td_clients d')"
    and "\<And>k f. Suc k < length (td_clients d) \<Longrightarrow> cl_reader (td_clients d' ! k) = R_Write f \<Longrightarrow>
      \<exists>g. cl_reader (td_clients d ! k) = R_Write g"
  shows "fenced d'"
proof -
  have new: "stale_writes k d' = []" if "\<not> k < length (td_clients d)" for k
    using that assms(1,2) by (auto simp: fenced_def stale_writes_def list_all_iff filter_empty_conv)
  have "stale_writes k d' = stale_writes k d" for k by (simp add: stale_writes_def assms(2))
  with new assms show ?thesis
    by (auto simp: fenced_def list_all_iff) (metis (no_types, lifting) less_le_trans not_less)+
qed

lemma fenced_step:
  assumes "fenced d" "numbered d" "length (td_clients d) < 2 ^ 64"
  shows "fenced (tty_step d e)"
proof (cases "\<exists>k w. e = TE_PtyWrite k w")
  case False
  have stale: "cl_generation (td_clients d ! k) \<noteq> sl_generation (td_slot d)" if "Suc k < length (td_clients d)" for k
    using generation_unique [OF assms(2) _ assms(3), of k] that by auto
  show ?thesis
  proof (rule fenced_mono [OF assms(1) _ tty_clients_mono])
    show "td_pty (tty_step d e) = td_pty d" using False
      by (cases e) (auto simp: tty_step_defs split: option.splits writer_pc.splits list.splits relay_msg.splits)
  next
    fix k f
    assume "Suc k < length (td_clients d)" "cl_reader (td_clients (tty_step d e) ! k) = R_Write f"
    with False stale [of k] show "\<exists>g. cl_reader (td_clients d ! k) = R_Write g"
      by (cases e) (auto simp: tty_step_defs nth_update nth_append
          split: option.splits writer_pc.splits list.splits relay_msg.splits if_splits)
  qed
next
  case True
  then obtain k w where e: "e = TE_PtyWrite k w" by blast
  show ?thesis
  proof (cases "k < length (td_clients d) \<and> (\<exists>f. cl_reader (td_clients d ! k) = R_Write f)")
    case True
    then obtain f where f: "k < length (td_clients d)" "cl_reader (td_clients d ! k) = R_Write f" by blast
    with assms(1) have "stale_writes k d = []" by (auto simp: fenced_def)
    with assms(1) f e show ?thesis
      by (auto simp: fenced_def stale_writes_def reader_write_def Let_def set_client_def set_slot_def nth_update
          split: tty_frame.splits)
  next
    case False
    then have "tty_step d e = d" by (auto simp: e reader_write_def Let_def split: reader_pc.splits)
    with assms(1) show ?thesis by simp
  qed
qed

text \<open>All of it, while generations have not wrapped.\<close>

definition tty_inv :: "tty_daemon \<Rightarrow> bool" where
  "tty_inv d \<longleftrightarrow> numbered d \<and>
     (length (td_clients d) < 2 ^ 64 \<longrightarrow> history_inv d \<and> occupant_inv d \<and> fenced d)"

interpretation td: reducer "\<lambda>d e. (tty_step d e, [])" tty_inv
proof
  fix d e
  assume "tty_inv d"
  then show "tty_inv (fst (tty_step d e, []))"
    using tty_clients_mono [of d e]
    by (simp add: tty_inv_def numbered_step history_inv_step occupant_inv_step fenced_step)
qed

lemma run_foldl: "fst (run (\<lambda>d e. (tty_step d e, [])) d es) = foldl tty_step d es"
  by (induction es arbitrary: d) simp_all

lemma tty_inv_run: "tty_inv (tty_run es)"
proof -
  have "tty_inv daemon_new"
    by (simp add: tty_inv_def daemon_new_def numbered_def history_inv_def occupant_inv_def fenced_def slot_new_def)
  from td.inv_run [OF this, of es] show ?thesis by (simp add: tty_run_def run_foldl)
qed

lemma broadcast_frames_fit: "length (replay_at hist p) \<le> RING_BUFFER_CAPACITY + 2"
  using foldl_append_suffix [of "rbuf_new RING_BUFFER_CAPACITY" "[]" "take p hist"]
  by (simp add: replay_at_def rbuf_replay_def SOFT_RESET_def rbuf_new_def suffix_of_def) linarith

section \<open>A burst\<close>

lemma outputs_queue:
  "sl_occupant (td_slot d) = Some 0 \<Longrightarrow> td_clients d = [c] \<Longrightarrow> cl_writer c \<noteq> W_Done \<Longrightarrow>
   length (cl_queue c) + length xs \<le> OCCUPANT_CHANNEL_CAPACITY \<Longrightarrow> list_all (\<lambda>x. x \<noteq> []) xs \<Longrightarrow>
   foldl tty_step d (map TE_Output xs) =
     d\<lparr>td_slot := (td_slot d)\<lparr>sl_ring := foldl rbuf_append (sl_ring (td_slot d)) xs\<rparr>,
       td_history := td_history d @ xs, td_clients := [c\<lparr>cl_queue := cl_queue c @ map RM_Data xs\<rparr>]\<rparr>"
proof (induction xs arbitrary: d c)
  case (Cons x xs)
  let ?c = "c\<lparr>cl_queue := cl_queue c @ [RM_Data x]\<rparr>"
  let ?d = "d\<lparr>td_slot := (td_slot d)\<lparr>sl_ring := rbuf_append (sl_ring (td_slot d)) x\<rparr>,
    td_history := td_history d @ [x], td_clients := [?c]\<rparr>"
  have "tty_step d (TE_Output x) = ?d"
    using Cons.prems by (simp add: broadcast_def try_send_def set_client_def)
  with Cons.IH [of ?d ?c] Cons.prems show ?case by simp
qed simp

lemma drain_queue:
  "td_clients d = [c] \<Longrightarrow> cl_writer c = W_Check \<Longrightarrow> cl_queue c = map RM_Data xs \<Longrightarrow>
   sl_generation (td_slot d) = cl_generation c \<Longrightarrow> \<not> sl_missed (td_slot d) \<Longrightarrow>
   cl_sent (td_clients (foldl tty_step d (replicate (2 * length xs) (TE_Writer 0 True))) ! 0) =
     cl_sent c @ map TF_Stdout xs"
proof (induction xs arbitrary: d c)
  case (Cons x xs)
  define e where "e = tty_step (tty_step d (TE_Writer 0 True)) (TE_Writer 0 True)"
  let ?c = "c\<lparr>cl_writer := W_Check, cl_queue := map RM_Data xs, cl_sent := cl_sent c @ [TF_Stdout x]\<rparr>"
  have "td_clients e = [?c] \<and> td_slot e = td_slot d"
    using Cons.prems by (auto simp: e_def writer_step_def take_missed_def set_client_def set_slot_def)
  with Cons.IH [of e ?c] Cons.prems show ?case by (simp add: e_def)
qed simp

lemma burst_run:
  assumes "length (x # z # xs) = OCCUPANT_CHANNEL_CAPACITY" "list_all (\<lambda>c. c \<noteq> []) (x # z # xs @ [y])"
  shows "cl_sent (td_clients (tty_run ([TE_Attach 80 24, TE_Writer 0 True, TE_Writer 0 True] @
      map TE_Output (x # z # xs) @ [TE_Output y] @ replicate (4 + 2 * length xs) (TE_Writer 0 True))) ! 0) =
    [TF_HelloAck, TF_Stdout x, TF_Stdout (replay_at (x # z # xs @ [y]) (length (x # z # xs @ [y]))), TF_Stdout z]
      @ map TF_Stdout xs"
proof -
  define d0 where "d0 = tty_run [TE_Attach 80 24, TE_Writer 0 True, TE_Writer 0 True]"
  have d0: "sl_occupant (td_slot d0) = Some 0" "sl_missed (td_slot d0) = False" "sl_generation (td_slot d0) = 1"
    "sl_ring (td_slot d0) = rbuf_new RING_BUFFER_CAPACITY" "td_history d0 = []"
    "td_clients d0 = [\<lparr>cl_generation = 1, cl_queue = [], cl_writer = W_Recv, cl_reader = R_Read, cl_sent = [TF_HelloAck]\<rparr>]"
    by (simp_all add: d0_def tty_run_def daemon_new_def slot_new_def tty_step_defs rbuf_new_def rbuf_replay_def
        replay_frames_def)
  define d1 where "d1 = foldl tty_step d0 (map TE_Output (x # z # xs))"
  have "d1 = d0\<lparr>td_slot := (td_slot d0)\<lparr>sl_ring := foldl rbuf_append (sl_ring (td_slot d0)) (x # z # xs)\<rparr>,
       td_history := td_history d0 @ x # z # xs,
       td_clients := [\<lparr>cl_generation = 1, cl_queue = map RM_Data (x # z # xs), cl_writer = W_Recv, cl_reader = R_Read,
         cl_sent = [TF_HelloAck]\<rparr>]\<rparr>"
    unfolding d1_def using outputs_queue [OF d0(1,6), of "x # z # xs"] assms by simp
  with d0 have d1: "sl_occupant (td_slot d1) = Some 0" "sl_missed (td_slot d1) = False" "sl_generation (td_slot d1) = 1"
    "sl_ring (td_slot d1) = foldl rbuf_append (rbuf_new RING_BUFFER_CAPACITY) (x # z # xs)"
    "td_clients d1 = [\<lparr>cl_generation = 1, cl_queue = map RM_Data (x # z # xs), cl_writer = W_Recv, cl_reader = R_Read,
         cl_sent = [TF_HelloAck]\<rparr>]"
    by simp_all
  define R where "R = foldl rbuf_append (rbuf_new RING_BUFFER_CAPACITY) (x # z # xs @ [y])"
  let ?c = "\<lambda>q pc sent. \<lparr>cl_generation = 1, cl_queue = q, cl_writer = pc, cl_reader = R_Read, cl_sent = sent\<rparr>"
  let ?at = "\<lambda>d m c. sl_occupant (td_slot d) = Some 0 \<and> sl_missed (td_slot d) = m \<and> sl_generation (td_slot d) = 1 \<and>
    sl_ring (td_slot d) = R \<and> td_clients d = [c]"
  define d2 where "d2 = tty_step d1 (TE_Output y)"
  have d2: "?at d2 True (?c (RM_Data x # RM_Data z # map RM_Data xs) W_Recv [TF_HelloAck])"
    using d1 assms by (simp add: d2_def R_def broadcast_def try_send_def set_slot_def)
  define d3 where "d3 = tty_step d2 (TE_Writer 0 True)"
  have d3: "?at d3 True (?c (RM_Data z # map RM_Data xs) W_Check [TF_HelloAck, TF_Stdout x])"
    using d2 by (simp add: d3_def writer_step_def set_client_def)
  define d4 where "d4 = tty_step d3 (TE_Writer 0 True)"
  have d4: "?at d4 False (?c (RM_Data z # map RM_Data xs) W_Resync [TF_HelloAck, TF_Stdout x])"
    using d3 by (simp add: d4_def writer_step_def take_missed_def set_client_def set_slot_def)
  define d5 where "d5 = tty_step d4 (TE_Writer 0 True)"
  have d5: "?at d5 False (?c (RM_Data z # map RM_Data xs) W_Recv [TF_HelloAck, TF_Stdout x, TF_Stdout (rbuf_replay R)])"
    using d4 by (simp add: d5_def writer_step_def set_client_def current_replay_def)
  define d6 where "d6 = tty_step d5 (TE_Writer 0 True)"
  have d6: "?at d6 False (?c (map RM_Data xs) W_Check
      [TF_HelloAck, TF_Stdout x, TF_Stdout (rbuf_replay R), TF_Stdout z])"
    using d5 by (simp add: d6_def writer_step_def set_client_def)
  have "cl_sent (td_clients (foldl tty_step d6 (replicate (2 * length xs) (TE_Writer 0 True))) ! 0) =
      [TF_HelloAck, TF_Stdout x, TF_Stdout (rbuf_replay R), TF_Stdout z] @ map TF_Stdout xs"
    using d6 by (subst drain_queue [where xs = xs]) auto
  moreover have "tty_run ([TE_Attach 80 24, TE_Writer 0 True, TE_Writer 0 True] @
      map TE_Output (x # z # xs) @ [TE_Output y] @ replicate (4 + 2 * length xs) (TE_Writer 0 True)) =
      foldl tty_step d6 (replicate (2 * length xs) (TE_Writer 0 True))"
  proof -
    have four: "replicate (4 + n) (TE_Writer 0 True) =
        [TE_Writer 0 True, TE_Writer 0 True, TE_Writer 0 True, TE_Writer 0 True] @ replicate n (TE_Writer 0 True)" for n
      by (simp add: numeral_eq_Suc)
    show ?thesis
      unfolding tty_run_def d6_def d5_def d4_def d3_def d2_def d1_def d0_def four
      by (simp only: foldl_append foldl_Cons foldl_Nil append_Cons append_Nil)
  qed
  ultimately show ?thesis by (simp add: R_def replay_at_def)
qed

section \<open>Properties\<close>

text \<open>C8. However output, attachments, slow writes, disconnects and preemptions interleave, whenever the
  writer of the attached client waits for more, that client has been sent a snapshot of the recent
  output and after it every chunk the shell has written since, in order, with nothing dropped, even
  if its channel overflowed; between the two there may be chunks that the snapshot already holds.\<close>

theorem tty_idle_client_complete:
  assumes "d = tty_run es" "length (td_clients d) < 2 ^ 64"
    and "sl_occupant (td_slot d) = Some k"
    and "cl_writer (td_clients d ! k) = W_Recv" "cl_queue (td_clients d ! k) = []"
  shows "\<exists>pre snap p old. p \<le> length (td_history d) \<and> subseq old (take p (td_history d)) \<and>
    snap \<in> {replay_frames (replay_at (td_history d) p), [TF_Stdout (replay_at (td_history d) p)]} \<and>
    cl_sent (td_clients d ! k) = pre @ snap @ map TF_Stdout (old @ drop p (td_history d)) \<and>
    list_all frame_ok snap"
proof -
  from tty_inv_run [of es] assms have "synced (sl_missed (td_slot d)) (td_history d) (td_clients d ! k)"
    by (simp add: tty_inv_def occupant_inv_def)
  with assms(4,5) obtain pre snap p old where h: "p \<le> length (td_history d)" "subseq old (take p (td_history d))"
    "snap = replay_frames (replay_at (td_history d) p) \<or> snap = [TF_Stdout (replay_at (td_history d) p)]"
    "cl_sent (td_clients d ! k) = pre @ snap @ map TF_Stdout (old @ drop p (td_history d))"
    by (auto simp: synced_def complete_with_def split: if_splits)
  moreover have "list_all frame_ok snap"
    using h(3) broadcast_frames_fit [of "td_history d" p]
    by (auto simp: replay_frames_def RING_BUFFER_CAPACITY_def MAX_FRAME_PAYLOAD_def)
  ultimately show ?thesis by blast
qed

theorem tty_idle_client_complete_witness:
  "\<exists>pre snap p old. p \<le> 2 \<and> subseq old (take p [[1], [2, 3]]) \<and>
    [TF_HelloAck, TF_Stdout [0x1b, 0x63, 1], TF_Stdout [2, 3]] =
    pre @ snap @ map TF_Stdout (old @ drop p [[1], [2, 3 :: u8]]) \<and> list_all frame_ok snap"
proof -
  let ?es = "[TE_Output [1], TE_Attach 80 24, TE_Writer 0 True, TE_Output [2, 3], TE_Writer 0 True, TE_Writer 0 True,
    TE_Writer 0 True]"
  have run: "length (td_clients (tty_run ?es)) < 2 ^ 64" "sl_occupant (td_slot (tty_run ?es)) = Some 0"
    "cl_writer (td_clients (tty_run ?es) ! 0) = W_Recv" "cl_queue (td_clients (tty_run ?es) ! 0) = []"
    "td_history (tty_run ?es) = [[1], [2, 3]]"
    "cl_sent (td_clients (tty_run ?es) ! 0) = [TF_HelloAck, TF_Stdout [0x1b, 0x63, 1], TF_Stdout [2, 3]]"
    by (simp_all add: tty_run_def daemon_new_def slot_new_def tty_step_defs rbuf_append_def rbuf_new_def rbuf_replay_def
        SOFT_RESET_def RING_BUFFER_CAPACITY_def OCCUPANT_CHANNEL_CAPACITY_def replay_frames_def)
  from tty_idle_client_complete [OF refl run(1-4)] obtain pre snap p old where
    "p \<le> length [[1], [2, 3 :: u8]]" "subseq old (take p [[1], [2, 3]])" "list_all frame_ok snap"
    "[TF_HelloAck, TF_Stdout [0x1b, 0x63, 1], TF_Stdout [2, 3]] = pre @ snap @ map TF_Stdout (old @ drop p [[1], [2, 3]])"
    unfolding run by blast
  then show ?thesis by (intro exI [of _ pre] exI [of _ snap] exI [of _ p] exI [of _ old]) simp
qed

text \<open>A client that another one has replaced gets at most one more frame through to the shell: the one
  it had already been found current for.\<close>

lemma tty_stale_input_bounded:
  assumes "d = tty_run es" "length (td_clients d) < 2 ^ 64"
  shows "length (filter (\<lambda>(j, f, n). j = k \<and> n \<noteq> Suc k) (td_pty d)) \<le> 1"
proof (cases "k < length (td_clients d)")
  case True
  with tty_inv_run [of es] assms have "stale_writes k d = [] \<or> length (stale_writes k d) = 1"
    by (auto simp: tty_inv_def fenced_def)
  then show ?thesis by (auto simp: stale_writes_def)
next
  case False
  with tty_inv_run [of es] assms have "stale_writes k d = []"
    by (auto simp: tty_inv_def fenced_def stale_writes_def list_all_iff filter_empty_conv)
  then show ?thesis by (simp add: stale_writes_def)
qed

text \<open>C38. After its channel overflowed, an attached client is shown older output behind newer. The client is slow
  while the shell writes 257 chunks, one more than the channel takes; then it reads on undisturbed. The
  resync snapshot it is sent ends with the newest chunk \<open>y\<close>, the next frame is the chunk \<open>z\<close>
  written long before it, and after it comes the rest of the queue, all of it already in the
  snapshot.\<close>

theorem tty_resync_reorders:
  assumes "length (x # z # xs) = 256" "list_all (\<lambda>c. c \<noteq> []) (x # z # xs @ [y])"
    and "length (concat (x # z # xs @ [y])) \<le> 262144"
  shows "cl_sent (td_clients (tty_run ([TE_Attach 80 24, TE_Writer 0 True, TE_Writer 0 True] @
      map TE_Output (x # z # xs) @ [TE_Output y] @ replicate (4 + 2 * length xs) (TE_Writer 0 True))) ! 0) =
    [TF_HelloAck, TF_Stdout x, TF_Stdout ([0x1b, 0x63] @ x @ z @ concat xs @ y), TF_Stdout z] @ map TF_Stdout xs"
proof -
  have "rbuf_buf (foldl rbuf_append (rbuf_new RING_BUFFER_CAPACITY) (x # z # xs @ [y])) = x @ z @ concat xs @ y"
    using foldl_append_suffix [of "rbuf_new RING_BUFFER_CAPACITY" "[]" "x # z # xs @ [y]"] assms(3)
    by (simp add: rbuf_new_def suffix_of_def RING_BUFFER_CAPACITY_def)
  with assms(2) have "replay_at (x # z # xs @ [y]) (length (x # z # xs @ [y])) = [0x1b, 0x63] @ x @ z @ concat xs @ y"
    by (simp add: replay_at_def rbuf_replay_def SOFT_RESET_def)
  then show ?thesis using burst_run [of x z xs y] assms(1,2) by (simp add: OCCUPANT_CHANNEL_CAPACITY_def)
qed

theorem tty_resync_reorders_witness:
  "cl_sent (td_clients (tty_run ([TE_Attach 80 24, TE_Writer 0 True, TE_Writer 0 True] @
      map TE_Output ([1] # [2] # replicate 254 [3]) @ [TE_Output [4]] @
      replicate (4 + 2 * length (replicate 254 [3 :: u8])) (TE_Writer 0 True))) ! 0) =
    [TF_HelloAck, TF_Stdout [1], TF_Stdout ([0x1b, 0x63] @ [1] @ [2] @ concat (replicate 254 [3]) @ [4]), TF_Stdout [2]]
      @ map TF_Stdout (replicate 254 [3])"
  by (rule tty_resync_reorders) (simp_all add: list_all_iff length_concat sum_list_replicate)

end
