(* ===== verification/Wildcard.thy ===== *)
theory Wildcard
  imports Prelude
begin

text \<open>
  The two matchers of host patterns: the recursive one of
  \<^verbatim>\<open>isekai-ssh/src/wrapper/directive.rs\<close>, exponential in the number of stars, and the
  iterative one of \<^verbatim>\<open>openssh-config/src/lib.rs\<close>, which remembers only the last star.
\<close>

definition STAR :: u8 where "STAR = 0x2a"
definition QUESTION :: u8 where "QUESTION = 0x3f"

lemma wildcard_bytes [simp]: "STAR \<noteq> QUESTION" "QUESTION \<noteq> STAR"
  by (simp_all add: STAR_def QUESTION_def)

section \<open>The recursive matcher\<close>

fun wildcard_match_rec :: "u8 list \<Rightarrow> u8 list \<Rightarrow> bool" where
  "wildcard_match_rec [] [] \<longleftrightarrow> True"
| "wildcard_match_rec [] (_ # _) \<longleftrightarrow> False"
| "wildcard_match_rec (p # rest) value \<longleftrightarrow>
     (if p = STAR then
        wildcard_match_rec rest value \<or>
        (case value of [] \<Rightarrow> False | _ # value_rest \<Rightarrow> wildcard_match_rec (p # rest) value_rest)
      else (case value of
          [] \<Rightarrow> False
        | v # value_rest \<Rightarrow> (p = QUESTION \<or> p = v) \<and> wildcard_match_rec rest value_rest))"

section \<open>The iterative matcher\<close>

text \<open>The loop runs while value bytes are left; \<open>None\<close> is its \<^verbatim>\<open>return false\<close>, \<open>Some p\<close> the position
  in the pattern when the value is used up.\<close>

definition star_ok :: "nat \<Rightarrow> (nat \<times> nat) option \<Rightarrow> bool" where
  "star_ok v star = (case star of Some (_, star_v) \<Rightarrow> star_v \<le> v | None \<Rightarrow> True)"

definition star_left :: "u8 list \<Rightarrow> (nat \<times> nat) option \<Rightarrow> nat" where
  "star_left value star = (case star of Some (_, star_v) \<Rightarrow> length value - star_v | None \<Rightarrow> Suc (length value))"

function wildcard_loop :: "u8 list \<Rightarrow> u8 list \<Rightarrow> nat \<Rightarrow> nat \<Rightarrow> (nat \<times> nat) option \<Rightarrow> nat option" where
  "wildcard_loop pattern value p v star =
     (if v < length value then
        if p < length pattern \<and> pattern ! p = STAR then wildcard_loop pattern value (p + 1) v (Some (p, v))
        else if p < length pattern \<and> (pattern ! p = QUESTION \<or> pattern ! p = value ! v)
        then wildcard_loop pattern value (p + 1) (v + 1) star
        else (case star of
            Some (star_p, star_v) \<Rightarrow>
              wildcard_loop pattern value (star_p + 1) (star_v + 1) (Some (star_p, star_v + 1))
          | None \<Rightarrow> None)
      else Some p)"
  by pat_completeness auto
termination
  by (relation "measures [\<lambda>(_, _, _, v, star). if star_ok v star then 0 else 1,
        \<lambda>(_, value, _, _, star). star_left value star,
        \<lambda>(_, value, _, v, _). length value - v, \<lambda>(pattern, _, p, _, _). length pattern - p]")
    (auto simp: star_ok_def star_left_def split: option.splits)

declare wildcard_loop.simps [simp del]

definition wildcard_match_bytes :: "u8 list \<Rightarrow> u8 list \<Rightarrow> bool" where
  "wildcard_match_bytes pattern value =
     (case wildcard_loop pattern value 0 0 None of
        None \<Rightarrow> False
      | Some p \<Rightarrow> p + length (takeWhile (\<lambda>b. b = STAR) (drop p pattern)) = length pattern)"

section \<open>Remembering the last star is enough\<close>

lemma match_star: "wildcard_match_rec (STAR # ps) vs \<longleftrightarrow> (\<exists>k \<le> length vs. wildcard_match_rec ps (drop k vs))"
proof (induction vs)
  case (Cons v vs)
  have "(\<exists>k \<le> length (v # vs). wildcard_match_rec ps (drop k (v # vs))) \<longleftrightarrow>
      wildcard_match_rec ps (v # vs) \<or> (\<exists>k \<le> length vs. wildcard_match_rec ps (drop k vs))"
    by (metis Suc_le_mono drop_0 drop_Suc_Cons le0 length_Cons not0_implies_Suc)
  with Cons.IH show ?case by simp
qed simp

lemma match_star_step:
  "wildcard_match_rec (STAR # ps) (drop i vs) \<longleftrightarrow>
     wildcard_match_rec ps (drop i vs) \<or> i < length vs \<and> wildcard_match_rec (STAR # ps) (drop (Suc i) vs)"
  by (cases "i < length vs") (simp_all add: Cons_nth_drop_Suc [symmetric])

lemma match_star_drop: "wildcard_match_rec (STAR # ps) (drop k vs) \<Longrightarrow> wildcard_match_rec (STAR # ps) vs"
proof -
  assume "wildcard_match_rec (STAR # ps) (drop k vs)"
  then obtain j where "j \<le> length vs - k" "wildcard_match_rec ps (drop (j + k) vs)"
    unfolding match_star by (auto simp: add.commute)
  then show ?thesis unfolding match_star
    by (cases "j + k \<le> length vs") (auto intro: exI [of _ "length vs"] exI [of _ "j + k"])
qed

text \<open>A piece of the pattern without stars matches a fixed number of bytes.\<close>

lemma match_plain:
  "STAR \<notin> set qs \<Longrightarrow> wildcard_match_rec (qs @ ps) vs \<Longrightarrow>
   length qs \<le> length vs \<and> wildcard_match_rec ps (drop (length qs) vs)"
proof (induction qs arbitrary: vs)
  case (Cons q qs)
  then show ?case by (cases vs) (auto split: if_splits)
qed simp

lemma match_star_plain:
  assumes "wildcard_match_rec (STAR # qs @ ps) vs" "STAR \<notin> set qs"
  obtains k where "k + length qs \<le> length vs" "wildcard_match_rec ps (drop (k + length qs) vs)"
proof -
  from assms(1) obtain k where "k \<le> length vs" "wildcard_match_rec (qs @ ps) (drop k vs)"
    unfolding match_star by blast
  with match_plain [OF assms(2), of ps "drop k vs"]
  have "k + length qs \<le> length vs" "wildcard_match_rec ps (drop (k + length qs) vs)" by (auto simp: add.commute)
  then show thesis by (rule that)
qed

text \<open>What is still to be matched: the rest of the pattern, or a longer run for the last star.\<close>

definition retry :: "u8 list \<Rightarrow> u8 list \<Rightarrow> (nat \<times> nat) option \<Rightarrow> bool" where
  "retry pattern value star = (case star of
       None \<Rightarrow> False
     | Some (star_p, star_v) \<Rightarrow> wildcard_match_rec (drop star_p pattern) (drop (star_v + 1) value) \<and> star_v < length value)"

definition star_inv :: "u8 list \<Rightarrow> nat \<Rightarrow> nat \<Rightarrow> (nat \<times> nat) option \<Rightarrow> bool" where
  "star_inv pattern p v star = (case star of
       None \<Rightarrow> True
     | Some (star_p, star_v) \<Rightarrow> \<exists>qs. drop star_p pattern = STAR # qs @ drop p pattern \<and> STAR \<notin> set qs \<and>
         p = star_p + Suc (length qs) \<and> v = star_v + length qs)"

text \<open>A new star makes the old one superfluous.\<close>

lemma retry_subsumed:
  assumes "star_inv pattern p v star" "retry pattern value star" "drop p pattern = STAR # ps"
  shows "wildcard_match_rec (drop p pattern) (drop v value)"
proof -
  obtain star_p star_v qs where s: "star = Some (star_p, star_v)" "drop star_p pattern = STAR # qs @ drop p pattern"
    "STAR \<notin> set qs" "v = star_v + length qs"
    using assms(1,2) by (auto simp: star_inv_def retry_def split: option.splits)
  have "wildcard_match_rec (STAR # qs @ STAR # ps) (drop (star_v + 1) value)"
    using assms(2) s(1,2) by (simp add: retry_def assms(3) del: wildcard_match_rec.simps)
  from match_star_plain [OF this s(3)] obtain k where
    "wildcard_match_rec (STAR # ps) (drop (k + length qs) (drop (star_v + 1) value))" by blast
  then have "wildcard_match_rec (STAR # ps) (drop (k + 1) (drop v value))"
    by (simp add: s(4) ac_simps del: wildcard_match_rec.simps)
  then show ?thesis unfolding assms(3) by (rule match_star_drop)
qed

text \<open>At the end of the value the last star cannot take more: what follows it needs the bytes it has.\<close>

lemma retry_too_short:
  assumes "star_inv pattern p v star" "\<not> v < length value"
  shows "\<not> retry pattern value star"
proof
  assume r: "retry pattern value star"
  obtain star_p star_v qs where s: "star = Some (star_p, star_v)" "drop star_p pattern = STAR # qs @ drop p pattern"
    "STAR \<notin> set qs" "v = star_v + length qs"
    using assms(1) r by (auto simp: star_inv_def retry_def split: option.splits)
  have "wildcard_match_rec (STAR # qs @ drop p pattern) (drop (star_v + 1) value)" "star_v < length value"
    using r s(1,2) by (simp_all add: retry_def del: wildcard_match_rec.simps)
  from match_star_plain [OF this(1) s(3)] obtain k where "k + length qs \<le> length (drop (star_v + 1) value)" by blast
  with \<open>star_v < length value\<close> s(4) assms(2) show False by (simp del: wildcard_match_rec.simps)
qed

lemma star_inv_step:
  assumes "star_inv pattern p v star" "drop p pattern = c # drop (Suc p) pattern" "c \<noteq> STAR"
  shows "star_inv pattern (Suc p) (Suc v) star"
proof (cases star)
  case (Some s)
  obtain star_p star_v where s: "s = (star_p, star_v)" by fastforce
  then obtain qs where "drop star_p pattern = STAR # qs @ drop p pattern" "STAR \<notin> set qs"
    "p = star_p + Suc (length qs)" "v = star_v + length qs" using assms(1) Some by (auto simp: star_inv_def)
  with assms(2,3) Some s show ?thesis
    by (auto simp: star_inv_def intro!: exI [of _ "qs @ [c]"])
qed (simp add: star_inv_def)

lemma wildcard_loop_spec:
  "star_inv pattern p v star \<Longrightarrow> v \<le> length value \<Longrightarrow> p \<le> length pattern \<Longrightarrow>
   (case wildcard_loop pattern value p v star of None \<Rightarrow> False | Some q \<Rightarrow> wildcard_match_rec (drop q pattern) []) \<longleftrightarrow>
   wildcard_match_rec (drop p pattern) (drop v value) \<or> retry pattern value star"
proof (induction pattern "value" p v star rule: wildcard_loop.induct)
  case (1 pattern val p v star)
  consider (fin) "\<not> v < length val"
    | (star) "v < length val" "p < length pattern" "pattern ! p = STAR"
    | (step) "v < length val" "p < length pattern" "pattern ! p \<noteq> STAR" "pattern ! p = QUESTION \<or> pattern ! p = val ! v"
    | (miss) "v < length val" "\<not> (p < length pattern \<and> pattern ! p = STAR)"
      "\<not> (p < length pattern \<and> (pattern ! p = QUESTION \<or> pattern ! p = val ! v))" by blast
  then show ?case
  proof cases
    case fin
    with "1.prems" retry_too_short [of pattern p v star val] show ?thesis
      by (simp add: wildcard_loop.simps [of pattern])
  next
    case star
    then have d: "drop p pattern = STAR # drop (Suc p) pattern" by (metis Cons_nth_drop_Suc)
    have inv: "star_inv pattern (p + 1) v (Some (p, v))" by (simp add: star_inv_def d)
    have "wildcard_match_rec (drop p pattern) (drop v val) \<or> retry pattern val star \<longleftrightarrow>
        wildcard_match_rec (drop p pattern) (drop v val)"
      using retry_subsumed [OF "1.prems"(1) _ d] by blast
    also have "\<dots> \<longleftrightarrow> wildcard_match_rec (drop (p + 1) pattern) (drop v val) \<or> retry pattern val (Some (p, v))"
      using star(1) by (simp add: retry_def d Cons_nth_drop_Suc [of v val, symmetric])
    finally show ?thesis using "1.IH"(1) inv star "1.prems"
      by (simp add: wildcard_loop.simps [of pattern val p])
  next
    case step
    then have d: "drop p pattern = pattern ! p # drop (Suc p) pattern" "drop v val = val ! v # drop (Suc v) val"
      by (metis Cons_nth_drop_Suc)+
    have "star_inv pattern (p + 1) (v + 1) star" using "1.prems"(1) step(3) star_inv_step d(1) by simp
    with "1.IH"(2) step "1.prems" show ?thesis
      by (auto simp: wildcard_loop.simps [of pattern val p] d)
  next
    case miss
    have no: "\<not> wildcard_match_rec (drop p pattern) (drop v val)"
    proof (cases "p < length pattern")
      case True
      with miss show ?thesis
        by (simp add: Cons_nth_drop_Suc [of p pattern, symmetric] Cons_nth_drop_Suc [of v val, symmetric])
    next
      case False
      with miss(1) show ?thesis by (simp add: Cons_nth_drop_Suc [of v val, symmetric])
    qed
    show ?thesis
    proof (cases star)
      case None
      with miss no show ?thesis by (auto simp: wildcard_loop.simps [of pattern val p] retry_def)
    next
      case (Some sv)
      obtain star_p star_v qs where s: "sv = (star_p, star_v)" "drop star_p pattern = STAR # qs @ drop p pattern"
        "v = star_v + length qs" "p = star_p + Suc (length qs)"
        using "1.prems"(1) Some by (auto simp: star_inv_def)
      then have d: "drop star_p pattern = STAR # drop (Suc star_p) pattern"
        by (metis drop_Suc list.sel(3) tl_drop)
      have lt: "star_v < length val" "Suc star_p \<le> length pattern" using s miss(1) "1.prems"(3) by auto
      have inv: "star_inv pattern (star_p + 1) (star_v + 1) (Some (star_p, star_v + 1))"
        by (simp add: star_inv_def d)
      have "retry pattern val star \<longleftrightarrow> wildcard_match_rec (drop (star_p + 1) pattern) (drop (star_v + 1) val) \<or>
          retry pattern val (Some (star_p, star_v + 1))"
        using lt(1) match_star_step [of "drop (Suc star_p) pattern" "Suc star_v" val]
        by (auto simp: retry_def Some s(1) d simp del: wildcard_match_rec.simps)
      with "1.IH"(3) [of sv] miss Some s(1) no inv lt show ?thesis
        by (auto simp: wildcard_loop.simps [of pattern val p])
    qed
  qed
qed

lemma wildcard_loop_le:
  "wildcard_loop pattern v p i star = Some q \<Longrightarrow> p \<le> length pattern \<Longrightarrow>
   (case star of Some (star_p, _) \<Rightarrow> star_p < length pattern | None \<Rightarrow> True) \<Longrightarrow> q \<le> length pattern"
proof (induction pattern v p i star rule: wildcard_loop.induct)
  case (1 pattern v p i star)
  then show ?case
    by (subst (asm) (4) wildcard_loop.simps) (auto split: if_splits option.splits)
qed

lemma match_only_stars: "wildcard_match_rec ps [] \<longleftrightarrow> length (takeWhile (\<lambda>b. b = STAR) ps) = length ps"
  by (induction ps) auto

lemma wildcard_match_bytes_rec: "wildcard_match_bytes pattern v = wildcard_match_rec pattern v"
proof -
  have le: "wildcard_loop pattern v 0 0 None = Some p \<Longrightarrow> p \<le> length pattern" for p
    using wildcard_loop_le [of pattern v 0 0 None p] by simp
  show ?thesis
    using wildcard_loop_spec [of pattern 0 0 None v]
    by (auto simp: wildcard_match_bytes_def star_inv_def retry_def match_only_stars dest: le split: option.splits)
qed

section \<open>Property\<close>

text \<open>C26. The two matchers of the workspace agree on every pattern and every value, and the iterative
  one always ends: remembering only the last star loses no match.\<close>

theorem wildcard_matchers_agree: "wildcard_match_bytes pattern v = wildcard_match_rec pattern v"
  by (rule wildcard_match_bytes_rec)

end
