(* ===== verification/IncludeWalk.thy ===== *)
theory IncludeWalk
  imports Wildcard Utf8 "HOL-Library.List_Lexorder" "HOL-Library.Sublist"
begin

text \<open>
  What the two readers of OpenSSH configurations share, \<^verbatim>\<open>openssh-config/src/lib.rs\<close> and
  \<^verbatim>\<open>isekai-ssh/src/wrapper/directive.rs\<close>: strings, paths (on Unix), the surroundings, and the walk over
  a file and the files it includes. Text and paths are lists of code points. The file system, the
  environment variables and the \<^verbatim>\<open>glob\<close> crate come as a record.
\<close>

type_synonym ssh_text = "uchar list"

record ssh_env =
  env_home :: "ssh_text option"
  env_user :: "ssh_text option"
  fs_canonicalize :: "ssh_text \<Rightarrow> ssh_text option"
  fs_read :: "ssh_text \<Rightarrow> string + ssh_text"
  fs_exists :: "ssh_text \<Rightarrow> bool"
  fs_glob :: "ssh_text \<Rightarrow> string + (string + ssh_text) list"

section \<open>Strings and paths\<close>

definition ascii_lower :: "ssh_text \<Rightarrow> ssh_text" where
  "ascii_lower s = map (\<lambda>c. if 65 \<le> c \<and> c \<le> 90 then c + 32 else c) s"

definition trim_start :: "ssh_text \<Rightarrow> ssh_text" where
  "trim_start s = dropWhile is_whitespace s"

definition trim_end :: "ssh_text \<Rightarrow> ssh_text" where
  "trim_end s = rev (dropWhile is_whitespace (rev s))"

definition strip_prefix :: "ssh_text \<Rightarrow> ssh_text \<Rightarrow> ssh_text option" where
  "strip_prefix p s = (if prefix p s then Some (drop (length p) s) else None)"

definition not_newline :: "uchar \<Rightarrow> bool" where
  "not_newline c \<longleftrightarrow> c \<noteq> 10"

text \<open>\<^verbatim>\<open>str::lines\<close>: the last line need not end in a newline, and \<^verbatim>\<open>\r\n\<close> ends a line too.\<close>

function str_lines :: "ssh_text \<Rightarrow> ssh_text list" where
  "str_lines s =
     (if s = [] then []
      else let l = takeWhile not_newline s; rest = dropWhile not_newline s in
        (if rest \<noteq> [] \<and> l \<noteq> [] \<and> last l = 13 then butlast l else l) # str_lines (tl rest))"
  by pat_completeness auto
termination
  by (relation "measure length")
    (auto simp: length_tl less_le_trans [OF _ length_dropWhile_le] neq_Nil_conv
      intro: le_less_trans [OF diff_le_mono [OF length_dropWhile_le]])

declare str_lines.simps [simp del]

function split_on :: "(uchar \<Rightarrow> bool) \<Rightarrow> ssh_text \<Rightarrow> ssh_text list" where
  "split_on P s = (let w = takeWhile (\<lambda>c. \<not> P c) s; rest = dropWhile (\<lambda>c. \<not> P c) s in
     w # (if rest = [] then [] else split_on P (tl rest)))"
  by pat_completeness auto
termination
proof (relation "measure (\<lambda>(_, s). length s)", goal_cases)
  case (2 P s w rest)
  have "length rest \<le> length s" using 2(2) length_dropWhile_le by metis
  then show ?case using 2(3) by (cases rest) simp_all
qed simp

declare split_on.simps [simp del]

definition split_whitespace :: "ssh_text \<Rightarrow> ssh_text list" where
  "split_whitespace s = filter (\<lambda>w. w \<noteq> []) (split_on is_whitespace s)"

definition is_absolute :: "ssh_text \<Rightarrow> bool" where
  "is_absolute p \<longleftrightarrow> p \<noteq> [] \<and> hd p = 47"

text \<open>\<^verbatim>\<open>Path::join\<close>.\<close>

definition path_join :: "ssh_text \<Rightarrow> ssh_text \<Rightarrow> ssh_text" where
  "path_join base p =
     (if is_absolute p then p else if base = [] \<or> last base = 47 then base @ p else base @ [47] @ p)"

text \<open>\<^verbatim>\<open>Path\<close>s are ordered by their components.\<close>

definition path_key :: "ssh_text \<Rightarrow> ssh_text list" where
  "path_key p = (if is_absolute p then [[47]] else []) @ filter (\<lambda>c. c \<noteq> []) (split_on (\<lambda>c. c = 47) p)"

definition sort_paths :: "ssh_text list \<Rightarrow> ssh_text list" where
  "sort_paths ps = sort_key path_key ps"

section \<open>Expansion of paths\<close>

definition expand_tilde :: "ssh_env \<Rightarrow> ssh_text \<Rightarrow> ssh_text" where
  "expand_tilde env input =
     (if input = codes ''~'' then (case env_home env of Some home \<Rightarrow> home | None \<Rightarrow> input)
      else (case strip_prefix (codes ''~/'') input of
          Some rest \<Rightarrow> (case env_home env of Some home \<Rightarrow> path_join home rest | None \<Rightarrow> input)
        | None \<Rightarrow> input))"

definition expand_path :: "ssh_env \<Rightarrow> ssh_text \<Rightarrow> ssh_text option \<Rightarrow> ssh_text" where
  "expand_path env input base_dir =
     (let expanded = expand_tilde env input in
      if is_absolute expanded then expanded
      else path_join (case base_dir of Some d \<Rightarrow> d | None \<Rightarrow> codes ''.'') expanded)"

section \<open>Pattern lists\<close>

text \<open>The loop of the pattern lists of both readers: a negated pattern that matches ends it.\<close>

fun patterns_loop :: "(ssh_text \<Rightarrow> ssh_text \<Rightarrow> bool) \<Rightarrow> bool \<Rightarrow> ssh_text list \<Rightarrow> ssh_text \<Rightarrow> bool" where
  "patterns_loop wildcard_match matched [] val = matched"
| "patterns_loop wildcard_match matched (pattern # ps) val = (case strip_prefix [33] pattern of
       Some negative \<Rightarrow> if wildcard_match negative val then False else patterns_loop wildcard_match matched ps val
     | None \<Rightarrow> patterns_loop wildcard_match (matched \<or> wildcard_match pattern val) ps val)"

definition negated :: "ssh_text \<Rightarrow> bool" where
  "negated pattern \<longleftrightarrow> pattern \<noteq> [] \<and> hd pattern = 33"

lemma strip_bang: "strip_prefix [33] pattern = (if negated pattern then Some (tl pattern) else None)"
  by (cases pattern) (auto simp: strip_prefix_def negated_def)

definition excluded :: "ssh_text list \<Rightarrow> ssh_text \<Rightarrow> bool" where
  "excluded ps val \<longleftrightarrow> list_ex (\<lambda>p. negated p \<and> wildcard_match_rec (utf8_encode (tl p)) (utf8_encode val)) ps"

definition included :: "ssh_text list \<Rightarrow> ssh_text \<Rightarrow> bool" where
  "included ps val \<longleftrightarrow> list_ex (\<lambda>p. \<not> negated p \<and> wildcard_match_rec (utf8_encode p) (utf8_encode val)) ps"

lemma patterns_loop_spec:
  assumes "\<And>p v. wildcard_match p v \<longleftrightarrow> wildcard_match_rec (utf8_encode p) (utf8_encode v)"
  shows "patterns_loop wildcard_match matched ps val \<longleftrightarrow> (matched \<or> included ps val) \<and> \<not> excluded ps val"
  by (induction ps arbitrary: matched) (auto simp: strip_bang included_def excluded_def assms)

section \<open>Walking over files\<close>

text \<open>Running a fallible step over a list; \<open>None\<close> is a step that ran out of fuel.\<close>

fun fold_steps :: "('x \<Rightarrow> 's \<Rightarrow> ('e + 's) option) \<Rightarrow> 'x list \<Rightarrow> 's \<Rightarrow> ('e + 's) option" where
  "fold_steps f [] s = Some (Inr s)"
| "fold_steps f (x # xs) s = (case f x s of
       Some (Inr s') \<Rightarrow> fold_steps f xs s'
     | r \<Rightarrow> r)"

text \<open>The state of a walk: the files visited, and what was gathered.\<close>

type_synonym 'c walk = "ssh_text list \<times> 'c"
type_synonym ('c, 'e) visit = "ssh_text \<Rightarrow> 'c walk \<Rightarrow> ('e + 'c walk) option"

definition include_patterns ::
    "(ssh_text \<Rightarrow> 'e + ssh_text list) \<Rightarrow> ('c, 'e) visit \<Rightarrow> ssh_text list \<Rightarrow> 'c walk \<Rightarrow> ('e + 'c walk) option" where
  "include_patterns expand visit =
     fold_steps (\<lambda>pattern s. case expand pattern of
         Inl e \<Rightarrow> Some (Inl e)
       | Inr paths \<Rightarrow> fold_steps visit paths s)"

definition canonical_path :: "ssh_env \<Rightarrow> ssh_text \<Rightarrow> ssh_text" where
  "canonical_path env path = (case fs_canonicalize env path of Some p \<Rightarrow> p | None \<Rightarrow> path)"

text \<open>A file is visited once, line by line; a line may visit other files. The fuel bounds the nesting.\<close>

primrec walk_file ::
    "nat \<Rightarrow> ssh_env \<Rightarrow> (ssh_text \<Rightarrow> string \<Rightarrow> 'e) \<Rightarrow>
     (('c, 'e) visit \<Rightarrow> ssh_text \<Rightarrow> ssh_text \<Rightarrow> 'l \<times> 'c walk \<Rightarrow> ('e + 'l \<times> 'c walk) option) \<Rightarrow> 'l \<Rightarrow> ('c, 'e) visit" where
  "walk_file 0 env read_error line start path s = None"
| "walk_file (Suc n) env read_error line start path s =
     (let (visited, c) = s; canonical = canonical_path env path in
      if canonical \<in> set visited then Some (Inr (visited, c))
      else (case fs_read env path of
          Inl e \<Rightarrow> Some (Inl (read_error path e))
        | Inr content \<Rightarrow>
            map_option (map_sum (\<lambda>e. e) snd)
              (fold_steps (line (walk_file n env read_error line start) path) (str_lines content)
                 (start, canonical # visited, c))))"

text \<open>\<^verbatim>\<open>Path::parent\<close> of a path of plain components.\<close>

definition path_parent :: "ssh_text \<Rightarrow> ssh_text option" where
  "path_parent p =
     (let dir_rev = dropWhile (\<lambda>c. c \<noteq> 47) (rev p) in
      if p = [] \<or> p = [47] then None
      else if dir_rev = [] then Some []
      else if tl dir_rev = [] then Some [47]
      else Some (rev (tl dir_rev)))"

section \<open>Steps over lists\<close>

lemma fold_steps_inv:
  assumes "fold_steps f xs s = Some (Inr s')" "P s"
    and "\<And>x s s'. P s \<Longrightarrow> f x s = Some (Inr s') \<Longrightarrow> P s'"
  shows "P s'"
  using assms(1,2)
proof (induction xs arbitrary: s)
  case (Cons x xs)
  from Cons.prems(1) obtain s1 where s1: "f x s = Some (Inr s1)" "fold_steps f xs s1 = Some (Inr s')"
    by (auto split: option.splits sum.splits)
  with Cons.prems(2) assms(3) have "P s1" by blast
  with Cons.IH [OF s1(2)] show ?case by blast
qed simp

lemma fold_steps_total:
  assumes "P s" "\<And>x s. P s \<Longrightarrow> f x s \<noteq> None" "\<And>x s s'. P s \<Longrightarrow> f x s = Some (Inr s') \<Longrightarrow> P s'"
  shows "fold_steps f xs s \<noteq> None"
  using assms(1)
proof (induction xs arbitrary: s)
  case (Cons x xs)
  with assms(2) [OF Cons.prems, of x] assms(3) [OF Cons.prems, of x] show ?case
    by (auto split: option.splits sum.splits)
qed simp

lemma fold_steps_mono:
  assumes "\<And>x s r. f x s = Some r \<Longrightarrow> g x s = Some r"
  shows "fold_steps f xs s = Some r \<Longrightarrow> fold_steps g xs s = Some r"
proof (induction xs arbitrary: s)
  case (Cons x xs)
  then obtain r1 where "f x s = Some r1" by (auto split: option.splits)
  with Cons assms show ?case by (auto split: option.splits sum.splits)
qed simp

lemma map_sum_Inr [simp]: "map_sum f g z = Inr y \<longleftrightarrow> (\<exists>x. z = Inr x \<and> y = g x)"
  by (cases z) auto

lemma include_patterns_inv:
  assumes "include_patterns expand visit ps s = Some (Inr s')" "P s"
    and "\<And>path s s'. P s \<Longrightarrow> visit path s = Some (Inr s') \<Longrightarrow> P s'"
  shows "P s'"
  using assms(1,2) unfolding include_patterns_def
proof (rule fold_steps_inv)
  fix pattern s s'
  assume P: "P s" and "(case expand pattern of Inl e \<Rightarrow> Some (Inl e) | Inr paths \<Rightarrow> fold_steps visit paths s) = Some (Inr s')"
  then obtain paths where "fold_steps visit paths s = Some (Inr s')" by (auto split: sum.splits)
  then show "P s'" using P assms(3) by (rule fold_steps_inv)
qed

lemma include_patterns_total:
  assumes "P s" "\<And>path s. P s \<Longrightarrow> visit path s \<noteq> None"
    and "\<And>path s s'. P s \<Longrightarrow> visit path s = Some (Inr s') \<Longrightarrow> P s'"
  shows "include_patterns expand visit ps s \<noteq> None"
  unfolding include_patterns_def using assms(1)
proof (rule fold_steps_total)
  fix pattern s s'
  assume P: "P s"
  then have "fold_steps visit paths s \<noteq> None" for paths
    by (rule fold_steps_total) (use assms(2,3) in blast)+
  then show "(case expand pattern of Inl e \<Rightarrow> Some (Inl e) | Inr paths \<Rightarrow> fold_steps visit paths s) \<noteq> None"
    by (cases "expand pattern") (simp_all del: not_None_eq)
  assume "(case expand pattern of Inl e \<Rightarrow> Some (Inl e) | Inr paths \<Rightarrow> fold_steps visit paths s) = Some (Inr s')"
  then obtain paths where "fold_steps visit paths s = Some (Inr s')" by (auto split: sum.splits)
  then show "P s'" using P assms(3) by (rule fold_steps_inv)
qed

lemma include_patterns_mono:
  assumes "\<And>path s r. f path s = Some r \<Longrightarrow> g path s = Some r"
    and "include_patterns expand f ps s = Some r"
  shows "include_patterns expand g ps s = Some r"
  using assms(2) unfolding include_patterns_def
proof (rule fold_steps_mono [rotated])
  fix pattern s r
  assume "(case expand pattern of Inl e \<Rightarrow> Some (Inl e) | Inr paths \<Rightarrow> fold_steps f paths s) = Some r"
  with fold_steps_mono [of f g, OF assms(1)]
  show "(case expand pattern of Inl e \<Rightarrow> Some (Inl e) | Inr paths \<Rightarrow> fold_steps g paths s) = Some r"
    by (auto split: sum.splits)
qed

section \<open>The walk ends, and only adds\<close>

text \<open>Every file that can be read is, by its canonical path, one of \<open>files\<close>.\<close>

definition readable_within :: "ssh_env \<Rightarrow> ssh_text list \<Rightarrow> bool" where
  "readable_within env files \<longleftrightarrow> (\<forall>path content. fs_read env path = Inr content \<longrightarrow> canonical_path env path \<in> set files)"

definition unvisited :: "ssh_text list \<Rightarrow> 'c walk \<Rightarrow> nat" where
  "unvisited files s = card (set files - set (fst s))"

text \<open>Files are only added to the visited ones, each once, and what was gathered grows.\<close>

definition walk_grows :: "('c \<Rightarrow> 'c \<Rightarrow> bool) \<Rightarrow> 'c walk \<Rightarrow> 'c walk \<Rightarrow> bool" where
  "walk_grows ext s s' \<longleftrightarrow> (\<exists>new. fst s' = new @ fst s \<and> distinct new \<and> set new \<inter> set (fst s) = {}) \<and> ext (snd s) (snd s')"

text \<open>What a reader promises of the handling of one line: it visits files only through the visit it is
  given, and gathers without taking back.\<close>

locale line_reader =
  fixes line :: "('c, 'e) visit \<Rightarrow> ssh_text \<Rightarrow> ssh_text \<Rightarrow> 'l \<times> 'c walk \<Rightarrow> ('e + 'l \<times> 'c walk) option"
    and ext :: "'c \<Rightarrow> 'c \<Rightarrow> bool"
  assumes ext_refl: "ext c c"
    and ext_trans: "ext c c1 \<Longrightarrow> ext c1 c2 \<Longrightarrow> ext c c2"
    and line_step: "line visit path l (a, s) = Some (Inr (a', s')) \<Longrightarrow>
      fst s' = fst s \<and> ext (snd s) (snd s') \<or> (\<exists>expand ps. include_patterns expand visit ps s = Some (Inr s'))"
    and line_total: "P s \<Longrightarrow> (\<And>path s. P s \<Longrightarrow> visit path s \<noteq> None) \<Longrightarrow>
      (\<And>path s s'. P s \<Longrightarrow> visit path s = Some (Inr s') \<Longrightarrow> P s') \<Longrightarrow> line visit path l (a, s) \<noteq> None"
    and line_mono: "(\<And>path s r. f path s = Some r \<Longrightarrow> g path s = Some r) \<Longrightarrow> line f path l x = Some r \<Longrightarrow> line g path l x = Some r"
begin

abbreviation walked where "walked \<equiv> walk_grows ext"

lemma grows_refl: "walked s s"
  by (simp add: walk_grows_def ext_refl)

lemma grows_trans:
  assumes "walked a b" "walked b c"
  shows "walked a c"
proof -
  from assms obtain xs ys where "fst b = xs @ fst a" "distinct xs" "set xs \<inter> set (fst a) = {}"
    "fst c = ys @ fst b" "distinct ys" "set ys \<inter> set (fst b) = {}" by (auto simp: walk_grows_def)
  then have "fst c = (ys @ xs) @ fst a \<and> distinct (ys @ xs) \<and> set (ys @ xs) \<inter> set (fst a) = {}" by auto
  moreover have "ext (snd a) (snd c)" using assms ext_trans by (auto simp: walk_grows_def)
  ultimately show ?thesis unfolding walk_grows_def by blast
qed

lemma unvisited_grows: "walked s s' \<Longrightarrow> unvisited files s' \<le> unvisited files s"
  unfolding unvisited_def by (rule card_mono) (auto simp: walk_grows_def)

lemma line_grows:
  assumes "\<And>path s s'. visit path s = Some (Inr s') \<Longrightarrow> walked s s'" and "line visit path l x = Some (Inr x')"
  shows "walked (snd x) (snd x')"
proof -
  obtain a s a' s' where x: "x = (a, s)" "x' = (a', s')" by (cases x; cases x')
  with assms(2) consider "fst s' = fst s" "ext (snd s) (snd s')"
    | expand ps where "include_patterns expand visit ps s = Some (Inr s')" using line_step by blast
  then have "walked s s'"
  proof cases
    case 2
    then show ?thesis using grows_refl
      by (rule include_patterns_inv) (blast intro: grows_trans assms(1))
  qed (simp add: walk_grows_def)
  then show ?thesis by (simp add: x)
qed

lemma walk_file_grows: "walk_file n env re line start path s = Some (Inr s') \<Longrightarrow> walked s s'"
proof (induction n arbitrary: path s s')
  case (Suc n)
  obtain visited c where s: "s = (visited, c)" by fastforce
  let ?c = "canonical_path env path"
  show ?case
  proof (cases "?c \<in> set visited")
    case True
    with Suc.prems s show ?thesis by (simp add: grows_refl)
  next
    case False
    let ?f = "line (walk_file n env re line start) path"
    have grow: "?f l x = Some (Inr x') \<Longrightarrow> walked (snd x) (snd x')" for l x x'
      by (erule line_grows [rotated]) (rule Suc.IH)
    from Suc.prems False s obtain content a where
      "fold_steps ?f (str_lines content) (start, ?c # visited, c) = Some (Inr (a, s'))"
      by (auto split: sum.splits)
    then have "walked (?c # visited, c) (snd (a, s'))"
    proof (rule fold_steps_inv [where P = "\<lambda>x. walked (?c # visited, c) (snd x)"])
      fix l x x'
      assume "walked (?c # visited, c) (snd x)" "?f l x = Some (Inr x')"
      then show "walked (?c # visited, c) (snd x')" using grow grows_trans by blast
    qed (simp add: grows_refl)
    moreover have "walked s (?c # visited, c)"
      using False by (auto simp: walk_grows_def s ext_refl intro: exI [of _ "[?c]"])
    ultimately show ?thesis using grows_trans by auto
  qed
qed simp

lemma walk_total:
  assumes "readable_within env files"
  shows "unvisited files s < n \<Longrightarrow> walk_file n env re line start path s \<noteq> None"
proof (induction n arbitrary: path s)
  case (Suc n)
  obtain visited c where s: "s = (visited, c)" by fastforce
  let ?c = "canonical_path env path" and ?visit = "walk_file n env re line start"
  have keep: "unvisited files s' < n" if "unvisited files s < n" "?visit path s = Some (Inr s')" for path s s'
    using that unvisited_grows [OF walk_file_grows] le_less_trans by blast
  have grow: "line ?visit path l x = Some (Inr x') \<Longrightarrow> walked (snd x) (snd x')" for l x x'
    by (erule line_grows [rotated]) (rule walk_file_grows)
  show ?case
  proof (cases "?c \<in> set visited \<or> isl (fs_read env path)")
    case True
    then show ?thesis by (cases "fs_read env path") (auto simp: s Let_def)
  next
    case False
    then obtain content where r: "fs_read env path = Inr content" "?c \<notin> set visited" by (cases "fs_read env path") auto
    with assms have "?c \<in> set files" by (auto simp: readable_within_def)
    then have "unvisited files (?c # visited, c) < unvisited files s"
      unfolding unvisited_def s using r(2) by (intro psubset_card_mono) auto
    with Suc.prems have "unvisited files (snd (start, ?c # visited, c)) < n" by simp
    then have "fold_steps (line ?visit path) (str_lines content) (start, ?c # visited, c) \<noteq> None"
    proof (rule fold_steps_total [where P = "\<lambda>x. unvisited files (snd x) < n"])
      fix l and x :: "'l \<times> 'c walk"
      assume x: "unvisited files (snd x) < n"
      have "line ?visit path l (fst x, snd x) \<noteq> None"
        by (rule line_total [of "\<lambda>s. unvisited files s < n", OF x]) (erule Suc.IH, erule (1) keep)
      then show "line ?visit path l x \<noteq> None" by simp
    next
      fix l and x x' :: "'l \<times> 'c walk"
      assume "unvisited files (snd x) < n" "line ?visit path l x = Some (Inr x')"
      then show "unvisited files (snd x') < n" using unvisited_grows [OF grow] le_less_trans by blast
    qed
    with r show ?thesis by (auto simp: s Let_def)
  qed
qed simp

lemma walk_mono: "walk_file n env re line start path s = Some r \<Longrightarrow> walk_file (Suc n) env re line start path s = Some r"
proof (induction n arbitrary: path s r)
  case (Suc n)
  let ?f = "\<lambda>n. line (walk_file n env re line start) path"
  have more: "fold_steps (?f n) ls x = Some r \<Longrightarrow> fold_steps (?f (Suc n)) ls x = Some r" for ls x r
    by (erule fold_steps_mono [rotated], erule line_mono [rotated], rule Suc.IH)
  obtain visited c where s: "s = (visited, c)" by fastforce
  show ?case
  proof (cases "canonical_path env path \<in> set visited")
    case False
    with Suc.prems more show ?thesis
      unfolding s walk_file.simps(2) [of "Suc n"]
      by (subst (asm) walk_file.simps(2)) (auto simp: Let_def simp del: walk_file.simps split: sum.splits)
  qed (use Suc.prems s in simp)
qed simp

lemma walk_more_fuel:
  assumes "walk_file n env re line start path s = Some r" "n \<le> k"
  shows "walk_file k env re line start path s = Some r"
  using assms(2) by (induction rule: dec_induct) (simp_all only: assms(1) walk_mono)

text \<open>With more fuel than files the walk has a result, which does not depend on the fuel.\<close>

lemma walk_ends:
  assumes "readable_within env files"
  shows "\<exists>r. \<forall>n. length files < n \<longrightarrow> walk_file n env re line start path ([], c) = Some r"
proof -
  have "unvisited files ([], c) \<le> length files" by (simp add: unvisited_def card_length)
  then obtain r where r: "walk_file (Suc (length files)) env re line start path ([], c) = Some r"
    using walk_total [OF assms, of "([], c)" "Suc (length files)"] by fastforce
  then show ?thesis using walk_more_fuel Suc_leI by blast
qed

end

end
