(* ===== verification/SshConfig.thy ===== *)
theory SshConfig
  imports IncludeWalk
begin

text \<open>
  \<^verbatim>\<open>openssh-config/src/lib.rs\<close>: the settings an OpenSSH configuration gives for a destination.
\<close>

section \<open>Lexing\<close>

definition keyword_end :: "uchar \<Rightarrow> bool" where
  "keyword_end c \<longleftrightarrow> is_whitespace c \<or> c = 61"

definition split_keyword :: "ssh_text \<Rightarrow> ssh_text \<times> ssh_text" where
  "split_keyword line =
     (let keyword = takeWhile (\<lambda>c. \<not> keyword_end c) line;
          rest = trim_start (dropWhile (\<lambda>c. \<not> keyword_end c) line);
          rest = (case strip_prefix [61] rest of Some stripped \<Rightarrow> trim_start stripped | None \<Rightarrow> rest) in
      (keyword, rest))"

definition is_quote :: "uchar \<Rightarrow> bool" where
  "is_quote c \<longleftrightarrow> c = 39 \<or> c = 34"

function split_words :: "ssh_text \<Rightarrow> ssh_text list" where
  "split_words [] = []"
| "split_words (c # cs) =
     (if is_whitespace c then split_words cs
      else if is_quote c then takeWhile (\<lambda>ch. ch \<noteq> c) cs # split_words (tl (dropWhile (\<lambda>ch. ch \<noteq> c) cs))
      else (c # takeWhile (\<lambda>ch. \<not> is_whitespace ch) cs) # split_words (dropWhile (\<lambda>ch. \<not> is_whitespace ch) cs))"
  by pat_completeness auto
termination
proof (relation "measure length", goal_cases)
  case (3 c cs)
  then show ?case using length_dropWhile_le [of "\<lambda>ch. ch \<noteq> c" cs] by (simp add: le_imp_less_Suc)
next
  case (4 c cs)
  then show ?case using length_dropWhile_le [of "\<lambda>ch. \<not> is_whitespace ch" cs] by (simp add: le_imp_less_Suc)
qed simp_all

definition ascii_whitespace :: "uchar \<Rightarrow> bool" where
  "ascii_whitespace c \<longleftrightarrow> c = 32 \<or> c = 9 \<or> c = 10 \<or> c = 12 \<or> c = 13"

text \<open>The part of a value before its comment. The code goes over the bytes; the bytes it looks for are
  never part of a longer character.\<close>

fun before_comment :: "uchar option \<Rightarrow> bool \<Rightarrow> ssh_text \<Rightarrow> ssh_text option" where
  "before_comment quote prev_ws [] = None"
| "before_comment quote prev_ws (c # cs) =
     (if is_quote c then
        map_option ((#) c) (before_comment
          (case quote of Some q \<Rightarrow> if q = c then None else quote | None \<Rightarrow> Some c) False cs)
      else if c = 35 \<and> quote = None \<and> prev_ws then Some []
      else map_option ((#) c) (before_comment quote (ascii_whitespace c) cs))"

definition strip_inline_comment :: "ssh_text \<Rightarrow> ssh_text" where
  "strip_inline_comment val = (case before_comment None True val of Some v \<Rightarrow> trim_end v | None \<Rightarrow> val)"

definition strip_quotes :: "ssh_text \<Rightarrow> ssh_text" where
  "strip_quotes val =
     (if 1 < length val \<and> (hd val = 39 \<and> last val = 39 \<or> hd val = 34 \<and> last val = 34)
      then butlast (tl val) else val)"

section \<open>Expansion\<close>

datatype ssh_error = ReadFailed ssh_text string | InvalidIncludePattern ssh_text string | IncludeGlob ssh_text string

fun collect_entries :: "ssh_text \<Rightarrow> (string + ssh_text) list \<Rightarrow> ssh_error + ssh_text list" where
  "collect_entries pattern [] = Inr []"
| "collect_entries pattern (Inl e # _) = Inl (IncludeGlob pattern e)"
| "collect_entries pattern (Inr p # es) = (case collect_entries pattern es of
       Inl e \<Rightarrow> Inl e
     | Inr ps \<Rightarrow> Inr (p # ps))"

definition has_glob :: "ssh_text \<Rightarrow> bool" where
  "has_glob s \<longleftrightarrow> 42 \<in> set s \<or> 63 \<in> set s \<or> 91 \<in> set s"

definition expand_include_pattern :: "ssh_env \<Rightarrow> ssh_text \<Rightarrow> ssh_text option \<Rightarrow> ssh_error + ssh_text list" where
  "expand_include_pattern env pattern base_dir =
     (let pattern_str = expand_path env pattern base_dir in
      if has_glob pattern_str then
        (case fs_glob env pattern_str of
           Inl e \<Rightarrow> Inl (InvalidIncludePattern pattern_str e)
         | Inr entries \<Rightarrow> (case collect_entries pattern_str entries of
             Inl e \<Rightarrow> Inl e
           | Inr paths \<Rightarrow> Inr (sort_paths paths)))
      else Inr (if fs_exists env pattern_str then [pattern_str] else []))"

fun expand_percent_tokens :: "ssh_text \<Rightarrow> (uchar \<times> ssh_text) list \<Rightarrow> ssh_text" where
  "expand_percent_tokens [] tokens = []"
| "expand_percent_tokens [c] tokens = [c]"
| "expand_percent_tokens (c # t # cs) tokens =
     (if c \<noteq> 37 then c # expand_percent_tokens (t # cs) tokens
      else if t = 37 then 37 # expand_percent_tokens cs tokens
      else (case map_of tokens t of
          Some val \<Rightarrow> val @ expand_percent_tokens cs tokens
        | None \<Rightarrow> 37 # t # expand_percent_tokens cs tokens))"

section \<open>Patterns\<close>

definition wildcard_match :: "ssh_text \<Rightarrow> ssh_text \<Rightarrow> bool" where
  "wildcard_match pattern val = wildcard_match_bytes (utf8_encode pattern) (utf8_encode val)"

definition host_patterns_match :: "ssh_text \<Rightarrow> ssh_text \<Rightarrow> bool" where
  "host_patterns_match patterns destination =
     patterns_loop wildcard_match False (map ascii_lower (split_whitespace patterns)) (ascii_lower destination)"

definition comma_pattern_list_match :: "ssh_text \<Rightarrow> ssh_text \<Rightarrow> bool" where
  "comma_pattern_list_match pattern_list val = patterns_loop wildcard_match False (split_on (\<lambda>c. c = 44) pattern_list) val"

definition comma_host_pattern_list_match :: "ssh_text \<Rightarrow> ssh_text \<Rightarrow> bool" where
  "comma_host_pattern_list_match pattern_list host = comma_pattern_list_match (ascii_lower pattern_list) (ascii_lower host)"

section \<open>Settings\<close>

datatype forward_agent = FA_Yes | FA_No | FA_Socket ssh_text

record host_config =
  hc_host_name :: "ssh_text option"
  hc_user :: "ssh_text option"
  hc_port :: "u16 option"
  hc_identity_file :: "ssh_text list"
  hc_certificate_file :: "ssh_text list"
  hc_proxy_jump :: "ssh_text option"
  hc_forward_agent :: "forward_agent option"
  hc_identity_agent :: "ssh_text option"

definition host_config_default :: host_config where
  "host_config_default = \<lparr>hc_host_name = None, hc_user = None, hc_port = None, hc_identity_file = [],
     hc_certificate_file = [], hc_proxy_jump = None, hc_forward_agent = None, hc_identity_agent = None\<rparr>"

definition parse_forward_agent :: "ssh_text \<Rightarrow> forward_agent" where
  "parse_forward_agent val =
     (if ascii_lower val = codes ''yes'' then FA_Yes else if ascii_lower val = codes ''no'' then FA_No else FA_Socket val)"

text \<open>\<^verbatim>\<open>u16::from_str\<close>.\<close>

definition parse_u16 :: "ssh_text \<Rightarrow> u16 option" where
  "parse_u16 s =
     (case digits_value (if s \<noteq> [] \<and> hd s = 43 then tl s else s) of
        Some v \<Rightarrow> if v < 65536 then Some (word_of_nat v) else None
      | None \<Rightarrow> None)"

definition or_else :: "'a option \<Rightarrow> 'a option \<Rightarrow> 'a option" where
  "or_else x y = (case x of Some _ \<Rightarrow> x | None \<Rightarrow> y)"

definition apply_keyword :: "ssh_env \<Rightarrow> host_config \<Rightarrow> ssh_text \<Rightarrow> ssh_text \<Rightarrow> ssh_text \<Rightarrow> host_config" where
  "apply_keyword env cfg keyword raw destination =
     (let val = strip_quotes (str_trim raw) in
      if keyword = codes ''hostname'' then
        (if hc_host_name cfg = None
         then cfg\<lparr>hc_host_name := Some (expand_percent_tokens val [(104, destination)])\<rparr> else cfg)
      else if keyword = codes ''user'' then
        (if hc_user cfg = None then cfg\<lparr>hc_user := Some val\<rparr> else cfg)
      else if keyword = codes ''port'' then
        (if hc_port cfg = None then (case parse_u16 val of Some port \<Rightarrow> cfg\<lparr>hc_port := Some port\<rparr> | None \<Rightarrow> cfg) else cfg)
      else if keyword = codes ''identityfile'' then
        cfg\<lparr>hc_identity_file := hc_identity_file cfg @ [expand_tilde env val]\<rparr>
      else if keyword = codes ''certificatefile'' then
        cfg\<lparr>hc_certificate_file := hc_certificate_file cfg @ [expand_tilde env val]\<rparr>
      else if keyword = codes ''proxyjump'' then
        (if hc_proxy_jump cfg = None \<and> ascii_lower val \<noteq> codes ''none'' then cfg\<lparr>hc_proxy_jump := Some val\<rparr> else cfg)
      else if keyword = codes ''forwardagent'' then
        (if hc_forward_agent cfg = None then cfg\<lparr>hc_forward_agent := Some (parse_forward_agent val)\<rparr> else cfg)
      else if keyword = codes ''identityagent'' then
        (if hc_identity_agent cfg = None then cfg\<lparr>hc_identity_agent := Some (expand_tilde env val)\<rparr> else cfg)
      else cfg)"

text \<open>The criteria of a \<^verbatim>\<open>Match\<close> line; the first argument tells whether one was seen.\<close>

fun match_criteria :: "bool \<Rightarrow> ssh_env \<Rightarrow> ssh_text list \<Rightarrow> ssh_text \<Rightarrow> host_config \<Rightarrow> bool" where
  "match_criteria any env [] destination cfg = any"
| "match_criteria any env (t # ts) destination cfg =
     (let keyword = ascii_lower t;
          with_arg = (\<lambda>check. case ts of
              [] \<Rightarrow> False
            | pattern_list # rest \<Rightarrow> check pattern_list \<and> match_criteria True env rest destination cfg) in
      if keyword = codes ''all'' then match_criteria True env ts destination cfg
      else if keyword = codes ''host'' then
        with_arg (\<lambda>l. comma_host_pattern_list_match l (case hc_host_name cfg of Some h \<Rightarrow> h | None \<Rightarrow> destination))
      else if keyword = codes ''originalhost'' then with_arg (\<lambda>l. comma_host_pattern_list_match l destination)
      else if keyword = codes ''user'' then
        with_arg (\<lambda>l. case or_else (hc_user cfg) (env_user env) of
            Some user \<Rightarrow> comma_pattern_list_match l user
          | None \<Rightarrow> False)
      else if keyword = codes ''localuser'' then
        with_arg (\<lambda>l. case env_user env of Some user \<Rightarrow> comma_pattern_list_match l user | None \<Rightarrow> False)
      else False)"

definition match_conditions_apply :: "ssh_env \<Rightarrow> ssh_text \<Rightarrow> ssh_text \<Rightarrow> host_config \<Rightarrow> bool" where
  "match_conditions_apply env criteria destination cfg =
     match_criteria False env (split_whitespace criteria) destination cfg"

section \<open>Resolution\<close>

text \<open>One line of a file, with whether the lines are active.\<close>

definition config_line ::
    "ssh_env \<Rightarrow> ssh_text \<Rightarrow> ssh_text option \<Rightarrow> (host_config, ssh_error) visit \<Rightarrow> ssh_text \<Rightarrow> ssh_text \<Rightarrow>
     bool \<times> host_config walk \<Rightarrow> (ssh_error + bool \<times> host_config walk) option" where
  "config_line env destination root_dir include_file path raw_line = (\<lambda>(active, visited, cfg).
     let line = str_trim raw_line in
     if line = [] \<or> hd line = 35 then Some (Inr (active, visited, cfg))
     else
       let (keyword, rest) = split_keyword line;
           rest = strip_inline_comment rest;
           lower = ascii_lower keyword in
       if lower = codes ''include'' \<and> active then
         map_option (map_sum (\<lambda>e. e) (\<lambda>s. (active, s)))
           (include_patterns (\<lambda>p. expand_include_pattern env p root_dir) include_file (split_words rest) (visited, cfg))
       else if lower = codes ''host'' then Some (Inr (host_patterns_match rest destination, visited, cfg))
       else if lower = codes ''match'' then
         Some (Inr (match_conditions_apply env rest destination cfg, visited, cfg))
       else if active then Some (Inr (active, visited, apply_keyword env cfg lower rest destination))
       else Some (Inr (active, visited, cfg)))"

definition resolve_from_file ::
    "nat \<Rightarrow> ssh_env \<Rightarrow> ssh_text \<Rightarrow> ssh_text option \<Rightarrow> ssh_text \<Rightarrow> host_config walk \<Rightarrow> (ssh_error + host_config walk) option" where
  "resolve_from_file n env destination root_dir = walk_file n env ReadFailed (config_line env destination root_dir) True"

definition expand_path_tokens :: "ssh_env \<Rightarrow> host_config \<Rightarrow> ssh_text \<Rightarrow> host_config" where
  "expand_path_tokens env cfg destination =
     (let home = (case env_home env of Some h \<Rightarrow> h | None \<Rightarrow> []);
          local_user = (case env_user env of Some u \<Rightarrow> u | None \<Rightarrow> []);
          host = (case hc_host_name cfg of Some h \<Rightarrow> h | None \<Rightarrow> destination);
          port = digits (case hc_port cfg of Some p \<Rightarrow> unat p | None \<Rightarrow> 22);
          remote_user = (case hc_user cfg of Some u \<Rightarrow> u | None \<Rightarrow> local_user);
          tokens = [(100, home), (104, host), (110, destination), (112, port), (114, remote_user), (117, local_user)];
          expand = (\<lambda>p. if 37 \<in> set p then expand_percent_tokens p tokens else p) in
      cfg\<lparr>hc_identity_file := map expand (hc_identity_file cfg),
          hc_certificate_file := map expand (hc_certificate_file cfg),
          hc_identity_agent := map_option expand (hc_identity_agent cfg)\<rparr>)"

definition resolve :: "nat \<Rightarrow> ssh_env \<Rightarrow> ssh_text \<Rightarrow> ssh_text \<Rightarrow> (ssh_error + host_config) option" where
  "resolve n env path destination =
     map_option (map_sum (\<lambda>e. e) (\<lambda>(_, cfg). expand_path_tokens env cfg destination))
       (resolve_from_file n env destination (path_parent path) path ([], host_config_default))"

definition resolve_default :: "nat \<Rightarrow> ssh_env \<Rightarrow> ssh_text \<Rightarrow> (ssh_error + host_config) option" where
  "resolve_default n env destination = (case env_home env of
       None \<Rightarrow> Some (Inr host_config_default)
     | Some home \<Rightarrow>
        (let path = path_join (path_join home (codes ''.ssh'')) (codes ''config'') in
         if fs_exists env path then resolve n env path destination else Some (Inr host_config_default)))"

section \<open>Settings only grow\<close>

definition kept :: "'a option \<Rightarrow> 'a option \<Rightarrow> bool" where
  "kept x y \<longleftrightarrow> (x = None \<or> y = x)"

definition config_extends :: "host_config \<Rightarrow> host_config \<Rightarrow> bool" where
  "config_extends c c' \<longleftrightarrow>
     kept (hc_host_name c) (hc_host_name c') \<and> kept (hc_user c) (hc_user c') \<and> kept (hc_port c) (hc_port c') \<and>
     prefix (hc_identity_file c) (hc_identity_file c') \<and> prefix (hc_certificate_file c) (hc_certificate_file c') \<and>
     kept (hc_proxy_jump c) (hc_proxy_jump c') \<and> kept (hc_forward_agent c) (hc_forward_agent c') \<and>
     kept (hc_identity_agent c) (hc_identity_agent c')"

lemma config_extends_refl [simp]: "config_extends c c"
  by (simp add: config_extends_def kept_def)

lemma kept_trans: "kept x y \<Longrightarrow> kept y z \<Longrightarrow> kept x z"
  by (auto simp: kept_def)

lemma config_extends_trans: "config_extends a b \<Longrightarrow> config_extends b c \<Longrightarrow> config_extends a c"
  unfolding config_extends_def by (elim conjE, intro conjI; (erule (1) kept_trans | erule (1) prefix_order.trans))

lemma config_extends_updates [simp]:
  "hc_host_name c = None \<Longrightarrow> config_extends c (c\<lparr>hc_host_name := x\<rparr>)"
  "hc_user c = None \<Longrightarrow> config_extends c (c\<lparr>hc_user := x\<rparr>)"
  "hc_port c = None \<Longrightarrow> config_extends c (c\<lparr>hc_port := p\<rparr>)"
  "config_extends c (c\<lparr>hc_identity_file := hc_identity_file c @ fs\<rparr>)"
  "config_extends c (c\<lparr>hc_certificate_file := hc_certificate_file c @ fs\<rparr>)"
  "hc_proxy_jump c = None \<Longrightarrow> config_extends c (c\<lparr>hc_proxy_jump := x\<rparr>)"
  "hc_forward_agent c = None \<Longrightarrow> config_extends c (c\<lparr>hc_forward_agent := a\<rparr>)"
  "hc_identity_agent c = None \<Longrightarrow> config_extends c (c\<lparr>hc_identity_agent := x\<rparr>)"
  by (simp_all add: config_extends_def kept_def)

lemma if_extends:
  "(P \<Longrightarrow> config_extends c x) \<Longrightarrow> (\<not> P \<Longrightarrow> config_extends c y) \<Longrightarrow> config_extends c (if P then x else y)"
  by simp

lemma apply_keyword_extends [simp]: "config_extends cfg (apply_keyword env cfg keyword val destination)"
  unfolding apply_keyword_def Let_def by (intro if_extends) (auto split: option.split)

interpretation cf: line_reader "config_line env destination root_dir" config_extends for env destination root_dir
proof
  fix visit :: "(host_config, ssh_error) visit" and path l a a' and s s' :: "host_config walk"
  obtain visited cfg keyword rest where s: "s = (visited, cfg)" "split_keyword (str_trim l) = (keyword, rest)" by fastforce
  assume l: "config_line env destination root_dir visit path l (a, s) = Some (Inr (a', s'))"
  then consider "s' = s"
    | "include_patterns (\<lambda>p. expand_include_pattern env p root_dir) visit (split_words (strip_inline_comment rest)) s = Some (Inr s')"
    | "s' = (visited, apply_keyword env cfg (ascii_lower keyword) (strip_inline_comment rest) destination)"
    using s by (auto simp: config_line_def Let_def split: if_splits)
  then show "fst s' = fst s \<and> config_extends (snd s) (snd s') \<or> (\<exists>expand ps. include_patterns expand visit ps s = Some (Inr s'))"
    by cases (auto simp: s)
next
  fix P and visit :: "(host_config, ssh_error) visit" and path l a and s :: "host_config walk"
  assume "P s" "\<And>path s. P s \<Longrightarrow> visit path s \<noteq> None" "\<And>path s s'. P s \<Longrightarrow> visit path s = Some (Inr s') \<Longrightarrow> P s'"
  note include_patterns_total [of P s visit, OF this]
  then show "config_line env destination root_dir visit path l (a, s) \<noteq> None"
    by (cases s) (auto simp: config_line_def Let_def split: prod.splits)
next
  fix f g :: "(host_config, ssh_error) visit" and path l x r
  assume "\<And>path s r. f path s = Some r \<Longrightarrow> g path s = Some r"
    and l: "config_line env destination root_dir f path l x = Some r"
  note include_patterns_mono [of f g, OF this(1)]
  with l show "config_line env destination root_dir g path l x = Some r"
    by (auto simp: config_line_def Let_def split: prod.splits if_splits)
qed (auto intro: config_extends_trans)

section \<open>Properties\<close>

text \<open>A \<^verbatim>\<open>Host\<close> line applies to a destination exactly if one of its plain patterns matches it and none
  of its negated ones does, wherever they stand on the line and whatever the case of the letters.\<close>

lemma ssh_host_line_spec:
  "host_patterns_match patterns destination \<longleftrightarrow>
     included (map ascii_lower (split_whitespace patterns)) (ascii_lower destination) \<and>
     \<not> excluded (map ascii_lower (split_whitespace patterns)) (ascii_lower destination)"
  by (simp add: host_patterns_match_def patterns_loop_spec wildcard_match_def wildcard_match_bytes_rec)

text \<open>C24. Reading a configuration, cyclic includes or not, always ends: with the files that can be
  read bounded in number, one more level of fuel than files is enough, and more fuel gives the same
  result.\<close>

theorem ssh_resolve_ends:
  assumes "readable_within env files"
  shows "\<exists>r. \<forall>n. length files < n \<longrightarrow> resolve n env path destination = Some r"
  using cf.walk_ends [OF assms, where re = ReadFailed and start = True and c = host_config_default]
  unfolding resolve_def resolve_from_file_def by (metis option.simps(9))

definition example_env :: ssh_env where
  "example_env = \<lparr>env_home = Some (codes ''/h''), env_user = Some (codes ''u''), fs_canonicalize = Some,
     fs_read = (\<lambda>p. if p = codes ''/c'' then Inr (codes ''User b'' @ [10] @ codes ''User c'') else Inl ''missing''),
     fs_exists = (\<lambda>p. p = codes ''/c''), fs_glob = (\<lambda>_. Inr [])\<rparr>"

lemma ssh_resolve_ends_witness:
  "readable_within example_env [codes ''/c''] \<and>
   (\<exists>r. resolve 2 example_env (codes ''/c'') (codes ''h'') = Some r)"
proof -
  have "readable_within example_env [codes ''/c'']"
    by (simp add: readable_within_def example_env_def canonical_path_def)
  then show ?thesis using ssh_resolve_ends [of example_env "[codes ''/c'']" "codes ''/c''" "codes ''h''"] by auto
qed

text \<open>C25. The first value obtained for a setting wins: whatever lines and included files follow, a
  setting that is set keeps its value, identity and certificate files are only added at the end, and
  no file is read twice.\<close>

theorem ssh_first_value_wins:
  assumes "resolve_from_file n env destination root_dir path (visited, cfg) = Some (Inr (visited', cfg'))"
  shows "config_extends cfg cfg' \<and> (\<exists>new. visited' = new @ visited \<and> distinct new \<and> set new \<inter> set visited = {})"
  using cf.walk_file_grows [OF assms [unfolded resolve_from_file_def]] by (auto simp: walk_grows_def)

lemma ssh_first_value_wins_witness:
  "\<exists>cfg'. resolve_from_file 1 example_env (codes ''h'') None (codes ''/c'') ([], host_config_default) =
       Some (Inr ([codes ''/c''], cfg')) \<and> hc_user cfg' = Some (codes ''b'') \<and> config_extends host_config_default cfg'"
proof -
  have "resolve_from_file 1 example_env (codes ''h'') None (codes ''/c'') ([], host_config_default) =
      Some (Inr ([codes ''/c''], host_config_default\<lparr>hc_user := Some (codes ''b'')\<rparr>))"
    by (simp add: resolve_from_file_def example_env_def canonical_path_def str_lines.simps not_newline_def
      config_line_def split_keyword_def keyword_end_def is_whitespace_def str_trim_def trim_start_def
      strip_prefix_def strip_inline_comment_def is_quote_def ascii_whitespace_def ascii_lower_def
      apply_keyword_def strip_quotes_def host_config_default_def codes_def)
  from ssh_first_value_wins [OF this] this show ?thesis by auto
qed

end
