(* ===== verification/SshDirectives.thy ===== *)
theory SshDirectives
  imports SshConfig
begin

text \<open>
  \<^verbatim>\<open>isekai-ssh/src/wrapper/directive.rs\<close>: the \<^verbatim>\<open>#@isekai\<close> lines that apply to a destination, gathered
  from the OpenSSH configuration and the files it includes. The reader is a second one, beside that of
  \<^verbatim>\<open>openssh-config\<close>; where the two differ is stated below.
\<close>

record isekai_directive =
  dir_name :: ssh_text
  dir_args :: "ssh_text list"

datatype directive_error =
    DirectiveReadFailed ssh_text string
  | UnsupportedMatch
  | EmptyDirective
  | DirectiveIncludePattern ssh_text string
  | DirectiveIncludeGlob string

section \<open>Options of ssh\<close>

definition ssh_option_width :: "ssh_text \<Rightarrow> nat" where
  "ssh_option_width arg =
     (if arg \<in> set (map codes [''-B'', ''-b'', ''-c'', ''-D'', ''-E'', ''-e'', ''-F'', ''-I'', ''-i'', ''-J'',
        ''-L'', ''-l'', ''-m'', ''-O'', ''-o'', ''-p'', ''-Q'', ''-R'', ''-S'', ''-W'', ''-w''])
      then 2 else 1)"

text \<open>The loop of \<^verbatim>\<open>config_roots\<close>, which goes over all of the arguments.\<close>

fun dash_f_roots :: "ssh_env \<Rightarrow> ssh_text list \<Rightarrow> ssh_text list" where
  "dash_f_roots env [] = []"
| "dash_f_roots env [arg] = []"
| "dash_f_roots env (arg # next_arg # args) =
     (if arg = codes ''-F'' then expand_path env next_arg None # dash_f_roots env args
      else if ssh_option_width arg = 2 then dash_f_roots env args
      else dash_f_roots env (next_arg # args))"

definition config_roots :: "ssh_env \<Rightarrow> ssh_text list \<Rightarrow> ssh_text list" where
  "config_roots env ssh_args =
     (let roots = dash_f_roots env ssh_args in
      if roots = [] then (case env_home env of
          Some home \<Rightarrow> [path_join (path_join home (codes ''.ssh'')) (codes ''config'')]
        | None \<Rightarrow> [])
      else roots)"

section \<open>Lines\<close>

definition directive_keyword :: "ssh_text \<Rightarrow> ssh_text \<times> ssh_text" where
  "directive_keyword line =
     (takeWhile (\<lambda>c. \<not> is_whitespace c) line, str_trim (dropWhile (\<lambda>c. \<not> is_whitespace c) line))"

definition parse_isekai_directive :: "ssh_text \<Rightarrow> directive_error + isekai_directive" where
  "parse_isekai_directive rest = (case split_whitespace rest of
       [] \<Rightarrow> Inl EmptyDirective
     | name # args \<Rightarrow> Inr \<lparr>dir_name = name, dir_args = args\<rparr>)"

fun directive_entries :: "(string + ssh_text) list \<Rightarrow> directive_error + ssh_text list" where
  "directive_entries [] = Inr []"
| "directive_entries (Inl e # _) = Inl (DirectiveIncludeGlob e)"
| "directive_entries (Inr p # es) = (case directive_entries es of Inl e \<Rightarrow> Inl e | Inr ps \<Rightarrow> Inr (p # ps))"

definition directive_include_pattern :: "ssh_env \<Rightarrow> ssh_text \<Rightarrow> ssh_text option \<Rightarrow> directive_error + ssh_text list" where
  "directive_include_pattern env pattern base_dir =
     (let pattern = expand_path env pattern base_dir in
      if has_glob pattern then
        (case fs_glob env pattern of
           Inl e \<Rightarrow> Inl (DirectiveIncludePattern pattern e)
         | Inr entries \<Rightarrow> (case directive_entries entries of
             Inl e \<Rightarrow> Inl e
           | Inr paths \<Rightarrow> Inr (sort_paths paths)))
      else Inr [pattern])"

definition directive_wildcard_match :: "ssh_text \<Rightarrow> ssh_text \<Rightarrow> bool" where
  "directive_wildcard_match pattern val = wildcard_match_rec (utf8_encode pattern) (utf8_encode val)"

definition directive_host_match :: "ssh_text \<Rightarrow> ssh_text \<Rightarrow> bool" where
  "directive_host_match patterns destination =
     patterns_loop directive_wildcard_match False (split_whitespace patterns) destination"

text \<open>One line of a file, with whether directives are active and whether in a \<^verbatim>\<open>Match\<close> block.\<close>

definition directive_line ::
    "ssh_env \<Rightarrow> ssh_text \<Rightarrow> (isekai_directive list, directive_error) visit \<Rightarrow> ssh_text \<Rightarrow> ssh_text \<Rightarrow>
     (bool \<times> bool) \<times> isekai_directive list walk \<Rightarrow>
     (directive_error + (bool \<times> bool) \<times> isekai_directive list walk) option" where
  "directive_line env destination include_file path raw_line = (\<lambda>((active, in_match), visited, directives).
     let line = str_trim raw_line in
     if line = [] then Some (Inr ((active, in_match), visited, directives))
     else (case strip_prefix (codes ''#@isekai'') line of
         Some rest \<Rightarrow>
           if in_match then Some (Inl UnsupportedMatch)
           else if active then (case parse_isekai_directive (str_trim rest) of
               Inl e \<Rightarrow> Some (Inl e)
             | Inr d \<Rightarrow> Some (Inr ((active, in_match), visited, directives @ [d])))
           else Some (Inr ((active, in_match), visited, directives))
       | None \<Rightarrow>
           if hd line = 35 then Some (Inr ((active, in_match), visited, directives))
           else
             let (keyword, rest) = directive_keyword line; lower = ascii_lower keyword in
             if lower = codes ''include'' then
               map_option (map_sum (\<lambda>e. e) (\<lambda>s. ((active, in_match), s)))
                 (include_patterns (\<lambda>p. directive_include_pattern env p (path_parent path)) include_file
                    (split_whitespace rest) (visited, directives))
             else if lower = codes ''host'' then
               Some (Inr ((directive_host_match rest destination, False), visited, directives))
             else if lower = codes ''match'' then Some (Inr ((False, True), visited, directives))
             else Some (Inr ((active, in_match), visited, directives))))"

definition load_isekai_directives_from_file ::
    "nat \<Rightarrow> ssh_env \<Rightarrow> ssh_text \<Rightarrow> (isekai_directive list, directive_error) visit" where
  "load_isekai_directives_from_file n env destination =
     walk_file n env DirectiveReadFailed (directive_line env destination) (True, False)"

definition load_isekai_directives ::
    "nat \<Rightarrow> ssh_env \<Rightarrow> ssh_text list \<Rightarrow> ssh_text \<Rightarrow> (directive_error + isekai_directive list) option" where
  "load_isekai_directives n env ssh_args destination_host =
     map_option (map_sum (\<lambda>e. e) snd)
       (fold_steps (\<lambda>root s. if fs_exists env root then load_isekai_directives_from_file n env destination_host root s
                             else Some (Inr s))
          (config_roots env ssh_args) ([], []))"

section \<open>Directives only grow\<close>

interpretation dl: line_reader "directive_line env destination" prefix for env destination
proof
  fix visit :: "(isekai_directive list, directive_error) visit" and path l and a a' :: "bool \<times> bool" and s s' :: "isekai_directive list walk"
  obtain visited ds active in_match where s: "s = (visited, ds)" "a = (active, in_match)" by fastforce
  assume l: "directive_line env destination visit path l (a, s) = Some (Inr (a', s'))"
  then consider "s' = s" | d where "s' = (visited, ds @ [d])"
    | expand ps where "include_patterns expand visit ps s = Some (Inr s')"
    using s by (auto simp: directive_line_def Let_def split: if_splits option.splits sum.splits prod.splits)
  then show "fst s' = fst s \<and> prefix (snd s) (snd s') \<or> (\<exists>expand ps. include_patterns expand visit ps s = Some (Inr s'))"
    by cases (auto simp: s)
next
  fix P and visit :: "(isekai_directive list, directive_error) visit" and path l and a :: "bool \<times> bool" and s :: "isekai_directive list walk"
  assume "P s" "\<And>path s. P s \<Longrightarrow> visit path s \<noteq> None" "\<And>path s s'. P s \<Longrightarrow> visit path s = Some (Inr s') \<Longrightarrow> P s'"
  note include_patterns_total [of P s visit, OF this]
  then show "directive_line env destination visit path l (a, s) \<noteq> None"
    by (cases s; cases a) (auto simp: directive_line_def Let_def split: prod.splits option.splits sum.splits)
next
  fix f g :: "(isekai_directive list, directive_error) visit" and path l x r
  assume "\<And>path s r. f path s = Some r \<Longrightarrow> g path s = Some r"
    and l: "directive_line env destination f path l x = Some r"
  note include_patterns_mono [of f g, OF this(1)]
  with l show "directive_line env destination g path l x = Some r"
    by (auto simp: directive_line_def Let_def split: prod.splits if_splits option.splits)
qed auto

text \<open>With more fuel than files that can be read, the roots are all gone through, whatever the fuel.\<close>

lemma load_isekai_directives_ends:
  assumes "readable_within env files" "length files < n"
  shows "\<exists>r. load_isekai_directives n env ssh_args destination_host = Some r"
proof -
  have few: "unvisited files s < n" for s :: "isekai_directive list walk"
    using assms(2) card_mono [of "set files" "set files - set (fst s)"] card_length [of files]
    by (simp add: unvisited_def)
  have "load_isekai_directives_from_file n env destination_host root s \<noteq> None" for root s
    unfolding load_isekai_directives_from_file_def by (rule dl.walk_total [OF assms(1) few])
  then have "fold_steps (\<lambda>root s. if fs_exists env root then load_isekai_directives_from_file n env destination_host root s
      else Some (Inr s)) (config_roots env ssh_args) ([], []) \<noteq> None"
    by (intro fold_steps_total [where P = "\<lambda>_. True"]) simp_all
  then show ?thesis unfolding load_isekai_directives_def by auto
qed

section \<open>Properties\<close>

lemma include_not_comment:
  assumes "ascii_lower (takeWhile P line) = codes ''include''"
  shows "line \<noteq> []" "hd line \<noteq> 35" "strip_prefix (codes ''#@isekai'') line = None"
  using assms by (cases line; auto simp: ascii_lower_def codes_def strip_prefix_def prefix_def split: if_splits)+

text \<open>The two readers differ on an \<^verbatim>\<open>Include\<close> line of a block that does not apply to the destination:
  the reader of settings skips it, the reader of directives visits the files all the same, and reads
  them as files whose lines apply from the start.\<close>

lemma directive_include_ignores_host:
  assumes "directive_keyword (str_trim l) = (keyword, rest)" "ascii_lower keyword = codes ''include''"
    and "split_keyword (str_trim l) = (keyword, rest')"
  shows "directive_line env destination visit path l ((False, in_match), s) =
       map_option (map_sum (\<lambda>e. e) (\<lambda>s. ((False, in_match), s)))
         (include_patterns (\<lambda>p. directive_include_pattern env p (path_parent path)) visit (split_whitespace rest) s)
     \<and> config_line env destination root_dir visit' path l (False, t) = Some (Inr (False, t))"
proof -
  from assms(1,2) include_not_comment [of "\<lambda>c. \<not> is_whitespace c" "str_trim l"]
  have "str_trim l \<noteq> []" "hd (str_trim l) \<noteq> 35" "strip_prefix (codes ''#@isekai'') (str_trim l) = None"
    by (auto simp: directive_keyword_def)
  with assms show ?thesis
    by (cases s; cases t) (simp add: directive_line_def config_line_def codes_def)
qed

end
