(* ===== verification/WrapperCli.thy ===== *)
theory WrapperCli
  imports SshDirectives
begin

text \<open>
  The command line of \<^verbatim>\<open>isekai-ssh/src/wrapper.rs\<close>: its own options and those of ssh, the settings the
  command line overrides, and the proxy command it hands to ssh; and the session names of
  \<^verbatim>\<open>isekai-ssh/src/tty_attach.rs\<close>. On Unix; the default path of \<^verbatim>\<open>isekai-pipe\<close> is an argument.
\<close>

section \<open>Options before the destination\<close>

definition ends_options :: "ssh_text \<Rightarrow> bool" where
  "ends_options arg \<longleftrightarrow> arg = codes ''--'' \<or> \<not> prefix (codes ''-'') arg \<or> arg = codes ''-''"

text \<open>All items of the iterator, and the index where it stops, which may lie past the end.\<close>

fun ssh_options_before_destination :: "ssh_text list \<Rightarrow> (ssh_text \<times> ssh_text option) list \<times> nat" where
  "ssh_options_before_destination [] = ([], 0)"
| "ssh_options_before_destination (arg # args) =
     (if ends_options arg then ([], 0)
      else if ssh_option_width arg = 2 then (case args of
          [] \<Rightarrow> ([(arg, None)], 2)
        | val # args' \<Rightarrow> (let (opts, i) = ssh_options_before_destination args' in ((arg, Some val) # opts, i + 2)))
      else (let (opts, i) = ssh_options_before_destination args in ((arg, None) # opts, i + 1)))"

definition find_destination_index :: "ssh_text list \<Rightarrow> nat option" where
  "find_destination_index args =
     (let i = snd (ssh_options_before_destination args) in
      if i < length args then
        (if args ! i = codes ''--'' then (if i + 1 < length args then Some (i + 1) else None) else Some i)
      else None)"

definition dash_f_config_path :: "ssh_text list \<Rightarrow> ssh_text option" where
  "dash_f_config_path ssh_args =
     (case find (\<lambda>(arg, _). arg = codes ''-F'') (fst (ssh_options_before_destination ssh_args)) of
        Some (_, val) \<Rightarrow> val
      | None \<Rightarrow> None)"

section \<open>The wrapper's own options\<close>

datatype request_tty = RT_Auto | RT_Yes | RT_No | RT_Force

datatype tty_selection = Tty_Auto | Tty_Named ssh_text

record wrapper_options =
  wo_bootstrap :: bool
  wo_no_bootstrap :: bool
  wo_direct :: bool
  wo_explain :: bool
  wo_dry_run :: bool
  wo_helper_binary :: "ssh_text option"
  wo_helper_release_repo :: ssh_text
  wo_helper_release_tag :: "ssh_text option"
  wo_log_file :: "ssh_text option"
  wo_tty :: "tty_selection option"

definition wrapper_options_default :: wrapper_options where
  "wrapper_options_default = \<lparr>wo_bootstrap = False, wo_no_bootstrap = False, wo_direct = False, wo_explain = False,
     wo_dry_run = False, wo_helper_binary = None, wo_helper_release_repo = codes ''cuzic/isekai-terminal'',
     wo_helper_release_tag = None, wo_log_file = None, wo_tty = None\<rparr>"

record wrapper_args =
  wa_openssh_path :: ssh_text
  wa_pipe_path :: ssh_text
  wa_ssh_args :: "ssh_text list"
  wa_isekai :: wrapper_options

record wrapper_plan = wrapper_args +
  wp_destination :: ssh_text
  wp_destination_host :: ssh_text
  wp_destination_user :: "ssh_text option"
  wp_destination_index :: nat
  wp_request_tty :: request_tty

datatype wrapper_error = RequiresValue ssh_text | EmptyTtyName | BootstrapConflict | DestinationRequired

definition wa_set :: "(wrapper_options \<Rightarrow> wrapper_options) \<Rightarrow> wrapper_args \<Rightarrow> wrapper_args" where
  "wa_set f w = w\<lparr>wa_isekai := f (wa_isekai w)\<rparr>"

text \<open>The loop of \<^verbatim>\<open>parse_wrapper\<close>.\<close>

fun wrapper_loop :: "ssh_text list \<Rightarrow> wrapper_args \<Rightarrow> wrapper_error + wrapper_args" where
  "wrapper_loop [] w = Inr w"
| "wrapper_loop (arg # args) w =
     (let next_value = (\<lambda>set. case args of
          [] \<Rightarrow> Inl (RequiresValue arg)
        | val # args' \<Rightarrow> wrapper_loop args' (set val w)) in
      if find_destination_index (wa_ssh_args w) \<noteq> None
      then wrapper_loop args (w\<lparr>wa_ssh_args := wa_ssh_args w @ [arg]\<rparr>)
      else if arg = codes ''--isekai-bootstrap'' then wrapper_loop args (wa_set (wo_bootstrap_update (\<lambda>_. True)) w)
      else if arg = codes ''--isekai-no-bootstrap'' then wrapper_loop args (wa_set (wo_no_bootstrap_update (\<lambda>_. True)) w)
      else if arg = codes ''--isekai-direct'' then wrapper_loop args (wa_set (wo_direct_update (\<lambda>_. True)) w)
      else if arg = codes ''--isekai-explain'' then wrapper_loop args (wa_set (wo_explain_update (\<lambda>_. True)) w)
      else if arg = codes ''--isekai-dry-run'' then wrapper_loop args (wa_set (wo_dry_run_update (\<lambda>_. True)) w)
      else if arg = codes ''--isekai-ssh-path'' then next_value (\<lambda>v w. w\<lparr>wa_openssh_path := v\<rparr>)
      else if arg = codes ''--isekai-pipe-path'' then next_value (\<lambda>v w. w\<lparr>wa_pipe_path := v\<rparr>)
      else if arg = codes ''--isekai-helper-binary'' then
        next_value (\<lambda>v. wa_set (\<lambda>o'. o'\<lparr>wo_helper_binary := Some v\<rparr>))
      else if arg = codes ''--isekai-helper-release-repo'' then
        next_value (\<lambda>v. wa_set (\<lambda>o'. o'\<lparr>wo_helper_release_repo := v\<rparr>))
      else if arg = codes ''--isekai-helper-release-tag'' then
        next_value (\<lambda>v. wa_set (\<lambda>o'. o'\<lparr>wo_helper_release_tag := Some v\<rparr>))
      else if arg = codes ''--isekai-log-file'' then next_value (\<lambda>v. wa_set (\<lambda>o'. o'\<lparr>wo_log_file := Some v\<rparr>))
      else if arg = codes ''--isekai-tty'' then wrapper_loop args (wa_set (\<lambda>o'. o'\<lparr>wo_tty := Some Tty_Auto\<rparr>) w)
      else (case strip_prefix (codes ''--isekai-tty='') arg of
          Some name \<Rightarrow> if name = [] then Inl EmptyTtyName
            else wrapper_loop args (wa_set (\<lambda>o'. o'\<lparr>wo_tty := Some (Tty_Named name)\<rparr>) w)
        | None \<Rightarrow> wrapper_loop args (w\<lparr>wa_ssh_args := wa_ssh_args w @ [arg]\<rparr>)))"

declare wrapper_loop.simps(2) [simp del]

fun tty_flag :: "request_tty \<Rightarrow> ssh_text \<Rightarrow> request_tty" where
  "tty_flag tty arg =
     (if arg = codes ''-t'' then (if tty = RT_Yes then RT_Force else RT_Yes)
      else if arg = codes ''-tt'' then RT_Force
      else if arg = codes ''-T'' then RT_No
      else if prefix (codes ''-t'') arg \<and> 2 < length (utf8_encode arg) \<and> list_all (\<lambda>c. c = 116) (drop 1 arg) then RT_Force
      else tty)"

definition extract_request_tty :: "ssh_text list \<Rightarrow> nat \<Rightarrow> request_tty" where
  "extract_request_tty ssh_args destination_index = foldl tty_flag RT_Auto (take destination_index ssh_args)"

text \<open>\<^verbatim>\<open>rsplit_once\<close>.\<close>

definition rsplit_once :: "uchar \<Rightarrow> ssh_text \<Rightarrow> (ssh_text \<times> ssh_text) option" where
  "rsplit_once c s =
     (if c \<in> set s then Some (rev (tl (dropWhile (\<lambda>x. x \<noteq> c) (rev s))), rev (takeWhile (\<lambda>x. x \<noteq> c) (rev s)))
      else None)"

definition split_user_host :: "ssh_text \<Rightarrow> ssh_text option \<times> ssh_text" where
  "split_user_host destination = (case rsplit_once 64 destination of
       Some (user, host) \<Rightarrow> if user \<noteq> [] \<and> host \<noteq> [] then (Some user, host) else (None, destination)
     | None \<Rightarrow> (None, destination))"

definition parse_wrapper :: "ssh_text \<Rightarrow> ssh_text list \<Rightarrow> wrapper_error + wrapper_plan" where
  "parse_wrapper default_pipe_path args =
     (case wrapper_loop args \<lparr>wa_openssh_path = codes ''ssh'', wa_pipe_path = default_pipe_path,
          wa_ssh_args = [], wa_isekai = wrapper_options_default\<rparr> of
        Inl e \<Rightarrow> Inl e
      | Inr w \<Rightarrow>
         if wo_bootstrap (wa_isekai w) \<and> wo_no_bootstrap (wa_isekai w) then Inl BootstrapConflict
         else (case find_destination_index (wa_ssh_args w) of
             None \<Rightarrow> Inl DestinationRequired
           | Some i \<Rightarrow>
              (let destination = wa_ssh_args w ! i; (user, host) = split_user_host destination in
               Inr \<lparr>wa_openssh_path = wa_openssh_path w, wa_pipe_path = wa_pipe_path w, wa_ssh_args = wa_ssh_args w,
                    wa_isekai = wa_isekai w, wp_destination = destination, wp_destination_host = host,
                    wp_destination_user = user, wp_destination_index = i,
                    wp_request_tty = extract_request_tty (wa_ssh_args w) i\<rparr>)))"

definition remote_command :: "wrapper_plan \<Rightarrow> ssh_text list option" where
  "remote_command plan =
     (let tail = drop (wp_destination_index plan + 1) (wa_ssh_args plan) in if tail = [] then None else Some tail)"

section \<open>Settings on the command line\<close>

record cli_overrides =
  co_host_name :: "ssh_text option"
  co_user :: "ssh_text option"
  co_port :: "u16 option"
  co_proxy_jump :: "ssh_text option"
  co_identity_file :: "ssh_text list"
  co_forward_agent :: "forward_agent option"
  co_identity_agent :: "ssh_text option"

definition cli_overrides_default :: cli_overrides where
  "cli_overrides_default = \<lparr>co_host_name = None, co_user = None, co_port = None, co_proxy_jump = None,
     co_identity_file = [], co_forward_agent = None, co_identity_agent = None\<rparr>"

definition get_or_insert :: "'a \<Rightarrow> 'a option \<Rightarrow> 'a option" where
  "get_or_insert v slot = (case slot of None \<Rightarrow> Some v | Some _ \<Rightarrow> slot)"

datatype cli_error = InvalidPort ssh_text

definition apply_dash_o_override :: "ssh_env \<Rightarrow> cli_overrides \<Rightarrow> ssh_text \<Rightarrow> cli_error + cli_overrides" where
  "apply_dash_o_override env ov token =
     (let key = takeWhile (\<lambda>c. \<not> keyword_end c) token; rest = dropWhile (\<lambda>c. \<not> keyword_end c) token in
      if rest = [] then Inr ov
      else
        let val = trim_start rest;
            val = (case strip_prefix [61] val of Some stripped \<Rightarrow> trim_start stripped | None \<Rightarrow> val);
            val = strip_quotes (str_trim val);
            key = ascii_lower (str_trim key) in
        if key = codes ''hostname'' then Inr (ov\<lparr>co_host_name := get_or_insert val (co_host_name ov)\<rparr>)
        else if key = codes ''user'' then Inr (ov\<lparr>co_user := get_or_insert val (co_user ov)\<rparr>)
        else if key = codes ''port'' then (case parse_u16 val of
            Some port \<Rightarrow> Inr (ov\<lparr>co_port := get_or_insert port (co_port ov)\<rparr>)
          | None \<Rightarrow> Inl (InvalidPort val))
        else if key = codes ''proxyjump'' then Inr (ov\<lparr>co_proxy_jump := get_or_insert val (co_proxy_jump ov)\<rparr>)
        else if key = codes ''identityfile'' then
          Inr (ov\<lparr>co_identity_file := co_identity_file ov @ [expand_tilde env val]\<rparr>)
        else if key = codes ''identityagent'' then
          Inr (ov\<lparr>co_identity_agent := get_or_insert (expand_tilde env val) (co_identity_agent ov)\<rparr>)
        else if key = codes ''forwardagent'' then
          Inr (ov\<lparr>co_forward_agent := get_or_insert (parse_forward_agent val) (co_forward_agent ov)\<rparr>)
        else Inr ov)"

definition apply_cli_option :: "ssh_env \<Rightarrow> ssh_text \<times> ssh_text option \<Rightarrow> cli_overrides \<Rightarrow> cli_error + cli_overrides" where
  "apply_cli_option env opt ov = (case opt of
       (arg, Some v) \<Rightarrow>
         if arg = codes ''-p'' then (case parse_u16 v of
             Some port \<Rightarrow> Inr (ov\<lparr>co_port := get_or_insert port (co_port ov)\<rparr>)
           | None \<Rightarrow> Inl (InvalidPort v))
         else if arg = codes ''-l'' then Inr (ov\<lparr>co_user := get_or_insert v (co_user ov)\<rparr>)
         else if arg = codes ''-J'' then Inr (ov\<lparr>co_proxy_jump := get_or_insert v (co_proxy_jump ov)\<rparr>)
         else if arg = codes ''-i'' then Inr (ov\<lparr>co_identity_file := co_identity_file ov @ [expand_tilde env v]\<rparr>)
         else if arg = codes ''-o'' then apply_dash_o_override env ov v
         else Inr ov
     | _ \<Rightarrow> Inr ov)"

fun cli_options :: "ssh_env \<Rightarrow> (ssh_text \<times> ssh_text option) list \<Rightarrow> cli_overrides \<Rightarrow> cli_error + cli_overrides" where
  "cli_options env [] ov = Inr ov"
| "cli_options env (opt # opts) ov = (case apply_cli_option env opt ov of
       Inl e \<Rightarrow> Inl e
     | Inr ov' \<Rightarrow> cli_options env opts ov')"

definition collect_cli_overrides :: "ssh_env \<Rightarrow> ssh_text list \<Rightarrow> cli_error + cli_overrides" where
  "collect_cli_overrides env ssh_args =
     cli_options env (fst (ssh_options_before_destination ssh_args)) cli_overrides_default"

definition apply_cli_overrides :: "ssh_env \<Rightarrow> host_config \<Rightarrow> ssh_text list \<Rightarrow> cli_error + host_config" where
  "apply_cli_overrides env cfg ssh_args = (case collect_cli_overrides env ssh_args of
       Inl e \<Rightarrow> Inl e
     | Inr ov \<Rightarrow> Inr (cfg\<lparr>
         hc_host_name := or_else (co_host_name ov) (hc_host_name cfg),
         hc_user := or_else (co_user ov) (hc_user cfg),
         hc_port := or_else (co_port ov) (hc_port cfg),
         hc_proxy_jump := or_else (co_proxy_jump ov) (hc_proxy_jump cfg),
         hc_forward_agent := or_else (co_forward_agent ov) (hc_forward_agent cfg),
         hc_identity_agent := or_else (co_identity_agent ov) (hc_identity_agent cfg),
         hc_identity_file := co_identity_file ov @ hc_identity_file cfg\<rparr>))"

section \<open>Quoting\<close>

definition shell_quote :: "ssh_text \<Rightarrow> ssh_text" where
  "shell_quote val =
     (if val = [] then [39, 39]
      else [39] @ concat (map (\<lambda>ch. if ch = 39 then [39, 92, 39, 39] else [ch]) val) @ [39])"

definition escape_ssh_percent_tokens :: "ssh_text \<Rightarrow> ssh_text" where
  "escape_ssh_percent_tokens val = concat (map (\<lambda>c. if c = 37 then [37, 37] else [c]) val)"

definition is_ascii_alphanumeric :: "uchar \<Rightarrow> bool" where
  "is_ascii_alphanumeric c \<longleftrightarrow> (48 \<le> c \<and> c \<le> 57) \<or> (65 \<le> c \<and> c \<le> 90) \<or> (97 \<le> c \<and> c \<le> 122)"

definition is_safe_bare_word :: "ssh_text \<Rightarrow> uchar list \<Rightarrow> bool" where
  "is_safe_bare_word val extra_allowed \<longleftrightarrow>
     val \<noteq> [] \<and> hd val \<noteq> 126 \<and>
     list_all (\<lambda>c. is_ascii_alphanumeric c \<or> c \<in> set (codes ''._-:@~'') \<or> c \<in> set extra_allowed) val"

definition quote_proxy_command_arg :: "ssh_text \<Rightarrow> ssh_text" where
  "quote_proxy_command_arg val = (if is_safe_bare_word val [] then val else shell_quote val)"

definition quote_proxy_command_path :: "ssh_text \<Rightarrow> ssh_text" where
  "quote_proxy_command_path path = (if is_safe_bare_word path [47] then path else shell_quote path)"

definition proxy_command :: "ssh_text \<Rightarrow> ssh_text \<Rightarrow> ssh_text" where
  "proxy_command pipe_path profile =
     escape_ssh_percent_tokens (quote_proxy_command_path pipe_path) @ codes '' connect --profile '' @
     escape_ssh_percent_tokens (quote_proxy_command_arg profile) @ codes '' --service ssh --stdio''"

section \<open>Names of terminal sessions\<close>

definition is_valid_tty_name :: "ssh_text \<Rightarrow> bool" where
  "is_valid_tty_name name \<longleftrightarrow>
     name \<noteq> [] \<and> name \<noteq> codes ''.'' \<and> name \<noteq> codes ''..'' \<and> 47 \<notin> set name \<and> 0 \<notin> set name \<and>
     length (utf8_encode name) \<le> 200"

fun tab_session :: "(ssh_text \<times> ssh_text option) list \<Rightarrow> ssh_text option" where
  "tab_session [] = None"
| "tab_session ((pre, val) # candidates) = (case val of
       None \<Rightarrow> tab_session candidates
     | Some v \<Rightarrow>
         if v = [] then tab_session candidates
         else let name = pre @ [45] @ v in
           if is_valid_tty_name name then Some name else tab_session candidates)"

definition resolve_name_from :: "tty_selection \<Rightarrow> ssh_text \<Rightarrow> (ssh_text \<times> ssh_text option) list \<Rightarrow> ssh_text" where
  "resolve_name_from selection profile candidates = (case selection of
       Tty_Auto \<Rightarrow> (case tab_session candidates of Some name \<Rightarrow> name | None \<Rightarrow> codes ''isekai-'' @ profile)
     | Tty_Named name \<Rightarrow> name)"

definition attach_command :: "ssh_text \<Rightarrow> ssh_text" where
  "attach_command name = codes ''isekai-pipe tty attach '' @ shell_quote name"

section \<open>What a shell reads\<close>

text \<open>
  The words of a simple command by the rules of POSIX (quoting, token recognition): single quotes
  keep what they enclose, a backslash keeps the next character, a blank ends a word. \<open>None\<close> where an
  unquoted character has another meaning, or a quote is not closed.
\<close>

definition sh_special :: "uchar \<Rightarrow> bool" where
  "sh_special c \<longleftrightarrow> c \<in> {9, 10, 34, 35, 36, 37, 38, 40, 41, 42, 59, 60, 61, 62, 63, 91, 96, 124}"

datatype sh_mode = Blank | Word ssh_text | Quoted ssh_text

fun sh_words :: "sh_mode \<Rightarrow> ssh_text \<Rightarrow> ssh_text list option" where
  "sh_words Blank [] = Some []"
| "sh_words (Word w) [] = Some [w]"
| "sh_words (Quoted w) [] = None"
| "sh_words (Quoted w) (c # cs) = (if c = 39 then sh_words (Word w) cs else sh_words (Quoted (w @ [c])) cs)"
| "sh_words Blank (c # cs) =
     (if c = 32 then sh_words Blank cs
      else if c = 39 then sh_words (Quoted []) cs
      else if c = 92 then (case cs of [] \<Rightarrow> None | d # cs' \<Rightarrow> if d = 10 then None else sh_words (Word [d]) cs')
      else if sh_special c \<or> c = 126 then None
      else sh_words (Word [c]) cs)"
| "sh_words (Word w) (c # cs) =
     (if c = 32 then map_option ((#) w) (sh_words Blank cs)
      else if c = 39 then sh_words (Quoted w) cs
      else if c = 92 then (case cs of [] \<Rightarrow> None | d # cs' \<Rightarrow> if d = 10 then None else sh_words (Word (w @ [d])) cs')
      else if sh_special c then None
      else sh_words (Word (w @ [c])) cs)"

definition safe_char :: "uchar \<Rightarrow> bool" where
  "safe_char c \<longleftrightarrow> is_ascii_alphanumeric c \<or> c \<in> set (codes ''._-:@~/'')"

lemma safe_char_plain: "safe_char c \<Longrightarrow> c \<noteq> 32 \<and> c \<noteq> 39 \<and> c \<noteq> 92 \<and> c \<noteq> 37 \<and> \<not> sh_special c"
  by (auto simp: safe_char_def is_ascii_alphanumeric_def sh_special_def codes_def)

lemma sh_bare_rest:
  "list_all safe_char v \<Longrightarrow> sh_words (Word w) (v @ rest) = sh_words (Word (w @ v)) rest"
  by (induction v arbitrary: w) (simp_all add: safe_char_plain)

lemma sh_bare:
  assumes "list_all safe_char v" "v \<noteq> []" "hd v \<noteq> 126"
  shows "sh_words Blank (v @ rest) = sh_words (Word v) rest"
  using assms sh_bare_rest [of "tl v" "[hd v]" rest] by (cases v) (simp_all add: safe_char_plain)

lemma sh_quoted:
  "sh_words (Quoted w) (concat (map (\<lambda>ch. if ch = 39 then [39, 92, 39, 39] else [ch]) v) @ 39 # rest) =
   sh_words (Word (w @ v)) rest"
  by (induction v arbitrary: w) simp_all

lemma sh_shell_quote: "sh_words Blank (shell_quote v @ rest) = sh_words (Word v) rest"
  using sh_quoted [of "[]" v rest] by (simp add: shell_quote_def)

lemma safe_bare_word_read:
  assumes "is_safe_bare_word v extra" "set extra \<subseteq> {47}"
  shows "sh_words Blank (v @ rest) = sh_words (Word v) rest" "37 \<notin> set v"
proof -
  have safe: "list_all safe_char v"
    using assms by (auto simp: is_safe_bare_word_def list_all_iff safe_char_def codes_def)
  then show "sh_words Blank (v @ rest) = sh_words (Word v) rest"
    using assms by (intro sh_bare) (simp_all add: is_safe_bare_word_def)
  show "37 \<notin> set v" using safe safe_char_plain by (auto simp: list_all_iff)
qed

lemma quote_proxy_command_read:
  "sh_words Blank (quote_proxy_command_arg v @ rest) = sh_words (Word v) rest"
  "sh_words Blank (quote_proxy_command_path v @ rest) = sh_words (Word v) rest"
  by (simp_all add: quote_proxy_command_arg_def quote_proxy_command_path_def safe_bare_word_read sh_shell_quote)

lemma expand_plain: "c \<noteq> 37 \<Longrightarrow> expand_percent_tokens (c # cs) tokens = c # expand_percent_tokens cs tokens"
  by (cases cs) simp_all

lemma expand_no_percent:
  "37 \<notin> set s \<Longrightarrow> expand_percent_tokens (s @ t) tokens = s @ expand_percent_tokens t tokens"
  by (induction s) (simp_all add: expand_plain)

lemma expand_escaped:
  "expand_percent_tokens (escape_ssh_percent_tokens s @ t) tokens = s @ expand_percent_tokens t tokens"
  by (induction s) (simp_all add: escape_ssh_percent_tokens_def expand_plain)

section \<open>Where the destination stands\<close>

lemma options_step:
  "ends_options a \<Longrightarrow> ssh_options_before_destination (a # args) = ([], 0)"
  "\<not> ends_options a \<Longrightarrow> ssh_option_width a \<noteq> 2 \<Longrightarrow> ssh_options_before_destination (a # args) =
     ((a, None) # fst (ssh_options_before_destination args), Suc (snd (ssh_options_before_destination args)))"
  "\<not> ends_options a \<Longrightarrow> ssh_option_width a = 2 \<Longrightarrow> ssh_options_before_destination [a] = ([(a, None)], 2)"
  "\<not> ends_options a \<Longrightarrow> ssh_option_width a = 2 \<Longrightarrow> ssh_options_before_destination (a # v # args) =
     ((a, Some v) # fst (ssh_options_before_destination args), Suc (Suc (snd (ssh_options_before_destination args))))"
  by (simp_all add: case_prod_beta)

declare ssh_options_before_destination.simps(2) [simp del]

lemma options_induct [case_names Nil ends one last two]:
  assumes "P []" "\<And>a args. ends_options a \<Longrightarrow> P (a # args)"
    and "\<And>a args. \<not> ends_options a \<Longrightarrow> ssh_option_width a \<noteq> 2 \<Longrightarrow> P args \<Longrightarrow> P (a # args)"
    and "\<And>a. \<not> ends_options a \<Longrightarrow> ssh_option_width a = 2 \<Longrightarrow> P [a]"
    and "\<And>a v args. \<not> ends_options a \<Longrightarrow> ssh_option_width a = 2 \<Longrightarrow> P args \<Longrightarrow> P (a # v # args)"
  shows "P xs"
proof (induction xs rule: length_induct)
  case (1 xs)
  show ?case
  proof (cases xs rule: remdups_adj.cases)
    case (2 a)
    then show ?thesis using assms by blast
  next
    case (3 a v args)
    with 1 have "P args" "P (v # args)" by simp_all
    then show ?thesis using assms 3 by blast
  qed (use assms in simp)
qed

lemma options_index_append:
  "snd (ssh_options_before_destination xs) < length xs \<Longrightarrow>
   ssh_options_before_destination (xs @ ys) = ssh_options_before_destination xs"
  by (induction xs rule: options_induct) (simp_all add: options_step)

lemma find_destination_append:
  assumes "find_destination_index xs = Some i"
  shows "find_destination_index (xs @ ys) = Some i" "i < length xs"
  using assms options_index_append [of xs ys]
  by (auto simp: find_destination_index_def Let_def nth_append split: if_splits)

lemma options_index_last:
  "length xs \<le> snd (ssh_options_before_destination xs) \<Longrightarrow>
   length xs \<le> snd (ssh_options_before_destination (xs @ [a]))"
proof (induction xs rule: options_induct)
  case (last b)
  then show ?case by (simp add: options_step)
qed (simp_all add: options_step)

lemma destination_index_last:
  assumes "find_destination_index xs = None" "find_destination_index (xs @ [a]) = Some i"
  shows "i = length xs"
proof (cases "snd (ssh_options_before_destination xs) < length xs")
  case True
  with assms options_index_append [OF True, of "[a]"] show ?thesis
    by (auto simp: find_destination_index_def Let_def nth_append split: if_splits)
next
  case False
  with options_index_last [of xs a] assms(2) show ?thesis
    by (auto simp: find_destination_index_def Let_def split: if_splits)
qed

text \<open>The loop keeps everything from the destination on.\<close>

lemma wrapper_loop_after_destination:
  "find_destination_index (wa_ssh_args w) \<noteq> None \<Longrightarrow> wrapper_loop args w = Inr w' \<Longrightarrow>
   wa_ssh_args w' = wa_ssh_args w @ args"
proof (induction args arbitrary: w)
  case (Cons a args)
  then have "find_destination_index (wa_ssh_args (w\<lparr>wa_ssh_args := wa_ssh_args w @ [a]\<rparr>)) \<noteq> None"
    using find_destination_append by auto
  moreover from Cons.prems have "wrapper_loop args (w\<lparr>wa_ssh_args := wa_ssh_args w @ [a]\<rparr>) = Inr w'"
    by (auto simp: wrapper_loop.simps(2))
  ultimately show ?case using Cons.IH by fastforce
qed simp

definition kept_from_destination :: "ssh_text list \<Rightarrow> wrapper_args \<Rightarrow> bool" where
  "kept_from_destination args w \<longleftrightarrow>
     (\<forall>i. find_destination_index (wa_ssh_args w) = Some i \<longrightarrow> suffix (drop i (wa_ssh_args w)) args)"

lemma kept_Cons: "kept_from_destination args w \<Longrightarrow> kept_from_destination (a # args) w"
  by (auto simp: kept_from_destination_def intro: suffix_ConsI)

lemma kept_append:
  assumes "find_destination_index (wa_ssh_args w) = None"
    and "find_destination_index (wa_ssh_args w @ [a]) \<noteq> None"
    and "wa_ssh_args w' = wa_ssh_args w @ a # args"
  shows "kept_from_destination (a # args) w'"
proof -
  from assms(1,2) destination_index_last obtain i where i: "find_destination_index (wa_ssh_args w @ [a]) = Some i"
    "i = length (wa_ssh_args w)" by blast
  from find_destination_append(1) [OF i(1), of args] show ?thesis
    by (simp add: kept_from_destination_def assms(3) i(2))
qed

lemma wa_set_args [simp]: "wa_ssh_args (wa_set f w) = wa_ssh_args w"
  by (simp add: wa_set_def)

text \<open>An argument before the destination is an option of the wrapper, with or without a value, or is
  passed on.\<close>

definition loop_step :: "ssh_text \<Rightarrow> ssh_text list \<Rightarrow> wrapper_args \<Rightarrow> wrapper_error + wrapper_args \<Rightarrow> bool" where
  "loop_step a args w r \<longleftrightarrow> isl r \<or>
     (\<exists>w1. wa_ssh_args w1 = wa_ssh_args w \<and> r = wrapper_loop args w1) \<or>
     (\<exists>v args1 w1. args = v # args1 \<and> wa_ssh_args w1 = wa_ssh_args w \<and> r = wrapper_loop args1 w1) \<or>
     r = wrapper_loop args (w\<lparr>wa_ssh_args := wa_ssh_args w @ [a]\<rparr>)"

lemma loop_step_intros:
  "(P \<Longrightarrow> loop_step a args w x) \<Longrightarrow> (\<not> P \<Longrightarrow> loop_step a args w y) \<Longrightarrow> loop_step a args w (if P then x else y)"
  "loop_step a args w (Inl e)"
  "loop_step a args w (wrapper_loop args (wa_set f w))"
  "loop_step a args w (wrapper_loop args (w\<lparr>wa_ssh_args := wa_ssh_args w @ [a]\<rparr>))"
  "(\<And>v. wa_ssh_args (upd v w) = wa_ssh_args w) \<Longrightarrow>
   loop_step a args w (case args of [] \<Rightarrow> Inl e | v # args1 \<Rightarrow> wrapper_loop args1 (upd v w))"
  "(\<And>n. loop_step a args w (h n)) \<Longrightarrow> loop_step a args w g \<Longrightarrow> loop_step a args w (case z of Some n \<Rightarrow> h n | None \<Rightarrow> g)"
  by (auto simp: loop_step_def split: list.split option.split) (metis wa_set_args)

lemma wrapper_loop_step: "loop_step a args w (wrapper_loop (a # args) w)"
  unfolding wrapper_loop.simps(2) Let_def by (intro loop_step_intros) simp_all

lemma wrapper_loop_kept:
  "find_destination_index (wa_ssh_args w) = None \<Longrightarrow> wrapper_loop args w = Inr w' \<Longrightarrow> kept_from_destination args w'"
proof (induction args arbitrary: w rule: length_induct)
  case (1 args)
  then have IH: "length ys < length args \<Longrightarrow> find_destination_index (wa_ssh_args x) = None \<Longrightarrow> wrapper_loop ys x = Inr w' \<Longrightarrow>
      kept_from_destination ys w'" for ys x by blast
  show ?case
  proof (cases args)
    case Nil
    with 1 show ?thesis by (auto simp: kept_from_destination_def)
  next
    case (Cons a rest)
    let ?push = "w\<lparr>wa_ssh_args := wa_ssh_args w @ [a]\<rparr>"
    from wrapper_loop_step [of a rest w] 1(3) Cons consider
      w1 where "wa_ssh_args w1 = wa_ssh_args w" "wrapper_loop rest w1 = Inr w'"
      | v rest1 w1 where "rest = v # rest1" "wa_ssh_args w1 = wa_ssh_args w" "wrapper_loop rest1 w1 = Inr w'"
      | "wrapper_loop rest ?push = Inr w'" by (fastforce simp: loop_step_def)
    then show ?thesis
    proof cases
      case (1 w1)
      then have "kept_from_destination rest w'" using "1.prems"(1) Cons by (intro IH [of _ w1]) simp_all
      then show ?thesis using Cons kept_Cons by simp
    next
      case (2 v rest1 w1)
      then have "kept_from_destination rest1 w'" using "1.prems"(1) Cons by (intro IH [of _ w1]) simp_all
      then show ?thesis using Cons 2(1) kept_Cons by simp
    next
      case 3
      show ?thesis
      proof (cases "find_destination_index (wa_ssh_args ?push)")
        case None
        then have "kept_from_destination rest w'" using 3 Cons by (intro IH [of _ ?push]) simp_all
        then show ?thesis using Cons kept_Cons by simp
      next
        case (Some i)
        with wrapper_loop_after_destination [of ?push rest w'] 3
        have "wa_ssh_args w' = wa_ssh_args w @ a # rest" by simp
        then show ?thesis using kept_append [OF "1.prems"(1)] Some Cons by simp
      qed
    qed
  qed
qed

lemma find_destination_Nil [simp]: "find_destination_index [] = None"
  by (simp add: find_destination_index_def)

section \<open>Properties\<close>

text \<open>C21. Nothing of the remote command is taken for an option: from the destination on, the arguments
  reach ssh as they were given, in order and to the end, and the remote command is all of those after
  the destination.\<close>

theorem remote_command_untouched:
  assumes "parse_wrapper pipe args = Inr plan"
  shows "suffix (wp_destination plan # drop (Suc (wp_destination_index plan)) (wa_ssh_args plan)) args"
proof -
  from assms obtain w i where w: "wrapper_loop args \<lparr>wa_openssh_path = codes ''ssh'', wa_pipe_path = pipe,
      wa_ssh_args = [], wa_isekai = wrapper_options_default\<rparr> = Inr w" "find_destination_index (wa_ssh_args w) = Some i"
    and plan: "wa_ssh_args plan = wa_ssh_args w" "wp_destination plan = wa_ssh_args w ! i" "wp_destination_index plan = i"
    by (auto simp: parse_wrapper_def Let_def split: sum.splits option.splits if_splits prod.splits)
  have "kept_from_destination args w" by (rule wrapper_loop_kept [OF _ w(1)]) simp
  then have "suffix (drop i (wa_ssh_args w)) args" using w(2) by (simp add: kept_from_destination_def)
  then show ?thesis using plan find_destination_append(2) [OF w(2)] by (simp add: Cons_nth_drop_Suc)
qed

lemma remote_command_untouched_witness:
  "\<exists>plan. parse_wrapper (codes ''p'') [codes ''--isekai-direct'', codes ''h'', codes ''--isekai-tty''] = Inr plan
     \<and> suffix (wp_destination plan # drop (Suc (wp_destination_index plan)) (wa_ssh_args plan))
         [codes ''--isekai-direct'', codes ''h'', codes ''--isekai-tty'']"
proof -
  have "\<exists>plan. parse_wrapper (codes ''p'') [codes ''--isekai-direct'', codes ''h'', codes ''--isekai-tty''] = Inr plan"
    by (simp add: parse_wrapper_def wrapper_loop.simps find_destination_index_def options_step ends_options_def
      ssh_option_width_def codes_def strip_prefix_def case_prod_beta wa_set_def wrapper_options_default_def Let_def)
  then show ?thesis using remote_command_untouched by blast
qed

text \<open>C20. What ssh and the shell read is what was meant: after ssh expands the tokens of the proxy command,
  whatever their values, the shell sees the path, the fixed words and the profile as the words of one
  simple command; the command that attaches to a terminal session is read back the same way. No
  character of a path, a profile or a name is lost, expanded, or ends the word it stands in.\<close>

theorem shell_arguments_survive:
  "sh_words Blank (expand_percent_tokens (proxy_command pipe_path profile) tokens) =
     Some [pipe_path, codes ''connect'', codes ''--profile'', profile, codes ''--service'', codes ''ssh'', codes ''--stdio'']
   \<and> sh_words Blank (attach_command name) = Some [codes ''isekai-pipe'', codes ''tty'', codes ''attach'', name]"
proof
  let ?mid = "codes '' connect --profile ''" and ?rest = "codes '' --service ssh --stdio''"
  have tail: "sh_words (Word profile) ?rest = Some [profile, codes ''--service'', codes ''ssh'', codes ''--stdio'']"
    by (simp add: codes_def sh_special_def)
  have mid: "sh_words (Word pipe_path) (?mid @ rest) =
      map_option (\<lambda>ws. pipe_path # codes ''connect'' # codes ''--profile'' # ws) (sh_words Blank rest)" for rest
    by (simp add: codes_def sh_special_def option.map_comp comp_def)
  have "expand_percent_tokens (proxy_command pipe_path profile) tokens =
      quote_proxy_command_path pipe_path @ ?mid @ quote_proxy_command_arg profile @ ?rest"
    using expand_no_percent [of ?mid _ tokens] expand_no_percent [of ?rest "[]" tokens]
    by (simp add: proxy_command_def expand_escaped codes_def)
  then show "sh_words Blank (expand_percent_tokens (proxy_command pipe_path profile) tokens) =
      Some [pipe_path, codes ''connect'', codes ''--profile'', profile, codes ''--service'', codes ''ssh'', codes ''--stdio'']"
    by (simp add: quote_proxy_command_read mid tail)
  show "sh_words Blank (attach_command name) = Some [codes ''isekai-pipe'', codes ''tty'', codes ''attach'', name]"
    using sh_shell_quote [of name "[]"] by (simp add: attach_command_def codes_def sh_special_def)
qed

text \<open>The scan of \<^verbatim>\<open>config_roots\<close> goes over these words and does not take the word behind them for a value.\<close>

fun stepped_over :: "ssh_text list \<Rightarrow> bool" where
  "stepped_over [] = True"
| "stepped_over [a] \<longleftrightarrow> ssh_option_width a \<noteq> 2"
| "stepped_over (a # b # xs) = (if ssh_option_width a = 2 then stepped_over xs else stepped_over (b # xs))"

lemma dash_f_roots_skip:
  "stepped_over xs \<Longrightarrow> codes ''-F'' \<notin> set xs \<Longrightarrow> dash_f_roots env (xs @ ys) = dash_f_roots env ys"
proof (induction xs rule: stepped_over.induct)
  case (2 a)
  then show ?case by (cases ys) auto
qed (auto split: if_splits)

lemma dash_f_roots_none: "codes ''-F'' \<notin> set xs \<Longrightarrow> dash_f_roots env xs = []"
  by (induction xs rule: stepped_over.induct) auto

lemma options_are_arguments: "opt \<in> set (fst (ssh_options_before_destination xs)) \<Longrightarrow> fst opt \<in> set xs"
  by (induction xs rule: options_induct) (auto simp: options_step)

text \<open>C36. Yet a \<^verbatim>\<open>-F\<close> of the remote command is taken for the configuration file. Say the destination is among
  the words before the only \<^verbatim>\<open>-F\<close>, so that this belongs to the remote command, and the word in front of it
  does not look like an option of ssh with a value. Then no file is found to be
  named for the settings, but the directives are read from the file named after the \<^verbatim>\<open>-F\<close> and no
  other; without these two words they would be read from the default file.\<close>

theorem remote_dash_f_taken_for_config:
  assumes "find_destination_index before = Some i" "stepped_over before"
    and "codes ''-F'' \<notin> set before" "codes ''-F'' \<notin> set rest"
  shows "find_destination_index (before @ [codes ''-F'', file] @ rest) = Some i \<and>
    dash_f_config_path (before @ [codes ''-F'', file] @ rest) = None \<and>
    config_roots env (before @ [codes ''-F'', file] @ rest) = [expand_path env file None] \<and>
    config_roots env (before @ rest) = (case env_home env of
        Some home \<Rightarrow> [path_join (path_join home (codes ''.ssh'')) (codes ''config'')]
      | None \<Rightarrow> [])"
proof -
  have "snd (ssh_options_before_destination before) < length before"
    using assms(1) by (auto simp: find_destination_index_def Let_def split: if_splits)
  then have opts: "ssh_options_before_destination (before @ ys) = ssh_options_before_destination before" for ys
    by (rule options_index_append)
  have "opt \<in> set (fst (ssh_options_before_destination before)) \<Longrightarrow> fst opt \<noteq> codes ''-F''" for opt
    using options_are_arguments [of opt before] assms(3) by auto
  then have "find (\<lambda>(arg, _). arg = codes ''-F'') (fst (ssh_options_before_destination before)) = None"
    by (fastforce simp: find_None_iff)
  then have "dash_f_config_path (before @ ys) = None" for ys by (simp only: dash_f_config_path_def opts) simp
  then show ?thesis
    using assms find_destination_append(1) [OF assms(1)]
    by (simp add: config_roots_def dash_f_roots_skip dash_f_roots_none Let_def)
qed

lemma remote_dash_f_taken_for_config_witness:
  "config_roots example_env [codes ''-p'', codes ''22'', codes ''h'', codes ''grep'', codes ''-F'', codes ''x''] =
     [expand_path example_env (codes ''x'') None]"
  using remote_dash_f_taken_for_config
    [of "[codes ''-p'', codes ''22'', codes ''h'', codes ''grep'']" 2 "[]" "codes ''x''" example_env]
  by (simp add: codes_def ssh_option_width_def find_destination_index_def options_step ends_options_def)

lemma tab_session_valid: "tab_session candidates = Some name \<Longrightarrow> is_valid_tty_name name"
proof (induction candidates)
  case (Cons c candidates)
  then show ?case
    by (cases c; cases "snd c") (simp_all add: Let_def del: append.simps split: if_splits)
qed simp

text \<open>The name an automatic terminal session gets is one the daemon accepts exactly if a variable of
  the environment gives one or the profile is short enough and without slash: the fallback on the
  profile is not always valid.\<close>

lemma auto_tty_name_valid:
  "is_valid_tty_name (resolve_name_from Tty_Auto profile candidates) \<longleftrightarrow>
     tab_session candidates \<noteq> None \<or> 47 \<notin> set profile \<and> 0 \<notin> set profile \<and> length (utf8_encode profile) \<le> 193"
proof (cases "tab_session candidates")
  case None
  then show ?thesis
    by (auto simp: resolve_name_from_def is_valid_tty_name_def utf8_encode_def codes_def utf8_char_def)
next
  case (Some name)
  then show ?thesis using tab_session_valid by (simp add: resolve_name_from_def)
qed

end
