(* ===== verification/IsekaiConfig.thy ===== *)
theory IsekaiConfig
  imports WrapperCli NetAddr
begin

text \<open>
  \<^verbatim>\<open>isekai-ssh/src/wrapper/config.rs\<close>: from the directives to the configuration of a connection; with
  \<^verbatim>\<open>parse_hex_color\<close>, \<^verbatim>\<open>format_hex_color\<close> and \<^verbatim>\<open>ServiceSpec\<close> of \<^verbatim>\<open>isekai-pipe-core\<close>, and the choices of
  \<^verbatim>\<open>wrapper.rs\<close> that rest on the configuration. The grammar of \<^verbatim>\<open>SocketAddr::from_str\<close> is an argument.
\<close>

section \<open>Values\<close>

datatype bootstrap_policy = BP_Auto | BP_Always | BP_Never

datatype install_mode = IM_User | IM_System

datatype relay_transport_kind = RTK_Udp | RTK_Qmux

datatype tty_directive = TD_Auto | TD_Named ssh_text | TD_Off

record service_spec =
  sp_name :: ssh_text
  sp_target :: ssh_text

record bootstrap_candidate =
  bc_target :: ssh_text
  bc_via :: "ssh_text list"
  bc_priority :: u32
  bc_alias :: "ssh_text option"

record bootstrap_relay_target =
  br_addr :: socket_addr
  br_sni :: ssh_text
  br_transport :: relay_transport_kind

datatype service_error = MissingEquals | EmptyName | EmptyTarget

datatype config_error =
    ExactlyOneArgument ssh_text | AtLeastOneArgument ssh_text | UnknownDirective ssh_text
  | NotYesNo ssh_text | InvalidPolicy ssh_text | InvalidService ssh_text service_error
  | CandidateNotKeyValue ssh_text | CandidatePriority ssh_text | CandidateKey ssh_text | CandidateTarget
  | RelayNotKeyValue ssh_text | RelayAddr ssh_text | RelaySniEmpty | RelayTransport ssh_text | RelayKey ssh_text
  | RelayAddrMissing | RelaySniMissing
  | InvalidDuration ssh_text ssh_text | DurationTooLarge ssh_text
  | InvalidInstallMode ssh_text | InvalidLogLevel ssh_text
  | PortRangeForm ssh_text ssh_text | PortRangeStart ssh_text ssh_text | PortRangeEnd ssh_text ssh_text
  | PortRangeOrder ssh_text ssh_text
  | InvalidTabColor ssh_text | InvalidTtyName ssh_text
  | SystemInstallUnsupported

section \<open>Parsing\<close>

definition split_once :: "uchar \<Rightarrow> ssh_text \<Rightarrow> (ssh_text \<times> ssh_text) option" where
  "split_once c s =
     (if c \<in> set s then Some (takeWhile (\<lambda>x. x \<noteq> c) s, tl (dropWhile (\<lambda>x. x \<noteq> c) s)) else None)"

definition strip_suffix :: "ssh_text \<Rightarrow> ssh_text \<Rightarrow> ssh_text option" where
  "strip_suffix p s = (if suffix p s then Some (take (length s - length p) s) else None)"

definition parse_u32 :: "ssh_text \<Rightarrow> u32 option" where
  "parse_u32 s =
     (case digits_value (if s \<noteq> [] \<and> hd s = 43 then tl s else s) of
        Some v \<Rightarrow> if v < 2 ^ 32 then Some (word_of_nat v) else None
      | None \<Rightarrow> None)"

definition one_arg :: "isekai_directive \<Rightarrow> config_error + ssh_text" where
  "one_arg d = (case dir_args d of [single] \<Rightarrow> Inr single | _ \<Rightarrow> Inl (ExactlyOneArgument (dir_name d)))"

definition append_args :: "isekai_directive \<Rightarrow> ssh_text list \<Rightarrow> config_error + ssh_text list" where
  "append_args d target = (if dir_args d = [] then Inl (AtLeastOneArgument (dir_name d)) else Inr (target @ dir_args d))"

definition set_once :: "'a \<Rightarrow> 'a option \<Rightarrow> 'a option" where
  "set_once val slot = (if slot = None then Some val else slot)"

definition parse_yes_no :: "ssh_text \<Rightarrow> config_error + bool" where
  "parse_yes_no val =
     (if val \<in> set (map codes [''yes'', ''true'', ''on'', ''1'']) then Inr True
      else if val \<in> set (map codes [''no'', ''false'', ''off'', ''0'']) then Inr False
      else Inl (NotYesNo val))"

definition parse_policy :: "ssh_text \<Rightarrow> config_error + bootstrap_policy" where
  "parse_policy val =
     (if val = codes ''auto'' then Inr BP_Auto else if val = codes ''always'' then Inr BP_Always
      else if val = codes ''never'' then Inr BP_Never else Inl (InvalidPolicy val))"

definition parse_install_mode :: "ssh_text \<Rightarrow> config_error + install_mode" where
  "parse_install_mode val =
     (if val = codes ''user'' then Inr IM_User else if val = codes ''system'' then Inr IM_System
      else Inl (InvalidInstallMode val))"

definition log_levels :: "ssh_text list" where
  "log_levels = map codes [''error'', ''warn'', ''info'', ''debug'', ''trace'']"

definition parse_log_level :: "ssh_text \<Rightarrow> config_error + ssh_text" where
  "parse_log_level val = (if val \<in> set log_levels then Inr val else Inl (InvalidLogLevel val))"

definition parse_duration_ms :: "ssh_text \<Rightarrow> ssh_text \<Rightarrow> config_error + u64" where
  "parse_duration_ms val field =
     (let (number, multiplier) = (case strip_suffix (codes ''ms'') val of
            Some number \<Rightarrow> (number, 1)
          | None \<Rightarrow> (case strip_suffix (codes ''s'') val of
              Some number \<Rightarrow> (number, 1000)
            | None \<Rightarrow> (val, 1000))) in
      case parse_u64 number of
        None \<Rightarrow> Inl (InvalidDuration field val)
      | Some amount \<Rightarrow>
          if unat amount * multiplier < 2 ^ 64 then Inr (word_of_nat (unat amount * multiplier))
          else Inl (DurationTooLarge field))"

text \<open>\<^verbatim>\<open>div_ceil\<close>.\<close>

definition u64_div_ceil :: "u64 \<Rightarrow> u64 \<Rightarrow> u64" where
  "u64_div_ceil x y = (if x mod y > 0 then x div y + 1 else x div y)"

definition parse_bind_port_range :: "ssh_text \<Rightarrow> ssh_text \<Rightarrow> config_error + u16 \<times> u16" where
  "parse_bind_port_range val field = (case split_once 45 val of
       None \<Rightarrow> Inl (PortRangeForm field val)
     | Some (start, end') \<Rightarrow> (case parse_u16 start of
         None \<Rightarrow> Inl (PortRangeStart field start)
       | Some s \<Rightarrow> (case parse_u16 end' of
           None \<Rightarrow> Inl (PortRangeEnd field end')
         | Some e \<Rightarrow> if s > e then Inl (PortRangeOrder field val) else Inr (s, e))))"

text \<open>A colour is checked to be ASCII before it is cut, so that characters and bytes agree.\<close>

definition parse_hex_color :: "ssh_text \<Rightarrow> (u8 \<times> u8 \<times> u8) option" where
  "parse_hex_color val =
     (let hex = (case strip_prefix [35] val of Some h \<Rightarrow> h | None \<Rightarrow> val) in
      if length (utf8_encode hex) \<noteq> 6 \<or> \<not> list_all (\<lambda>c. hex_digit c \<noteq> None) hex then None
      else Some (word_of_nat (hex_value (take 2 hex)), word_of_nat (hex_value (take 2 (drop 2 hex))),
                 word_of_nat (hex_value (take 2 (drop 4 hex)))))"

definition hex_lower :: "nat \<Rightarrow> uchar" where
  "hex_lower n = (if n < 10 then 48 + n else 87 + n)"

definition format_hex_color :: "u8 \<times> u8 \<times> u8 \<Rightarrow> ssh_text" where
  "format_hex_color = (\<lambda>(r, g, b).
     concat (map (\<lambda>v. [hex_lower (unat v div 16), hex_lower (unat v mod 16)]) [r, g, b]))"

definition service_spec_new :: "ssh_text \<Rightarrow> ssh_text \<Rightarrow> service_error + service_spec" where
  "service_spec_new name target =
     (if name = [] then Inl EmptyName else if target = [] then Inl EmptyTarget
      else Inr \<lparr>sp_name = name, sp_target = target\<rparr>)"

definition service_spec_parse :: "ssh_text \<Rightarrow> service_error + service_spec" where
  "service_spec_parse input = (case split_once 61 input of
       None \<Rightarrow> Inl MissingEquals
     | Some (name, target) \<Rightarrow> service_spec_new name target)"

fun parse_services :: "ssh_text list \<Rightarrow> config_error + service_spec list" where
  "parse_services [] = Inr []"
| "parse_services (arg # args) = (case service_spec_parse arg of
       Inl e \<Rightarrow> Inl (InvalidService arg e)
     | Inr s \<Rightarrow> (case parse_services args of Inl e \<Rightarrow> Inl e | Inr ss \<Rightarrow> Inr (s # ss)))"

definition parse_jump_chain :: "ssh_text \<Rightarrow> ssh_text list" where
  "parse_jump_chain val = filter (\<lambda>hop. hop \<noteq> []) (map str_trim (split_on (\<lambda>c. c = 44) val))"

fun candidate_args ::
    "ssh_text list \<Rightarrow> ssh_text option \<times> ssh_text list \<times> u32 \<Rightarrow> config_error + ssh_text option \<times> ssh_text list \<times> u32" where
  "candidate_args [] s = Inr s"
| "candidate_args (arg # args) (target, via, priority) = (case split_once 61 arg of
       None \<Rightarrow> Inl (CandidateNotKeyValue arg)
     | Some (key, val) \<Rightarrow>
         if key = codes ''target'' then candidate_args args (Some val, via, priority)
         else if key = codes ''via'' then candidate_args args (target, parse_jump_chain val, priority)
         else if key = codes ''priority'' then (case parse_u32 val of
             Some p \<Rightarrow> candidate_args args (target, via, p)
           | None \<Rightarrow> Inl (CandidatePriority val))
         else Inl (CandidateKey key))"

definition parse_bootstrap_candidate :: "ssh_text list \<Rightarrow> config_error + bootstrap_candidate" where
  "parse_bootstrap_candidate args = (case candidate_args args (None, [], 100) of
       Inl e \<Rightarrow> Inl e
     | Inr (None, _, _) \<Rightarrow> Inl CandidateTarget
     | Inr (Some target, via, priority) \<Rightarrow>
         Inr \<lparr>bc_target = target, bc_via = via, bc_priority = priority, bc_alias = None\<rparr>)"

fun relay_args ::
    "(ssh_text \<Rightarrow> socket_addr option) \<Rightarrow> ssh_text list \<Rightarrow> socket_addr option \<times> ssh_text option \<times> relay_transport_kind \<Rightarrow>
     config_error + socket_addr option \<times> ssh_text option \<times> relay_transport_kind" where
  "relay_args parse_addr [] s = Inr s"
| "relay_args parse_addr (arg # args) (addr, sni, transport) = (case split_once 61 arg of
       None \<Rightarrow> Inl (RelayNotKeyValue arg)
     | Some (key, val) \<Rightarrow>
         if key = codes ''addr'' then (case parse_addr val of
             Some a \<Rightarrow> relay_args parse_addr args (Some a, sni, transport)
           | None \<Rightarrow> Inl (RelayAddr val))
         else if key = codes ''sni'' then
           (if val = [] then Inl RelaySniEmpty else relay_args parse_addr args (addr, Some val, transport))
         else if key = codes ''transport'' then
           (if val = codes ''udp'' then relay_args parse_addr args (addr, sni, RTK_Udp)
            else if val = codes ''qmux'' then relay_args parse_addr args (addr, sni, RTK_Qmux)
            else Inl (RelayTransport val))
         else Inl (RelayKey key))"

definition parse_bootstrap_relay ::
    "(ssh_text \<Rightarrow> socket_addr option) \<Rightarrow> ssh_text list \<Rightarrow> config_error + bootstrap_relay_target" where
  "parse_bootstrap_relay parse_addr args = (case relay_args parse_addr args (None, None, RTK_Udp) of
       Inl e \<Rightarrow> Inl e
     | Inr (None, _, _) \<Rightarrow> Inl RelayAddrMissing
     | Inr (Some _, None, _) \<Rightarrow> Inl RelaySniMissing
     | Inr (Some addr, Some sni, transport) \<Rightarrow> Inr \<lparr>br_addr = addr, br_sni = sni, br_transport = transport\<rparr>)"

section \<open>Applying the directives\<close>

record isekai_config_builder =
  ib_enabled :: "bool option"
  ib_bootstrap_policy :: "bootstrap_policy option"
  ib_profile :: "ssh_text option"
  ib_remote_path :: "ssh_text option"
  ib_services :: "service_spec list"
  ib_bootstrap_candidates :: "bootstrap_candidate list"
  ib_link_endpoints :: "ssh_text list"
  ib_rendezvous :: "ssh_text list"
  ib_stun_servers :: "ssh_text list"
  ib_relay_endpoints :: "ssh_text list"
  ib_bootstrap_relay :: "bootstrap_relay_target option"
  ib_resume_grace_secs :: "u64 option"
  ib_candidate_race_delay_ms :: "u64 option"
  ib_relay_delay_ms :: "u64 option"
  ib_install_mode :: "install_mode option"
  ib_ctl_socket_enabled :: "bool option"
  ib_remote_log_level :: "ssh_text option"
  ib_remote_bind_port_range :: "(u16 \<times> u16) option"
  ib_local_bind_port_range :: "(u16 \<times> u16) option"
  ib_tab_idle_color :: "(u8 \<times> u8 \<times> u8) option"
  ib_tab_attention_color :: "(u8 \<times> u8 \<times> u8) option"
  ib_tty :: "tty_directive option"

definition builder_default :: isekai_config_builder where
  "builder_default = \<lparr>ib_enabled = None, ib_bootstrap_policy = None, ib_profile = None, ib_remote_path = None,
     ib_services = [], ib_bootstrap_candidates = [], ib_link_endpoints = [], ib_rendezvous = [], ib_stun_servers = [],
     ib_relay_endpoints = [], ib_bootstrap_relay = None, ib_resume_grace_secs = None, ib_candidate_race_delay_ms = None,
     ib_relay_delay_ms = None, ib_install_mode = None, ib_ctl_socket_enabled = None, ib_remote_log_level = None,
     ib_remote_bind_port_range = None, ib_local_bind_port_range = None, ib_tab_idle_color = None,
     ib_tab_attention_color = None, ib_tty = None\<rparr>"

text \<open>\<^verbatim>\<open>?\<close> on a result, and on that of parsing the one argument.\<close>

definition ok_then :: "config_error + 'a \<Rightarrow> ('a \<Rightarrow> 'b) \<Rightarrow> config_error + 'b" where
  "ok_then r f = (case r of Inl e \<Rightarrow> Inl e | Inr v \<Rightarrow> Inr (f v))"

definition with_one_arg :: "isekai_directive \<Rightarrow> (ssh_text \<Rightarrow> config_error + 'a) \<Rightarrow> config_error + 'a" where
  "with_one_arg d f = (case one_arg d of Inl e \<Rightarrow> Inl e | Inr v \<Rightarrow> f v)"

definition apply_lenient :: "'a option \<Rightarrow> isekai_directive \<Rightarrow> (isekai_directive \<Rightarrow> config_error + 'a) \<Rightarrow> 'a option" where
  "apply_lenient slot d parse =
     (if slot \<noteq> None then slot else (case parse d of Inr val \<Rightarrow> Some val | Inl _ \<Rightarrow> slot))"

definition parse_tab_color :: "ssh_text \<Rightarrow> config_error + u8 \<times> u8 \<times> u8" where
  "parse_tab_color val = (case parse_hex_color val of Some c \<Rightarrow> Inr c | None \<Rightarrow> Inl (InvalidTabColor val))"

definition apply_optional_tab_color :: "(u8 \<times> u8 \<times> u8) option \<Rightarrow> isekai_directive \<Rightarrow> (u8 \<times> u8 \<times> u8) option" where
  "apply_optional_tab_color slot d = apply_lenient slot d (\<lambda>d. with_one_arg d parse_tab_color)"

definition apply_optional_tty :: "tty_directive option \<Rightarrow> isekai_directive \<Rightarrow> tty_directive option" where
  "apply_optional_tty slot d = apply_lenient slot d (\<lambda>d. with_one_arg d (\<lambda>val.
     if val = codes ''auto'' then Inr TD_Auto
     else if val = codes ''off'' then Inr TD_Off
     else if is_valid_tty_name val then Inr (TD_Named val)
     else Inl (InvalidTtyName val)))"

definition apply_isekai_directive ::
    "(ssh_text \<Rightarrow> socket_addr option) \<Rightarrow> isekai_config_builder \<Rightarrow> isekai_directive \<Rightarrow> config_error + isekai_config_builder" where
  "apply_isekai_directive parse_addr b d =
     (let name = dir_name d in
      if name = codes ''enabled'' then
        ok_then (with_one_arg d parse_yes_no) (\<lambda>v. b\<lparr>ib_enabled := set_once v (ib_enabled b)\<rparr>)
      else if name = codes ''bootstrap-policy'' then
        ok_then (with_one_arg d parse_policy) (\<lambda>v. b\<lparr>ib_bootstrap_policy := set_once v (ib_bootstrap_policy b)\<rparr>)
      else if name = codes ''profile'' then
        ok_then (one_arg d) (\<lambda>v. b\<lparr>ib_profile := set_once v (ib_profile b)\<rparr>)
      else if name = codes ''remote-path'' then
        ok_then (one_arg d) (\<lambda>v. b\<lparr>ib_remote_path := set_once v (ib_remote_path b)\<rparr>)
      else if name = codes ''service'' then
        ok_then (parse_services (dir_args d)) (\<lambda>ss. b\<lparr>ib_services := ib_services b @ ss\<rparr>)
      else if name = codes ''bootstrap-candidate'' then
        ok_then (parse_bootstrap_candidate (dir_args d))
          (\<lambda>c. b\<lparr>ib_bootstrap_candidates := ib_bootstrap_candidates b @ [c]\<rparr>)
      else if name = codes ''link'' then
        ok_then (append_args d (ib_link_endpoints b)) (\<lambda>v. b\<lparr>ib_link_endpoints := v\<rparr>)
      else if name = codes ''rendezvous'' then
        ok_then (append_args d (ib_rendezvous b)) (\<lambda>v. b\<lparr>ib_rendezvous := v\<rparr>)
      else if name = codes ''stun'' then
        ok_then (append_args d (ib_stun_servers b)) (\<lambda>v. b\<lparr>ib_stun_servers := v\<rparr>)
      else if name = codes ''relay'' then
        ok_then (append_args d (ib_relay_endpoints b)) (\<lambda>v. b\<lparr>ib_relay_endpoints := v\<rparr>)
      else if name = codes ''resume-grace'' then
        ok_then (with_one_arg d (\<lambda>v. parse_duration_ms v name))
          (\<lambda>ms. b\<lparr>ib_resume_grace_secs := set_once (u64_div_ceil ms 1000) (ib_resume_grace_secs b)\<rparr>)
      else if name = codes ''candidate-race-delay'' then
        ok_then (with_one_arg d (\<lambda>v. parse_duration_ms v name))
          (\<lambda>ms. b\<lparr>ib_candidate_race_delay_ms := set_once ms (ib_candidate_race_delay_ms b)\<rparr>)
      else if name = codes ''relay-delay'' then
        ok_then (with_one_arg d (\<lambda>v. parse_duration_ms v name))
          (\<lambda>ms. b\<lparr>ib_relay_delay_ms := set_once ms (ib_relay_delay_ms b)\<rparr>)
      else if name = codes ''bootstrap-relay'' then
        ok_then (parse_bootstrap_relay parse_addr (dir_args d))
          (\<lambda>r. b\<lparr>ib_bootstrap_relay := set_once r (ib_bootstrap_relay b)\<rparr>)
      else if name = codes ''install-mode'' then
        ok_then (with_one_arg d parse_install_mode) (\<lambda>v. b\<lparr>ib_install_mode := set_once v (ib_install_mode b)\<rparr>)
      else if name = codes ''ctl-socket'' then
        ok_then (with_one_arg d parse_yes_no) (\<lambda>v. b\<lparr>ib_ctl_socket_enabled := set_once v (ib_ctl_socket_enabled b)\<rparr>)
      else if name = codes ''remote-log-level'' then
        ok_then (with_one_arg d parse_log_level) (\<lambda>v. b\<lparr>ib_remote_log_level := set_once v (ib_remote_log_level b)\<rparr>)
      else if name = codes ''remote-bind-port-range'' then
        ok_then (with_one_arg d (\<lambda>v. parse_bind_port_range v name))
          (\<lambda>v. b\<lparr>ib_remote_bind_port_range := set_once v (ib_remote_bind_port_range b)\<rparr>)
      else if name = codes ''local-bind-port-range'' then
        ok_then (with_one_arg d (\<lambda>v. parse_bind_port_range v name))
          (\<lambda>v. b\<lparr>ib_local_bind_port_range := set_once v (ib_local_bind_port_range b)\<rparr>)
      else if name = codes ''tab-idle-color'' then
        Inr (b\<lparr>ib_tab_idle_color := apply_optional_tab_color (ib_tab_idle_color b) d\<rparr>)
      else if name = codes ''tab-attention-color'' then
        Inr (b\<lparr>ib_tab_attention_color := apply_optional_tab_color (ib_tab_attention_color b) d\<rparr>)
      else if name = codes ''tty'' then Inr (b\<lparr>ib_tty := apply_optional_tty (ib_tty b) d\<rparr>)
      else Inl (UnknownDirective name))"

fun apply_directives ::
    "(ssh_text \<Rightarrow> socket_addr option) \<Rightarrow> isekai_config_builder \<Rightarrow> isekai_directive list \<Rightarrow> config_error + isekai_config_builder" where
  "apply_directives parse_addr b [] = Inr b"
| "apply_directives parse_addr b (d # ds) = (case apply_isekai_directive parse_addr b d of
       Inl e \<Rightarrow> Inl e
     | Inr b' \<Rightarrow> apply_directives parse_addr b' ds)"

section \<open>The configuration\<close>

record openssh_effective_config =
  oe_hostname :: "ssh_text option"
  oe_user :: "ssh_text option"
  oe_port :: "u16 option"
  oe_proxy_jump :: "ssh_text option"
  oe_proxy_command :: "ssh_text option"

record isekai_config =
  ic_enabled :: bool
  ic_bootstrap_policy :: bootstrap_policy
  ic_profile :: ssh_text
  ic_remote_path :: "ssh_text option"
  ic_services :: "service_spec list"
  ic_bootstrap_candidates :: "bootstrap_candidate list"
  ic_link_endpoints :: "ssh_text list"
  ic_rendezvous :: "ssh_text list"
  ic_stun_servers :: "ssh_text list"
  ic_relay_endpoints :: "ssh_text list"
  ic_resume_grace_secs :: u64
  ic_candidate_race_delay_ms :: u64
  ic_relay_delay_ms :: u64
  ic_install_mode :: install_mode
  ic_bootstrap_relay :: "bootstrap_relay_target option"
  ic_remote_log_level :: ssh_text
  ic_remote_bind_port_range :: "(u16 \<times> u16) option"
  ic_local_bind_port_range :: "(u16 \<times> u16) option"
  ic_ctl_socket_enabled :: bool
  ic_tab_idle_color :: "(u8 \<times> u8 \<times> u8) option"
  ic_tab_attention_color :: "(u8 \<times> u8 \<times> u8) option"
  ic_tty :: "tty_directive option"

definition unwrap_or :: "'a \<Rightarrow> 'a option \<Rightarrow> 'a" where
  "unwrap_or d x = (case x of Some v \<Rightarrow> v | None \<Rightarrow> d)"

definition build_config :: "ssh_text \<Rightarrow> openssh_effective_config \<Rightarrow> isekai_config_builder \<Rightarrow> config_error + isekai_config" where
  "build_config destination_host openssh b =
     (let default_candidate = \<lparr>
            bc_target = unwrap_or destination_host (oe_hostname openssh) @ [58] @ digits (unat (unwrap_or 22 (oe_port openssh))),
            bc_via = (case oe_proxy_jump openssh of Some j \<Rightarrow> parse_jump_chain j | None \<Rightarrow> []),
            bc_priority = 100, bc_alias = Some destination_host\<rparr>;
          default_service = \<lparr>sp_name = codes ''ssh'', sp_target = codes ''127.0.0.1:22''\<rparr> in
      if ib_install_mode b = Some IM_System then Inl SystemInstallUnsupported
      else Inr \<lparr>
        ic_enabled = unwrap_or True (ib_enabled b),
        ic_bootstrap_policy = unwrap_or BP_Auto (ib_bootstrap_policy b),
        ic_profile = unwrap_or destination_host (ib_profile b),
        ic_remote_path = ib_remote_path b,
        ic_services = (if ib_services b = [] then [default_service] else ib_services b),
        ic_bootstrap_candidates = (if ib_bootstrap_candidates b = [] then [default_candidate] else ib_bootstrap_candidates b),
        ic_link_endpoints = ib_link_endpoints b,
        ic_rendezvous = ib_rendezvous b,
        ic_stun_servers = ib_stun_servers b,
        ic_relay_endpoints = ib_relay_endpoints b,
        ic_resume_grace_secs = unwrap_or 864000 (ib_resume_grace_secs b),
        ic_candidate_race_delay_ms = unwrap_or 150 (ib_candidate_race_delay_ms b),
        ic_relay_delay_ms = unwrap_or 750 (ib_relay_delay_ms b),
        ic_install_mode = unwrap_or IM_User (ib_install_mode b),
        ic_bootstrap_relay = ib_bootstrap_relay b,
        ic_remote_log_level = unwrap_or (codes ''info'') (ib_remote_log_level b),
        ic_remote_bind_port_range = ib_remote_bind_port_range b,
        ic_local_bind_port_range = ib_local_bind_port_range b,
        ic_ctl_socket_enabled = unwrap_or False (ib_ctl_socket_enabled b),
        ic_tab_idle_color = ib_tab_idle_color b,
        ic_tab_attention_color = ib_tab_attention_color b,
        ic_tty = ib_tty b\<rparr>)"

text \<open>\<open>None\<close> as in reading the directives; the errors of reading and of applying are kept apart.\<close>

definition resolve_isekai_config ::
    "nat \<Rightarrow> ssh_env \<Rightarrow> (ssh_text \<Rightarrow> socket_addr option) \<Rightarrow> wrapper_plan \<Rightarrow> openssh_effective_config \<Rightarrow>
     ((directive_error + config_error) + isekai_config) option" where
  "resolve_isekai_config n env parse_addr plan openssh =
     map_option (\<lambda>r. case r of
         Inl e \<Rightarrow> Inl (Inl e)
       | Inr ds \<Rightarrow> (case apply_directives parse_addr builder_default ds of
           Inl e \<Rightarrow> Inl (Inr e)
         | Inr b \<Rightarrow> map_sum Inr (\<lambda>c. c) (build_config (wp_destination_host plan) openssh b)))
       (load_isekai_directives n env (wa_ssh_args plan) (wp_destination_host plan))"

section \<open>Both ways to the configuration\<close>

text \<open>What \<^verbatim>\<open>ssh -G\<close> prints, read line by line; only a port can be refused.\<close>

definition ssh_g_line :: "ssh_text \<Rightarrow> openssh_effective_config \<Rightarrow> cli_error + openssh_effective_config" where
  "ssh_g_line raw_line c =
     (let line = str_trim raw_line; rest = dropWhile (\<lambda>ch. \<not> is_whitespace ch) line in
      if line = [] \<or> rest = [] then Inr c
      else
        let key = ascii_lower (takeWhile (\<lambda>ch. \<not> is_whitespace ch) line); val = str_trim (tl rest) in
        if key = codes ''hostname'' then Inr (c\<lparr>oe_hostname := Some val\<rparr>)
        else if key = codes ''user'' then Inr (c\<lparr>oe_user := Some val\<rparr>)
        else if key = codes ''port'' then (case parse_u16 val of
            Some port \<Rightarrow> Inr (c\<lparr>oe_port := Some port\<rparr>)
          | None \<Rightarrow> Inl (InvalidPort val))
        else if key = codes ''proxyjump'' \<and> val \<noteq> codes ''none'' then Inr (c\<lparr>oe_proxy_jump := Some val\<rparr>)
        else if key = codes ''proxycommand'' \<and> val \<noteq> codes ''none'' then Inr (c\<lparr>oe_proxy_command := Some val\<rparr>)
        else Inr c)"

fun ssh_g_lines :: "ssh_text list \<Rightarrow> openssh_effective_config \<Rightarrow> cli_error + openssh_effective_config" where
  "ssh_g_lines [] c = Inr c"
| "ssh_g_lines (l # ls) c = (case ssh_g_line l c of Inl e \<Rightarrow> Inl e | Inr c' \<Rightarrow> ssh_g_lines ls c')"

definition openssh_default :: openssh_effective_config where
  "openssh_default = \<lparr>oe_hostname = None, oe_user = None, oe_port = None, oe_proxy_jump = None, oe_proxy_command = None\<rparr>"

definition parse_ssh_g_output :: "ssh_text \<Rightarrow> cli_error + openssh_effective_config" where
  "parse_ssh_g_output output = ssh_g_lines (str_lines output) openssh_default"

text \<open>The native way, without \<^verbatim>\<open>ssh\<close>: the settings of the configuration file, those of the command line
  over them, and the directives.\<close>

datatype native_error = NE_Config ssh_error | NE_Cli cli_error | NE_Directive directive_error | NE_Isekai config_error

definition resolve_for_native ::
    "nat \<Rightarrow> ssh_env \<Rightarrow> (ssh_text \<Rightarrow> socket_addr option) \<Rightarrow> wrapper_plan \<Rightarrow>
     (native_error + openssh_effective_config \<times> isekai_config \<times> host_config) option" where
  "resolve_for_native n env parse_addr plan =
     (case (case dash_f_config_path (wa_ssh_args plan) of
          Some config_path \<Rightarrow> resolve n env config_path (wp_destination_host plan)
        | None \<Rightarrow> resolve_default n env (wp_destination_host plan)) of
        None \<Rightarrow> None
      | Some (Inl e) \<Rightarrow> Some (Inl (NE_Config e))
      | Some (Inr host_config) \<Rightarrow> (case apply_cli_overrides env host_config (wa_ssh_args plan) of
          Inl e \<Rightarrow> Some (Inl (NE_Cli e))
        | Inr host_config \<Rightarrow>
            let openssh = \<lparr>oe_hostname = hc_host_name host_config, oe_user = hc_user host_config,
                  oe_port = hc_port host_config, oe_proxy_jump = hc_proxy_jump host_config, oe_proxy_command = None\<rparr> in
            (case resolve_isekai_config n env parse_addr plan openssh of
               None \<Rightarrow> None
             | Some (Inl (Inl e)) \<Rightarrow> Some (Inl (NE_Directive e))
             | Some (Inl (Inr e)) \<Rightarrow> Some (Inl (NE_Isekai e))
             | Some (Inr isekai) \<Rightarrow> Some (Inr (openssh, isekai, host_config)))))"

section \<open>Choices\<close>

definition resolved_tty_selection :: "wrapper_plan \<Rightarrow> isekai_config \<Rightarrow> tty_selection option" where
  "resolved_tty_selection plan config = (case wo_tty (wa_isekai plan) of
       Some selection \<Rightarrow> Some selection
     | None \<Rightarrow> (case ic_tty config of
         None \<Rightarrow> None
       | Some TD_Auto \<Rightarrow> Some Tty_Auto
       | Some (TD_Named name) \<Rightarrow> Some (Tty_Named name)
       | Some TD_Off \<Rightarrow> None))"

definition should_bootstrap :: "wrapper_plan \<Rightarrow> isekai_config \<Rightarrow> bool" where
  "should_bootstrap plan config =
     (if wo_no_bootstrap (wa_isekai plan) \<or> ic_bootstrap_policy config = BP_Never then False
      else wo_bootstrap (wa_isekai plan) \<or> ic_bootstrap_policy config \<in> {BP_Always, BP_Auto})"

text \<open>\<^verbatim>\<open>max_by_key\<close> gives the last of the greatest items.\<close>

fun max_by_priority :: "bootstrap_candidate option \<Rightarrow> bootstrap_candidate list \<Rightarrow> bootstrap_candidate option" where
  "max_by_priority best [] = best"
| "max_by_priority None (c # cs) = max_by_priority (Some c) cs"
| "max_by_priority (Some b) (c # cs) = max_by_priority (Some (if bc_priority b > bc_priority c then b else c)) cs"

definition select_bootstrap_candidate :: "bootstrap_candidate list \<Rightarrow> bootstrap_candidate option" where
  "select_bootstrap_candidate candidates = max_by_priority None (rev candidates)"

section \<open>Results\<close>

definition ok_all :: "('a \<Rightarrow> bool) \<Rightarrow> 'e + 'a \<Rightarrow> bool" where
  "ok_all P r = (case r of Inl _ \<Rightarrow> True | Inr x \<Rightarrow> P x)"

lemma ok_all_intros:
  "(C \<Longrightarrow> ok_all P x) \<Longrightarrow> (\<not> C \<Longrightarrow> ok_all P y) \<Longrightarrow> ok_all P (if C then x else y)"
  "ok_all P (Inl e)"
  "P z \<Longrightarrow> ok_all P (Inr z)"
  "(\<And>v. r = Inr v \<Longrightarrow> P (f v)) \<Longrightarrow> ok_all P (ok_then r f)"
  by (auto simp: ok_all_def ok_then_def split: sum.splits)

lemma with_one_arg_Inr: "with_one_arg d f = Inr v \<Longrightarrow> \<exists>a. f a = Inr v"
  by (auto simp: with_one_arg_def split: sum.splits)

section \<open>Well-formed configurations\<close>

definition service_ok :: "service_spec \<Rightarrow> bool" where
  "service_ok s \<longleftrightarrow> sp_name s \<noteq> [] \<and> sp_target s \<noteq> []"

definition range_ok :: "(u16 \<times> u16) option \<Rightarrow> bool" where
  "range_ok r = (case r of None \<Rightarrow> True | Some (s, e) \<Rightarrow> s \<le> e)"

definition tty_ok :: "tty_directive option \<Rightarrow> bool" where
  "tty_ok t = (case t of Some (TD_Named name) \<Rightarrow> is_valid_tty_name name | _ \<Rightarrow> True)"

definition builder_ok :: "isekai_config_builder \<Rightarrow> bool" where
  "builder_ok b \<longleftrightarrow> list_all service_ok (ib_services b) \<and> range_ok (ib_remote_bind_port_range b) \<and>
     range_ok (ib_local_bind_port_range b) \<and> tty_ok (ib_tty b) \<and>
     pred_option (\<lambda>l. l \<in> set log_levels) (ib_remote_log_level b)"

lemma parse_services_ok: "parse_services args = Inr ss \<Longrightarrow> list_all service_ok ss"
  by (induction args arbitrary: ss)
    (auto simp: service_spec_parse_def service_spec_new_def service_ok_def split: sum.splits option.splits if_splits)

lemma parse_bind_port_range_ok: "parse_bind_port_range v field = Inr r \<Longrightarrow> range_ok (Some r)"
  by (auto simp: parse_bind_port_range_def range_ok_def split: option.splits if_splits)

lemma set_once_range: "range_ok slot \<Longrightarrow> range_ok (Some r) \<Longrightarrow> range_ok (set_once r slot)"
  by (simp add: set_once_def)

lemma apply_optional_tty_ok: "tty_ok slot \<Longrightarrow> tty_ok (apply_optional_tty slot d)"
  by (auto simp: apply_optional_tty_def apply_lenient_def with_one_arg_def tty_ok_def split: sum.splits if_splits)

lemma set_once_level:
  "parse_log_level v = Inr l \<Longrightarrow> pred_option (\<lambda>l. l \<in> set log_levels) slot \<Longrightarrow>
   pred_option (\<lambda>l. l \<in> set log_levels) (set_once l slot)"
  by (auto simp: parse_log_level_def set_once_def split: if_splits)

lemma apply_isekai_directive_ok:
  "builder_ok b \<Longrightarrow> ok_all builder_ok (apply_isekai_directive parse_addr b d)"
  unfolding apply_isekai_directive_def Let_def
  by (intro ok_all_intros)
    (auto simp: builder_ok_def apply_optional_tty_ok
      dest!: with_one_arg_Inr parse_services_ok parse_bind_port_range_ok intro: set_once_range set_once_level)

lemma apply_directives_ok: "builder_ok b \<Longrightarrow> ok_all builder_ok (apply_directives parse_addr b ds)"
proof (induction ds arbitrary: b)
  case (Cons d ds)
  with apply_isekai_directive_ok [of b parse_addr d] show ?case
    by (cases "apply_isekai_directive parse_addr b d") (simp_all add: ok_all_def)
qed (simp add: ok_all_def)

definition isekai_config_ok :: "isekai_config \<Rightarrow> bool" where
  "isekai_config_ok c \<longleftrightarrow> ic_services c \<noteq> [] \<and> list_all service_ok (ic_services c) \<and>
     select_bootstrap_candidate (ic_bootstrap_candidates c) \<noteq> None \<and> ic_install_mode c = IM_User \<and>
     range_ok (ic_remote_bind_port_range c) \<and> range_ok (ic_local_bind_port_range c) \<and>
     ic_remote_log_level c \<in> set log_levels \<and> tty_ok (ic_tty c)"

lemma max_by_priority_Some: "max_by_priority (Some b) cs \<noteq> None"
  by (induction cs arbitrary: b) simp_all

lemma select_some: "cs \<noteq> [] \<Longrightarrow> select_bootstrap_candidate cs \<noteq> None"
  by (cases "rev cs") (simp_all add: select_bootstrap_candidate_def max_by_priority_Some)

lemma build_config_ok: "builder_ok b \<Longrightarrow> ok_all isekai_config_ok (build_config host openssh b)"
  unfolding build_config_def Let_def
  by (intro ok_all_intros; cases "ib_install_mode b"; cases "ib_remote_log_level b"; cases "the (ib_install_mode b)")
    (auto simp: isekai_config_ok_def builder_ok_def unwrap_or_def service_ok_def codes_def log_levels_def
      simp del: not_None_eq intro!: select_some)

text \<open>The candidate chosen is the first of those with the highest priority.\<close>

lemma max_by_priority_last:
  "list_all (\<lambda>x. bc_priority x \<le> bc_priority c) pre \<Longrightarrow> list_all (\<lambda>x. bc_priority x < bc_priority c) post \<Longrightarrow>
   (case best of Some b \<Rightarrow> bc_priority b \<le> bc_priority c | None \<Rightarrow> True) \<Longrightarrow>
   max_by_priority best (pre @ c # post) = Some c"
proof (induction pre arbitrary: best)
  case Nil
  have "max_by_priority (Some c) post = Some c" using Nil(2) by (induction post) auto
  then show ?case using Nil by (cases best) auto
next
  case (Cons x pre)
  then show ?case by (cases best) auto
qed

lemma select_first_highest:
  assumes "list_all (\<lambda>x. bc_priority x < bc_priority c) pre" "list_all (\<lambda>x. bc_priority x \<le> bc_priority c) post"
  shows "select_bootstrap_candidate (pre @ c # post) = Some c"
  unfolding select_bootstrap_candidate_def using max_by_priority_last [of c "rev post" "rev pre" None] assms by simp

section \<open>Cosmetic directives\<close>

definition cosmetic :: "isekai_directive \<Rightarrow> bool" where
  "cosmetic d \<longleftrightarrow> dir_name d \<in> set (map codes [''tab-idle-color'', ''tab-attention-color'', ''tty''])"

definition plain :: "isekai_config_builder \<Rightarrow> isekai_config_builder" where
  "plain b = b\<lparr>ib_tab_idle_color := None, ib_tab_attention_color := None, ib_tty := None\<rparr>"

definition plain_agree :: "config_error + isekai_config_builder \<Rightarrow> config_error + isekai_config_builder \<Rightarrow> bool" where
  "plain_agree x y \<longleftrightarrow> map_sum (\<lambda>e. e) plain x = y"

lemma plain_agree_intros:
  "(C \<Longrightarrow> plain_agree x y) \<Longrightarrow> (\<not> C \<Longrightarrow> plain_agree x' y') \<Longrightarrow> plain_agree (if C then x else x') (if C then y else y')"
  "plain_agree (Inl e) (Inl e)"
  "plain b = b' \<Longrightarrow> plain_agree (Inr b) (Inr b')"
  "r = r' \<Longrightarrow> (\<And>v. plain (f v) = g v) \<Longrightarrow> plain_agree (ok_then r f) (ok_then r' g)"
  by (auto simp: plain_agree_def ok_then_def split: sum.split)

lemma apply_plain:
  assumes "\<not> cosmetic d"
  shows "plain_agree (apply_isekai_directive parse_addr b d) (apply_isekai_directive parse_addr (plain b) d)"
  unfolding apply_isekai_directive_def Let_def
  by (intro plain_agree_intros) (use assms in \<open>simp_all add: plain_def cosmetic_def\<close>)

lemma apply_cosmetic: "cosmetic d \<Longrightarrow> \<exists>b'. apply_isekai_directive parse_addr b d = Inr b' \<and> plain b' = plain b"
  by (auto simp: cosmetic_def apply_isekai_directive_def plain_def codes_def)

lemma apply_directives_plain:
  "plain_agree (apply_directives parse_addr b ds) (apply_directives parse_addr (plain b) (filter (\<lambda>d. \<not> cosmetic d) ds))"
proof (induction ds arbitrary: b)
  case (Cons d ds)
  show ?case
  proof (cases "cosmetic d")
    case True
    then obtain b' where "apply_isekai_directive parse_addr b d = Inr b'" "plain b' = plain b"
      using apply_cosmetic by blast
    with Cons.IH [of b'] True show ?thesis by simp
  next
    case False
    with apply_plain [OF False, of parse_addr b, unfolded plain_agree_def, symmetric] Cons.IH show ?thesis
      by (cases "apply_isekai_directive parse_addr b d") (simp_all add: plain_agree_def)
  qed
qed (simp add: plain_agree_def)

section \<open>Colours\<close>

lemma hex_lower_digit: "n < 16 \<Longrightarrow> hex_digit (hex_lower n) = Some n"
  by (auto simp: hex_digit_def hex_lower_def)

lemma hex_pair:
  fixes v :: u8
  shows "hex_value [hex_lower (unat v div 16), hex_lower (unat v mod 16)] = unat v"
proof -
  have "unat v div 16 < 16" using unat_less_exp [of v] by (simp add: less_mult_imp_div_less)
  then show ?thesis by (simp add: hex_value_def hex_lower_digit)
qed

text \<open>A colour that is written is read back, and written in characters a shell takes as they are.\<close>

lemma hex_color_roundtrip:
  "parse_hex_color (format_hex_color c) = Some c" "list_all safe_char (format_hex_color c)"
proof -
  obtain r g b where c: "c = (r, g, b)" by (cases c)
  have dig: "hex_digit (hex_lower (unat v div 16)) \<noteq> None" "hex_digit (hex_lower (unat v mod 16)) \<noteq> None" for v :: u8
    using unat_less_exp [of v] hex_lower_digit [of "unat v div 16"] hex_lower_digit [of "unat v mod 16"]
    by (simp_all add: less_mult_imp_div_less)
  have low: "utf8_len (hex_lower n) = 1" "hex_lower n \<noteq> 35" if "n < 16" for n
    using that by (auto simp: hex_lower_def utf8_len_def)
  have lt: "unat v div 16 < 16" for v :: u8 using unat_less_exp [of v] by (simp add: less_mult_imp_div_less)
  have len: "length (utf8_encode (format_hex_color c)) = 6"
    by (simp add: length_utf8_encode str_len_def format_hex_color_def c low lt)
  have "strip_prefix [35] (format_hex_color c) = None"
    by (simp add: strip_prefix_def format_hex_color_def c low lt)
  then show "parse_hex_color (format_hex_color c) = Some c"
    using len dig by (simp add: parse_hex_color_def format_hex_color_def c hex_pair)
  have "safe_char (hex_lower n)" if "n < 16" for n
    using that by (auto simp: safe_char_def is_ascii_alphanumeric_def hex_lower_def)
  then show "list_all safe_char (format_hex_color c)" by (simp add: format_hex_color_def c lt)
qed

section \<open>Properties\<close>

text \<open>C22. Directives about the tab colours and the terminal session never change whether the directives are
  accepted, with which error they are refused, or any other setting: the outcome is that of the list
  without them, up to these three settings.\<close>

theorem cosmetic_directives_harmless:
  "map_sum (\<lambda>e. e) plain (apply_directives parse_addr builder_default ds) =
   map_sum (\<lambda>e. e) plain (apply_directives parse_addr builder_default (filter (\<lambda>d. \<not> cosmetic d) ds))"
proof -
  have "plain builder_default = builder_default" by (simp add: plain_def builder_default_def)
  then show ?thesis
    using apply_directives_plain [of parse_addr builder_default ds]
      apply_directives_plain [of parse_addr builder_default "filter (\<lambda>d. \<not> cosmetic d) ds"]
    by (simp add: plain_agree_def)
qed

text \<open>C23. A configuration that is accepted is well-formed, whatever the directives: there is a service and
  every service has a name and a target, there is a candidate to bootstrap through, system-wide
  installation is never asked for, port ranges are not empty, the log level is one the helper knows,
  and a named terminal session has a name the daemon accepts.\<close>

theorem isekai_config_wellformed:
  assumes "resolve_isekai_config n env parse_addr plan openssh = Some (Inr config)"
  shows "isekai_config_ok config"
proof -
  from assms obtain r where r: "load_isekai_directives n env (wa_ssh_args plan) (wp_destination_host plan) = Some r"
    by (auto simp: resolve_isekai_config_def)
  with assms obtain ds b where b: "apply_directives parse_addr builder_default ds = Inr b"
    "build_config (wp_destination_host plan) openssh b = Inr config"
    by (cases r) (auto simp: resolve_isekai_config_def split: sum.splits)
  have "builder_ok builder_default"
    by (simp add: builder_ok_def builder_default_def range_ok_def tty_ok_def)
  from apply_directives_ok [OF this, of parse_addr ds] b(1) have "builder_ok b" by (simp add: ok_all_def)
  from build_config_ok [OF this, of "wp_destination_host plan" openssh] b(2) show ?thesis by (simp add: ok_all_def)
qed

definition example_plan :: wrapper_plan where
  "example_plan = \<lparr>wa_openssh_path = codes ''ssh'', wa_pipe_path = codes ''p'', wa_ssh_args = [codes ''h''],
     wa_isekai = wrapper_options_default, wp_destination = codes ''h'', wp_destination_host = codes ''h'',
     wp_destination_user = None, wp_destination_index = 0, wp_request_tty = RT_Auto\<rparr>"

lemma isekai_config_wellformed_witness:
  "\<exists>config. resolve_isekai_config 0 (example_env\<lparr>env_home := None\<rparr>) (\<lambda>_. None) example_plan
       \<lparr>oe_hostname = None, oe_user = None, oe_port = None, oe_proxy_jump = None, oe_proxy_command = None\<rparr> =
     Some (Inr config) \<and> isekai_config_ok config"
proof -
  have "\<exists>config. resolve_isekai_config 0 (example_env\<lparr>env_home := None\<rparr>) (\<lambda>_. None) example_plan
       \<lparr>oe_hostname = None, oe_user = None, oe_port = None, oe_proxy_jump = None, oe_proxy_command = None\<rparr> =
     Some (Inr config)"
    by (simp add: resolve_isekai_config_def load_isekai_directives_def config_roots_def example_plan_def
      build_config_def builder_default_def Let_def)
  then show ?thesis using isekai_config_wellformed by blast
qed

end
