(* ===== verification/TimedFsm.thy ===== *)
theory TimedFsm
  imports Interfaces
begin

text \<open>
  State machines with declarative timers, as \<^verbatim>\<open>RebindManager\<close> and \<^verbatim>\<open>TrzszTransferFsm\<close> are
  written: a handler returns actions and timer commands as data, collected in order by the response
  builders of the \<^verbatim>\<open>timed_fsm\<close> crate, and a driver keeps the timers. A timer that is set again
  starts anew; one that is killed does not fire.
\<close>

datatype 't timer_command = SetTimer 't duration | KillTimer 't

record ('a, 't) response =
  rs_consumed :: bool
  rs_actions :: "'a list"
  rs_timers :: "'t timer_command list"

definition emit :: "'a list \<Rightarrow> ('a, 't) response" where
  "emit actions = \<lparr>rs_consumed = True, rs_actions = actions, rs_timers = []\<rparr>"

definition consume :: "('a, 't) response" where
  "consume = \<lparr>rs_consumed = True, rs_actions = [], rs_timers = []\<rparr>"

definition pass_through :: "('a, 't) response" where
  "pass_through = \<lparr>rs_consumed = False, rs_actions = [], rs_timers = []\<rparr>"

definition with_timer :: "'t \<Rightarrow> duration \<Rightarrow> ('a, 't) response \<Rightarrow> ('a, 't) response" where
  "with_timer t n r = r\<lparr>rs_timers := rs_timers r @ [SetTimer t n]\<rparr>"

definition with_kill_timer :: "'t \<Rightarrow> ('a, 't) response \<Rightarrow> ('a, 't) response" where
  "with_kill_timer t r = r\<lparr>rs_timers := rs_timers r @ [KillTimer t]\<rparr>"

lemmas response_defs = emit_def consume_def pass_through_def with_timer_def with_kill_timer_def

section \<open>Runs\<close>

text \<open>The armed timers after a list of commands.\<close>

fun arm :: "'t set \<Rightarrow> 't timer_command list \<Rightarrow> 't set" where
  "arm A [] = A"
| "arm A (SetTimer t _ # cs) = arm (insert t A) cs"
| "arm A (KillTimer t # cs) = arm (A - {t}) cs"

datatype ('e, 't) fsm_input = Ev 'e | Fire 't

text \<open>One turn of the driver: an event, or an armed timer that fires.\<close>

fun fsm_step ::
    "('e \<Rightarrow> 's \<Rightarrow> ('a, 't) response \<times> 's) \<Rightarrow> ('t \<Rightarrow> 's \<Rightarrow> ('a, 't) response \<times> 's) \<Rightarrow>
     's \<times> 't set \<Rightarrow> ('e, 't) fsm_input \<Rightarrow> ('s \<times> 't set) \<times> 'a list" where
  "fsm_step on_event on_timeout (s, A) (Ev e) =
     (let (r, s') = on_event e s in ((s', arm A (rs_timers r)), rs_actions r))"
| "fsm_step on_event on_timeout (s, A) (Fire t) =
     (if t \<in> A then let (r, s') = on_timeout t s in ((s', arm (A - {t}) (rs_timers r)), rs_actions r)
      else ((s, A), []))"

text \<open>What happened in a run: the events and the timers that fired while they were armed, each with the
  actions it led to.\<close>

fun fsm_log ::
    "('e \<Rightarrow> 's \<Rightarrow> ('a, 't) response \<times> 's) \<Rightarrow> ('t \<Rightarrow> 's \<Rightarrow> ('a, 't) response \<times> 's) \<Rightarrow>
     's \<times> 't set \<Rightarrow> ('e, 't) fsm_input list \<Rightarrow> (('e, 't) fsm_input \<times> 'a list) list" where
  "fsm_log on_event on_timeout x [] = []"
| "fsm_log on_event on_timeout x (i # is) =
     (let (x', acts) = fsm_step on_event on_timeout x i; later = fsm_log on_event on_timeout x' is in
      if \<exists>t. i = Fire t \<and> t \<notin> snd x then later else (i, acts) # later)"

lemma fsm_log_snoc:
  "fsm_log on_event on_timeout x (is @ [i]) = fsm_log on_event on_timeout x is @
     (let y = fst (run (fsm_step on_event on_timeout) x is) in
      if \<exists>t. i = Fire t \<and> t \<notin> snd y then [] else [(i, snd (fsm_step on_event on_timeout y i))])"
  by (induction "is" arbitrary: x) (auto simp: case_prod_beta Let_def)

text \<open>A property of the state and the armed timers that every handler keeps holds along every run.\<close>

locale timed_machine =
  fixes on_event :: "'e \<Rightarrow> 's \<Rightarrow> ('a, 't) response \<times> 's"
    and on_timeout :: "'t \<Rightarrow> 's \<Rightarrow> ('a, 't) response \<times> 's"
    and inv :: "'s \<Rightarrow> 't set \<Rightarrow> bool"
  assumes event_inv: "inv s A \<Longrightarrow> inv (snd (on_event e s)) (arm A (rs_timers (fst (on_event e s))))"
    and timeout_inv: "inv s A \<Longrightarrow> t \<in> A \<Longrightarrow>
      inv (snd (on_timeout t s)) (arm (A - {t}) (rs_timers (fst (on_timeout t s))))"

sublocale timed_machine \<subseteq> reducer "fsm_step on_event on_timeout" "\<lambda>(s, A). inv s A"
proof
  fix x e
  assume "case x of (s, A) \<Rightarrow> inv s A"
  then show "case fst (fsm_step on_event on_timeout x e) of (s, A) \<Rightarrow> inv s A"
    using event_inv timeout_inv
    by (cases x; cases e) (auto simp: case_prod_beta Let_def)
qed

end
