(* ===== verification/Rebind.thy ===== *)
theory Rebind
  imports TimedFsm
begin

text \<open>
  \<^verbatim>\<open>src/rebind_manager.rs\<close>: the state machine that moves a session from WiFi to the cellular
  network when the WiFi upstream dies, and back when WiFi has proved stable and traffic is quiet, or
  when the user asks for it.
\<close>

datatype rebind_event =
    NoViablePath | WifiProbeSucceeded | WifiProbeFailed | TrafficQuietDetected | TrafficBusyDetected
  | ManualForceReturnRequested | UpstreamHealthDegraded

datatype rebind_public_state = PS_OnWifi | PS_FailedOverToCellular | PS_WaitingQuietToReturn

datatype rebind_action =
    PerformRebindToCellular | StartWifiProbe | PerformRebindToWifi | PublishState rebind_public_state
  | StartQuietWatch | StopQuietWatch

datatype rebind_timer = CellularMinDwell | StabilityWindow | ProbeCadence | QuietWait | RebindBackoff

definition CELLULAR_MIN_DWELL :: duration where "CELLULAR_MIN_DWELL = from_secs 60"
definition STABILITY_WINDOW :: duration where "STABILITY_WINDOW = from_secs 15"
definition STABILITY_CONSECUTIVE_SUCCESSES :: u32 where "STABILITY_CONSECUTIVE_SUCCESSES = 5"
definition PROBE_CADENCE :: duration where "PROBE_CADENCE = from_secs 10"
definition QUIET_WAIT_TIMEOUT :: duration where "QUIET_WAIT_TIMEOUT = from_secs 90"
definition BACKOFF_STEPS :: "duration list" where
  "BACKOFF_STEPS = [from_secs 120, from_secs 300, from_secs 600]"

datatype rebind_phase = OnWifi | FailedOverToCellular | WaitingQuietToReturn

record rebind_manager =
  rm_phase :: rebind_phase
  rm_consecutive_wifi_probe_successes :: u32
  rm_stability_satisfied :: bool
  rm_cellular_min_dwell_satisfied :: bool
  rm_manual_force_pending :: bool
  rm_backoff_index :: nat

definition rebind_new :: rebind_manager where
  "rebind_new = \<lparr>rm_phase = OnWifi, rm_consecutive_wifi_probe_successes = 0, rm_stability_satisfied = False,
     rm_cellular_min_dwell_satisfied = False, rm_manual_force_pending = False, rm_backoff_index = 0\<rparr>"

type_synonym rebind_response = "(rebind_action, rebind_timer) response \<times> rebind_manager"

definition reset_return_round :: "rebind_manager \<Rightarrow> rebind_manager" where
  "reset_return_round m = m\<lparr>rm_consecutive_wifi_probe_successes := 0, rm_stability_satisfied := False\<rparr>"

definition reset_episode :: "rebind_manager \<Rightarrow> rebind_manager" where
  "reset_episode m =
     (reset_return_round m)\<lparr>rm_cellular_min_dwell_satisfied := False, rm_manual_force_pending := False\<rparr>"

definition current_backoff :: "rebind_manager \<Rightarrow> duration" where
  "current_backoff m = BACKOFF_STEPS ! min (rm_backoff_index m) (length BACKOFF_STEPS - 1)"

definition advance_backoff_index :: "rebind_manager \<Rightarrow> rebind_manager" where
  "advance_backoff_index m =
     (if rm_backoff_index m < length BACKOFF_STEPS - 1 then m\<lparr>rm_backoff_index := rm_backoff_index m + 1\<rparr> else m)"

definition handle_no_viable_path :: "rebind_manager \<Rightarrow> rebind_response" where
  "handle_no_viable_path m =
     (if rm_phase m \<noteq> OnWifi then (consume, m)
      else
        (with_timer ProbeCadence PROBE_CADENCE (with_timer CellularMinDwell CELLULAR_MIN_DWELL
           (emit [PerformRebindToCellular, PublishState PS_FailedOverToCellular, StartWifiProbe])),
         reset_episode (m\<lparr>rm_phase := FailedOverToCellular\<rparr>)))"

definition complete_automatic_return :: "rebind_manager \<Rightarrow> rebind_response" where
  "complete_automatic_return m =
     (with_kill_timer CellularMinDwell (with_kill_timer RebindBackoff (with_kill_timer StabilityWindow
        (with_kill_timer ProbeCadence (with_kill_timer QuietWait
          (emit [PerformRebindToWifi, PublishState PS_OnWifi, StopQuietWatch]))))),
      reset_episode (m\<lparr>rm_phase := OnWifi, rm_backoff_index := 0\<rparr>))"

definition complete_manual_return :: "rebind_manager \<Rightarrow> rebind_response" where
  "complete_manual_return m =
     (let m = m\<lparr>rm_manual_force_pending := False\<rparr> in
      if rm_phase m = OnWifi then (consume, m) else complete_automatic_return m)"

definition give_up_round :: "rebind_manager \<Rightarrow> rebind_response" where
  "give_up_round m =
     (let m = reset_return_round (m\<lparr>rm_phase := FailedOverToCellular\<rparr>);
          backoff = current_backoff m in
      (with_timer RebindBackoff backoff (with_kill_timer ProbeCadence (with_kill_timer QuietWait
         (emit [PublishState PS_FailedOverToCellular, StopQuietWatch]))),
       advance_backoff_index m))"

definition maybe_enter_waiting_quiet ::
    "(rebind_action, rebind_timer) response \<Rightarrow> rebind_manager \<Rightarrow> rebind_response" where
  "maybe_enter_waiting_quiet resp m =
     (if rm_phase m \<noteq> FailedOverToCellular
        \<or> rm_consecutive_wifi_probe_successes m < STABILITY_CONSECUTIVE_SUCCESSES
        \<or> \<not> rm_stability_satisfied m
        \<or> \<not> rm_cellular_min_dwell_satisfied m then (resp, m)
      else
        (\<lparr>rs_consumed = True,
          rs_actions = rs_actions resp @ [PublishState PS_WaitingQuietToReturn] @ [StartQuietWatch],
          rs_timers = rs_timers resp @
            rs_timers (with_timer QuietWait QUIET_WAIT_TIMEOUT (consume :: (rebind_action, rebind_timer) response))\<rparr>,
         m\<lparr>rm_phase := WaitingQuietToReturn\<rparr>))"

definition handle_probe_succeeded :: "rebind_manager \<Rightarrow> rebind_response" where
  "handle_probe_succeeded m =
     (if rm_manual_force_pending m then complete_manual_return m
      else (case rm_phase m of
          OnWifi \<Rightarrow> (consume, m)
        | _ \<Rightarrow>
           (let m = m\<lparr>rm_consecutive_wifi_probe_successes := sat_add (rm_consecutive_wifi_probe_successes m) 1\<rparr>;
                resp = (if rm_consecutive_wifi_probe_successes m = 1
                        then with_timer StabilityWindow STABILITY_WINDOW consume else consume) in
            maybe_enter_waiting_quiet resp m)))"

definition handle_probe_failed :: "rebind_manager \<Rightarrow> rebind_response" where
  "handle_probe_failed m =
     (if rm_manual_force_pending m then (consume, m\<lparr>rm_manual_force_pending := False\<rparr>)
      else (case rm_phase m of
          OnWifi \<Rightarrow> (consume, m)
        | FailedOverToCellular \<Rightarrow>
           (with_kill_timer StabilityWindow consume, m\<lparr>rm_consecutive_wifi_probe_successes := 0\<rparr>)
        | WaitingQuietToReturn \<Rightarrow> give_up_round m))"

definition handle_quiet_detected :: "rebind_manager \<Rightarrow> rebind_response" where
  "handle_quiet_detected m =
     (if rm_phase m \<noteq> WaitingQuietToReturn then (consume, m) else complete_automatic_return m)"

definition handle_manual_force_return :: "rebind_manager \<Rightarrow> rebind_response" where
  "handle_manual_force_return m =
     (if rm_phase m = OnWifi then (consume, m)
      else (emit [StartWifiProbe], m\<lparr>rm_manual_force_pending := True\<rparr>))"

fun rebind_on_event :: "rebind_event \<Rightarrow> rebind_manager \<Rightarrow> rebind_response" where
  "rebind_on_event NoViablePath m = handle_no_viable_path m"
| "rebind_on_event UpstreamHealthDegraded m = handle_no_viable_path m"
| "rebind_on_event WifiProbeSucceeded m = handle_probe_succeeded m"
| "rebind_on_event WifiProbeFailed m = handle_probe_failed m"
| "rebind_on_event TrafficQuietDetected m = handle_quiet_detected m"
| "rebind_on_event TrafficBusyDetected m = (consume, m)"
| "rebind_on_event ManualForceReturnRequested m = handle_manual_force_return m"

fun rebind_on_timeout :: "rebind_timer \<Rightarrow> rebind_manager \<Rightarrow> rebind_response" where
  "rebind_on_timeout CellularMinDwell m =
     (if rm_phase m = OnWifi then (pass_through, m)
      else maybe_enter_waiting_quiet consume (m\<lparr>rm_cellular_min_dwell_satisfied := True\<rparr>))"
| "rebind_on_timeout StabilityWindow m =
     (if rm_phase m = OnWifi then (pass_through, m)
      else maybe_enter_waiting_quiet consume (m\<lparr>rm_stability_satisfied := True\<rparr>))"
| "rebind_on_timeout ProbeCadence m =
     (if rm_phase m = OnWifi then (pass_through, m)
      else (with_timer ProbeCadence PROBE_CADENCE (emit [StartWifiProbe]), m))"
| "rebind_on_timeout QuietWait m =
     (if rm_phase m \<noteq> WaitingQuietToReturn then (pass_through, m) else give_up_round m)"
| "rebind_on_timeout RebindBackoff m =
     (if rm_phase m = OnWifi then (pass_through, m)
      else (with_timer ProbeCadence PROBE_CADENCE (emit [StartWifiProbe]), m))"

type_synonym rebind_input = "(rebind_event, rebind_timer) fsm_input"

definition rebind_run :: "rebind_input list \<Rightarrow> (rebind_manager \<times> rebind_timer set) \<times> rebind_action list" where
  "rebind_run es = run (fsm_step rebind_on_event rebind_on_timeout) (rebind_new, {}) es"

lemmas rebind_handler_defs [reducer_defs] = handle_no_viable_path_def complete_automatic_return_def
  complete_manual_return_def give_up_round_def maybe_enter_waiting_quiet_def handle_probe_succeeded_def
  handle_probe_failed_def handle_quiet_detected_def handle_manual_force_return_def reset_return_round_def
  reset_episode_def advance_backoff_index_def response_defs Let_def

section \<open>Invariant\<close>

text \<open>
  On WiFi no timer runs and nothing of an episode is left. On the cellular network either the probe
  timer or the back-off timer runs, so that WiFi is looked for again; the dwell time has passed or is
  being measured. Waiting for quiet, the wait is bounded by its timer, and the conditions for a
  return hold.
\<close>

definition rebind_inv :: "rebind_manager \<Rightarrow> rebind_timer set \<Rightarrow> bool" where
  "rebind_inv m A \<longleftrightarrow>
     (rm_phase m = OnWifi \<longrightarrow> A = {} \<and> rm_consecutive_wifi_probe_successes m = 0 \<and> \<not> rm_manual_force_pending m) \<and>
     (rm_phase m \<noteq> OnWifi \<longrightarrow> (ProbeCadence \<in> A \<or> RebindBackoff \<in> A) \<and>
        (rm_cellular_min_dwell_satisfied m \<or> CellularMinDwell \<in> A)) \<and>
     (rm_phase m = FailedOverToCellular \<longrightarrow> QuietWait \<notin> A) \<and>
     (rm_phase m = WaitingQuietToReturn \<longrightarrow> QuietWait \<in> A \<and> 5 \<le> rm_consecutive_wifi_probe_successes m \<and>
        rm_stability_satisfied m \<and> rm_cellular_min_dwell_satisfied m) \<and>
     rm_backoff_index m \<le> 2"

lemma all_timers_killed:
  "A - {QuietWait} - {ProbeCadence} - {StabilityWindow} - {RebindBackoff} - {CellularMinDwell} = {}"
  using rebind_timer.exhaust by blast

lemma return_inv: "rebind_inv m A \<Longrightarrow> rebind_inv (snd (complete_automatic_return m)) (arm A (rs_timers (fst (complete_automatic_return m))))"
  by (simp add: rebind_inv_def complete_automatic_return_def reset_episode_def reset_return_round_def response_defs all_timers_killed)

lemma successes_grow: "5 \<le> n \<Longrightarrow> sat_add n 1 \<noteq> (1 :: u32)" "5 \<le> n \<Longrightarrow> 5 \<le> sat_add n (1 :: u32)"
proof -
  assume "5 \<le> n"
  then show "5 \<le> sat_add n (1 :: u32)" by (rule order_trans [OF _ sat_add_ge])
  then show "sat_add n 1 \<noteq> (1 :: u32)" by (auto simp: word_le_nat_alt)
qed

interpretation rb: timed_machine rebind_on_event rebind_on_timeout rebind_inv
proof
  fix m A e
  assume inv: "rebind_inv m A"
  show "rebind_inv (snd (rebind_on_event e m)) (arm A (rs_timers (fst (rebind_on_event e m))))"
  proof (cases e)
    case WifiProbeSucceeded
    show ?thesis
    proof (cases "rm_manual_force_pending m")
      case True
      have "rebind_inv (m\<lparr>rm_manual_force_pending := False\<rparr>) A" using inv by (auto simp: rebind_inv_def)
      with True WifiProbeSucceeded inv return_inv show ?thesis
        by (auto simp: handle_probe_succeeded_def complete_manual_return_def Let_def response_defs)
    next
      case False
      with WifiProbeSucceeded inv show ?thesis
        by (cases "rm_phase m")
          (auto simp: handle_probe_succeeded_def Let_def response_defs rebind_inv_def maybe_enter_waiting_quiet_def
            STABILITY_CONSECUTIVE_SUCCESSES_def successes_grow)
    qed
  next
    case TrafficQuietDetected
    with inv return_inv [OF inv] show ?thesis
      by (simp add: handle_quiet_detected_def response_defs)
  qed (use inv in \<open>auto simp: rebind_inv_def rebind_handler_defs BACKOFF_STEPS_def split: rebind_phase.splits\<close>)
next
  fix m A t
  assume inv: "rebind_inv m A" "t \<in> A"
  then show "rebind_inv (snd (rebind_on_timeout t m)) (arm (A - {t}) (rs_timers (fst (rebind_on_timeout t m))))"
    by (cases t; cases "rm_phase m")
      (auto simp: rebind_inv_def rebind_handler_defs BACKOFF_STEPS_def STABILITY_CONSECUTIVE_SUCCESSES_def)
qed

lemma rebind_inv_new: "rebind_inv rebind_new {}"
  by (simp add: rebind_inv_def rebind_new_def)

lemma rebind_inv_run: "fst (rebind_run es) = (m, A) \<Longrightarrow> rebind_inv m A"
  using rb.inv_run [of "(rebind_new, {})" es] rebind_inv_new by (simp add: rebind_run_def)

section \<open>What led to a state\<close>

definition rebind_log :: "rebind_input list \<Rightarrow> (rebind_input \<times> rebind_action list) list" where
  "rebind_log es = fsm_log rebind_on_event rebind_on_timeout (rebind_new, {}) es"

text \<open>Facts about a stretch of a run, given backwards: whether a request of the user is unanswered, and
  how many probes have succeeded since the last one that failed, those that answered a request
  apart.\<close>

fun user_asked :: "rebind_input list \<Rightarrow> bool" where
  "user_asked [] = False"
| "user_asked (Ev ManualForceReturnRequested # h) = True"
| "user_asked (Ev WifiProbeSucceeded # h) = False"
| "user_asked (Ev WifiProbeFailed # h) = False"
| "user_asked (_ # h) = user_asked h"

fun streak :: "rebind_input list \<Rightarrow> nat" where
  "streak [] = 0"
| "streak (Ev WifiProbeSucceeded # h) = Suc (streak h)"
| "streak (Ev WifiProbeFailed # h) = (if user_asked h then streak h else 0)"
| "streak (_ # h) = streak h"

definition episode :: "(rebind_input \<times> rebind_action list) list \<Rightarrow> (rebind_input \<times> rebind_action list) list \<Rightarrow>
    rebind_input \<Rightarrow> rebind_action list \<Rightarrow> (rebind_input \<times> rebind_action list) list \<Rightarrow>
    (rebind_input \<times> rebind_action list) list \<Rightarrow> bool" where
  "episode hist before move acts since recent \<longleftrightarrow>
     hist = before @ (move, acts) # since @ recent \<and> PerformRebindToCellular \<in> set acts \<and>
     (\<forall>(i, acts) \<in> set (since @ recent). PerformRebindToWifi \<notin> set acts) \<and>
     (\<forall>(i, acts) \<in> set recent. StopQuietWatch \<notin> set acts)"

text \<open>What the counter and the flags stand for. A request made before the round began has not been
  answered within it; then no probe has succeeded in it.\<close>

definition rebind_facts :: "rebind_manager \<Rightarrow> (rebind_input \<times> rebind_action list) list \<Rightarrow>
    (rebind_input \<times> rebind_action list) list \<Rightarrow> bool" where
  "rebind_facts m since recent \<longleftrightarrow>
     unat (rm_consecutive_wifi_probe_successes m) \<le> streak (rev (map fst recent)) \<and>
     (rm_stability_satisfied m \<longrightarrow> Fire StabilityWindow \<in> fst ` set recent) \<and>
     (rm_cellular_min_dwell_satisfied m \<longrightarrow> Fire CellularMinDwell \<in> fst ` set (since @ recent)) \<and>
     (rm_manual_force_pending m \<longrightarrow> user_asked (rev (map fst (since @ recent))) \<and>
        (user_asked (rev (map fst recent)) \<or> rm_consecutive_wifi_probe_successes m = 0))"

definition rebind_hist :: "rebind_manager \<Rightarrow> (rebind_input \<times> rebind_action list) list \<Rightarrow> bool" where
  "rebind_hist m hist \<longleftrightarrow> (rm_phase m \<noteq> OnWifi \<longrightarrow>
     (\<exists>before move acts since recent. episode hist before move acts since recent \<and> rebind_facts m since recent))"

lemma episode_snoc:
  "episode hist before move acts since recent \<Longrightarrow> PerformRebindToWifi \<notin> set as \<Longrightarrow> StopQuietWatch \<notin> set as \<Longrightarrow>
   episode (hist @ [(i, as)]) before move acts since (recent @ [(i, as)])"
  by (auto simp: episode_def)

lemma episode_new_round:
  "episode hist before move acts since recent \<Longrightarrow> PerformRebindToWifi \<notin> set as \<Longrightarrow>
   episode (hist @ [(i, as)]) before move acts (since @ recent @ [(i, as)]) []"
  by (auto simp: episode_def)

definition rebind_handle :: "rebind_input \<Rightarrow> rebind_manager \<Rightarrow> rebind_response" where
  "rebind_handle i m = (case i of Ev e \<Rightarrow> rebind_on_event e m | Fire t \<Rightarrow> rebind_on_timeout t m)"

lemma rebind_facts_step:
  assumes "rm_phase m \<noteq> OnWifi" "rm_phase (snd (rebind_handle i m)) \<noteq> OnWifi" "rebind_facts m since recent"
  shows "let acts = rs_actions (fst (rebind_handle i m)) in PerformRebindToWifi \<notin> set acts \<and>
    (if StopQuietWatch \<in> set acts then rebind_facts (snd (rebind_handle i m)) (since @ recent @ [(i, acts)]) []
     else rebind_facts (snd (rebind_handle i m)) since (recent @ [(i, acts)]))"
proof (cases i)
  case (Ev e)
  have sat: "unat (sat_add n (1 :: u32)) \<le> Suc (unat n)" for n by (simp add: unat_sat_add)
  show ?thesis
    using assms order_trans [OF sat]
    by (cases e; cases "rm_phase m") (auto simp: Ev rebind_handle_def rebind_handler_defs rebind_facts_def)
next
  case (Fire t)
  with assms show ?thesis
    by (cases t; cases "rm_phase m") (auto simp: rebind_handle_def rebind_handler_defs rebind_facts_def)
qed

lemma rebind_hist_step:
  assumes "rebind_hist m hist"
  shows "rebind_hist (snd (rebind_handle i m)) (hist @ [(i, rs_actions (fst (rebind_handle i m)))])"
proof (cases "rm_phase m = OnWifi")
  case True
  let ?e = "[(i, rs_actions (fst (rebind_handle i m)))]"
  have "PerformRebindToCellular \<in> set (rs_actions (fst (rebind_handle i m))) \<and> rebind_facts (snd (rebind_handle i m)) [] []"
    if "rm_phase (snd (rebind_handle i m)) \<noteq> OnWifi"
    using True that
    by (cases i; cases "case i of Ev e \<Rightarrow> e | _ \<Rightarrow> undefined"; cases "case i of Fire t \<Rightarrow> t | _ \<Rightarrow> undefined")
      (auto simp: rebind_handle_def rebind_handler_defs rebind_facts_def split: if_splits)
  then show ?thesis by (force simp: rebind_hist_def episode_def)
next
  case False
  with assms obtain before move acts since recent where ep: "episode hist before move acts since recent"
    and f: "rebind_facts m since recent"
    by (auto simp: rebind_hist_def)
  show ?thesis
  proof (cases "rm_phase (snd (rebind_handle i m)) = OnWifi")
    case on: False
    from rebind_facts_step [OF False on f] episode_snoc [OF ep] episode_new_round [OF ep] show ?thesis
      unfolding rebind_hist_def Let_def by (metis (full_types))
  qed (simp add: rebind_hist_def)
qed

lemma rebind_step_handle:
  "(\<forall>t. i = Fire t \<longrightarrow> t \<in> A) \<Longrightarrow> fst (fst (fsm_step rebind_on_event rebind_on_timeout (m, A) i)) = snd (rebind_handle i m)
     \<and> snd (fsm_step rebind_on_event rebind_on_timeout (m, A) i) = rs_actions (fst (rebind_handle i m))"
  by (cases i) (simp_all add: rebind_handle_def case_prod_beta)

lemma rebind_hist_run: "rebind_hist (fst (fst (rebind_run es))) (rebind_log es)"
proof (induction es rule: rev_induct)
  case Nil
  show ?case by (simp add: rebind_hist_def rebind_run_def rebind_new_def)
next
  case (snoc i es)
  obtain m A where r: "fst (rebind_run es) = (m, A)" by fastforce
  show ?case
  proof (cases "\<exists>t. i = Fire t \<and> t \<notin> A")
    case True
    with snoc r show ?thesis by (auto simp: rebind_run_def rebind_log_def fsm_log_snoc fst_run_append)
  next
    case False
    with r snoc rebind_hist_step [of m "rebind_log es" i] rebind_step_handle [of i A m] show ?thesis
      by (auto simp: rebind_run_def rebind_log_def fsm_log_snoc fst_run_append)
  qed
qed

lemma return_step:
  assumes "PerformRebindToWifi \<in> set (snd (fsm_step rebind_on_event rebind_on_timeout (m, A) e))"
  shows "e = Ev WifiProbeSucceeded \<and> rm_manual_force_pending m \<and> rm_phase m \<noteq> OnWifi \<or>
    e = Ev TrafficQuietDetected \<and> rm_phase m = WaitingQuietToReturn"
proof (cases e)
  case (Ev ev)
  with assms show ?thesis by (cases ev) (auto simp: rebind_handler_defs split: rebind_phase.splits if_splits)
next
  case (Fire t)
  with assms show ?thesis by (cases t) (auto simp: rebind_handler_defs split: if_splits)
qed

section \<open>Properties\<close>

text \<open>On the cellular network the manager never stops looking for a way back: a probe or back-off
  timer is always running, and a wait for quiet traffic always has its deadline; back on WiFi no
  timer is left.\<close>

lemma rebind_never_stuck:
  assumes "fst (rebind_run es) = (m, A)"
  shows "case rm_phase m of
      OnWifi \<Rightarrow> A = {}
    | FailedOverToCellular \<Rightarrow> ProbeCadence \<in> A \<or> RebindBackoff \<in> A
    | WaitingQuietToReturn \<Rightarrow> QuietWait \<in> A \<and> (ProbeCadence \<in> A \<or> RebindBackoff \<in> A)"
  using rebind_inv_run [OF assms] by (auto simp: rebind_inv_def split: rebind_phase.splits)

text \<open>C12. The session returns to WiFi only for one of two reasons, both told from what has happened since
  it moved to the cellular network, during all of which it stayed there. Either a probe succeeds and
  the last thing before it, among probes and requests of the user, was a request to return. Or traffic
  is quiet, the minimum dwell on the cellular network is over, and since the last round was given up
  a stability window ran out and at least five probes in a row have succeeded, where a probe
  that fails in answer to a request of the user does not end the row. (The window may have
  run out before the row began.)\<close>

theorem rebind_return_justified:
  assumes "fst (rebind_run es) = (m, A)"
    and "PerformRebindToWifi \<in> set (snd (fsm_step rebind_on_event rebind_on_timeout (m, A) e))"
  shows "\<exists>before move acts since recent.
    rebind_log es = before @ (move, acts) # since @ recent \<and> PerformRebindToCellular \<in> set acts \<and>
    (\<forall>(i, acts) \<in> set (since @ recent). PerformRebindToWifi \<notin> set acts) \<and>
    (e = Ev WifiProbeSucceeded \<and> user_asked (rev (map fst (since @ recent))) \<or>
     e = Ev TrafficQuietDetected \<and> Fire CellularMinDwell \<in> fst ` set (since @ recent) \<and>
       (\<forall>(i, acts) \<in> set recent. StopQuietWatch \<notin> set acts) \<and>
       Fire StabilityWindow \<in> fst ` set recent \<and> 5 \<le> streak (rev (map fst recent)))"
proof -
  have h: "rebind_hist m (rebind_log es)" using rebind_hist_run [of es] assms(1) by simp
  have w: "e = Ev WifiProbeSucceeded \<and> rm_manual_force_pending m \<and> rm_phase m \<noteq> OnWifi \<or>
    e = Ev TrafficQuietDetected \<and> rm_phase m = WaitingQuietToReturn"
    using assms(2) by (rule return_step)
  with h obtain before move acts since recent where ep: "episode (rebind_log es) before move acts since recent"
    and f: "rebind_facts m since recent"
    by (auto simp: rebind_hist_def)
  have inv: "rebind_inv m A" using assms(1) by (rule rebind_inv_run)
  have "5 \<le> unat (rm_consecutive_wifi_probe_successes m)" if "rm_phase m = WaitingQuietToReturn"
    using inv that by (simp add: rebind_inv_def word_le_nat_alt)
  with w f inv have "e = Ev WifiProbeSucceeded \<and> user_asked (rev (map fst (since @ recent))) \<or>
     e = Ev TrafficQuietDetected \<and> Fire CellularMinDwell \<in> fst ` set (since @ recent) \<and>
       Fire StabilityWindow \<in> fst ` set recent \<and> 5 \<le> streak (rev (map fst recent))"
    by (auto simp: rebind_facts_def rebind_inv_def)
  with ep show ?thesis unfolding episode_def by blast
qed

text \<open>A round as it is meant to go: five probes succeed, the window runs out among them, the dwell time
  ends, and traffic becomes quiet.\<close>

definition steady_round :: "rebind_input list" where
  "steady_round = [Ev NoViablePath, Ev WifiProbeSucceeded, Ev WifiProbeSucceeded, Ev WifiProbeSucceeded,
     Ev WifiProbeSucceeded, Fire StabilityWindow, Fire CellularMinDwell, Ev WifiProbeSucceeded]"

theorem rebind_return_justified_witness:
  "\<exists>before move acts since recent. rebind_log steady_round = before @ (move, acts) # since @ recent \<and>
     PerformRebindToCellular \<in> set acts \<and> 5 \<le> streak (rev (map fst recent))"
proof -
  obtain m A where r: "fst (rebind_run steady_round) = (m, A)" by fastforce
  then have "rm_phase m = WaitingQuietToReturn"
    by (auto simp: rebind_run_def steady_round_def rebind_new_def rebind_handler_defs
        STABILITY_CONSECUTIVE_SUCCESSES_def sat_add_def)
  then have p: "PerformRebindToWifi \<in> set (snd (fsm_step rebind_on_event rebind_on_timeout (m, A) (Ev TrafficQuietDetected)))"
    by (simp add: handle_quiet_detected_def complete_automatic_return_def response_defs)
  from rebind_return_justified [OF r p] show ?thesis by fastforce
qed

text \<open>The flag of the stability window survives a failed probe.\<close>

definition flaky_round :: "rebind_input list" where
  "flaky_round = [Ev NoViablePath, Ev WifiProbeSucceeded, Fire StabilityWindow, Ev WifiProbeFailed] @
     [Ev WifiProbeSucceeded, Ev WifiProbeSucceeded, Ev WifiProbeSucceeded, Ev WifiProbeSucceeded,
      Ev WifiProbeSucceeded] @ [Fire CellularMinDwell]"

lemma flaky_round_waits:
  "rm_phase (fst (fst (rebind_run flaky_round))) = WaitingQuietToReturn"
  "StabilityWindow \<in> snd (fst (rebind_run flaky_round))"
  by (simp_all add: rebind_run_def flaky_round_def rebind_new_def rebind_handler_defs
      STABILITY_CONSECUTIVE_SUCCESSES_def sat_add_def)

text \<open>The manager waits for quiet, and so can return, although the stability window did not run out
  since the last failed probe: the failure restarts the count of probes and kills the timer but
  leaves the mark of a window that had run out before it.\<close>

lemma rebind_stability_mark_stale:
  "StabilityWindow \<in> snd (fst (rebind_run flaky_round)) \<and>
   rm_phase (fst (fst (rebind_run flaky_round))) = WaitingQuietToReturn"
  using flaky_round_waits by blast

end
