(* ===== verification/Trzsz.thy ===== *)
theory Trzsz
  imports TimedFsm Utf8 "HOL-Library.Sublist"
begin

text \<open>
  \<^verbatim>\<open>src/trzsz.rs\<close>: the filter on a session's output that recognises the trigger of a
  \<^verbatim>\<open>trz\<close>/\<^verbatim>\<open>tsz\<close> file transfer and then runs the transfer protocol. Compression, base64 and
  MD5 are third-party and come as the parameter \<open>codec\<close>; an MD5 context is the bytes it has been
  given. A protocol line is text, here its code points. The message of a finished transfer carries
  what its text is made of.
\<close>

record codec =
  zlib :: "u8 list \<Rightarrow> u8 list"
  unzlib :: "u8 list \<Rightarrow> u8 list option"
  b64_encode :: "u8 list \<Rightarrow> uchar list"
  b64_decode :: "uchar list \<Rightarrow> u8 list option"
  md5 :: "u8 list \<Rightarrow> u8 list"

section \<open>Types\<close>

datatype trzsz_mode = Upload | Download | Dir

record trzsz_detection =
  td_mode :: trzsz_mode
  td_version :: "uchar list"
  td_unique_id :: "uchar list"

datatype trzsz_event =
    StdoutBytes "u8 list"
  | KotlinAcceptUpload string "uchar list" u64
  | KotlinChunk string "u8 list" bool
  | KotlinAcceptDownload string
  | KotlinCancel string

datatype finish_message =
    Cancelled | TransferTimeout | ServerFailed "u8 list" | ServerFailedRaw "uchar list" | SizeImplausible u64

datatype trzsz_effect =
    FlushVte "u8 list"
  | SendStdin "u8 list"
  | OnTrzszRequest string trzsz_mode
  | OnDownloadChunk string "u8 list" bool
  | OnProgress string u64 "u64 option"
  | OnFinished string bool "finish_message option"

datatype trzsz_timer = Transfer

definition TRANSFER_TIMEOUT :: duration where "TRANSFER_TIMEOUT = from_secs 120"
definition MAX_DECLARED_TRZSZ_SIZE :: u64 where "MAX_DECLARED_TRZSZ_SIZE = push_bit 40 1"

datatype upload_step = U_WaitCfg | U_WaitNumAck | U_WaitNameAck | U_WaitSizeAck | U_SendingData | U_WaitMd5Ack
datatype download_step = D_WaitCfg | D_WaitNum | D_WaitName | D_WaitSize | D_Receiving | D_WaitMd5

record upload =
  up_step :: upload_step
  up_file_name :: "uchar list"
  up_file_size :: u64
  up_md5_ctx :: "u8 list"
  up_pending :: "(u64 \<times> bool) list"
  up_unsent :: "(u8 list \<times> bool) list"

datatype transfer_phase = PUpload upload | PDownload download_step

record transfer =
  tr_transferred :: u64
  tr_total :: "u64 option"
  tr_phase :: transfer_phase

datatype trzsz_state =
    Normal
  | WaitingKotlin string trzsz_mode "u8 list"
  | Transferring string "u8 list" transfer
  | Recovering

record trzsz_fsm =
  tz_state :: trzsz_state
  tz_tail_buf :: "u8 list"
  tz_next_id :: u64

definition trzsz_new :: trzsz_fsm where
  "trzsz_new = \<lparr>tz_state = Normal, tz_tail_buf = [], tz_next_id = 0\<rparr>"

type_synonym trzsz_response = "(trzsz_effect, trzsz_timer) response \<times> trzsz_fsm"

section \<open>Wire codec\<close>

definition TRZSZ_MAGIC :: "u8 list" where
  "TRZSZ_MAGIC = map word_of_nat (codes ''::TRZSZ:TRANSFER:'')"

definition encode_bytes :: "codec \<Rightarrow> u8 list \<Rightarrow> uchar list" where
  "encode_bytes c buf = b64_encode c (zlib c buf)"

definition decode_bytes :: "codec \<Rightarrow> uchar list \<Rightarrow> u8 list option" where
  "decode_bytes c s = Option.bind (b64_decode c (str_trim s)) (unzlib c)"

definition frame :: "string \<Rightarrow> uchar list \<Rightarrow> u8 list" where
  "frame typ payload = utf8_encode (codes ''#'' @ codes typ @ codes '':'' @ payload @ [10])"

definition frame_int :: "string \<Rightarrow> u64 \<Rightarrow> u8 list" where
  "frame_int typ val = frame typ (digits (unat val))"

definition frame_bin :: "codec \<Rightarrow> string \<Rightarrow> u8 list \<Rightarrow> u8 list" where
  "frame_bin c typ buf = frame typ (encode_bytes c buf)"

definition act_json :: string where
  "act_json =
     ''{\"lang\":\"go\",\"version\":\"1.1.5\",\"confirm\":true,\"protocol\":2,\"support_binary\":false}''"

definition act_msg :: "codec \<Rightarrow> u8 list" where
  "act_msg c = frame_bin c ''ACT'' (map word_of_nat (codes act_json))"

text \<open>\<^verbatim>\<open>position\<close> and \<^verbatim>\<open>rposition\<close>.\<close>

fun position :: "('a \<Rightarrow> bool) \<Rightarrow> 'a list \<Rightarrow> nat option" where
  "position P [] = None"
| "position P (x # xs) = (if P x then Some 0 else map_option Suc (position P xs))"

definition rposition :: "('a \<Rightarrow> bool) \<Rightarrow> 'a list \<Rightarrow> nat option" where
  "rposition P xs = map_option (\<lambda>i. length xs - 1 - i) (position P (rev xs))"

definition parse_line :: "u8 list \<Rightarrow> (uchar list \<times> uchar list) option" where
  "parse_line line =
     Option.bind (rposition (\<lambda>b. b = 0x23) line) (\<lambda>hash.
       let line = drop hash line in
       Option.bind (position (\<lambda>b. b = 0x3a) line) (\<lambda>colon.
         if colon < 2 then None
         else Option.bind (utf8_decode (drop 1 (take colon line))) (\<lambda>typ.
              Option.bind (utf8_decode (drop (colon + 1) line)) (\<lambda>payload.
              Some (typ, payload)))))"

text \<open>The longest suffix of the buffer that could be the start of the magic.\<close>

definition magic_suffix_len :: "u8 list \<Rightarrow> nat" where
  "magic_suffix_len buf =
     (let max_check = min (length buf) (length TRZSZ_MAGIC - 1) in
      case find (\<lambda>len. prefix (drop (length buf - len) buf) TRZSZ_MAGIC) (rev [1..<max_check + 1]) of
        Some len \<Rightarrow> len
      | None \<Rightarrow> 0)"

definition rfind :: "u8 list \<Rightarrow> u8 list \<Rightarrow> nat option" where
  "rfind haystack needle =
     (if needle = [] \<or> length haystack < length needle then None
      else find (\<lambda>i. slice i (length needle) haystack = needle)
             (rev [0..<length haystack - length needle + 1]))"

text \<open>\<^verbatim>\<open>splitn(3, ':')\<close>, when there are three parts.\<close>

definition split3 :: "uchar list \<Rightarrow> (uchar list \<times> uchar list \<times> uchar list) option" where
  "split3 s =
     Option.bind (position (\<lambda>c. c = 58) s) (\<lambda>i.
       let rest = drop (i + 1) s in
       Option.bind (position (\<lambda>c. c = 58) rest) (\<lambda>j.
       Some (take i s, take j rest, drop (j + 1) rest)))"

definition parse_trzsz_trigger :: "u8 list \<Rightarrow> trzsz_detection option" where
  "parse_trzsz_trigger bytes =
     Option.bind (position (\<lambda>b. b = 10) bytes) (\<lambda>newline_pos.
     Option.bind (utf8_decode (take newline_pos bytes)) (\<lambda>line.
     if \<not> prefix (codes ''::TRZSZ:TRANSFER:'') line then None
     else Option.bind (split3 (drop 17 line)) (\<lambda>(mode_char, version, unique_id).
       let detected = (\<lambda>mode. \<lparr>td_mode = mode, td_version = version, td_unique_id = unique_id\<rparr>) in
       if mode_char = codes ''R'' then Some (detected Upload)
       else if mode_char = codes ''S'' then Some (detected Download)
       else if mode_char = codes ''D'' then Some (detected Dir)
       else None)))"

definition parse_u64_or :: "u64 \<Rightarrow> uchar list \<Rightarrow> u64" where
  "parse_u64_or dflt s = (case parse_u64 s of Some v \<Rightarrow> v | None \<Rightarrow> dflt)"

section \<open>The machine\<close>

definition alloc_transfer_id :: "trzsz_fsm \<Rightarrow> string \<times> trzsz_fsm" where
  "alloc_transfer_id m =
     (''trzsz-'' @ map char_of (digits (unat (tz_next_id m))), m\<lparr>tz_next_id := tz_next_id m + 1\<rparr>)"

definition abort_transfer :: "string \<Rightarrow> finish_message \<Rightarrow> trzsz_fsm \<Rightarrow> trzsz_response" where
  "abort_transfer tid msg m =
     (emit [SendStdin [0x03], OnFinished tid False (Some msg)], m\<lparr>tz_state := Recovering, tz_tail_buf := []\<rparr>)"

definition process_normal_bytes :: "codec \<Rightarrow> u8 list \<Rightarrow> trzsz_fsm \<Rightarrow> trzsz_effect list \<times> trzsz_fsm" where
  "process_normal_bytes c bytes m =
     (let tail_buf = tz_tail_buf m @ bytes in
      case rfind tail_buf TRZSZ_MAGIC of
        Some magic_pos \<Rightarrow>
         (let actions = (if 0 < magic_pos then [FlushVte (take magic_pos tail_buf)] else []);
              candidate = drop magic_pos tail_buf in
          case parse_trzsz_trigger candidate of
            Some detection \<Rightarrow>
             (let (transfer_id, m) = alloc_transfer_id m in
              (actions @ [SendStdin (act_msg c), OnTrzszRequest transfer_id (td_mode detection)],
               m\<lparr>tz_tail_buf := [], tz_state := WaitingKotlin transfer_id (td_mode detection) []\<rparr>))
          | None \<Rightarrow> (actions, m\<lparr>tz_tail_buf := candidate\<rparr>))
      | None \<Rightarrow>
         (let keep = magic_suffix_len tail_buf in
          if keep < length tail_buf
          then (let flush_end = length tail_buf - keep in
                ([FlushVte (take flush_end tail_buf)], m\<lparr>tz_tail_buf := drop flush_end tail_buf\<rparr>))
          else ([], m\<lparr>tz_tail_buf := tail_buf\<rparr>)))"

text \<open>One line of the server in an upload: effects, the new upload, the bytes acknowledged, and how
  the transfer ended if it did.\<close>

definition upload_line ::
    "codec \<Rightarrow> string \<Rightarrow> uchar list \<Rightarrow> u64 option \<Rightarrow> u64 \<times> upload \<Rightarrow>
     trzsz_effect list \<times> (u64 \<times> upload) \<times> bool option" where
  "upload_line c tid typ tot = (\<lambda>(transferred, u).
     if up_step u = U_WaitCfg \<and> typ = codes ''CFG'' then
       ([SendStdin (frame_int ''NUM'' 1), SendStdin (frame_bin c ''NAME'' (utf8_encode (up_file_name u))),
         SendStdin (frame_int ''SIZE'' (up_file_size u))], (transferred, u\<lparr>up_step := U_WaitNumAck\<rparr>), None)
     else if up_step u = U_WaitNumAck \<and> typ = codes ''SUCC'' then
       ([], (transferred, u\<lparr>up_step := U_WaitNameAck\<rparr>), None)
     else if up_step u = U_WaitNameAck \<and> typ = codes ''SUCC'' then
       ([], (transferred, u\<lparr>up_step := U_WaitSizeAck\<rparr>), None)
     else if up_step u = U_WaitSizeAck \<and> typ = codes ''SUCC'' then
       (OnProgress tid transferred tot #
          map (\<lambda>(data, _). SendStdin (frame_bin c ''DATA'' data)) (up_unsent u),
        (transferred, u\<lparr>up_step := U_SendingData, up_md5_ctx := up_md5_ctx u @ concat (map fst (up_unsent u)),
           up_pending := up_pending u @ map (\<lambda>(data, is_last). (word_of_nat (length data), is_last)) (up_unsent u),
           up_unsent := []\<rparr>), None)
     else if up_step u = U_SendingData \<and> typ = codes ''SUCC'' then
       (case up_pending u of
          [] \<Rightarrow> ([], (transferred, u), None)
        | (len, is_last) # pending \<Rightarrow>
           (let transferred = transferred + len; u = u\<lparr>up_pending := pending\<rparr> in
            if is_last
            then ([OnProgress tid transferred tot, SendStdin (frame_bin c ''MD5'' (md5 c (up_md5_ctx u)))],
                  (transferred, u\<lparr>up_step := U_WaitMd5Ack\<rparr>), None)
            else ([OnProgress tid transferred tot], (transferred, u), None)))
     else if up_step u = U_WaitMd5Ack \<and> typ = codes ''SUCC'' then
       ([OnFinished tid True None], (transferred, u), Some True)
     else ([], (transferred, u), None))"

definition download_line ::
    "codec \<Rightarrow> string \<Rightarrow> uchar list \<Rightarrow> uchar list \<Rightarrow> u64 \<times> u64 option \<times> download_step \<Rightarrow>
     trzsz_effect list \<times> (u64 \<times> u64 option \<times> download_step) \<times> bool option" where
  "download_line c tid typ payload = (\<lambda>(transferred, tot, step).
     if typ = codes ''CFG'' \<and> step = D_WaitCfg then ([], (transferred, tot, D_WaitNum), None)
     else if typ = codes ''NUM'' \<and> step = D_WaitNum then
       ([SendStdin (frame_int ''SUCC'' (parse_u64_or 1 payload))], (transferred, tot, D_WaitName), None)
     else if typ = codes ''NAME'' \<and> step = D_WaitName then
       ([SendStdin (frame ''SUCC'' payload)], (transferred, tot, D_WaitSize), None)
     else if typ = codes ''SIZE'' \<and> step = D_WaitSize then
       (let n = parse_u64_or 0 payload in
        if MAX_DECLARED_TRZSZ_SIZE < n
        then ([SendStdin [0x03], OnFinished tid False (Some (SizeImplausible n))], (transferred, tot, step), Some False)
        else ([SendStdin (frame_int ''SUCC'' n), OnProgress tid transferred (Some n)],
              (transferred, Some n, D_Receiving), None))
     else if typ = codes ''DATA'' \<and> step = D_Receiving then
       (case decode_bytes c payload of
          None \<Rightarrow> ([], (transferred, tot, step), None)
        | Some data \<Rightarrow>
           (let len = word_of_nat (length data);
                transferred = transferred + len;
                is_last = (case tot of Some t \<Rightarrow> t \<le> transferred | None \<Rightarrow> False) in
            ([OnDownloadChunk tid data is_last, SendStdin (frame_int ''SUCC'' len), OnProgress tid transferred tot],
             (transferred, tot, if is_last then D_WaitMd5 else step), None)))
     else if typ = codes ''MD5'' \<and> step = D_WaitMd5 then
       ([SendStdin (frame ''SUCC'' payload), OnFinished tid True None], (transferred, tot, step), Some True)
     else ([], (transferred, tot, step), None))"

definition transfer_line ::
    "codec \<Rightarrow> string \<Rightarrow> uchar list \<Rightarrow> uchar list \<Rightarrow> transfer \<Rightarrow> trzsz_effect list \<times> transfer \<times> bool option" where
  "transfer_line c tid typ payload t =
     (if typ = codes ''FAIL'' \<or> typ = codes ''fail'' then
        ([OnFinished tid False (Some (case decode_bytes c payload of
            Some b \<Rightarrow> ServerFailed b | None \<Rightarrow> ServerFailedRaw payload))], t, Some False)
      else (case tr_phase t of
          PUpload u \<Rightarrow>
           (let (effects, (transferred, u), fin) = upload_line c tid typ (tr_total t) (tr_transferred t, u) in
            (effects, t\<lparr>tr_transferred := transferred, tr_phase := PUpload u\<rparr>, fin))
        | PDownload step \<Rightarrow>
           (let (effects, (transferred, tot, step), fin) =
                  download_line c tid typ payload (tr_transferred t, tr_total t, step) in
            (effects, t\<lparr>tr_transferred := transferred, tr_total := tot, tr_phase := PDownload step\<rparr>, fin))))"

text \<open>The loop over the complete lines of the buffer; it stops at the line that ends the transfer.\<close>

function line_loop ::
    "codec \<Rightarrow> string \<Rightarrow> u8 list \<Rightarrow> transfer \<Rightarrow> trzsz_effect list \<times> u8 list \<times> transfer \<times> bool option \<times> bool" where
  "line_loop c tid proto_buf t = (case position (\<lambda>b. b = 10) proto_buf of
       None \<Rightarrow> ([], proto_buf, t, None, False)
     | Some nl \<Rightarrow>
        (let raw = take nl proto_buf;
             line = (if raw \<noteq> [] \<and> last raw = 13 then butlast raw else raw);
             rest = drop (Suc nl) proto_buf in
         case parse_line line of
           None \<Rightarrow> line_loop c tid rest t
         | Some (typ, payload) \<Rightarrow>
            (let (effects, t, fin) = transfer_line c tid typ payload t in
             case fin of
               Some b \<Rightarrow> (effects, rest, t, Some b, True)
             | None \<Rightarrow>
                (let (effects', buf, t, fin, _) = line_loop c tid rest t in (effects @ effects', buf, t, fin, True)))))"
  by pat_completeness auto
termination
proof (relation "measure (\<lambda>(_, _, buf, _). length buf)", goal_cases)
  case (2 c tid buf)
  then show ?case by (cases buf) auto
next
  case (3 c tid buf)
  then show ?case by (cases buf) auto
qed simp

declare line_loop.simps [simp del]

definition on_transferring_bytes :: "codec \<Rightarrow> u8 list \<Rightarrow> trzsz_fsm \<Rightarrow> trzsz_response" where
  "on_transferring_bytes c bytes m = (case tz_state m of
       Transferring tid proto_buf t \<Rightarrow>
        (let (effects, buf, t, fin, activity) = line_loop c tid (proto_buf @ bytes) t in
         case fin of
           Some True \<Rightarrow> (with_kill_timer Transfer (emit effects), m\<lparr>tz_state := Normal, tz_tail_buf := []\<rparr>)
         | Some False \<Rightarrow> (with_kill_timer Transfer (emit effects), m\<lparr>tz_state := Recovering, tz_tail_buf := []\<rparr>)
         | None \<Rightarrow>
            (if activity then with_timer Transfer TRANSFER_TIMEOUT (emit effects) else emit effects,
             m\<lparr>tz_state := Transferring tid buf t\<rparr>))
     | _ \<Rightarrow> (consume, m))"

definition accept_transfer :: "codec \<Rightarrow> string \<Rightarrow> u8 list \<Rightarrow> transfer \<Rightarrow> trzsz_fsm \<Rightarrow> trzsz_response" where
  "accept_transfer c tid buffered t m =
     (let (resp, m) = on_transferring_bytes c [] (m\<lparr>tz_state := Transferring tid buffered t\<rparr>) in
      (with_timer Transfer TRANSFER_TIMEOUT resp, m))"

definition active_id :: "trzsz_state \<Rightarrow> string option" where
  "active_id s = (case s of WaitingKotlin tid _ _ \<Rightarrow> Some tid | Transferring tid _ _ \<Rightarrow> Some tid | _ \<Rightarrow> None)"

fun trzsz_on_event :: "codec \<Rightarrow> trzsz_event \<Rightarrow> trzsz_fsm \<Rightarrow> trzsz_response" where
  "trzsz_on_event c (StdoutBytes bytes) m = (case tz_state m of
       Normal \<Rightarrow>
        (let (actions, m) = process_normal_bytes c bytes m in
         (case tz_state m of
            WaitingKotlin _ _ _ \<Rightarrow> with_timer Transfer TRANSFER_TIMEOUT (emit actions)
          | _ \<Rightarrow> emit actions, m))
     | WaitingKotlin tid mode proto_buf \<Rightarrow> (consume, m\<lparr>tz_state := WaitingKotlin tid mode (proto_buf @ bytes)\<rparr>)
     | Transferring _ _ _ \<Rightarrow> on_transferring_bytes c bytes m
     | Recovering \<Rightarrow>
        (emit [FlushVte bytes],
         if 10 \<in> set bytes then m\<lparr>tz_state := Normal, tz_tail_buf := []\<rparr> else m))"
| "trzsz_on_event c (KotlinAcceptUpload transfer_id file_name file_size) m = (case tz_state m of
       WaitingKotlin tid Upload proto_buf \<Rightarrow>
        if tid = transfer_id
        then accept_transfer c tid proto_buf \<lparr>tr_transferred = 0, tr_total = Some file_size,
               tr_phase = PUpload \<lparr>up_step = U_WaitCfg, up_file_name = file_name, up_file_size = file_size,
                 up_md5_ctx = [], up_pending = [], up_unsent = []\<rparr>\<rparr> m
        else (consume, m)
     | _ \<Rightarrow> (consume, m))"
| "trzsz_on_event c (KotlinAcceptDownload transfer_id) m = (case tz_state m of
       WaitingKotlin tid Download proto_buf \<Rightarrow>
        if tid = transfer_id
        then accept_transfer c tid proto_buf \<lparr>tr_transferred = 0, tr_total = None, tr_phase = PDownload D_WaitCfg\<rparr> m
        else (consume, m)
     | _ \<Rightarrow> (consume, m))"
| "trzsz_on_event c (KotlinChunk transfer_id data is_last) m = (case tz_state m of
       Transferring tid proto_buf t \<Rightarrow>
        (case tr_phase t of
           PUpload u \<Rightarrow>
            if tid = transfer_id then
              if up_step u = U_SendingData then
                (let u = u\<lparr>up_md5_ctx := up_md5_ctx u @ data,
                           up_pending := up_pending u @ [(word_of_nat (length data), is_last)]\<rparr> in
                 (with_timer Transfer TRANSFER_TIMEOUT (emit [SendStdin (frame_bin c ''DATA'' data)]),
                  m\<lparr>tz_state := Transferring tid proto_buf (t\<lparr>tr_phase := PUpload u\<rparr>)\<rparr>))
              else
                (let u = u\<lparr>up_unsent := up_unsent u @ [(data, is_last)]\<rparr> in
                 (consume, m\<lparr>tz_state := Transferring tid proto_buf (t\<lparr>tr_phase := PUpload u\<rparr>)\<rparr>))
            else (consume, m)
         | PDownload _ \<Rightarrow> (consume, m))
     | _ \<Rightarrow> (consume, m))"
| "trzsz_on_event c (KotlinCancel transfer_id) m =
     (if active_id (tz_state m) = Some transfer_id then
        (let (resp, m) = abort_transfer transfer_id Cancelled m in (with_kill_timer Transfer resp, m))
      else (consume, m))"

definition trzsz_on_timeout :: "trzsz_timer \<Rightarrow> trzsz_fsm \<Rightarrow> trzsz_response" where
  "trzsz_on_timeout t m = (case active_id (tz_state m) of
       Some tid \<Rightarrow> abort_transfer tid TransferTimeout m
     | None \<Rightarrow> (pass_through, m))"

type_synonym trzsz_input = "(trzsz_event, trzsz_timer) fsm_input"

definition trzsz_step ::
    "codec \<Rightarrow> trzsz_fsm \<times> trzsz_timer set \<Rightarrow> trzsz_input \<Rightarrow> (trzsz_fsm \<times> trzsz_timer set) \<times> trzsz_effect list" where
  "trzsz_step c = fsm_step (trzsz_on_event c) trzsz_on_timeout"

definition trzsz_run :: "codec \<Rightarrow> trzsz_input list \<Rightarrow> (trzsz_fsm \<times> trzsz_timer set) \<times> trzsz_effect list" where
  "trzsz_run c es = run (trzsz_step c) (trzsz_new, {}) es"

section \<open>Searching\<close>

lemma position_None: "position P xs = None \<longleftrightarrow> (\<forall>x \<in> set xs. \<not> P x)"
  by (induction xs) auto

lemma position_first: "\<not> list_ex P xs \<Longrightarrow> P y \<Longrightarrow> position P (xs @ y # ys) = Some (length xs)"
  by (induction xs) simp_all

lemma find_rev_upt_Some:
  "find P (rev [a..<n]) = Some q \<longleftrightarrow> P q \<and> a \<le> q \<and> q < n \<and> (\<forall>i. q < i \<longrightarrow> i < n \<longrightarrow> \<not> P i)"
proof (induction n)
  case (Suc n)
  then show ?case by (auto simp: less_Suc_eq)
qed simp

lemma find_rev_upt_None: "find P (rev [a..<n]) = None \<longleftrightarrow> (\<forall>i. a \<le> i \<longrightarrow> i < n \<longrightarrow> \<not> P i)"
  by (auto simp: find_None_iff)

lemma MAGIC_not_Nil [simp]: "TRZSZ_MAGIC \<noteq> []"
  by (simp add: TRZSZ_MAGIC_def codes_def)

lemma length_MAGIC [simp]: "length TRZSZ_MAGIC = 17"
  by (simp add: TRZSZ_MAGIC_def codes_def)

definition magic_at :: "nat \<Rightarrow> u8 list \<Rightarrow> bool" where
  "magic_at i s \<longleftrightarrow> prefix TRZSZ_MAGIC (drop i s)"

lemma magic_at_bound: "magic_at i s \<Longrightarrow> i + 17 \<le> length s"
  unfolding magic_at_def by (drule prefix_length_le) simp

lemma magic_at_slice: "i + 17 \<le> length s \<Longrightarrow> magic_at i s \<longleftrightarrow> slice i 17 s = TRZSZ_MAGIC"
  unfolding magic_at_def slice_def by (metis length_MAGIC append_eq_conv_conj append_take_drop_id prefix_def)

lemma magic_at_append: "magic_at i s \<Longrightarrow> magic_at i (s @ x)"
  using magic_at_bound [of i s] by (auto simp: magic_at_def)

lemma magic_at_shift: "magic_at (length f + i) (f @ s) \<longleftrightarrow> magic_at i s"
  by (simp add: magic_at_def)

lemma magic_at_cut: "magic_at i (s @ x) \<Longrightarrow> i + 17 \<le> length s \<Longrightarrow> magic_at i s"
  by (simp add: magic_at_slice slice_def)

lemma rfind_None: "rfind s TRZSZ_MAGIC = None \<longleftrightarrow> (\<forall>i. \<not> magic_at i s)"
proof (cases "length s < 17")
  case True
  then show ?thesis using magic_at_bound by (fastforce simp: rfind_def)
next
  case False
  then have "rfind s TRZSZ_MAGIC = None \<longleftrightarrow> (\<forall>i. i + 17 \<le> length s \<longrightarrow> slice i 17 s \<noteq> TRZSZ_MAGIC)"
    by (auto simp: rfind_def find_rev_upt_None simp del: upt_Suc)
  also have "\<dots> \<longleftrightarrow> (\<forall>i. \<not> magic_at i s)" using magic_at_bound magic_at_slice by blast
  finally show ?thesis .
qed

lemma rfind_Some:
  assumes "\<And>i. magic_at i s \<longleftrightarrow> i = q"
  shows "rfind s TRZSZ_MAGIC = Some q"
proof -
  have b: "q + 17 \<le> length s" using assms magic_at_bound by blast
  have "slice i 17 s = TRZSZ_MAGIC \<longleftrightarrow> i = q" if "i + 17 \<le> length s" for i
    using assms that magic_at_slice by blast
  with b have "find (\<lambda>i. slice i 17 s = TRZSZ_MAGIC) (rev [0..<length s - 17 + 1]) = Some q"
    unfolding find_rev_upt_Some by auto
  with b show ?thesis by (simp add: rfind_def)
qed

text \<open>What is kept back is the longest suffix that is a proper prefix of the magic.\<close>

definition keeps :: "u8 list \<Rightarrow> nat \<Rightarrow> bool" where
  "keeps buf len \<longleftrightarrow> prefix (drop (length buf - len) buf) TRZSZ_MAGIC"

lemma magic_suffix_len_eq:
  "magic_suffix_len buf =
     (case find (keeps buf) (rev [1..<min (length buf) 16 + 1]) of Some len \<Rightarrow> len | None \<Rightarrow> 0)"
  by (simp add: magic_suffix_len_def Let_def keeps_def [abs_def])

lemma magic_suffix_len_le: "magic_suffix_len buf \<le> length buf" "magic_suffix_len buf < 17"
  by (auto simp: magic_suffix_len_eq find_rev_upt_Some simp del: upt_Suc split: option.splits)

lemma magic_suffix_prefix: "prefix (drop (length buf - magic_suffix_len buf) buf) TRZSZ_MAGIC"
  by (auto simp: magic_suffix_len_eq find_rev_upt_Some keeps_def simp del: upt_Suc split: option.splits)

lemma magic_suffix_max:
  assumes "prefix u TRZSZ_MAGIC" "length u < 17" "buf = v @ u"
  shows "length u \<le> magic_suffix_len buf"
proof (cases "u = []")
  case False
  have P: "keeps buf (length u)" "length u < min (length buf) 16 + 1" "1 \<le> length u"
    using assms False by (auto simp: keeps_def Suc_le_eq)
  then obtain len where len: "find (keeps buf) (rev [1..<min (length buf) 16 + 1]) = Some len"
    using find_rev_upt_None [of "keeps buf" 1 "min (length buf) 16 + 1"] by fastforce
  then have "\<not> len < length u" using P unfolding find_rev_upt_Some by blast
  with len show ?thesis by (simp add: magic_suffix_len_eq)
qed simp

section \<open>Detection\<close>

fun flushed :: "trzsz_effect list \<Rightarrow> u8 list" where
  "flushed [] = []"
| "flushed (FlushVte b # es) = b @ flushed es"
| "flushed (_ # es) = flushed es"

lemma flushed_append [simp]: "flushed (es @ es') = flushed es @ flushed es'"
  by (induction es rule: flushed.induct) simp_all

fun is_flush :: "trzsz_effect \<Rightarrow> bool" where
  "is_flush (FlushVte _) = True"
| "is_flush _ = False"

definition normal_cut :: "u8 list \<Rightarrow> nat" where
  "normal_cut s = (case rfind s TRZSZ_MAGIC of Some q \<Rightarrow> q | None \<Rightarrow> length s - magic_suffix_len s)"

lemma process_normal_quiet:
  assumes "process_normal_bytes c b m = (es, m')" "s = tz_tail_buf m @ b"
    and "\<And>q. rfind s TRZSZ_MAGIC = Some q \<Longrightarrow> parse_trzsz_trigger (drop q s) = None"
  shows "flushed es = take (normal_cut s) s" and "list_all is_flush es"
    and "m' = m\<lparr>tz_tail_buf := drop (normal_cut s) s\<rparr>"
proof -
  have "(es, m') = (if 0 < normal_cut s then [FlushVte (take (normal_cut s) s)] else [],
      m\<lparr>tz_tail_buf := drop (normal_cut s) s\<rparr>)"
  proof (cases "rfind s TRZSZ_MAGIC")
    case None
    with assms(1,2) magic_suffix_len_le(1) [of s] show ?thesis
      by (simp add: process_normal_bytes_def normal_cut_def Let_def split: if_splits)
  next
    case (Some q')
    with assms show ?thesis
      by (auto simp: process_normal_bytes_def normal_cut_def Let_def)
  qed
  then show "flushed es = take (normal_cut s) s" "list_all is_flush es"
    "m' = m\<lparr>tz_tail_buf := drop (normal_cut s) s\<rparr>" by auto
qed

lemma process_normal_trigger:
  assumes "process_normal_bytes c b m = (es, m')" "s = tz_tail_buf m @ b"
    and "rfind s TRZSZ_MAGIC = Some q" "parse_trzsz_trigger (drop q s) = Some d"
  shows "flushed es = take q s"
    and "filter (\<lambda>e. \<not> is_flush e) es = [SendStdin (act_msg c), OnTrzszRequest (fst (alloc_transfer_id m)) (td_mode d)]"
    and "tz_state m' = WaitingKotlin (fst (alloc_transfer_id m)) (td_mode d) []"
  using assms by (auto simp: process_normal_bytes_def alloc_transfer_id_def Let_def)

definition stdout_input :: "u8 list list \<Rightarrow> trzsz_input list" where
  "stdout_input cs = map (\<lambda>b. Ev (StdoutBytes b)) cs"

lemma normal_cut_no_magic:
  assumes "\<And>i. \<not> magic_at i s"
  shows "strict_prefix (drop (normal_cut s) s) TRZSZ_MAGIC"
proof -
  have c: "normal_cut s = length s - magic_suffix_len s"
    using assms rfind_None [of s] by (simp add: normal_cut_def)
  have "length (drop (normal_cut s) s) \<noteq> length TRZSZ_MAGIC"
    using magic_suffix_len_le [of s] by (simp add: c)
  with magic_suffix_prefix [of s] show ?thesis unfolding c strict_prefix_def by metis
qed

lemma trzsz_step_normal:
  assumes "tz_state m = Normal" "process_normal_bytes c b m = (es, m')" "tz_state m' = Normal"
  shows "trzsz_step c (m, A) (Ev (StdoutBytes b)) = ((m', A), es)"
  using assms by (simp add: trzsz_step_def response_defs)

lemma normal_quiet_step:
  assumes "tz_state m = Normal" "s = tz_tail_buf m @ b"
    and "\<And>q. rfind s TRZSZ_MAGIC = Some q \<Longrightarrow> parse_trzsz_trigger (drop q s) = None"
  obtains es where "trzsz_step c (m, A) (Ev (StdoutBytes b)) = ((m\<lparr>tz_tail_buf := drop (normal_cut s) s\<rparr>, A), es)"
    "flushed es = take (normal_cut s) s" "list_all is_flush es"
proof -
  obtain es m' where p: "process_normal_bytes c b m = (es, m')" by fastforce
  note q = process_normal_quiet [OF p assms(2,3)]
  then have "trzsz_step c (m, A) (Ev (StdoutBytes b)) = ((m', A), es)"
    using assms(1) p by (intro trzsz_step_normal) simp_all
  with q that show thesis by simp
qed

text \<open>Output without a magic.\<close>

lemma stdout_run_no_magic:
  "tz_state m = Normal \<Longrightarrow> s = tz_tail_buf m @ concat cs \<Longrightarrow> \<forall>i. \<not> magic_at i s \<Longrightarrow>
   strict_prefix (tz_tail_buf m) TRZSZ_MAGIC \<Longrightarrow>
   \<exists>es t. run (trzsz_step c) (m, A) (stdout_input cs) = ((m\<lparr>tz_tail_buf := t\<rparr>, A), es) \<and>
     flushed es @ t = s \<and> list_all is_flush es \<and> strict_prefix t TRZSZ_MAGIC"
proof (induction cs arbitrary: m s)
  case (Cons b cs)
  let ?s = "tz_tail_buf m @ b"
  have no: "\<not> magic_at i ?s" for i
    using Cons.prems(2,3) magic_at_append [of i ?s "concat cs"] by auto
  with rfind_None [of ?s] have "rfind ?s TRZSZ_MAGIC = None" by blast
  then obtain es where st:
    "trzsz_step c (m, A) (Ev (StdoutBytes b)) = ((m\<lparr>tz_tail_buf := drop (normal_cut ?s) ?s\<rparr>, A), es)"
    "flushed es = take (normal_cut ?s) ?s" "list_all is_flush es"
    using normal_quiet_step [OF Cons.prems(1) refl, of b c A] by auto
  let ?m = "m\<lparr>tz_tail_buf := drop (normal_cut ?s) ?s\<rparr>"
  have no': "\<not> magic_at i (drop (normal_cut ?s) ?s @ concat cs)" for i
    using Cons.prems(2,3) magic_at_shift [of "take (normal_cut ?s) ?s" i "drop (normal_cut ?s) ?s @ concat cs"]
    by (metis append_assoc append_take_drop_id concat.simps(2))
  then obtain es' t where "run (trzsz_step c) (?m, A) (stdout_input cs) = ((?m\<lparr>tz_tail_buf := t\<rparr>, A), es')"
    "flushed es' @ t = drop (normal_cut ?s) ?s @ concat cs" "list_all is_flush es'" "strict_prefix t TRZSZ_MAGIC"
    using Cons.IH [of ?m] Cons.prems(1) normal_cut_no_magic [OF no] by auto
  with st Cons.prems(2) show ?case
    by (auto simp: stdout_input_def run.simps(2) simp del: drop_append take_append)
qed (auto simp: stdout_input_def intro: exI [of _ "tz_tail_buf m" for m])

text \<open>Output with one magic, at offset \<open>p\<close>. The bytes before it are shown, those from it on kept back.\<close>

lemma normal_cut_magic:
  assumes S: "S = f @ s @ rest" and "length f \<le> p" and at: "\<And>i. magic_at i S \<longleftrightarrow> i = p"
  shows "if p + 17 \<le> length (f @ s) then rfind s TRZSZ_MAGIC = Some (p - length f)
    else rfind s TRZSZ_MAGIC = None \<and> length f + normal_cut s \<le> p"
proof -
  have lift: "magic_at i s \<Longrightarrow> length f + i = p \<and> p + 17 \<le> length (f @ s)" for i
    using magic_at_append [of "length f + i" "f @ s" rest] magic_at_bound [of i s] at [of "length f + i"]
    by (auto simp: S magic_at_shift)
  show ?thesis
  proof (cases "p + 17 \<le> length (f @ s)")
    case True
    have "magic_at p (f @ s)" using at [of p] True S magic_at_cut [of p "f @ s" rest] by simp
    then have "magic_at (p - length f) s" using assms(2) magic_at_shift [of f "p - length f" s] by simp
    with lift have "magic_at i s \<longleftrightarrow> i = p - length f" for i by fastforce
    with True rfind_Some show ?thesis by simp
  next
    case False
    with lift rfind_None [of s] have none: "rfind s TRZSZ_MAGIC = None" by blast
    have "length f + normal_cut s \<le> p"
    proof (cases "length (f @ s) \<le> p")
      case longer: False
      let ?u = "drop (p - length f) s"
      have "drop p S = ?u @ rest" using S assms(2) longer by simp
      with at [of p] have "prefix TRZSZ_MAGIC (?u @ rest)" by (simp add: magic_at_def)
      moreover have len: "length ?u < 17" using False longer assms(2) by auto
      ultimately have "prefix ?u TRZSZ_MAGIC"
        by (metis length_MAGIC less_imp_le prefixI prefix_length_prefix)
      from magic_suffix_max [OF this len, of s "take (p - length f) s"] longer assms(2) none show ?thesis
        by (simp add: normal_cut_def)
    qed (use none in \<open>simp add: normal_cut_def\<close>)
    with False none show ?thesis by simp
  qed
qed

lemma stdout_run_magic:
  assumes at: "\<And>i. magic_at i S \<longleftrightarrow> i = p"
  shows "tz_state m = Normal \<Longrightarrow> S = f @ tz_tail_buf m @ concat cs @ rest \<Longrightarrow> length f \<le> p \<Longrightarrow>
    (\<And>k. k \<le> length S - length rest - p \<Longrightarrow> parse_trzsz_trigger (take k (drop p S)) = None) \<Longrightarrow>
    (p + 17 \<le> length (f @ tz_tail_buf m) \<Longrightarrow> length f = p) \<Longrightarrow>
    \<exists>es t. run (trzsz_step c) (m, A) (stdout_input cs) = ((m\<lparr>tz_tail_buf := t\<rparr>, A), es) \<and>
      f @ flushed es @ t @ rest = S \<and> list_all is_flush es \<and> length (f @ flushed es) \<le> p \<and>
      (p + 17 + length rest \<le> length S \<longrightarrow> length (f @ flushed es) = p)"
proof (induction cs arbitrary: m f)
  case (Cons b cs)
  let ?s = "tz_tail_buf m @ b"
  let ?n = "normal_cut ?s"
  let ?m = "m\<lparr>tz_tail_buf := drop ?n ?s\<rparr>"
  have S: "S = f @ ?s @ concat cs @ rest" using Cons.prems(2) by simp
  note cut = normal_cut_magic [OF S Cons.prems(3) at]
  have "parse_trzsz_trigger (drop q ?s) = None" if "rfind ?s TRZSZ_MAGIC = Some q" for q
  proof -
    have q: "q = p - length f" "p + 17 \<le> length (f @ ?s)" using cut that by (auto split: if_splits)
    have "drop q ?s = take (length (f @ ?s) - p) (drop p S)"
      using q Cons.prems(3) unfolding S by simp
    then show ?thesis using Cons.prems(4) [of "length (f @ ?s) - p"] S by simp
  qed
  from normal_quiet_step [OF Cons.prems(1) refl this, of c A] obtain es where
    st: "trzsz_step c (m, A) (Ev (StdoutBytes b)) = ((?m, A), es)" "flushed es = take ?n ?s" "list_all is_flush es"
    by blast
  have n: "length (f @ flushed es) \<le> p \<and> (p + 17 \<le> length (f @ ?s) \<longrightarrow> length (f @ flushed es) = p)"
    using cut st(2) Cons.prems(3) by (auto simp: normal_cut_def min_def split: if_splits)
  have S': "S = (f @ flushed es) @ tz_tail_buf ?m @ concat cs @ rest"
    using S st(2) by (simp del: drop_append take_append)
  have l: "length (f @ flushed es) + length (tz_tail_buf ?m) = length (f @ ?s)"
    using st(2) by (simp add: min_def del: drop_append take_append)
  have "\<exists>es' t. run (trzsz_step c) (?m, A) (stdout_input cs) = ((?m\<lparr>tz_tail_buf := t\<rparr>, A), es') \<and>
    (f @ flushed es) @ flushed es' @ t @ rest = S \<and> list_all is_flush es' \<and>
    length ((f @ flushed es) @ flushed es') \<le> p \<and>
    (p + 17 + length rest \<le> length S \<longrightarrow> length ((f @ flushed es) @ flushed es') = p)"
  proof (rule Cons.IH)
    show "length (f @ flushed es) = p" if "p + 17 \<le> length ((f @ flushed es) @ tz_tail_buf ?m)"
      using that n l by (metis length_append)
    show "tz_state ?m = Normal" using Cons.prems(1) by simp
    show "length (f @ flushed es) \<le> p" using n by (rule conjunct1)
  qed (rule S', rule Cons.prems(4))
  with st show ?case by (auto simp: stdout_input_def run.simps(2))
qed (auto simp: stdout_input_def intro: exI [of _ "tz_tail_buf m" for m])

text \<open>The trigger line is decided by its first newline.\<close>

lemma MAGIC_no_newline: "10 \<notin> set TRZSZ_MAGIC"
  by (simp add: TRZSZ_MAGIC_def codes_def)

lemma trigger_incomplete: "10 \<notin> set bytes \<Longrightarrow> parse_trzsz_trigger bytes = None"
proof -
  assume "10 \<notin> set bytes"
  then have "position (\<lambda>b. b = 10) bytes = None" unfolding position_None by blast
  then show ?thesis by (simp add: parse_trzsz_trigger_def)
qed

lemma trigger_first_line:
  assumes "10 \<notin> set line"
  shows "parse_trzsz_trigger (line @ 10 # post) = parse_trzsz_trigger (line @ [10])"
proof -
  have "position (\<lambda>b. b = 10) (line @ 10 # post) = Some (length line)" for post
    using assms by (intro position_first) (auto simp: list_ex_iff)
  then show ?thesis by (simp add: parse_trzsz_trigger_def)
qed

lemma trigger_take:
  assumes "10 \<notin> set line" "parse_trzsz_trigger (line @ [10]) = None"
  shows "parse_trzsz_trigger (take k (line @ 10 # post)) = None"
proof (cases "k \<le> length line")
  case True
  then show ?thesis using assms(1) by (intro trigger_incomplete) (auto dest: in_set_takeD)
next
  case False
  then obtain j where "k = length line + Suc j" by (metis add_Suc_right less_iff_Suc_add not_le)
  then show ?thesis using trigger_first_line [OF assms(1), of "take j post"] assms(2) by simp
qed

definition magic_positions :: "u8 list \<Rightarrow> nat list" where
  "magic_positions s = filter (\<lambda>i. magic_at i s) [0..<length s]"

lemma set_magic_positions: "i \<in> set (magic_positions s) \<longleftrightarrow> magic_at i s"
  using magic_at_bound [of i s] by (auto simp: magic_positions_def)

lemma magic_positions_Nil: "magic_positions s = [] \<Longrightarrow> \<not> magic_at i s"
  using set_magic_positions [of i s] by simp

lemma magic_positions_single: "magic_positions s = [p] \<Longrightarrow> magic_at i s \<longleftrightarrow> i = p"
  using set_magic_positions [of i s] by simp

lemma concat_snoc_chunk:
  "concat cs = xs @ [x] \<Longrightarrow> \<exists>cs1 b cs2. cs = cs1 @ (b @ [x]) # cs2 \<and> concat cs2 = []"
proof (induction cs rule: rev_induct)
  case (snoc c cs)
  show ?case
  proof (cases c rule: rev_cases)
    case Nil
    with snoc show ?thesis by (metis append_Cons append_assoc concat_append append_Nil2 concat.simps(1,2))
  next
    case (snoc b y)
    with \<open>concat (cs @ [c]) = xs @ [x]\<close> have "cs @ [c] = cs @ (b @ [x]) # []" by simp
    then show ?thesis by (metis concat.simps(1))
  qed
qed simp

lemma char_of_48: "char_of (48 :: nat) = CHR ''0''"
  by code_simp

lemma waiting_empty_chunks:
  "tz_state m = WaitingKotlin tid mode buf \<Longrightarrow> concat cs = [] \<Longrightarrow>
   run (trzsz_step c) (m, A) (stdout_input cs) = ((m, A), [])"
proof (induction cs)
  case (Cons b cs)
  then have "m\<lparr>tz_state := WaitingKotlin tid mode buf\<rparr> = m" by (metis trzsz_fsm.surjective trzsz_fsm.update_convs(1))
  with Cons.prems have "trzsz_step c (m, A) (Ev (StdoutBytes b)) = ((m, A), [])"
    by (simp add: trzsz_step_def response_defs)
  with Cons show ?case by (simp add: stdout_input_def run.simps(2))
qed (simp add: stdout_input_def)

lemma trzsz_run_chunks:
  "run (trzsz_step c) s (stdout_input (cs1 @ b # cs2)) =
     (let (s1, es1) = run (trzsz_step c) s (stdout_input cs1);
          (s2, es2) = trzsz_step c s1 (Ev (StdoutBytes b));
          (s3, es3) = run (trzsz_step c) s2 (stdout_input cs2) in (s3, es1 @ es2 @ es3))"
  by (induction cs1 arbitrary: s) (simp_all add: stdout_input_def case_prod_beta Let_def run.simps(2))

section \<open>Properties of the filter\<close>

text \<open>C35. Whatever the chunks it arrives in, output without the magic reaches the terminal unchanged
  and in order; at most the 16 bytes that may start a magic are held back, nothing is sent to the
  server and no timer is started.\<close>

theorem trzsz_transparent:
  assumes "magic_positions (concat cs) = []"
  shows "\<exists>es t. trzsz_run c (stdout_input cs) = ((trzsz_new\<lparr>tz_tail_buf := t\<rparr>, {}), es) \<and>
    flushed es @ t = concat cs \<and> list_all is_flush es \<and> strict_prefix t TRZSZ_MAGIC"
proof -
  have "strict_prefix [] TRZSZ_MAGIC" by (metis MAGIC_not_Nil strict_prefixI' append_Nil neq_Nil_conv)
  then show ?thesis
    using stdout_run_no_magic [of trzsz_new "concat cs" cs c "{}"] magic_positions_Nil [OF assms]
    by (simp add: trzsz_run_def trzsz_new_def)
qed

theorem trzsz_transparent_witness:
  "\<exists>es t. trzsz_run undefined (stdout_input [[104, 58], [58, 84], [10]]) = ((trzsz_new\<lparr>tz_tail_buf := t\<rparr>, {}), es) \<and>
    flushed es @ t = [104, 58, 58, 84, 10] \<and> list_all is_flush es \<and> strict_prefix t TRZSZ_MAGIC"
proof -
  have "magic_positions (concat [[104, 58], [58, 84], [10]]) = []"
    by (simp add: magic_positions_def magic_at_def TRZSZ_MAGIC_def codes_def)
  from trzsz_transparent [OF this] show ?thesis by simp
qed

text \<open>A trigger line is recognised however it is cut into chunks: everything before the magic is
  shown, nothing of the line is, the answer and one request with a fresh identifier are issued, and
  the transfer waits for the user under a timer.\<close>

lemma trzsz_trigger_detected:
  assumes "concat cs = pre @ TRZSZ_MAGIC @ body @ [10]" and "magic_positions (concat cs) = [length pre]"
    and "10 \<notin> set body" and "parse_trzsz_trigger (TRZSZ_MAGIC @ body @ [10]) = Some d"
  shows "\<exists>m es. trzsz_run c (stdout_input cs) = ((m, {Transfer}), es) \<and> flushed es = pre \<and>
    filter (\<lambda>e. \<not> is_flush e) es = [SendStdin (act_msg c), OnTrzszRequest ''trzsz-0'' (td_mode d)] \<and>
    tz_state m = WaitingKotlin ''trzsz-0'' (td_mode d) []"
proof -
  let ?line = "TRZSZ_MAGIC @ body" and ?S = "concat cs" and ?p = "length pre"
  note at = magic_positions_single [OF assms(2)]
  obtain cs1 b cs2 where cs: "cs = cs1 @ (b @ [10]) # cs2" "concat cs2 = []"
    using concat_snoc_chunk [of cs "pre @ ?line" 10] assms(1) by auto
  then have S: "?S = [] @ tz_tail_buf trzsz_new @ concat cs1 @ b @ [10]" by (simp add: trzsz_new_def)
  then have b: "concat cs1 @ b = pre @ ?line" using assms(1) by (metis append_assoc append_Nil butlast_snoc trzsz_new_def trzsz_fsm.select_convs(2))
  have quiet: "parse_trzsz_trigger (take k (drop ?p ?S)) = None" if "k \<le> length ?S - length (b @ [10]) - ?p" for k
  proof (rule trigger_incomplete)
    have "k \<le> length ?line" using that assms(1) by simp
    then have "take k (drop ?p ?S) = take k ?line" using assms(1) by simp
    with assms(3) MAGIC_no_newline show "10 \<notin> set (take k (drop ?p ?S))" by (auto dest: in_set_takeD)
  qed
  obtain es1 t where r1: "run (trzsz_step c) (trzsz_new, {}) (stdout_input cs1) = ((trzsz_new\<lparr>tz_tail_buf := t\<rparr>, {}), es1)"
    "flushed es1 @ t @ b @ [10] = ?S" "list_all is_flush es1" "length (flushed es1) \<le> ?p"
    using stdout_run_magic [OF at _ S _ quiet, of c "{}"] by (auto simp: trzsz_new_def)
  let ?m = "trzsz_new\<lparr>tz_tail_buf := t\<rparr>" and ?s = "t @ b @ [10]"
  obtain es2 m' where p: "process_normal_bytes c (b @ [10]) ?m = (es2, m')" by fastforce
  have "rfind ?s TRZSZ_MAGIC = Some (?p - length (flushed es1))"
    using normal_cut_magic [of ?S "flushed es1" ?s "[]" ?p] r1(2,4) at assms(1) by auto
  note rf = this
  have dr: "drop (?p - length (flushed es1)) ?s = TRZSZ_MAGIC @ body @ [10]"
    using r1(2,4) assms(1) by (metis append_eq_conv_conj append_eq_append_conv_if drop_drop le_add_diff_inverse2)
  have "fst (alloc_transfer_id ?m) = ''trzsz-0''"
    by (simp add: alloc_transfer_id_def trzsz_new_def digits.simps char_of_48)
  moreover have "?s = tz_tail_buf ?m @ b @ [10]"
    "parse_trzsz_trigger (drop (?p - length (flushed es1)) ?s) = Some d"
    using dr assms(4) by (simp_all del: drop_append)
  ultimately have trig: "flushed es2 = take (?p - length (flushed es1)) ?s"
    "filter (\<lambda>e. \<not> is_flush e) es2 = [SendStdin (act_msg c), OnTrzszRequest ''trzsz-0'' (td_mode d)]"
    "tz_state m' = WaitingKotlin ''trzsz-0'' (td_mode d) []"
    using process_normal_trigger [OF p _ rf, of d] by simp_all
  have st: "trzsz_step c (?m, {}) (Ev (StdoutBytes (b @ [10]))) = ((m', {Transfer}), es2)"
    using p trig(3) by (simp add: trzsz_step_def trzsz_new_def response_defs)
  have "?s = flushed es2 @ TRZSZ_MAGIC @ body @ [10]"
    using trig(1) dr by (metis append_take_drop_id)
  then have "flushed (es1 @ es2) @ TRZSZ_MAGIC @ body @ [10] = pre @ TRZSZ_MAGIC @ body @ [10]"
    using r1(2) assms(1) by simp
  then have "flushed (es1 @ es2) = pre" by (metis append_same_eq)
  moreover have "filter (\<lambda>e. \<not> is_flush e) es1 = []"
    using r1(3) by (auto simp: filter_empty_conv list_all_iff)
  ultimately show ?thesis
    using r1(1) st waiting_empty_chunks [OF trig(3) cs(2), of c "{Transfer}"] trig(2,3)
    by (simp add: trzsz_run_def cs(1) trzsz_run_chunks)
qed

definition tsz_body :: "u8 list" where "tsz_body = map word_of_nat (codes ''S:1.1.5:42'')"

text \<open>A line that starts with the magic but is no trigger, for instance one with another mode
  letter, silences the terminal: the line and everything the server prints after it are held back
  for good, unless a new magic follows.\<close>

lemma trzsz_bad_trigger_swallows:
  assumes "concat cs = pre @ TRZSZ_MAGIC @ body @ [10] @ post" and "magic_positions (concat cs) = [length pre]"
    and "10 \<notin> set body" and "parse_trzsz_trigger (TRZSZ_MAGIC @ body @ [10]) = None"
  shows "\<exists>es. trzsz_run c (stdout_input cs) =
      ((trzsz_new\<lparr>tz_tail_buf := TRZSZ_MAGIC @ body @ [10] @ post\<rparr>, {}), es) \<and>
    flushed es = pre \<and> list_all is_flush es"
proof -
  let ?p = "length pre"
  have quiet: "parse_trzsz_trigger (take k (drop ?p (concat cs))) = None" for k
    using trigger_take [of "TRZSZ_MAGIC @ body" k post] assms MAGIC_no_newline by simp
  have S: "concat cs = [] @ tz_tail_buf trzsz_new @ concat cs @ []" by (simp add: trzsz_new_def)
  obtain es t where "run (trzsz_step c) (trzsz_new, {}) (stdout_input cs) = ((trzsz_new\<lparr>tz_tail_buf := t\<rparr>, {}), es)"
    "flushed es @ t = concat cs" "list_all is_flush es" "length (flushed es) = ?p"
    using stdout_run_magic [OF magic_positions_single [OF assms(2)] _ S _ quiet, of c "{}"] assms(1)
    by (auto simp: trzsz_new_def)
  then show ?thesis using assms(1) by (auto simp: trzsz_run_def append_eq_append_conv)
qed

definition bad_body :: "u8 list" where "bad_body = map word_of_nat (codes ''X:1:2'')"

end
