(* ===== verification/TrzszTransfer.thy ===== *)
theory TrzszTransfer
  imports Trzsz
begin

text \<open>
  The transfers of \<^verbatim>\<open>src/trzsz.rs\<close>: an active transfer is always under a timer; what an upload sends
  is what it was given; what a download hands over is counted; and what becomes of the bytes around
  a transfer.
\<close>

section \<open>Every transfer ends\<close>

definition trzsz_timed :: "trzsz_fsm \<Rightarrow> trzsz_timer set \<Rightarrow> bool" where
  "trzsz_timed m A \<longleftrightarrow> (active_id (tz_state m) \<noteq> None \<longrightarrow> Transfer \<in> A)"

lemma arm_append: "arm A (cs @ cs') = arm (arm A cs) cs'"
  by (induction A cs rule: arm.induct) simp_all

lemma transferring_timed:
  assumes "Transfer \<in> A"
  shows "trzsz_timed (snd (on_transferring_bytes c b m)) (arm A (rs_timers (fst (on_transferring_bytes c b m))))"
proof (cases "tz_state m")
  case (Transferring tid buf t)
  obtain es buf' t' fin act where l: "line_loop c tid (buf @ b) t = (es, buf', t', fin, act)"
    by (cases "line_loop c tid (buf @ b) t")
  show ?thesis
  proof (cases fin)
    case None
    with Transferring l assms show ?thesis
      by (simp add: on_transferring_bytes_def trzsz_timed_def response_defs)
  next
    case (Some f)
    with Transferring l show ?thesis
      by (cases f) (simp_all add: on_transferring_bytes_def trzsz_timed_def active_id_def response_defs)
  qed
qed (use assms in \<open>simp_all add: on_transferring_bytes_def trzsz_timed_def response_defs\<close>)

lemma accept_timed:
  "trzsz_timed (snd (accept_transfer c tid buf t m)) (arm A (rs_timers (fst (accept_transfer c tid buf t m))))"
  by (simp add: accept_transfer_def trzsz_timed_def with_timer_def arm_append case_prod_beta Let_def)

lemma process_normal_timed:
  assumes "process_normal_bytes c b m = (es, m')" "tz_state m = Normal"
  shows "tz_state m' = Normal \<or> (\<exists>tid mode. tz_state m' = WaitingKotlin tid mode [])"
  using assms
  by (auto simp: process_normal_bytes_def alloc_transfer_id_def Let_def split: option.splits if_splits)

interpretation tz: timed_machine "trzsz_on_event c" trzsz_on_timeout trzsz_timed for c
proof
  fix m A and e :: trzsz_event
  assume inv: "trzsz_timed m A"
  show "trzsz_timed (snd (trzsz_on_event c e m)) (arm A (rs_timers (fst (trzsz_on_event c e m))))"
  proof (cases e)
    case (StdoutBytes b)
    show ?thesis
    proof (cases "tz_state m")
      case Normal
      obtain es m' where p: "process_normal_bytes c b m = (es, m')" by fastforce
      from process_normal_timed [OF p Normal] p Normal StdoutBytes show ?thesis
        by (auto simp: trzsz_timed_def active_id_def response_defs)
    next
      case Transferring
      with StdoutBytes inv transferring_timed show ?thesis by (simp add: trzsz_timed_def active_id_def)
    qed (use StdoutBytes inv in \<open>simp_all add: trzsz_timed_def active_id_def response_defs\<close>)
  next
    case (KotlinAcceptUpload tid name size)
    with inv accept_timed show ?thesis
      by (auto simp: response_defs split: trzsz_state.splits trzsz_mode.splits)
  next
    case (KotlinAcceptDownload tid)
    with inv accept_timed show ?thesis
      by (auto simp: response_defs split: trzsz_state.splits trzsz_mode.splits)
  next
    case (KotlinChunk tid data is_last)
    with inv show ?thesis
      by (auto simp: trzsz_timed_def active_id_def response_defs Let_def split: trzsz_state.splits transfer_phase.splits)
  next
    case (KotlinCancel tid)
    with inv show ?thesis
      by (auto simp: trzsz_timed_def active_id_def response_defs abort_transfer_def Let_def)
  qed
next
  fix m A t
  assume "trzsz_timed m A" "t \<in> A"
  then show "trzsz_timed (snd (trzsz_on_timeout t m)) (arm (A - {t}) (rs_timers (fst (trzsz_on_timeout t m))))"
    by (auto simp: trzsz_on_timeout_def trzsz_timed_def active_id_def response_defs abort_transfer_def
        split: option.splits)
qed

lemma trzsz_timed_run: "fst (trzsz_run c es) = (m, A) \<Longrightarrow> trzsz_timed m A"
  using tz.inv_run [where s = "(trzsz_new, {})" and es = es and c = c]
  by (simp add: trzsz_run_def trzsz_step_def trzsz_timed_def trzsz_new_def active_id_def)

text \<open>No transfer can hang: whenever one is asked for or under way its timer is running, and when
  that fires the server is interrupted, the failure reported and the terminal's output flows again.\<close>

lemma trzsz_transfer_ends:
  assumes "fst (trzsz_run c es) = (m, A)" and "active_id (tz_state m) = Some tid"
  shows "Transfer \<in> A \<and> trzsz_step c (m, A) (Fire Transfer) =
    ((m\<lparr>tz_state := Recovering, tz_tail_buf := []\<rparr>, A - {Transfer}),
     [SendStdin [3], OnFinished tid False (Some TransferTimeout)]) \<and>
   snd (run (trzsz_step c) (m, A) (Fire Transfer # stdout_input [b])) =
     [SendStdin [3], OnFinished tid False (Some TransferTimeout), FlushVte b]"
  using trzsz_timed_run [OF assms(1)] assms(2)
  by (auto simp: trzsz_timed_def trzsz_step_def trzsz_on_timeout_def abort_transfer_def response_defs
      stdout_input_def)

text \<open>A codec without compression, for concrete runs.\<close>

definition plain_codec :: codec where
  "plain_codec = \<lparr>zlib = (\<lambda>b. b), unzlib = Some, b64_encode = map unat, b64_decode = (\<lambda>s. Some (map word_of_nat s)),
     md5 = (\<lambda>b. [word_of_nat (length b)])\<rparr>"

section \<open>Protocol lines\<close>

text \<open>The loop takes the lines one after the other; a fact every line keeps holds after the loop.\<close>

definition line_at :: "nat \<Rightarrow> u8 list \<Rightarrow> u8 list" where
  "line_at nl buf = (let raw = take nl buf in if raw \<noteq> [] \<and> last raw = 13 then butlast raw else raw)"

lemma line_loop_eq:
  "line_loop c tid buf t = (case position (\<lambda>b. b = 10) buf of
     None \<Rightarrow> ([], buf, t, None, False)
   | Some nl \<Rightarrow> (case parse_line (line_at nl buf) of
       None \<Rightarrow> line_loop c tid (drop (Suc nl) buf) t
     | Some (typ, payload) \<Rightarrow> (case transfer_line c tid typ payload t of
         (es, t', Some b) \<Rightarrow> (es, drop (Suc nl) buf, t', Some b, True)
       | (es, t', None) \<Rightarrow> (case line_loop c tid (drop (Suc nl) buf) t' of
           (es', buf', t'', fin, _) \<Rightarrow> (es @ es', buf', t'', fin, True)))))"
  by (subst line_loop.simps) (simp add: line_at_def Let_def cong: option.case_cong split: prod.splits option.splits)

lemma line_loop_keeps:
  assumes step: "\<And>typ payload t es t' acc. I t acc \<Longrightarrow> transfer_line c tid typ payload t = (es, t', None) \<Longrightarrow> I t' (acc @ es)"
  shows "line_loop c tid buf t = (es, buf', t', None, act) \<Longrightarrow> I t acc \<Longrightarrow> I t' (acc @ es)"
proof (induction buf arbitrary: t es act acc rule: measure_induct_rule [of length])
  case (less buf)
  show ?case
  proof (cases "position (\<lambda>b. b = 10) buf")
    case None
    with less.prems show ?thesis by (subst (asm) line_loop_eq) simp
  next
    case (Some nl)
    then have shorter: "length (drop (Suc nl) buf) < length buf" by (cases buf) auto
    show ?thesis
    proof (cases "parse_line (line_at nl buf)")
      case None
      with Some less.prems(1) have "line_loop c tid (drop (Suc nl) buf) t = (es, buf', t', None, act)"
        by (subst (asm) line_loop_eq) simp
      with less.IH [OF shorter] less.prems(2) show ?thesis by blast
    next
      case (Some tp)
      obtain ty payload where tp: "tp = (ty, payload)" by fastforce
      obtain es1 t1 fin1 where l: "transfer_line c tid ty payload t = (es1, t1, fin1)" by (cases "transfer_line c tid ty payload t")
      obtain es2 b2 t2 fin2 act2 where r: "line_loop c tid (drop (Suc nl) buf) t1 = (es2, b2, t2, fin2, act2)"
        by (cases "line_loop c tid (drop (Suc nl) buf) t1")
      from less.prems(1) Some \<open>position (\<lambda>b. b = 10) buf = Some nl\<close> tp l r
      have "fin1 = None" and eq: "es = es1 @ es2" "b2 = buf'" "t2 = t'" "fin2 = None"
        by (auto simp: line_loop_eq [of c tid buf] split: option.splits)
      with l step less.prems(2) have "I t1 (acc @ es1)" by blast
      with less.IH [OF shorter r [unfolded eq(2-4)]] eq(1) show ?thesis by (metis append_assoc)
    qed
  qed
qed

text \<open>The chunks a run hands to a transfer, and the inputs that start one.\<close>

fun given :: "string \<Rightarrow> trzsz_input list \<Rightarrow> (u8 list \<times> bool) list" where
  "given tid [] = []"
| "given tid (Ev (KotlinChunk i data is_last) # es) = (if i = tid then (data, is_last) # given tid es else given tid es)"
| "given tid (_ # es) = given tid es"

fun is_accept :: "trzsz_input \<Rightarrow> bool" where
  "is_accept (Ev (KotlinAcceptUpload _ _ _)) = True"
| "is_accept (Ev (KotlinAcceptDownload _)) = True"
| "is_accept _ = False"

text \<open>Without an acceptance no transfer begins.\<close>

fun transferring :: "trzsz_state \<Rightarrow> bool" where
  "transferring (Transferring _ _ _) = True"
| "transferring _ = False"

lemma not_transferring_step:
  assumes "\<not> transferring (tz_state m)" "\<not> is_accept e"
  shows "\<not> transferring (tz_state (fst (fst (trzsz_step c (m, A) e))))"
proof (cases e)
  case (Ev ev)
  show ?thesis
  proof (cases ev)
    case (StdoutBytes b)
    show ?thesis
    proof (cases "tz_state m")
      case Normal
      obtain es m' where p: "process_normal_bytes c b m = (es, m')" by fastforce
      from process_normal_timed [OF p Normal] p Normal StdoutBytes Ev show ?thesis
        by (auto simp: trzsz_step_def)
    qed (use assms StdoutBytes Ev in \<open>auto simp: trzsz_step_def\<close>)
  qed (use assms Ev in \<open>auto simp: trzsz_step_def abort_transfer_def Let_def split: trzsz_state.splits\<close>)
next
  case (Fire t)
  with assms show ?thesis
    by (auto simp: trzsz_step_def trzsz_on_timeout_def abort_transfer_def Let_def split: option.splits)
qed

lemma not_transferring_run:
  "\<not> transferring (tz_state m) \<Longrightarrow> list_all (\<lambda>e. \<not> is_accept e) es \<Longrightarrow>
   \<not> transferring (tz_state (fst (fst (run (trzsz_step c) (m, A) es))))"
proof (induction es arbitrary: m A)
  case (Cons e es)
  obtain m' A' where s: "fst (trzsz_step c (m, A) e) = (m', A')" by fastforce
  with not_transferring_step [OF Cons.prems(1), of e c A] Cons show ?case by simp
qed simp

lemma given_append: "given tid (es @ es') = given tid es @ given tid es'"
  by (induction tid es rule: given.induct) simp_all

text \<open>A relation between a transfer, the chunks it was given and the effects it had, kept by every
  protocol line and by every chunk, is kept by every run that does not end the transfer.\<close>

locale transfer_relation =
  fixes c :: codec
    and tid :: string
    and ok :: "(u8 list \<times> bool) list \<Rightarrow> transfer \<Rightarrow> trzsz_effect list \<Rightarrow> bool"
  assumes line_ok: "ok ds t acc \<Longrightarrow> transfer_line c tid ty payload t = (es, t', None) \<Longrightarrow> ok ds t' (acc @ es)"
    and chunk_ok: "ok ds t acc \<Longrightarrow> tz_state m = Transferring tid buf t \<Longrightarrow>
      \<exists>t'. tz_state (snd (trzsz_on_event c (KotlinChunk i data is_last) m)) = Transferring tid buf t' \<and>
        ok (ds @ given tid [Ev (KotlinChunk i data is_last)]) t'
          (acc @ rs_actions (fst (trzsz_on_event c (KotlinChunk i data is_last) m)))"
begin

lemma step_ok:
  assumes m: "tz_state m = Transferring tid buf t" and ok: "ok ds t acc" and "\<not> is_accept e"
    and st: "trzsz_step c (m, A) e = ((m', A'), es)"
  shows "\<not> transferring (tz_state m') \<or>
    (\<exists>buf' t'. tz_state m' = Transferring tid buf' t' \<and> ok (ds @ given tid [e]) t' (acc @ es))"
proof (cases e)
  case (Ev ev)
  show ?thesis
  proof (cases ev)
    case (StdoutBytes b)
    obtain es' buf' t' fin act where l: "line_loop c tid (buf @ b) t = (es', buf', t', fin, act)"
      by (cases "line_loop c tid (buf @ b) t")
    show ?thesis
    proof (cases fin)
      case None
      from line_ok have "ok ds t' (acc @ es')"
        using line_loop_keeps [of "ok ds", OF _ l [unfolded None] ok] by blast
      with None l m st StdoutBytes Ev show ?thesis
        by (auto simp: trzsz_step_def on_transferring_bytes_def response_defs split: if_splits)
    next
      case (Some f)
      with l m st StdoutBytes Ev show ?thesis
        by (cases f) (auto simp: trzsz_step_def on_transferring_bytes_def)
    qed
  next
    case (KotlinChunk i data is_last)
    with chunk_ok [OF ok m, of i data is_last] st Ev show ?thesis
      by (auto simp: trzsz_step_def case_prod_beta Let_def simp del: trzsz_on_event.simps)
  next
    case (KotlinCancel i)
    with ok m st Ev show ?thesis
      by (auto simp: trzsz_step_def abort_transfer_def response_defs active_id_def split: if_splits)
  qed (use assms Ev in auto)
next
  case (Fire x)
  with ok m st show ?thesis
    by (auto simp: trzsz_step_def trzsz_on_timeout_def abort_transfer_def response_defs active_id_def split: if_splits)
qed

lemma run_ok:
  "tz_state m = Transferring tid buf t \<Longrightarrow> ok ds t acc \<Longrightarrow> list_all (\<lambda>e. \<not> is_accept e) es \<Longrightarrow>
   run (trzsz_step c) (m, A) es = ((m', A'), effs) \<Longrightarrow> transferring (tz_state m') \<Longrightarrow>
   \<exists>buf' t'. tz_state m' = Transferring tid buf' t' \<and> ok (ds @ given tid es) t' (acc @ effs)"
proof (induction es arbitrary: m A buf t ds acc effs)
  case (Cons e es)
  obtain m1 A1 es1 where s: "trzsz_step c (m, A) e = ((m1, A1), es1)" by (metis prod.collapse)
  obtain effs' where r: "run (trzsz_step c) (m1, A1) es = ((m', A'), effs')" "effs = es1 @ effs'"
    using Cons.prems(4) s by (auto simp: run.simps(2) split: prod.splits)
  have na: "\<not> is_accept e" "list_all (\<lambda>e. \<not> is_accept e) es" using Cons.prems(3) by simp_all
  have "transferring (tz_state m1)" using not_transferring_run [OF _ na(2), of m1 c A1] r(1) Cons.prems(5) by auto
  with step_ok [OF Cons.prems(1,2) na(1) s] obtain buf1 t1
    where "tz_state m1 = Transferring tid buf1 t1" "ok (ds @ given tid [e]) t1 (acc @ es1)" by blast
  from Cons.IH [OF this na(2) r(1) Cons.prems(5)] r(2) given_append [of tid "[e]" es] show ?case by simp
qed simp

end

definition to_bytes :: "string \<Rightarrow> u8 list" where
  "to_bytes s = map word_of_nat (codes s)"

definition server_lines :: "string list \<Rightarrow> u8 list" where
  "server_lines ls = concat (map (\<lambda>l. to_bytes l @ [10]) ls)"

lemma line_loop_line:
  assumes "parse_line l = Some (ty, payload)" "10 \<notin> set l" "13 \<notin> set l"
  shows "line_loop c tid (l @ 10 # rest) t = (case transfer_line c tid ty payload t of
      (es, t', Some b) \<Rightarrow> (es, rest, t', Some b, True)
    | (es, t', None) \<Rightarrow> (case line_loop c tid rest t' of (es', buf', t'', fin, _) \<Rightarrow> (es @ es', buf', t'', fin, True)))"
proof -
  have "position (\<lambda>b. b = 10) (l @ 10 # rest) = Some (length l)"
    using assms(2) by (intro position_first) (auto simp: list_ex_iff)
  moreover have "line_at (length l) (l @ 10 # rest) = l"
    using assms(3) by (simp add: line_at_def Let_def) (metis last_in_set)
  ultimately show ?thesis using assms(1) by (subst line_loop_eq) simp
qed

lemma server_lines_simps: "server_lines (l # ls) = to_bytes l @ 10 # server_lines ls" "server_lines [] = []"
  by (simp_all add: server_lines_def)

definition plain_line :: "string \<Rightarrow> string \<Rightarrow> string \<Rightarrow> bool" where
  "plain_line l ty payload \<longleftrightarrow> parse_line (to_bytes l) = Some (codes ty, codes payload) \<and>
     10 \<notin> set (to_bytes l) \<and> 13 \<notin> set (to_bytes l)"

lemma server_loop:
  assumes "plain_line l ty payload"
  shows "line_loop c tid (server_lines (l # ls)) t = (case transfer_line c tid (codes ty) (codes payload) t of
      (es, t', Some b) \<Rightarrow> (es, server_lines ls, t', Some b, True)
    | (es, t', None) \<Rightarrow> (case line_loop c tid (server_lines ls) t' of (es', buf', t'', fin, _) \<Rightarrow> (es @ es', buf', t'', fin, True)))"
  using assms line_loop_line [of "to_bytes l"] by (simp add: plain_line_def server_lines_simps)

lemma plain_lines: "plain_line ''#CFG:'' ''CFG'' []" "plain_line ''#NUM:1'' ''NUM'' ''1''"
  "plain_line ''#NAME:f'' ''NAME'' ''f''" "plain_line ''#SIZE:3'' ''SIZE'' ''3''" "plain_line ''#DATA:ab'' ''DATA'' ''ab''"
  "plain_line ''#DATA:c'' ''DATA'' ''c''"
  by code_simp+

section \<open>Uploads\<close>

text \<open>The frames of one kind among the bytes sent to the server.\<close>

definition frame_head :: "string \<Rightarrow> u8 list" where
  "frame_head typ = utf8_encode (codes ''#'' @ codes typ @ codes '':'')"

fun sends :: "trzsz_effect list \<Rightarrow> u8 list list" where
  "sends [] = []"
| "sends (SendStdin b # es) = b # sends es"
| "sends (_ # es) = sends es"

lemma sends_append [simp]: "sends (es @ es') = sends es @ sends es'"
  by (induction es rule: sends.induct) simp_all

definition sent_frames :: "string \<Rightarrow> trzsz_effect list \<Rightarrow> u8 list list" where
  "sent_frames typ es = filter (prefix (frame_head typ)) (sends es)"

lemma sent_frames_append [simp]: "sent_frames typ (es @ es') = sent_frames typ es @ sent_frames typ es'"
  by (simp add: sent_frames_def)

lemma frame_eq: "frame typ payload = frame_head typ @ utf8_encode (payload @ [10])"
  by (simp add: frame_def frame_head_def utf8_encode_def)

lemma frame_head_code: "frame_head ''DATA'' = [35, 68, 65, 84, 65, 58]" "frame_head ''MD5'' = [35, 77, 68, 53, 58]"
  "frame_head ''NUM'' = [35, 78, 85, 77, 58]" "frame_head ''NAME'' = [35, 78, 65, 77, 69, 58]"
  "frame_head ''SIZE'' = [35, 83, 73, 90, 69, 58]" "frame_head ''SUCC'' = [35, 83, 85, 67, 67, 58]"
  by (simp_all add: frame_head_def codes_def utf8_encode_def utf8_char_def)

lemma sent_data_chunks [simp]:
  "sends (map (\<lambda>(data, _). SendStdin (frame_bin c ''DATA'' data)) cs) = map (\<lambda>(data, _). frame_bin c ''DATA'' data) cs"
  by (induction cs) auto

lemma sent_frames_chunks:
  "sent_frames ''DATA'' (map (\<lambda>(data, _). SendStdin (frame_bin c ''DATA'' data)) cs) = map (\<lambda>(data, _). frame_bin c ''DATA'' data) cs"
  "sent_frames ''MD5'' (map (\<lambda>(data, _). SendStdin (frame_bin c ''DATA'' data)) cs) = []"
  unfolding sent_frames_def sent_data_chunks
  by (induction cs) (auto simp: frame_bin_def frame_eq frame_head_code)

text \<open>The state of an upload that was given the chunks \<open>ds\<close> and had the effects \<open>es\<close>.\<close>

definition chunk_len :: "u8 list \<times> bool \<Rightarrow> u64" where
  "chunk_len = (\<lambda>(data, _). word_of_nat (length data))"

definition upload_ok :: "codec \<Rightarrow> (u8 list \<times> bool) list \<Rightarrow> transfer \<Rightarrow> trzsz_effect list \<Rightarrow> bool" where
  "upload_ok c ds t es \<longleftrightarrow> (case tr_phase t of PDownload _ \<Rightarrow> False | PUpload u \<Rightarrow>
     \<exists>sent. ds = sent @ up_unsent u \<and> up_md5_ctx u = concat (map fst sent) \<and>
       sent_frames ''DATA'' es = map (\<lambda>(data, _). frame_bin c ''DATA'' data) sent \<and>
       tr_transferred t + sum_list (map fst (up_pending u)) = sum_list (map chunk_len sent) \<and>
       (up_step u \<notin> {U_SendingData, U_WaitMd5Ack} \<longrightarrow> sent = []) \<and>
       (up_step u = U_SendingData \<longrightarrow> up_unsent u = []) \<and>
       sent_frames ''MD5'' es =
         (if up_step u = U_WaitMd5Ack then [frame_bin c ''MD5'' (md5 c (concat (map fst sent)))] else []))"

lemma other_frames [simp]:
  "sent_frames ''DATA'' (SendStdin (frame_bin c ''MD5'' b) # es) = sent_frames ''DATA'' es"
  "sent_frames ''MD5'' (SendStdin (frame_bin c ''MD5'' b) # es) = frame_bin c ''MD5'' b # sent_frames ''MD5'' es"
  "sent_frames k (OnProgress i n tot # es) = sent_frames k es"
  "sent_frames k [] = []"
  by (simp_all add: sent_frames_def frame_bin_def frame_eq frame_head_code)

lemma config_frames [simp]:
  "sent_frames ''DATA'' [SendStdin (frame_int ''NUM'' a), SendStdin (frame_bin c ''NAME'' b), SendStdin (frame_int ''SIZE'' d)] = []"
  "sent_frames ''MD5'' [SendStdin (frame_int ''NUM'' a), SendStdin (frame_bin c ''NAME'' b), SendStdin (frame_int ''SIZE'' d)] = []"
  by (simp_all add: sent_frames_def frame_int_def frame_bin_def frame_eq frame_head_code)

lemma pending_lens:
  "map fst (map (\<lambda>(data, is_last). (word_of_nat (length data), is_last)) cs) = map chunk_len cs"
  by (auto simp: chunk_len_def)

lemma upload_line_ok:
  assumes ok: "upload_ok c ds t acc" and l: "transfer_line c tid ty payload t = (es, t', None)"
  shows "upload_ok c ds t' (acc @ es)"
proof -
  obtain u where u: "tr_phase t = PUpload u" using ok by (auto simp: upload_ok_def split: transfer_phase.splits)
  obtain es' n u' fin where ul: "upload_line c tid ty (tr_total t) (tr_transferred t, u) = (es', (n, u'), fin)"
    by (metis prod.collapse)
  with l u have t': "es' = es" "fin = None" "t' = t\<lparr>tr_transferred := n, tr_phase := PUpload u'\<rparr>"
    by (auto simp: transfer_line_def split: if_splits)
  consider "up_step u = U_SendingData" | "up_step u = U_WaitSizeAck" | "up_step u \<notin> {U_SendingData, U_WaitSizeAck}" by auto
  then show ?thesis
  proof cases
    case 1
    show ?thesis
    proof (cases "up_pending u")
      case (Cons x pending)
      with 1 ul u t' ok show ?thesis
        by (cases x) (auto simp: upload_ok_def upload_line_def Let_def add.assoc split: if_splits)
    qed (use 1 ul u t' ok in \<open>auto simp: upload_ok_def upload_line_def split: if_splits\<close>)
  next
    case 2
    with ul u t' ok show ?thesis
      by (auto simp: upload_ok_def upload_line_def sent_frames_chunks pending_lens simp del: map_map split: if_splits)
  next
    case 3
    with ul u t' ok show ?thesis
      by (cases "up_step u") (auto simp: upload_ok_def upload_line_def split: if_splits)
  qed
qed

interpretation up: transfer_relation c tid "upload_ok c" for c tid
proof
  fix ds t acc buf i data is_last and m :: trzsz_fsm
  assume ok: "upload_ok c ds t acc" and m: "tz_state m = Transferring tid buf t"
  obtain u where u: "tr_phase t = PUpload u" using ok by (auto simp: upload_ok_def split: transfer_phase.splits)
  let ?e = "KotlinChunk i data is_last"
  show "\<exists>t'. tz_state (snd (trzsz_on_event c ?e m)) = Transferring tid buf t' \<and>
      upload_ok c (ds @ given tid [Ev ?e]) t' (acc @ rs_actions (fst (trzsz_on_event c ?e m)))"
  proof (cases "i = tid \<and> up_step u = U_SendingData")
    case True
    with ok u m show ?thesis
      by (auto simp: response_defs upload_ok_def chunk_len_def sent_frames_def frame_bin_def frame_eq
          frame_head_code add.assoc [symmetric])
  next
    case False
    with ok u m show ?thesis
      by (auto simp: response_defs upload_ok_def split: if_splits)
  qed
qed (rule upload_line_ok)

definition fresh_upload :: "uchar list \<Rightarrow> u64 \<Rightarrow> transfer" where
  "fresh_upload name sz = \<lparr>tr_transferred = 0, tr_total = Some sz,
     tr_phase = PUpload \<lparr>up_step = U_WaitCfg, up_file_name = name, up_file_size = sz,
       up_md5_ctx = [], up_pending = [], up_unsent = []\<rparr>\<rparr>"

text \<open>C9. An upload sends what it is given: from its acceptance on, whatever the server and the app do
  in between, the data frames sent are those of the chunks given so far, in order, each once, less
  those kept until the server is ready; the checksum is sent only once and is that of exactly the
  data sent; the progress counts the chunks that were acknowledged.\<close>

theorem trzsz_upload_faithful:
  assumes "tz_state m = Transferring tid buf (fresh_upload name sz)" and "list_all (\<lambda>e. \<not> is_accept e) es"
    and "run (trzsz_step c) (m, A) es = ((m', A'), effs)" and "transferring (tz_state m')"
  shows "\<exists>buf' t' u sent. tz_state m' = Transferring tid buf' t' \<and> tr_phase t' = PUpload u \<and>
    given tid es = sent @ up_unsent u \<and>
    sent_frames ''DATA'' effs = map (\<lambda>(data, _). frame_bin c ''DATA'' data) sent \<and>
    sent_frames ''MD5'' effs =
      (if up_step u = U_WaitMd5Ack then [frame_bin c ''MD5'' (md5 c (concat (map fst sent)))] else []) \<and>
    tr_transferred t' + sum_list (map fst (up_pending u)) = sum_list (map chunk_len sent)"
proof -
  have "upload_ok c [] (fresh_upload name sz) []" by (simp add: upload_ok_def fresh_upload_def)
  from up.run_ok [OF assms(1) this assms(2-4)] obtain buf' t' where
    t': "tz_state m' = Transferring tid buf' t'" "upload_ok c (given tid es) t' effs" by auto
  then show ?thesis by (cases "tr_phase t'") (auto simp: upload_ok_def)
qed

text \<open>An upload in one chunk, given before the server is ready.\<close>

definition upload_example :: "trzsz_input list" where
  "upload_example = [Ev (KotlinChunk ''t'' [7, 8] True),
     Ev (StdoutBytes (server_lines [''#CFG:'', ''#SUCC:1'', ''#SUCC:f'', ''#SUCC:2'', ''#SUCC:2'']))]"

definition in_transfer :: "transfer \<Rightarrow> trzsz_fsm" where
  "in_transfer t = \<lparr>tz_state = Transferring ''t'' [] t, tz_tail_buf = [], tz_next_id = 1\<rparr>"

lemma transferring_step:
  assumes "tz_state m = Transferring tid buf t" "line_loop c tid (buf @ b) t = (es, buf', t', None, act)"
  shows "\<exists>A'. trzsz_step c (m, A) (Ev (StdoutBytes b)) = ((m\<lparr>tz_state := Transferring tid buf' t'\<rparr>, A'), es)"
  using assms by (simp add: trzsz_step_def on_transferring_bytes_def response_defs)

definition queued_upload :: transfer where
  "queued_upload = (fresh_upload (codes ''f'') 2)\<lparr>tr_phase := PUpload \<lparr>up_step = U_WaitCfg, up_file_name = codes ''f'',
     up_file_size = 2, up_md5_ctx = [], up_pending = [], up_unsent = [([7, 8], True)]\<rparr>\<rparr>"

theorem trzsz_upload_faithful_witness:
  "\<exists>m' A' effs. run (trzsz_step plain_codec) (in_transfer (fresh_upload (codes ''f'') 2), {Transfer}) upload_example = ((m', A'), effs) \<and>
     sent_frames ''DATA'' effs = [frame_bin plain_codec ''DATA'' [7, 8]] \<and>
     sent_frames ''MD5'' effs = [frame_bin plain_codec ''MD5'' (md5 plain_codec [7, 8])]"
proof -
  let ?m = "in_transfer (fresh_upload (codes ''f'') 2)"
  let ?l = "line_loop plain_codec ''t'' (server_lines [''#CFG:'', ''#SUCC:1'', ''#SUCC:f'', ''#SUCC:2'', ''#SUCC:2'']) queued_upload"
  have l: "fst (snd (snd (snd ?l))) = None"
    "case tr_phase (fst (snd (snd ?l))) of PUpload u \<Rightarrow> up_unsent u = [] \<and> up_step u = U_WaitMd5Ack | _ \<Rightarrow> False"
    by code_simp+
  obtain es buf' t' act where ll: "?l = (es, buf', t', None, act)" using l(1) by (metis prod.collapse)
  have "trzsz_step plain_codec (?m, {Transfer}) (Ev (KotlinChunk ''t'' [7, 8] True)) =
      ((?m\<lparr>tz_state := Transferring ''t'' [] queued_upload\<rparr>, {Transfer}), [])"
    by (simp add: trzsz_step_def in_transfer_def fresh_upload_def queued_upload_def response_defs)
  with transferring_step [of "?m\<lparr>tz_state := Transferring ''t'' [] queued_upload\<rparr>" "''t''" "[]" queued_upload plain_codec
      _ es buf' t' act "{Transfer}"] ll
  obtain A' where r: "run (trzsz_step plain_codec) (?m, {Transfer}) upload_example =
      ((?m\<lparr>tz_state := Transferring ''t'' buf' t'\<rparr>, A'), es)"
    by (auto simp: upload_example_def run.simps(2))
  have "\<exists>buf'' t'' u sent. tz_state (?m\<lparr>tz_state := Transferring ''t'' buf' t'\<rparr>) = Transferring ''t'' buf'' t'' \<and> tr_phase t'' = PUpload u \<and>
    given ''t'' upload_example = sent @ up_unsent u \<and>
    sent_frames ''DATA'' es = map (\<lambda>(data, _). frame_bin plain_codec ''DATA'' data) sent \<and>
    sent_frames ''MD5'' es =
      (if up_step u = U_WaitMd5Ack then [frame_bin plain_codec ''MD5'' (md5 plain_codec (concat (map fst sent)))] else []) \<and>
    tr_transferred t'' + sum_list (map fst (up_pending u)) = sum_list (map chunk_len sent)"
    by (rule trzsz_upload_faithful [OF _ _ r]) (simp_all add: in_transfer_def upload_example_def)
  with l(2) ll r show ?thesis by (auto simp: upload_example_def)
qed

section \<open>Downloads\<close>

fun received :: "trzsz_effect list \<Rightarrow> (u8 list \<times> bool) list" where
  "received [] = []"
| "received (OnDownloadChunk _ data is_last # es) = (data, is_last) # received es"
| "received (_ # es) = received es"

lemma received_append [simp]: "received (es @ es') = received es @ received es'"
  by (induction es rule: received.induct) simp_all

definition download_ok :: "(u8 list \<times> bool) list \<Rightarrow> transfer \<Rightarrow> trzsz_effect list \<Rightarrow> bool" where
  "download_ok ds t es \<longleftrightarrow> (case tr_phase t of PUpload _ \<Rightarrow> False | PDownload step \<Rightarrow>
     tr_transferred t = sum_list (map chunk_len (received es)) \<and>
     (case step of
        D_Receiving \<Rightarrow> list_all (\<lambda>(_, is_last). \<not> is_last) (received es) \<and>
          (\<exists>n. tr_total t = Some n \<and> n \<le> MAX_DECLARED_TRZSZ_SIZE \<and> (received es \<noteq> [] \<longrightarrow> tr_transferred t < n))
      | D_WaitMd5 \<Rightarrow> (\<exists>cs data n. received es = cs @ [(data, True)] \<and> list_all (\<lambda>(_, is_last). \<not> is_last) cs \<and>
          tr_total t = Some n \<and> n \<le> MAX_DECLARED_TRZSZ_SIZE \<and> n \<le> tr_transferred t)
      | _ \<Rightarrow> received es = []))"

lemma download_line_ok:
  assumes ok: "download_ok ds t acc" and l: "transfer_line c tid ty payload t = (es, t', None)"
  shows "download_ok ds t' (acc @ es)"
proof -
  obtain step where p: "tr_phase t = PDownload step" using ok by (auto simp: download_ok_def split: transfer_phase.splits)
  obtain es' n tot step' fin where dl:
    "download_line c tid ty payload (tr_transferred t, tr_total t, step) = (es', (n, tot, step'), fin)"
    by (metis prod.collapse)
  with l p have t': "es' = es" "fin = None" "t' = t\<lparr>tr_transferred := n, tr_total := tot, tr_phase := PDownload step'\<rparr>"
    by (auto simp: transfer_line_def split: if_splits)
  show ?thesis
  proof (cases step)
    case D_Receiving
    then obtain k where k: "tr_total t = Some k" using ok p by (auto simp: download_ok_def)
    with D_Receiving dl p t' ok show ?thesis
      by (cases t) (auto simp: download_ok_def download_line_def Let_def chunk_len_def not_le split: if_splits option.splits)
  next
    case D_WaitMd5
    with dl p t' ok show ?thesis by (cases t) (auto simp: download_ok_def download_line_def split: if_splits)
  next
    case D_WaitSize
    with dl p t' ok show ?thesis
      by (auto simp: download_ok_def download_line_def Let_def not_less split: if_splits)
  qed (use dl p t' ok in \<open>auto simp: download_ok_def download_line_def split: if_splits\<close>)
qed

interpretation dn: transfer_relation c tid download_ok for c tid
proof
  fix ds t acc buf i data is_last and m :: trzsz_fsm
  assume ok: "download_ok ds t acc" and m: "tz_state m = Transferring tid buf t"
  then have "trzsz_on_event c (KotlinChunk i data is_last) m = (consume, m)"
    by (cases "tr_phase t") (simp_all add: download_ok_def)
  with ok m show "\<exists>t'. tz_state (snd (trzsz_on_event c (KotlinChunk i data is_last) m)) = Transferring tid buf t' \<and>
      download_ok (ds @ given tid [Ev (KotlinChunk i data is_last)]) t'
        (acc @ rs_actions (fst (trzsz_on_event c (KotlinChunk i data is_last) m)))"
    by (simp add: download_ok_def consume_def)
qed (rule download_line_ok)

text \<open>A download hands over one chunk marked as the last, the one that reaches the declared size,
  and none after it; no size above the plausible maximum is accepted, and the progress is the number
  of bytes handed over.\<close>

lemma trzsz_download_counted:
  assumes "tz_state m = Transferring tid buf \<lparr>tr_transferred = 0, tr_total = None, tr_phase = PDownload D_WaitCfg\<rparr>"
    and "list_all (\<lambda>e. \<not> is_accept e) es"
    and "run (trzsz_step c) (m, A) es = ((m', A'), effs)" and "transferring (tz_state m')"
  shows "\<exists>buf' t' step. tz_state m' = Transferring tid buf' t' \<and> tr_phase t' = PDownload step \<and>
    tr_transferred t' = sum_list (map chunk_len (received effs)) \<and>
    (received effs = [] \<or> (\<exists>n cs data is_last. tr_total t' = Some n \<and> n \<le> MAX_DECLARED_TRZSZ_SIZE \<and>
       received effs = cs @ [(data, is_last)] \<and> list_all (\<lambda>(_, is_last). \<not> is_last) cs \<and>
       (is_last \<longleftrightarrow> n \<le> tr_transferred t')))"
proof -
  let ?t = "\<lparr>tr_transferred = 0, tr_total = None, tr_phase = PDownload D_WaitCfg\<rparr> :: transfer"
  have "download_ok [] ?t []" by (simp add: download_ok_def)
  from dn.run_ok [OF assms(1) this assms(2-4)] obtain buf' t' where
    t': "tz_state m' = Transferring tid buf' t'" "download_ok (given tid es) t' effs" by auto
  moreover from t'(2) obtain step where "tr_phase t' = PDownload step"
    by (cases "tr_phase t'") (simp_all add: download_ok_def)
  ultimately show ?thesis
  proof (cases "received effs" rule: rev_cases)
    case (snoc cs x)
    with t' \<open>tr_phase t' = PDownload step\<close> show ?thesis by (cases step; cases x) (auto simp: download_ok_def)
  qed (auto simp: download_ok_def)
qed

definition download_lines :: "u8 list" where
  "download_lines = server_lines [''#CFG:'', ''#NUM:1'', ''#NAME:f'', ''#SIZE:3'', ''#DATA:ab'', ''#DATA:c'']"

lemma download_lines_loop:
  "\<exists>es t'. line_loop plain_codec ''t'' download_lines
       \<lparr>tr_transferred = 0, tr_total = None, tr_phase = PDownload D_WaitCfg\<rparr> = (es, [], t', None, True) \<and>
     received es = [([97, 98], False), ([99], True)]"
  by (simp add: download_lines_def plain_lines [THEN server_loop] server_lines_simps(2) line_loop_eq [of _ _ "[]"]
      transfer_line_def download_line_def codes_def MAX_DECLARED_TRZSZ_SIZE_def parse_u64_or_def parse_u64_def
      digits_value_def decode_bytes_def plain_codec_def str_trim_def is_whitespace_def Let_def)

section \<open>After a transfer\<close>

lemma position_append_Some: "position P xs = Some i \<Longrightarrow> position P (xs @ ys) = Some i \<and> i < length xs"
  by (induction xs arbitrary: i) (auto split: if_splits)

lemma line_loop_append_fin:
  "line_loop c tid buf t = (es, buf', t', Some f, act) \<Longrightarrow>
   line_loop c tid (buf @ post) t = (es, buf' @ post, t', Some f, act)"
proof (induction buf arbitrary: t es act rule: measure_induct_rule [of length])
  case (less buf)
  then obtain nl where nl: "position (\<lambda>b. b = 10) buf = Some nl"
    by (subst (asm) line_loop_eq) (auto split: option.splits)
  then have app: "position (\<lambda>b. b = 10) (buf @ post) = Some nl" "nl < length buf"
    using position_append_Some by blast+
  then have line: "line_at nl (buf @ post) = line_at nl buf" "drop (Suc nl) (buf @ post) = drop (Suc nl) buf @ post"
    and shorter: "length (drop (Suc nl) buf) < length buf" by (simp_all add: line_at_def)
  from less.prems less.IH [OF shorter] nl app line show ?case
    by (subst line_loop_eq, subst (asm) line_loop_eq) (auto split: option.splits prod.splits)
qed

text \<open>What the server prints after a transfer can be lost: bytes that arrive in one chunk with the
  line that ends the transfer, such as an error message or the next prompt, are neither shown nor
  kept, as if they had not been sent.\<close>

lemma trzsz_trailing_output_lost:
  assumes "transferring (tz_state m)" and "trzsz_step c (m, A) (Ev (StdoutBytes b)) = ((m', A'), es)"
    and "\<not> transferring (tz_state m')"
  shows "trzsz_step c (m, A) (Ev (StdoutBytes (b @ post))) = ((m', A'), es)"
proof (cases "tz_state m")
  case (Transferring tid buf t)
  obtain es' buf' t' fin act where l: "line_loop c tid (buf @ b) t = (es', buf', t', fin, act)"
    by (cases "line_loop c tid (buf @ b) t")
  with assms Transferring obtain f where f: "fin = Some f"
    by (cases fin) (auto simp: trzsz_step_def on_transferring_bytes_def)
  with line_loop_append_fin [of c tid "buf @ b"] l
  have "line_loop c tid (buf @ b @ post) t = (es', buf' @ post, t', fin, act)" by simp
  with l f assms Transferring show ?thesis
    by (cases f) (auto simp: trzsz_step_def on_transferring_bytes_def)
qed (use assms(1) in simp_all)

end
