(* ===== verification/TermCells.thy ===== *)
theory TermCells
  imports Panics Utf8
begin

text \<open>
  The cells of the terminal emulator (\<^verbatim>\<open>src/terminal.rs\<close>): colours and their resolution,
  rendition attributes, the DEC special graphics set, and the repair of double-width
  characters. The column width of a character comes from the
  \<^verbatim>\<open>unicode_width\<close> crate and is the parameter \<open>cw\<close>.
\<close>

unbundle bit_operations_syntax

type_synonym width_fn = "uchar \<Rightarrow> nat option"

definition SP :: uchar where "SP = 32"

section \<open>Theme and colours\<close>

record theme =
  ansi16 :: "u32 list"
  default_fg :: u32
  default_bg :: u32

definition ansi256_to_argb :: "theme \<Rightarrow> u8 \<Rightarrow> u32" where
  "ansi256_to_argb th n8 = (let n = unat n8 in
     if n \<le> 15 then ansi16 th ! n
     else if n \<le> 231 then
       (let m = (word_of_nat n :: u32) - 16;
            r = (m div 36) * 51; g = ((m mod 36) div 6) * 51; b = (m mod 6) * 51
        in 0xFF000000 OR push_bit 16 r OR push_bit 8 g OR b)
     else
       (let v = 8 + ((word_of_nat n :: u32) - 232) * 10
        in 0xFF000000 OR push_bit 16 v OR push_bit 8 v OR v))"

text \<open>The colour of an SGR 38 or 48 at position \<open>i\<close>, with the number of further parameters it
  takes. \<^verbatim>\<open>n as u8\<close> keeps the low byte.\<close>

definition parse_extended_color :: "theme \<Rightarrow> u16 list \<Rightarrow> nat \<Rightarrow> (u32 \<times> nat) option" where
  "parse_extended_color th ps i =
     (if i + 1 < length ps \<and> ps ! (i + 1) = 5 then
        (if i + 2 < length ps then Some (ansi256_to_argb th (ucast (ps ! (i + 2))), 2) else None)
      else if i + 1 < length ps \<and> ps ! (i + 1) = 2 \<and> i + 4 < length ps then
        (let r = ucast (ps ! (i + 2)); g = ucast (ps ! (i + 3)); b = ucast (ps ! (i + 4))
         in Some (0xFF000000 OR push_bit 16 r OR push_bit 8 g OR b, 4))
      else None)"

section \<open>Cells and attributes\<close>

record term_cell =
  tc_ch :: "uchar list"
  tc_fg :: u32
  tc_bg :: u32
  tc_bold :: bool
  tc_dim :: bool
  tc_italic :: bool
  tc_underline :: bool
  tc_strikethrough :: bool
  tc_blink :: bool
  tc_invisible :: bool
  tc_wide_placeholder :: bool
  tc_link_id :: "nat option"

record term_attrs =
  ta_fg :: u32
  ta_bg :: u32
  ta_bold :: bool
  ta_dim :: bool
  ta_italic :: bool
  ta_underline :: bool
  ta_strikethrough :: bool
  ta_blink :: bool
  ta_invisible :: bool
  ta_reverse :: bool

definition attrs_default_for :: "theme \<Rightarrow> term_attrs" where
  "attrs_default_for th =
     \<lparr> ta_fg = default_fg th, ta_bg = default_bg th, ta_bold = False, ta_dim = False,
       ta_italic = False, ta_underline = False, ta_strikethrough = False, ta_blink = False,
       ta_invisible = False, ta_reverse = False \<rparr>"

definition effective_colors :: "term_attrs \<Rightarrow> u32 \<times> u32" where
  "effective_colors a = (if ta_reverse a then (ta_bg a, ta_fg a) else (ta_fg a, ta_bg a))"

definition to_cell :: "term_attrs \<Rightarrow> uchar list \<Rightarrow> term_cell" where
  "to_cell a s =
     \<lparr> tc_ch = s, tc_fg = fst (effective_colors a), tc_bg = snd (effective_colors a),
       tc_bold = ta_bold a, tc_dim = ta_dim a, tc_italic = ta_italic a,
       tc_underline = ta_underline a, tc_strikethrough = ta_strikethrough a,
       tc_blink = ta_blink a, tc_invisible = ta_invisible a,
       tc_wide_placeholder = False, tc_link_id = None \<rparr>"

definition blank_cell_for_theme :: "theme \<Rightarrow> term_cell" where
  "blank_cell_for_theme th =
     \<lparr> tc_ch = [SP], tc_fg = default_fg th, tc_bg = default_bg th,
       tc_bold = False, tc_dim = False, tc_italic = False, tc_underline = False,
       tc_strikethrough = False, tc_blink = False, tc_invisible = False,
       tc_wide_placeholder = False, tc_link_id = None \<rparr>"

section \<open>Character sets\<close>

datatype charset = Ascii | DecSpecialGraphics

text \<open>The table from \<^verbatim>\<open>_\<close> (0x5f) to \<^verbatim>\<open>~\<close> (0x7e), in order.\<close>

definition dec_graphics_table :: "uchar list" where
  "dec_graphics_table =
     [0x20, 0x25C6, 0x2592, 0x2409, 0x240C, 0x240D, 0x240A, 0xB0, 0xB1, 0x2424, 0x240B,
      0x2518, 0x2510, 0x250C, 0x2514, 0x253C, 0x23BA, 0x23BB, 0x2500, 0x23BC, 0x23BD,
      0x251C, 0x2524, 0x2534, 0x252C, 0x2502, 0x2264, 0x2265, 0x3C0, 0x2260, 0xA3, 0xB7]"

definition dec_special_graphics :: "uchar \<Rightarrow> uchar" where
  "dec_special_graphics c = (if 0x5F \<le> c \<and> c \<le> 0x7E then dec_graphics_table ! (c - 0x5F) else c)"

section \<open>Double-width characters\<close>

text \<open>The width of the character a cell shows; a placeholder is the second cell of a
  double-width character.\<close>

definition cell_display_width :: "width_fn \<Rightarrow> term_cell \<Rightarrow> nat" where
  "cell_display_width cw cell =
     (case tc_ch cell of [] \<Rightarrow> 1 | c # _ \<Rightarrow> (case cw c of None \<Rightarrow> 1 | Some w \<Rightarrow> w))"

definition sanitize_step :: "width_fn \<Rightarrow> nat \<Rightarrow> term_cell list \<Rightarrow> term_cell list" where
  "sanitize_step cw c row =
     (if tc_wide_placeholder (row ! c) then
        (if 0 < c \<and> cell_display_width cw (row ! (c - 1)) = 2 then row
         else row[c := (row ! c)\<lparr>tc_wide_placeholder := False\<rparr>])
      else if cell_display_width cw (row ! c) = 2 then
        (if c + 1 < length row \<and> tc_wide_placeholder (row ! (c + 1)) then row
         else row[c := (row ! c)\<lparr>tc_ch := [SP]\<rparr>])
      else row)"

definition sanitize_wide_cells :: "width_fn \<Rightarrow> term_cell list \<Rightarrow> term_cell list" where
  "sanitize_wide_cells cw row = fold (sanitize_step cw) [0..<length row] row"

text \<open>The pairing the repair is meant to restore: a placeholder follows a double-width character,
  and a double-width character is followed by its placeholder.\<close>

definition placeholder_ok :: "width_fn \<Rightarrow> term_cell list \<Rightarrow> nat \<Rightarrow> bool" where
  "placeholder_ok cw row c \<longleftrightarrow>
     (tc_wide_placeholder (row ! c) \<longrightarrow> 0 < c \<and> cell_display_width cw (row ! (c - 1)) = 2)"

definition head_ok :: "width_fn \<Rightarrow> term_cell list \<Rightarrow> nat \<Rightarrow> bool" where
  "head_ok cw row c \<longleftrightarrow>
     (\<not> tc_wide_placeholder (row ! c) \<and> cell_display_width cw (row ! c) = 2 \<longrightarrow>
      c + 1 < length row \<and> tc_wide_placeholder (row ! (c + 1)))"

definition wide_paired :: "width_fn \<Rightarrow> term_cell list \<Rightarrow> bool" where
  "wide_paired cw row \<longleftrightarrow> (\<forall>c < length row. placeholder_ok cw row c \<and> head_ok cw row c)"

text \<open>What the repair may do to one cell.\<close>

definition cell_repaired :: "term_cell \<Rightarrow> term_cell \<Rightarrow> bool" where
  "cell_repaired a b \<longleftrightarrow>
     b = a \<or> (tc_wide_placeholder a \<and> b = a\<lparr>tc_wide_placeholder := False\<rparr>) \<or>
     (\<not> tc_wide_placeholder a \<and> b = a\<lparr>tc_ch := [SP]\<rparr>)"

lemma length_sanitize_step [simp]: "length (sanitize_step cw c row) = length row"
  by (simp add: sanitize_step_def)

lemma length_fold_sanitize [simp]: "length (fold (sanitize_step cw) cs row) = length row"
  by (induction cs arbitrary: row) simp_all

lemma length_sanitize_wide_cells [simp]: "length (sanitize_wide_cells cw row) = length row"
  by (simp add: sanitize_wide_cells_def)

lemma sanitize_step_other: "c \<noteq> d \<Longrightarrow> sanitize_step cw c row ! d = row ! d"
  by (simp add: sanitize_step_def)

lemma cell_repaired_step: "c < length row \<Longrightarrow> cell_repaired (row ! c) (sanitize_step cw c row ! c)"
  by (auto simp: sanitize_step_def cell_repaired_def)

text \<open>The first \<open>k\<close> steps leave the cells from \<open>k\<close> on alone, and repair each earlier one once.\<close>

lemma fold_sanitize_upto:
  "k \<le> length row \<Longrightarrow> d < length row \<Longrightarrow>
   (if d < k then cell_repaired (row ! d) (fold (sanitize_step cw) [0..<k] row ! d)
    else fold (sanitize_step cw) [0..<k] row ! d = row ! d)"
proof (induction k)
  case (Suc k)
  let ?r = "fold (sanitize_step cw) [0..<k] row"
  from Suc have IH: "if d < k then cell_repaired (row ! d) (?r ! d) else ?r ! d = row ! d" by simp
  show ?case
  proof (cases "d = k")
    case True
    with IH Suc.prems cell_repaired_step [of k ?r cw] show ?thesis by simp
  next
    case False
    with IH show ?thesis by (auto simp: sanitize_step_other)
  qed
qed simp

lemma sanitize_repairs:
  "c < length row \<Longrightarrow> cell_repaired (row ! c) (sanitize_wide_cells cw row ! c)"
  using fold_sanitize_upto [of "length row" row c cw] by (simp add: sanitize_wide_cells_def)

lemma display_width_blank:
  "cw SP = Some 1 \<Longrightarrow> cell_display_width cw (cell\<lparr>tc_ch := [SP]\<rparr>) = 1"
  by (simp add: cell_display_width_def)

lemma display_width_flag [simp]:
  "cell_display_width cw (cell\<lparr>tc_wide_placeholder := b\<rparr>) = cell_display_width cw cell"
  by (simp add: cell_display_width_def)

text \<open>One step extends the repaired prefix.\<close>

lemma sanitize_step_pairs:
  assumes "cw SP = Some 1" "k < length row"
    and "tc_wide_placeholder (row ! k) \<Longrightarrow> cell_display_width cw (row ! k) \<noteq> 2"
    and pre: "\<forall>c < k. placeholder_ok cw row c \<and> head_ok cw row c"
    and "c \<le> k"
  shows "placeholder_ok cw (sanitize_step cw k row) c \<and> head_ok cw (sanitize_step cw k row) c"
proof (cases "c = k")
  case True
  have "placeholder_ok cw (sanitize_step cw k row) k"
    using assms(2) by (auto simp: placeholder_ok_def sanitize_step_def)
  moreover have "head_ok cw (sanitize_step cw k row) k"
    using assms(1-3) by (cases "tc_wide_placeholder (row ! k)"; cases "k + 1 < length row")
      (simp_all add: head_ok_def sanitize_step_def display_width_blank)
  ultimately show ?thesis using True by simp
next
  case False
  with \<open>c \<le> k\<close> have "c < k" by simp
  with pre have c: "placeholder_ok cw row c" "head_ok cw row c" by auto
  show ?thesis
  proof (cases "c + 1 = k")
    case True
    with c assms(2) show ?thesis
      by (auto simp: placeholder_ok_def head_ok_def sanitize_step_def nth_list_update)
  next
    case False
    with c \<open>c < k\<close> show ?thesis
      by (simp add: placeholder_ok_def head_ok_def sanitize_step_other)
  qed
qed

lemma sanitize_pairs:
  assumes "cw SP = Some 1"
    and "\<forall>cell \<in> set row. tc_wide_placeholder cell \<longrightarrow> cell_display_width cw cell \<noteq> 2"
  shows "wide_paired cw (sanitize_wide_cells cw row)"
proof -
  have "\<forall>c < k. placeholder_ok cw (fold (sanitize_step cw) [0..<k] row) c
                \<and> head_ok cw (fold (sanitize_step cw) [0..<k] row) c"
    if "k \<le> length row" for k
    using that
  proof (induction k)
    case (Suc k)
    let ?r = "fold (sanitize_step cw) [0..<k] row"
    have "?r ! k = row ! k" using fold_sanitize_upto [of k row k cw] Suc.prems by simp
    then have "tc_wide_placeholder (?r ! k) \<Longrightarrow> cell_display_width cw (?r ! k) \<noteq> 2"
      using assms(2) Suc.prems by (simp add: Suc_le_eq)
    with Suc assms(1) show ?case
      using sanitize_step_pairs [of cw k ?r] by (simp add: less_Suc_eq_le)
  qed simp
  from this [of "length row"] show ?thesis
    by (simp add: wide_paired_def sanitize_wide_cells_def)
qed

lemma sanitize_paired_id: "wide_paired cw row \<Longrightarrow> sanitize_wide_cells cw row = row"
proof -
  assume p: "wide_paired cw row"
  have "fold (sanitize_step cw) cs row = row" if "set cs \<subseteq> {..<length row}" for cs
    using that p
    by (induction cs) (auto simp: sanitize_step_def wide_paired_def placeholder_ok_def head_ok_def)
  then show ?thesis by (simp add: sanitize_wide_cells_def atLeast0LessThan)
qed

text \<open>The repair of double-width characters (\<^verbatim>\<open>sanitize_wide_cells\<close>, after insertion,
  deletion, erasure, clipping by a resize): whatever a row holds, as long as placeholders show no
  double-width character themselves and a space has width one, afterwards every placeholder
  follows a double-width character and every double-width character is followed by its placeholder;
  each cell is unchanged, an orphaned placeholder turned into an ordinary cell, or an orphaned
  character turned into a space; and a row that was already paired is returned as it is.\<close>

lemma sanitize_restores_pairs:
  assumes "cw SP = Some 1"
    and "\<forall>cell \<in> set row. tc_wide_placeholder cell \<longrightarrow> cell_display_width cw cell \<noteq> 2"
  shows "wide_paired cw (sanitize_wide_cells cw row)
    \<and> list_all2 cell_repaired row (sanitize_wide_cells cw row)
    \<and> (wide_paired cw row \<longrightarrow> sanitize_wide_cells cw row = row)"
  using sanitize_pairs [OF assms] sanitize_repairs [of _ row cw] sanitize_paired_id [of cw row]
  by (auto simp: list_all2_conv_all_nth)

definition demo_width :: width_fn where
  "demo_width c = (if c = 0x3042 then Some 2 else if c = 0x301 then Some 0 else Some 1)"

definition demo_theme :: theme where
  "demo_theme = \<lparr> ansi16 = replicate 16 0, default_fg = 1, default_bg = 2 \<rparr>"

end
