(* ===== verification/Terminal.thy ===== *)
theory Terminal
  imports TermCells
begin

text \<open>
  The screen of the terminal emulator (\<^verbatim>\<open>src/terminal.rs\<close>, \<^verbatim>\<open>struct Terminal\<close>): two
  grids of cells stored row by row, the cursor, the scroll region, tab stops, saved cursors, lines
  on their way to the scrollback, hyperlinks, image placements and prompt marks; and the operations
  the dispatcher calls. Every access to a cell array goes through the bounds checks of
  \<open>Panics\<close>. Notifications, panels and tab progress are not part of the record; the decoders of
  sixel and Kitty graphics have theories of their own, and what they deliver is an event.
\<close>

section \<open>State\<close>

record saved_cursor =
  sc_row :: nat
  sc_col :: nat
  sc_attrs :: term_attrs
  sc_g0 :: charset
  sc_g1 :: charset
  sc_gl_is_g1 :: bool

datatype cursor_shape = Block | Underline | Bar

datatype mouse_reporting_mode = MouseOff | MouseNormal | MouseButtonEvent | MouseAnyEvent

datatype prompt_mark_kind =
    PromptStart | CommandStart | CommandExecuted | CommandFinished "int option"

type_synonym prompt_mark = "prompt_mark_kind \<times> u64"

record image_placement =
  ip_id :: u64
  ip_row :: nat
  ip_col :: nat
  ip_rows_span :: nat
  ip_cols_span :: nat
  ip_width_px :: nat
  ip_height_px :: nat
  ip_rgba :: "u8 list"

record terminal =
  tm_theme :: theme
  tm_cols :: nat
  tm_rows :: nat
  tm_main_cells :: "term_cell list"
  tm_alt_cells :: "term_cell list"
  tm_alt_active :: bool
  tm_saved_cursor_main :: "saved_cursor option"
  tm_saved_cursor_alt :: "saved_cursor option"
  tm_cursor_row :: nat
  tm_cursor_col :: nat
  tm_cur_attrs :: term_attrs
  tm_scroll_top :: nat
  tm_scroll_bottom :: nat
  tm_title :: "uchar list option"
  tm_tab_color :: "(u8 \<times> u8 \<times> u8) option"
  tm_cursor_color :: "(u8 \<times> u8 \<times> u8) option"
  tm_pending_clipboard_write :: "uchar list option"
  tm_pending_clipboard_pull_request :: bool
  tm_pending_terminal_responses :: "string list"
  tm_pending_scrollback :: "term_cell list list"
  tm_application_cursor_mode :: bool
  tm_application_keypad_mode :: bool
  tm_bracketed_paste_mode :: bool
  tm_synchronized_output_active :: bool
  tm_full_damage_pending :: bool
  tm_focus_reporting_mode :: bool
  tm_cursor_visible :: bool
  tm_bell_generation :: u64
  tm_cursor_shape :: cursor_shape
  tm_cursor_blink :: bool
  tm_autowrap_mode :: bool
  tm_origin_mode :: bool
  tm_last_graphic_cell :: "(uchar \<times> term_attrs \<times> nat option) option"
  tm_g0_charset :: charset
  tm_g1_charset :: charset
  tm_gl_is_g1 :: bool
  tm_mouse_reporting_mode :: mouse_reporting_mode
  tm_sgr_mouse_mode :: bool
  tm_alternate_scroll :: bool
  tm_urxvt_mouse_mode :: bool
  tm_active_link_id :: "nat option"
  tm_link_table :: "uchar list list"
  tm_link_ids :: "(uchar list \<times> nat) list"
  tm_tab_stops :: "bool list"
  tm_images :: "image_placement list"
  tm_next_image_id :: u64
  tm_kitty_id_by_placement :: "(u64 \<times> u64) list"
  tm_kitty_placement_ids :: "u64 list"
  tm_main_kitty_flags_stack :: "u16 list"
  tm_alt_kitty_flags_stack :: "u16 list"
  tm_total_scrolled_lines :: u64
  tm_prompt_marks :: "prompt_mark list"
  tm_input_line_active :: bool
  tm_capturing_command_output :: bool
  tm_current_output_line :: "uchar list"
  tm_current_output_lines :: "uchar list list"
  tm_last_command_output :: "uchar list list option"

text \<open>Bounds on what the remote host can make the terminal hold.\<close>

definition MAX_COMBINING_BYTES_PER_CELL :: nat where "MAX_COMBINING_BYTES_PER_CELL = 128"
definition MAX_LINK_TABLE :: nat where "MAX_LINK_TABLE = 4096"
definition MAX_PROMPT_MARKS :: nat where "MAX_PROMPT_MARKS = 2000"
definition MAX_LIVE_IMAGES :: nat where "MAX_LIVE_IMAGES = 32"
definition MAX_TOTAL_IMAGE_RGBA_BYTES :: nat where "MAX_TOTAL_IMAGE_RGBA_BYTES = 64 * 1024 * 1024"
definition SIXEL_CELL_WIDTH_PX :: nat where "SIXEL_CELL_WIDTH_PX = 10"
definition SIXEL_CELL_HEIGHT_PX :: nat where "SIXEL_CELL_HEIGHT_PX = 20"
definition KITTY_KEYBOARD_STACK_MAX :: nat where "KITTY_KEYBOARD_STACK_MAX = 8"
definition SCROLLBACK_LIMIT :: nat where "SCROLLBACK_LIMIT = 1000"

lemmas limit_defs = MAX_COMBINING_BYTES_PER_CELL_def MAX_LINK_TABLE_def MAX_PROMPT_MARKS_def
  MAX_LIVE_IMAGES_def MAX_TOTAL_IMAGE_RGBA_BYTES_def KITTY_KEYBOARD_STACK_MAX_def
  SCROLLBACK_LIMIT_def

definition default_tab_stops :: "nat \<Rightarrow> bool list" where
  "default_tab_stops cols = map (\<lambda>c. c mod 8 = 0) [0..<cols]"

definition term_new :: "nat \<Rightarrow> nat \<Rightarrow> theme \<Rightarrow> terminal" where
  "term_new cols0 rows0 th =
     (let cols = max cols0 1; rows = max rows0 1;
          cells = replicate (cols * rows) (blank_cell_for_theme th)
      in \<lparr> tm_theme = th, tm_cols = cols, tm_rows = rows,
           tm_main_cells = cells, tm_alt_cells = cells, tm_alt_active = False,
           tm_saved_cursor_main = None, tm_saved_cursor_alt = None,
           tm_cursor_row = 0, tm_cursor_col = 0,
           tm_cur_attrs = attrs_default_for th,
           tm_scroll_top = 0, tm_scroll_bottom = rows - 1,
           tm_title = None, tm_tab_color = None, tm_cursor_color = None,
           tm_pending_clipboard_write = None, tm_pending_clipboard_pull_request = False,
           tm_pending_terminal_responses = [], tm_pending_scrollback = [],
           tm_application_cursor_mode = False, tm_application_keypad_mode = False,
           tm_bracketed_paste_mode = False, tm_synchronized_output_active = False,
           tm_full_damage_pending = False, tm_focus_reporting_mode = False,
           tm_cursor_visible = True, tm_bell_generation = 0,
           tm_cursor_shape = Block, tm_cursor_blink = True,
           tm_autowrap_mode = True, tm_origin_mode = False, tm_last_graphic_cell = None,
           tm_g0_charset = Ascii, tm_g1_charset = Ascii, tm_gl_is_g1 = False,
           tm_mouse_reporting_mode = MouseOff, tm_sgr_mouse_mode = False,
           tm_alternate_scroll = False, tm_urxvt_mouse_mode = False,
           tm_active_link_id = None, tm_link_table = [], tm_link_ids = [],
           tm_tab_stops = default_tab_stops cols,
           tm_images = [], tm_next_image_id = 0,
           tm_kitty_id_by_placement = [], tm_kitty_placement_ids = [],
           tm_main_kitty_flags_stack = [], tm_alt_kitty_flags_stack = [],
           tm_total_scrolled_lines = 0, tm_prompt_marks = [],
           tm_input_line_active = False, tm_capturing_command_output = False,
           tm_current_output_line = [], tm_current_output_lines = [],
           tm_last_command_output = None \<rparr>)"

text \<open>RIS: a new terminal that keeps what refers to the past.\<close>

definition reset_all :: "terminal \<Rightarrow> terminal" where
  "reset_all t = (term_new (tm_cols t) (tm_rows t) (tm_theme t))
     \<lparr> tm_pending_scrollback := tm_pending_scrollback t,
       tm_link_table := tm_link_table t, tm_link_ids := tm_link_ids t,
       tm_next_image_id := tm_next_image_id t,
       tm_total_scrolled_lines := tm_total_scrolled_lines t,
       tm_prompt_marks := tm_prompt_marks t,
       tm_last_command_output := tm_last_command_output t,
       tm_bell_generation := tm_bell_generation t,
       tm_full_damage_pending := True \<rparr>"

section \<open>Cells\<close>

definition cells :: "terminal \<Rightarrow> term_cell list" where
  "cells t = (if tm_alt_active t then tm_alt_cells t else tm_main_cells t)"

definition set_cells :: "term_cell list \<Rightarrow> terminal \<Rightarrow> terminal" where
  "set_cells cs t =
     (if tm_alt_active t then t\<lparr>tm_alt_cells := cs\<rparr> else t\<lparr>tm_main_cells := cs\<rparr>)"

definition blank :: "terminal \<Rightarrow> term_cell" where
  "blank t = to_cell (tm_cur_attrs t) [SP]"

definition cell_put :: "nat \<Rightarrow> nat \<Rightarrow> term_cell \<Rightarrow> terminal \<Rightarrow> terminal option" where
  "cell_put row col cell t =
     do { cs \<leftarrow> vset (cells t) (row * tm_cols t + col) cell; Some (set_cells cs t) }"

definition clear_images :: "terminal \<Rightarrow> terminal" where
  "clear_images t = t\<lparr>tm_images := [], tm_kitty_id_by_placement := [], tm_kitty_placement_ids := []\<rparr>"

definition next_tab_stop :: "terminal \<Rightarrow> nat \<Rightarrow> nat option" where
  "next_tab_stop t col = do {
     found \<leftarrow> ofind (vget (tm_tab_stops t)) [col + 1..<tm_cols t];
     Some (case found of Some c \<Rightarrow> c | None \<Rightarrow> tm_cols t - 1) }"

definition prev_tab_stop :: "terminal \<Rightarrow> nat \<Rightarrow> nat option" where
  "prev_tab_stop t col = do {
     found \<leftarrow> ofind (vget (tm_tab_stops t)) (rev [0..<col]);
     Some (case found of Some c \<Rightarrow> c | None \<Rightarrow> 0) }"

definition origin_row_bounds :: "terminal \<Rightarrow> nat \<times> nat" where
  "origin_row_bounds t =
     (if tm_origin_mode t then (tm_scroll_top t, tm_scroll_bottom t) else (0, tm_rows t - 1))"

section \<open>Scrolling\<close>

definition trim_pending_scrollback :: "terminal \<Rightarrow> terminal" where
  "trim_pending_scrollback t =
     (let len = length (tm_pending_scrollback t)
      in if len > 2 * SCROLLBACK_LIMIT
         then t\<lparr>tm_pending_scrollback := drop (len - SCROLLBACK_LIMIT) (tm_pending_scrollback t)\<rparr>
         else t)"

definition blank_rows :: "nat \<Rightarrow> nat \<Rightarrow> terminal \<Rightarrow> terminal option" where
  "blank_rows start n t =
     (if n = 0 then Some t
      else do {
        cs \<leftarrow> vfill (cells t) (start * tm_cols t) ((start + n) * tm_cols t) (blank t);
        Some (set_cells cs t) })"

text \<open>\<^verbatim>\<open>split_at_mut\<close> at the source (respectively the destination) and
  \<^verbatim>\<open>clone_from_slice\<close> of one row.\<close>

definition copy_row_up :: "nat \<Rightarrow> nat \<Rightarrow> nat \<Rightarrow> term_cell list \<Rightarrow> term_cell list option" where
  "copy_row_up cols n row cs =
     (let dst = row * cols; src = (row + n) * cols
      in if src \<le> length cs \<and> cols \<le> length cs - src \<and> dst + cols \<le> src
         then Some (vsplice cs dst (take cols (drop src cs))) else None)"

definition copy_row_down :: "nat \<Rightarrow> nat \<Rightarrow> nat \<Rightarrow> term_cell list \<Rightarrow> term_cell list option" where
  "copy_row_down cols n row cs =
     (let src = row * cols; dst = (row + n) * cols
      in if dst \<le> length cs \<and> cols \<le> length cs - dst \<and> src + cols \<le> dst
         then Some (vsplice cs dst (take cols (drop src cs))) else None)"

definition shift_rows_up :: "nat \<Rightarrow> nat \<Rightarrow> nat \<Rightarrow> terminal \<Rightarrow> terminal option" where
  "shift_rows_up rtop rbot n0 t =
     (if rtop > rbot \<or> rbot \<ge> tm_rows t then Some t
      else
        (let region_size = rbot - rtop + 1; n = min n0 region_size
         in if n = 0 then Some t
            else do {
              cs \<leftarrow> (if n < region_size
                     then do { b \<leftarrow> usub rbot n;
                               ofold (copy_row_up (tm_cols t) n) [rtop..<Suc b] (cells t) }
                     else Some (cells t));
              blank_rows (rtop + (region_size - n)) n (set_cells cs t) }))"

definition shift_rows_down :: "nat \<Rightarrow> nat \<Rightarrow> nat \<Rightarrow> terminal \<Rightarrow> terminal option" where
  "shift_rows_down rtop rbot n0 t =
     (if rtop > rbot \<or> rbot \<ge> tm_rows t then Some t
      else
        (let region_size = rbot - rtop + 1; n = min n0 region_size
         in if n = 0 then Some t
            else do {
              cs \<leftarrow> (if n < region_size
                     then do { b \<leftarrow> usub rbot n;
                               ofold (copy_row_down (tm_cols t) n) (rev [rtop..<Suc b]) (cells t) }
                     else Some (cells t));
              blank_rows rtop n (set_cells cs t) }))"

definition push_scrollback :: "nat \<Rightarrow> nat \<Rightarrow> terminal \<Rightarrow> terminal option" where
  "push_scrollback cols i t = do {
     row \<leftarrow> vslice (tm_main_cells t) (i * cols) (i * cols + cols);
     Some (t\<lparr>tm_pending_scrollback := tm_pending_scrollback t @ [row]\<rparr>) }"

definition scroll_up_region :: "nat \<Rightarrow> terminal \<Rightarrow> terminal option" where
  "scroll_up_region n0 t0 = (let t = clear_images (t0\<lparr>tm_full_damage_pending := True\<rparr>) in do {
     let rtop = tm_scroll_top t; let rbot = tm_scroll_bottom t;
     d \<leftarrow> usub rbot rtop;
     let n = min n0 (d + 1);
     t \<leftarrow> (if rtop = 0 \<and> \<not> tm_alt_active t then do {
             t \<leftarrow> ofold (push_scrollback (tm_cols t)) [0..<n] t;
             Some (trim_pending_scrollback
               (t\<lparr>tm_total_scrolled_lines := tm_total_scrolled_lines t + word_of_nat n\<rparr>)) }
           else Some t);
     shift_rows_up rtop rbot n t })"

definition scroll_down_region :: "nat \<Rightarrow> terminal \<Rightarrow> terminal option" where
  "scroll_down_region n t0 = (let t = clear_images (t0\<lparr>tm_full_damage_pending := True\<rparr>)
     in shift_rows_down (tm_scroll_top t) (tm_scroll_bottom t) n t)"

definition insert_lines :: "nat \<Rightarrow> terminal \<Rightarrow> terminal option" where
  "insert_lines n t =
     (let rtop = tm_cursor_row t; rbot = tm_scroll_bottom t
      in if rtop < tm_scroll_top t \<or> rtop > rbot then Some t
         else shift_rows_down rtop rbot n (clear_images (t\<lparr>tm_full_damage_pending := True\<rparr>)))"

definition delete_lines :: "nat \<Rightarrow> terminal \<Rightarrow> terminal option" where
  "delete_lines n t =
     (let rtop = tm_cursor_row t; rbot = tm_scroll_bottom t
      in if rtop < tm_scroll_top t \<or> rtop > rbot then Some t
         else shift_rows_up rtop rbot n (clear_images (t\<lparr>tm_full_damage_pending := True\<rparr>)))"

definition newline :: "terminal \<Rightarrow> terminal option" where
  "newline t =
     (if tm_cursor_row t = tm_scroll_bottom t then scroll_up_region 1 t
      else do {
        last_row \<leftarrow> usub (tm_rows t) 1;
        Some (if tm_cursor_row t < last_row then t\<lparr>tm_cursor_row := tm_cursor_row t + 1\<rparr> else t) })"

section \<open>Editing within a row\<close>

definition sanitize_wide_row :: "width_fn \<Rightarrow> nat \<Rightarrow> terminal \<Rightarrow> terminal option" where
  "sanitize_wide_row cw row t = (let base = row * tm_cols t in do {
     r \<leftarrow> vslice (cells t) base (base + tm_cols t);
     Some (set_cells (vsplice (cells t) base (sanitize_wide_cells cw r)) t) })"

definition copy_cell :: "nat \<Rightarrow> nat \<Rightarrow> term_cell list \<Rightarrow> term_cell list option" where
  "copy_cell src dst cs = do { x \<leftarrow> vget cs src; vset cs dst x }"

definition fill_cells :: "nat \<Rightarrow> nat \<Rightarrow> term_cell \<Rightarrow> term_cell list \<Rightarrow> term_cell list option" where
  "fill_cells from to x cs = ofold (\<lambda>i cs. vset cs i x) [from..<to] cs"

definition insert_chars :: "width_fn \<Rightarrow> nat \<Rightarrow> terminal \<Rightarrow> terminal option" where
  "insert_chars cw n0 t =
     (if tm_cursor_row t \<ge> tm_rows t then Some t
      else
        (let row = tm_cursor_row t; cols = tm_cols t; col = min (tm_cursor_col t) (cols - 1) in do {
           region_size \<leftarrow> usub cols col;
           let n = min n0 region_size; let base = row * cols;
           if n = 0 then Some t
           else do {
             cs \<leftarrow> (if n < region_size
                    then ofold (\<lambda>c. copy_cell (base + c) (base + c + n)) (rev [col..<Suc (cols - 1 - n)])
                           (cells t)
                    else Some (cells t));
             cs \<leftarrow> fill_cells (base + col) (base + (col + n)) (blank t) cs;
             sanitize_wide_row cw row (set_cells cs t) } }))"

definition delete_chars :: "width_fn \<Rightarrow> nat \<Rightarrow> terminal \<Rightarrow> terminal option" where
  "delete_chars cw n0 t =
     (if tm_cursor_row t \<ge> tm_rows t then Some t
      else
        (let row = tm_cursor_row t; cols = tm_cols t; col = min (tm_cursor_col t) (cols - 1) in do {
           region_size \<leftarrow> usub cols col;
           let n = min n0 region_size; let base = row * cols;
           if n = 0 then Some t
           else do {
             cs \<leftarrow> (if n < region_size
                    then ofold (\<lambda>c. copy_cell (base + c + n) (base + c)) [col..<Suc (cols - 1 - n)]
                           (cells t)
                    else Some (cells t));
             cs \<leftarrow> fill_cells (base + (col + (region_size - n))) (base + cols) (blank t) cs;
             sanitize_wide_row cw row (set_cells cs t) } }))"

definition erase_chars :: "width_fn \<Rightarrow> nat \<Rightarrow> terminal \<Rightarrow> terminal option" where
  "erase_chars cw n0 t =
     (if tm_cursor_row t \<ge> tm_rows t then Some t
      else
        (let row = tm_cursor_row t; cols = tm_cols t; col = min (tm_cursor_col t) (cols - 1) in do {
           room \<leftarrow> usub cols col;
           let n = min n0 room; let base = row * cols;
           if n = 0 then Some t
           else do {
             cs \<leftarrow> fill_cells (base + col) (base + (col + n)) (blank t) (cells t);
             sanitize_wide_row cw row (set_cells cs t) } }))"

definition erase_cells :: "nat \<Rightarrow> nat \<Rightarrow> terminal \<Rightarrow> terminal option" where
  "erase_cells start stop t = do {
     cs \<leftarrow> fill_cells start (min stop (length (cells t))) (blank t) (cells t);
     Some (set_cells cs t) }"

section \<open>Saved cursors and the alternate screen\<close>

definition capture_cursor :: "terminal \<Rightarrow> saved_cursor" where
  "capture_cursor t =
     \<lparr> sc_row = tm_cursor_row t, sc_col = tm_cursor_col t, sc_attrs = tm_cur_attrs t,
       sc_g0 = tm_g0_charset t, sc_g1 = tm_g1_charset t, sc_gl_is_g1 = tm_gl_is_g1 t \<rparr>"

definition apply_saved_cursor :: "saved_cursor \<Rightarrow> terminal \<Rightarrow> terminal" where
  "apply_saved_cursor sc t =
     t\<lparr> tm_cursor_row := sc_row sc, tm_cursor_col := sc_col sc, tm_cur_attrs := sc_attrs sc,
        tm_g0_charset := sc_g0 sc, tm_g1_charset := sc_g1 sc, tm_gl_is_g1 := sc_gl_is_g1 sc \<rparr>"

definition switch_to_alt :: "bool \<Rightarrow> terminal \<Rightarrow> terminal option" where
  "switch_to_alt save_cursor t0 =
     (if tm_alt_active t0 then Some t0
      else
        (let t = t0\<lparr>tm_full_damage_pending := True\<rparr>;
             t = (if save_cursor then t\<lparr>tm_saved_cursor_main := Some (capture_cursor t)\<rparr> else t);
             th = tm_theme t;
             t = t\<lparr> tm_main_cells := cells t,
                    tm_alt_cells := replicate (tm_cols t * tm_rows t) (blank_cell_for_theme th),
                    tm_alt_active := True \<rparr>;
             t = (if save_cursor
                  then t\<lparr> tm_cursor_row := 0, tm_cursor_col := 0, tm_cur_attrs := attrs_default_for th,
                          tm_g0_charset := Ascii, tm_g1_charset := Ascii, tm_gl_is_g1 := False \<rparr>
                  else t)
         in do {
           last_row \<leftarrow> usub (tm_rows t) 1;
           Some (clear_images (t\<lparr> tm_scroll_top := 0, tm_scroll_bottom := last_row,
                                  tm_active_link_id := None \<rparr>)) }))"

definition switch_to_main :: "bool \<Rightarrow> terminal \<Rightarrow> terminal" where
  "switch_to_main restore_cursor t =
     (if \<not> tm_alt_active t then t
      else
        (let t = t\<lparr>tm_full_damage_pending := True, tm_alt_active := False\<rparr>;
             t = (if restore_cursor then
                    (case tm_saved_cursor_main t of
                       Some sc \<Rightarrow> apply_saved_cursor sc (t\<lparr>tm_saved_cursor_main := None\<rparr>)
                     | None \<Rightarrow> t)
                  else t)
         in clear_images (t\<lparr>tm_active_link_id := None\<rparr>)))"

definition save_cursor_decsc :: "terminal \<Rightarrow> terminal" where
  "save_cursor_decsc t =
     (if tm_alt_active t then t\<lparr>tm_saved_cursor_alt := Some (capture_cursor t)\<rparr>
      else t\<lparr>tm_saved_cursor_main := Some (capture_cursor t)\<rparr>)"

definition restore_cursor_decrc :: "terminal \<Rightarrow> terminal" where
  "restore_cursor_decrc t =
     (case (if tm_alt_active t then tm_saved_cursor_alt t else tm_saved_cursor_main t) of
        Some sc \<Rightarrow>
          (let t = apply_saved_cursor sc t
           in t\<lparr> tm_cursor_row := min (tm_cursor_row t) (tm_rows t - 1),
                 tm_cursor_col := min (tm_cursor_col t) (tm_cols t) \<rparr>)
      | None \<Rightarrow> t)"

section \<open>Resizing\<close>

text \<open>\<^verbatim>\<open>resize_grid\<close> returns the new grid and the rows it removed from the top, which the
  caller adds to the scrollback for the main screen and drops for the alternate one
  (\<^verbatim>\<open>overflow_sink\<close>).\<close>

definition resize_grid ::
  "width_fn \<Rightarrow> term_cell list \<Rightarrow> nat \<Rightarrow> nat \<Rightarrow> nat \<Rightarrow> nat \<Rightarrow> nat \<Rightarrow> term_cell
   \<Rightarrow> (term_cell list \<times> term_cell list list) option" where
  "resize_grid cw old_cells old_cols old_rows new_cols new_rows top_removed b = do {
     rs \<leftarrow> ofold (\<lambda>r acc. do {
                 row \<leftarrow> vslice old_cells (r * old_cols) ((r + 1) * old_cols);
                 Some (acc @ [row]) }) [0..<old_rows] [];
     (rs, removed) \<leftarrow>
       (if new_rows < old_rows then
          (if top_removed \<le> length rs
           then Some (take new_rows (drop top_removed rs), take top_removed rs) else None)
        else Some (rs @ replicate (new_rows - old_rows) (replicate old_cols b), []));
     Some (concat (map (\<lambda>row.
             (let r = vresize row new_cols b
              in if new_cols < old_cols then sanitize_wide_cells cw r else r)) rs), removed) }"

definition top_removed_for :: "nat \<Rightarrow> nat \<Rightarrow> nat \<Rightarrow> nat" where
  "top_removed_for new_rows total_removed reference_row =
     min (reference_row + 1 - new_rows) total_removed"

definition shift_row :: "nat \<Rightarrow> nat \<Rightarrow> nat \<Rightarrow> nat" where
  "shift_row max_row row removed = (if row < removed then 0 else min (row - removed) max_row)"

definition clamp_col :: "nat \<Rightarrow> nat \<Rightarrow> nat \<Rightarrow> nat" where
  "clamp_col old_cols new_cols col = (if col \<ge> old_cols then new_cols else min col (new_cols - 1))"

definition resize_saved :: "nat \<Rightarrow> nat \<Rightarrow> nat \<Rightarrow> nat \<Rightarrow> saved_cursor \<Rightarrow> saved_cursor" where
  "resize_saved max_row old_cols new_cols removed sc =
     sc\<lparr> sc_row := shift_row max_row (sc_row sc) removed,
         sc_col := clamp_col old_cols new_cols (sc_col sc) \<rparr>"

definition resize_scroll_region :: "nat \<Rightarrow> nat \<Rightarrow> nat \<Rightarrow> nat \<Rightarrow> nat \<times> nat" where
  "resize_scroll_region old_rows max_row stop sbot =
     (if stop = 0 \<and> sbot = old_rows - 1 then (0, max_row)
      else (let st = min stop max_row; sb = min sbot max_row
            in if sb \<le> st then (0, max_row) else (st, sb)))"

definition resize_preserving_state :: "width_fn \<Rightarrow> nat \<Rightarrow> nat \<Rightarrow> terminal \<Rightarrow> terminal option" where
  "resize_preserving_state cw new_cols0 new_rows0 t =
     (let new_cols = max new_cols0 1; new_rows = max new_rows0 1 in
      if new_cols = tm_cols t \<and> new_rows = tm_rows t then Some t
      else
        (let old_cols = tm_cols t; old_rows = tm_rows t;
             total_removed = old_rows - new_rows;
             b = blank t;
             saved_row = (\<lambda>sc. case sc of None \<Rightarrow> 0 | Some c \<Rightarrow> sc_row c);
             main_ref = (if tm_alt_active t then saved_row (tm_saved_cursor_main t) else tm_cursor_row t);
             alt_ref = (if tm_alt_active t then tm_cursor_row t else saved_row (tm_saved_cursor_alt t));
             main_removed = top_removed_for new_rows total_removed main_ref;
             alt_removed = top_removed_for new_rows total_removed alt_ref;
             max_row = new_rows - 1;
             active_removed = (if tm_alt_active t then alt_removed else main_removed)
         in do {
           (mc, gone) \<leftarrow> resize_grid cw (tm_main_cells t) old_cols old_rows new_cols new_rows main_removed b;
           (ac, _) \<leftarrow> resize_grid cw (tm_alt_cells t) old_cols old_rows new_cols new_rows alt_removed b;
           let t = trim_pending_scrollback
             (t\<lparr> tm_full_damage_pending := True,
                 tm_main_cells := mc, tm_alt_cells := ac,
                 tm_pending_scrollback := tm_pending_scrollback t @ gone,
                 tm_total_scrolled_lines := tm_total_scrolled_lines t + word_of_nat (length gone) \<rparr>);
           let region = resize_scroll_region old_rows max_row (tm_scroll_top t) (tm_scroll_bottom t);
           tabs \<leftarrow> ofold (\<lambda>c ts. vset ts c (c mod 8 = 0)) [old_cols..<new_cols]
                    (vresize (tm_tab_stops t) new_cols False);
           Some (clear_images (t\<lparr>
             tm_cursor_row := shift_row max_row (tm_cursor_row t) active_removed,
             tm_cursor_col := clamp_col old_cols new_cols (tm_cursor_col t),
             tm_saved_cursor_main :=
               map_option (resize_saved max_row old_cols new_cols main_removed) (tm_saved_cursor_main t),
             tm_saved_cursor_alt :=
               map_option (resize_saved max_row old_cols new_cols alt_removed) (tm_saved_cursor_alt t),
             tm_scroll_top := fst region, tm_scroll_bottom := snd region,
             tm_tab_stops := tabs, tm_cols := new_cols, tm_rows := new_rows \<rparr>)) }))"

section \<open>Images\<close>

definition total_image_rgba_bytes :: "terminal \<Rightarrow> nat" where
  "total_image_rgba_bytes t = sum_list (map (\<lambda>img. length (ip_rgba img)) (tm_images t))"

text \<open>The eviction loop of \<^verbatim>\<open>push_image\<close>; \<^verbatim>\<open>remove(0)\<close> on an empty list panics.\<close>

function (sequential) evict_images :: "terminal \<Rightarrow> terminal option" where
  "evict_images t =
     (if length (tm_images t) > MAX_LIVE_IMAGES \<or> total_image_rgba_bytes t > MAX_TOTAL_IMAGE_RGBA_BYTES
      then (case tm_images t of
              [] \<Rightarrow> None
            | removed # rest \<Rightarrow>
                evict_images (t\<lparr> tm_images := rest,
                  tm_kitty_id_by_placement :=
                    filter (\<lambda>e. fst e \<noteq> ip_id removed) (tm_kitty_id_by_placement t),
                  tm_kitty_placement_ids :=
                    filter (\<lambda>i. i \<noteq> ip_id removed) (tm_kitty_placement_ids t) \<rparr>))
      else Some t)"
  by pat_completeness auto
termination
  by (relation "measure (\<lambda>t. length (tm_images t))") auto

definition push_image :: "nat \<Rightarrow> nat \<Rightarrow> u8 list \<Rightarrow> terminal \<Rightarrow> (terminal \<times> u64) option" where
  "push_image width height rgba t =
     (let col = min (tm_cursor_col t) (tm_cols t - 1); row = min (tm_cursor_row t) (tm_rows t - 1);
          cols_span0 = (width + SIXEL_CELL_WIDTH_PX - 1) div SIXEL_CELL_WIDTH_PX;
          rows_span0 = (height + SIXEL_CELL_HEIGHT_PX - 1) div SIXEL_CELL_HEIGHT_PX
      in do {
        room_c \<leftarrow> usub (tm_cols t) col;
        room_r \<leftarrow> usub (tm_rows t) row;
        let cols_span = min (max cols_span0 1) room_c;
        let rows_span = min (max rows_span0 1) room_r;
        let i = tm_next_image_id t;
        t \<leftarrow> evict_images (t\<lparr> tm_next_image_id := tm_next_image_id t + 1,
               tm_images := tm_images t @
                 [\<lparr> ip_id = i, ip_row = row, ip_col = col, ip_rows_span = rows_span,
                   ip_cols_span = cols_span, ip_width_px = width, ip_height_px = height,
                   ip_rgba = rgba \<rparr>] \<rparr>);
        Some (t\<lparr> tm_cursor_row := min (row + rows_span) (tm_rows t - 1), tm_cursor_col := 0 \<rparr>, i) })"

text \<open>What the decoder of Kitty graphics (\<^verbatim>\<open>kitty_graphics.rs\<close>) asks for, and its effect.\<close>

datatype kitty_command =
    KittyPlace nat nat "u8 list" "u64 option"
  | KittyDeleteAll
  | KittyDeleteId u64
  | KittyNone

fun dispatch_kitty_command :: "kitty_command \<Rightarrow> terminal \<Rightarrow> terminal option" where
  "dispatch_kitty_command (KittyPlace width height rgba kitty_id) t = do {
     (t, i) \<leftarrow> push_image width height rgba t;
     let t = t\<lparr>tm_kitty_placement_ids := List.insert i (tm_kitty_placement_ids t)\<rparr>;
     Some (case kitty_id of
             Some kid \<Rightarrow> t\<lparr>tm_kitty_id_by_placement := AList.update i kid (tm_kitty_id_by_placement t)\<rparr>
           | None \<Rightarrow> t) }"
| "dispatch_kitty_command KittyDeleteAll t =
     Some (t\<lparr> tm_images := filter (\<lambda>img. ip_id img \<notin> set (tm_kitty_placement_ids t)) (tm_images t),
              tm_kitty_placement_ids := [], tm_kitty_id_by_placement := [] \<rparr>)"
| "dispatch_kitty_command (KittyDeleteId kid) t =
     (let placements = map fst (filter (\<lambda>e. snd e = kid) (tm_kitty_id_by_placement t))
      in Some (t\<lparr> tm_images := filter (\<lambda>img. ip_id img \<notin> set placements) (tm_images t),
                  tm_kitty_id_by_placement :=
                    filter (\<lambda>e. fst e \<notin> set placements) (tm_kitty_id_by_placement t),
                  tm_kitty_placement_ids :=
                    filter (\<lambda>i. i \<notin> set placements) (tm_kitty_placement_ids t) \<rparr>))"
| "dispatch_kitty_command KittyNone t = Some t"

end
