(* ===== verification/TermInv.thy ===== *)
theory TermInv
  imports Terminal
begin

text \<open>
  The invariant of the screen and the proof that its operations keep it and never panic: both
  grids have \<open>cols * rows\<close> cells, the cursor, the scroll region, the tab stops and the saved
  cursors are within the screen, every cell holds a bounded string and a valid hyperlink, and
  everything the remote host can make the terminal accumulate is bounded. Then what the scrolling
  operations do to the rows of the screen.
\<close>

section \<open>The invariant\<close>

definition link_ok :: "nat \<Rightarrow> nat option \<Rightarrow> bool" where
  "link_ok n l \<longleftrightarrow> (\<forall>i. l = Some i \<longrightarrow> i < n)"

definition cell_ok :: "nat \<Rightarrow> term_cell \<Rightarrow> bool" where
  "cell_ok n c \<longleftrightarrow>
     str_len (tc_ch c) \<le> MAX_COMBINING_BYTES_PER_CELL \<and>
     (tc_wide_placeholder c \<longrightarrow> (\<exists>s. tc_ch c = SP # s)) \<and> link_ok n (tc_link_id c)"

definition cells_ok :: "nat \<Rightarrow> nat \<Rightarrow> term_cell list \<Rightarrow> bool" where
  "cells_ok n len cs \<longleftrightarrow> length cs = len \<and> (\<forall>c \<in> set cs. cell_ok n c)"

definition saved_ok :: "nat \<Rightarrow> nat \<Rightarrow> saved_cursor option \<Rightarrow> bool" where
  "saved_ok rows cols s \<longleftrightarrow> (\<forall>sc. s = Some sc \<longrightarrow> sc_row sc < rows \<and> sc_col sc \<le> cols)"

definition tm_geometry :: "terminal \<Rightarrow> bool" where
  "tm_geometry t \<longleftrightarrow>
     0 < tm_cols t \<and> 0 < tm_rows t \<and> tm_cursor_row t < tm_rows t \<and> tm_cursor_col t \<le> tm_cols t \<and>
     tm_scroll_top t \<le> tm_scroll_bottom t \<and> tm_scroll_bottom t < tm_rows t \<and>
     length (tm_tab_stops t) = tm_cols t \<and>
     saved_ok (tm_rows t) (tm_cols t) (tm_saved_cursor_main t) \<and>
     saved_ok (tm_rows t) (tm_cols t) (tm_saved_cursor_alt t)"

definition nlinks :: "terminal \<Rightarrow> nat" where
  "nlinks t = length (tm_link_table t)"

definition tm_contents :: "terminal \<Rightarrow> bool" where
  "tm_contents t \<longleftrightarrow>
     cells_ok (nlinks t) (tm_cols t * tm_rows t) (tm_main_cells t) \<and>
     cells_ok (nlinks t) (tm_cols t * tm_rows t) (tm_alt_cells t) \<and>
     (\<forall>row \<in> set (tm_pending_scrollback t). \<forall>c \<in> set row. cell_ok (nlinks t) c) \<and>
     link_ok (nlinks t) (tm_active_link_id t) \<and>
     (\<forall>c a l. tm_last_graphic_cell t = Some (c, a, l) \<longrightarrow> link_ok (nlinks t) l)"

definition tm_limits :: "terminal \<Rightarrow> bool" where
  "tm_limits t \<longleftrightarrow>
     length (tm_pending_scrollback t) \<le> 2 * SCROLLBACK_LIMIT \<and>
     length (tm_link_table t) \<le> MAX_LINK_TABLE \<and>
     length (tm_prompt_marks t) \<le> MAX_PROMPT_MARKS \<and>
     length (tm_images t) \<le> MAX_LIVE_IMAGES \<and>
     total_image_rgba_bytes t \<le> MAX_TOTAL_IMAGE_RGBA_BYTES \<and>
     length (tm_main_kitty_flags_stack t) \<le> KITTY_KEYBOARD_STACK_MAX \<and>
     length (tm_alt_kitty_flags_stack t) \<le> KITTY_KEYBOARD_STACK_MAX"

definition tm_links :: "terminal \<Rightarrow> bool" where
  "tm_links t \<longleftrightarrow>
     (\<forall>u i. map_of (tm_link_ids t) u = Some i \<longleftrightarrow> i < nlinks t \<and> tm_link_table t ! i = u)"

definition tm_inv :: "terminal \<Rightarrow> bool" where
  "tm_inv t \<longleftrightarrow> tm_geometry t \<and> tm_contents t \<and> tm_limits t \<and> tm_links t"

lemmas tm_inv_defs = tm_inv_def tm_geometry_def tm_contents_def tm_limits_def tm_links_def
  nlinks_def total_image_rgba_bytes_def

text \<open>What the scrolling and editing operations leave alone.\<close>

definition tm_same :: "terminal \<Rightarrow> terminal \<Rightarrow> bool" where
  "tm_same t t' \<longleftrightarrow>
     tm_cols t' = tm_cols t \<and> tm_rows t' = tm_rows t \<and> tm_cursor_col t' = tm_cursor_col t \<and>
     tm_autowrap_mode t' = tm_autowrap_mode t \<and> tm_link_table t' = tm_link_table t \<and>
     tm_active_link_id t' = tm_active_link_id t \<and> tm_alt_active t' = tm_alt_active t \<and>
     tm_cur_attrs t' = tm_cur_attrs t \<and> tm_scroll_top t' = tm_scroll_top t \<and>
     tm_scroll_bottom t' = tm_scroll_bottom t \<and>
     tm_saved_cursor_main t' = tm_saved_cursor_main t \<and>
     tm_capturing_command_output t' = tm_capturing_command_output t \<and>
     tm_current_output_line t' = tm_current_output_line t \<and>
     (tm_alt_active t \<longrightarrow>
        tm_main_cells t' = tm_main_cells t \<and> tm_pending_scrollback t' = tm_pending_scrollback t)"

lemma tm_same_refl [simp]: "tm_same t t"
  by (simp add: tm_same_def)

lemma tm_same_trans: "tm_same t t' \<Longrightarrow> tm_same t' t'' \<Longrightarrow> tm_same t t''"
  by (simp add: tm_same_def)

section \<open>Cell arrays\<close>

lemma cells_ok_update [intro]:
  "cells_ok n len cs \<Longrightarrow> cell_ok n x \<Longrightarrow> cells_ok n len (cs[i := x])"
  using set_update_subset_insert [of cs i x] by (auto simp: cells_ok_def)

lemma cells_ok_splice:
  "cells_ok n len cs \<Longrightarrow> from + length ys \<le> len \<Longrightarrow> \<forall>c \<in> set ys. cell_ok n c \<Longrightarrow>
   cells_ok n len (vsplice cs from ys)"
  using set_vsplice [of cs "from" ys] by (auto simp: cells_ok_def)

lemma cells_ok_nth: "cells_ok n len cs \<Longrightarrow> i < len \<Longrightarrow> cell_ok n (cs ! i)"
  by (simp add: cells_ok_def)

lemma cells_ok_length: "cells_ok n len cs \<Longrightarrow> length cs = len"
  by (simp add: cells_ok_def)

lemma cells_ok_replicate [simp]: "cells_ok n len (replicate len x) \<longleftrightarrow> len = 0 \<or> cell_ok n x"
  by (auto simp: cells_ok_def)

lemma str_len_Cons [simp]: "str_len (c # s) = utf8_len c + str_len s"
  by (simp add: str_len_def)

lemma str_len_Nil [simp]: "str_len [] = 0"
  by (simp add: str_len_def)

lemma str_len_append [simp]: "str_len (s @ s') = str_len s + str_len s'"
  by (simp add: str_len_def)

lemma utf8_len_le: "utf8_len c \<le> 4"
  by (simp add: utf8_len_def)

lemma link_ok_None [simp]: "link_ok n None"
  by (simp add: link_ok_def)

lemma cell_ok_to_cell [simp]: "cell_ok n (to_cell a [c])"
  using utf8_len_le [of c] by (simp add: cell_ok_def to_cell_def limit_defs)

lemma cell_ok_blank [simp]: "cell_ok n (blank t)"
  by (simp add: blank_def)

lemma cell_ok_theme [simp]: "cell_ok n (blank_cell_for_theme th)"
  by (simp add: cell_ok_def blank_cell_for_theme_def limit_defs utf8_len_def SP_def)

lemma cell_ok_repaired: "cell_ok n a \<Longrightarrow> cell_repaired a b \<Longrightarrow> cell_ok n b"
  by (auto simp: cell_ok_def cell_repaired_def limit_defs utf8_len_def SP_def)

lemma cell_ok_sanitize:
  "\<forall>c \<in> set row. cell_ok n c \<Longrightarrow> \<forall>c \<in> set (sanitize_wide_cells cw row). cell_ok n c"
  by (auto simp: in_set_conv_nth) (metis cell_ok_repaired nth_mem sanitize_repairs)

lemma grid_index: "r < rows \<Longrightarrow> c < cols \<Longrightarrow> r * cols + c < cols * (rows :: nat)"
proof -
  assume "r < rows" "c < cols"
  then have "r * cols + c < (r + 1) * cols" by simp
  also have "\<dots> \<le> rows * cols" using \<open>r < rows\<close> by (intro mult_le_mono1) simp
  finally show ?thesis by (simp add: mult.commute)
qed

lemma grid_row_end: "r < rows \<Longrightarrow> r * cols + cols \<le> cols * (rows :: nat)"
proof -
  assume "r < rows"
  then have "(r + 1) * cols \<le> rows * cols" by (intro mult_le_mono1) simp
  then show ?thesis by (simp add: algebra_simps)
qed

text \<open>Access to the active grid.\<close>

lemma cells_set_cells [simp]: "cells (set_cells cs t) = cs"
  by (simp add: cells_def set_cells_def)

lemma set_cells_simps [simp]:
  "tm_cols (set_cells cs t) = tm_cols t" "tm_rows (set_cells cs t) = tm_rows t"
  "tm_cur_attrs (set_cells cs t) = tm_cur_attrs t"
  "tm_cursor_row (set_cells cs t) = tm_cursor_row t"
  "tm_cursor_col (set_cells cs t) = tm_cursor_col t"
  "tm_scroll_top (set_cells cs t) = tm_scroll_top t"
  "tm_scroll_bottom (set_cells cs t) = tm_scroll_bottom t"
  "tm_link_table (set_cells cs t) = tm_link_table t"
  "tm_alt_active (set_cells cs t) = tm_alt_active t"
  "tm_autowrap_mode (set_cells cs t) = tm_autowrap_mode t"
  "tm_active_link_id (set_cells cs t) = tm_active_link_id t"
  "tm_saved_cursor_main (set_cells cs t) = tm_saved_cursor_main t"
  "tm_pending_scrollback (set_cells cs t) = tm_pending_scrollback t"
  "tm_capturing_command_output (set_cells cs t) = tm_capturing_command_output t"
  "tm_current_output_line (set_cells cs t) = tm_current_output_line t"
  "tm_alt_active t \<Longrightarrow> tm_main_cells (set_cells cs t) = tm_main_cells t"
  "nlinks (set_cells cs t) = nlinks t" "blank (set_cells cs t) = blank t"
  by (simp_all add: set_cells_def nlinks_def blank_def)

lemma tm_same_set_cells [simp]: "tm_same t (set_cells cs t)"
  by (simp add: tm_same_def)

lemma inv_set_cells:
  "tm_inv t \<Longrightarrow> cells_ok (nlinks t) (tm_cols t * tm_rows t) cs \<Longrightarrow> tm_inv (set_cells cs t)"
  by (simp add: set_cells_def tm_inv_defs)

lemma inv_cells: "tm_inv t \<Longrightarrow> cells_ok (nlinks t) (tm_cols t * tm_rows t) (cells t)"
  by (simp add: cells_def tm_inv_def tm_contents_def)

lemma inv_length_cells: "tm_inv t \<Longrightarrow> length (cells t) = tm_cols t * tm_rows t"
  using inv_cells cells_ok_length by blast

lemma inv_geometry: "tm_inv t \<Longrightarrow> tm_geometry t"
  by (simp add: tm_inv_def)

lemmas geometryD = inv_geometry [unfolded tm_geometry_def]

lemma clear_images_simps [simp]:
  "tm_inv t \<Longrightarrow> tm_inv (clear_images t)" "tm_same t (clear_images t)"
  by (simp_all add: clear_images_def tm_inv_defs tm_same_def)

lemma inv_damage [simp]: "tm_inv (t\<lparr>tm_full_damage_pending := b\<rparr>) = tm_inv t"
  by (simp add: tm_inv_defs)

lemma same_damage [simp]: "tm_same t (t\<lparr>tm_full_damage_pending := b\<rparr>)"
  by (simp add: tm_same_def)

section \<open>Scrolling\<close>

lemma blank_rows_safe:
  assumes "tm_inv t" "start + n \<le> tm_rows t"
  shows "safe (blank_rows start n t) (\<lambda>t'. tm_inv t' \<and> tm_same t t')"
proof -
  from assms(2) have "(start + n) * tm_cols t \<le> tm_cols t * tm_rows t"
    by (simp add: mult.commute)
  moreover have "start * tm_cols t \<le> (start + n) * tm_cols t" by (rule mult_le_mono1) simp
  ultimately show ?thesis
    using assms inv_cells [OF assms(1)]
    by (auto simp: blank_rows_def inv_length_cells intro!: inv_set_cells cells_ok_splice)
qed

lemma copy_row_up_safe:
  assumes "cells_ok k (cols * rows) cs" "row + n < rows" "0 < n"
  shows "safe (copy_row_up cols n row cs) (cells_ok k (cols * rows))"
proof -
  from assms(2) have e: "(row + n) * cols + cols \<le> cols * rows" by (rule grid_row_end)
  from assms(3) have d: "row * cols + cols \<le> (row + n) * cols"
    using mult_le_mono1 [of "row + 1" "row + n" cols] by simp
  show ?thesis
    using assms e d
    by (auto simp: copy_row_up_def Let_def cells_ok_length
        intro!: cells_ok_splice) (auto simp: cells_ok_def dest: in_set_takeD in_set_dropD)
qed

lemma copy_row_down_safe:
  assumes "cells_ok k (cols * rows) cs" "row + n < rows" "0 < n"
  shows "safe (copy_row_down cols n row cs) (cells_ok k (cols * rows))"
proof -
  from assms(2) have e: "(row + n) * cols + cols \<le> cols * rows" by (rule grid_row_end)
  from assms(3) have d: "row * cols + cols \<le> (row + n) * cols"
    using mult_le_mono1 [of "row + 1" "row + n" cols] by simp
  show ?thesis
    using assms e d
    by (auto simp: copy_row_down_def Let_def cells_ok_length
        intro!: cells_ok_splice) (auto simp: cells_ok_def dest: in_set_takeD in_set_dropD)
qed

lemma tm_same_blank [simp]: "tm_same t t' \<Longrightarrow> blank t' = blank t"
  by (simp add: tm_same_def blank_def)

text \<open>Both shifts end by blanking rows of a state that differs in its cells only.\<close>

lemma blank_after_cells:
  assumes "tm_inv t" "start + n \<le> tm_rows t" "cells_ok (nlinks t) (tm_cols t * tm_rows t) cs"
  shows "safe (blank_rows start n (set_cells cs t)) (\<lambda>t'. tm_inv t' \<and> tm_same t t')"
proof -
  have "tm_inv (set_cells cs t)" using assms(1,3) by (rule inv_set_cells)
  then have "safe (blank_rows start n (set_cells cs t))
      (\<lambda>t'. tm_inv t' \<and> tm_same (set_cells cs t) t')"
    by (rule blank_rows_safe) (simp add: assms(2))
  then show ?thesis by (rule safe_mono) (simp add: tm_same_def)
qed

lemma shift_rows_up_eq:
  assumes "rtop \<le> rbot" "rbot < tm_rows t" "0 < n" "m = min n (rbot - rtop + 1)"
  shows "shift_rows_up rtop rbot n t =
    (if m < rbot - rtop + 1 then ofold (copy_row_up (tm_cols t) m) [rtop..<Suc (rbot - m)] (cells t)
     else Some (cells t)) \<bind> (\<lambda>cs. blank_rows (rtop + (rbot - rtop + 1 - m)) m (set_cells cs t))"
  using assms(1-3) unfolding shift_rows_up_def Let_def assms(4) [symmetric]
  by (auto simp: usub_def assms(4) simp del: upt_Suc)

lemma shift_rows_up_safe:
  assumes "tm_inv t"
  shows "safe (shift_rows_up rtop rbot n t) (\<lambda>t'. tm_inv t' \<and> tm_same t t')"
proof (cases "rtop > rbot \<or> rbot \<ge> tm_rows t \<or> n = 0")
  case True
  then show ?thesis using assms by (auto simp: shift_rows_up_def Let_def)
next
  case False
  then have b: "rtop \<le> rbot" "rbot < tm_rows t" "0 < n" by auto
  define m where "m = min n (rbot - rtop + 1)"
  let ?len = "tm_cols t * tm_rows t"
  have m: "0 < m" "m \<le> rbot - rtop + 1" using b by (auto simp: m_def)
  have blk: "safe (blank_rows (rtop + (rbot - rtop + 1 - m)) m (set_cells cs t))
      (\<lambda>t'. tm_inv t' \<and> tm_same t t')" if "cells_ok (nlinks t) ?len cs" for cs
    by (rule blank_after_cells) (use assms b m that in auto)
  have loop: "safe (ofold (copy_row_up (tm_cols t) m) [rtop..<Suc (rbot - m)] (cells t))
      (cells_ok (nlinks t) ?len)" if "m < rbot - rtop + 1"
    by (rule safe_ofold, rule inv_cells [OF assms], rule copy_row_up_safe) (use b m that in auto)
  show ?thesis
    unfolding shift_rows_up_eq [OF b m_def] safe_bind safe_if safe_Some
    by (intro conjI impI safe_mono [OF loop] blk inv_cells [OF assms]; assumption)
qed

lemma shift_rows_down_eq:
  assumes "rtop \<le> rbot" "rbot < tm_rows t" "0 < n" "m = min n (rbot - rtop + 1)"
  shows "shift_rows_down rtop rbot n t =
    (if m < rbot - rtop + 1 then ofold (copy_row_down (tm_cols t) m) (rev [rtop..<Suc (rbot - m)]) (cells t)
     else Some (cells t)) \<bind> (\<lambda>cs. blank_rows rtop m (set_cells cs t))"
  using assms(1-3) unfolding shift_rows_down_def Let_def assms(4) [symmetric]
  by (auto simp: usub_def assms(4) simp del: upt_Suc)

lemma shift_rows_down_safe:
  assumes "tm_inv t"
  shows "safe (shift_rows_down rtop rbot n t) (\<lambda>t'. tm_inv t' \<and> tm_same t t')"
proof (cases "rtop > rbot \<or> rbot \<ge> tm_rows t \<or> n = 0")
  case True
  then show ?thesis using assms by (auto simp: shift_rows_down_def Let_def)
next
  case False
  then have b: "rtop \<le> rbot" "rbot < tm_rows t" "0 < n" by auto
  define m where "m = min n (rbot - rtop + 1)"
  let ?len = "tm_cols t * tm_rows t"
  have m: "0 < m" "m \<le> rbot - rtop + 1" using b by (auto simp: m_def)
  have blk: "safe (blank_rows rtop m (set_cells cs t))
      (\<lambda>t'. tm_inv t' \<and> tm_same t t')" if "cells_ok (nlinks t) ?len cs" for cs
    by (rule blank_after_cells) (use assms b m that in auto)
  have loop: "safe (ofold (copy_row_down (tm_cols t) m) (rev [rtop..<Suc (rbot - m)]) (cells t))
      (cells_ok (nlinks t) ?len)" if "m < rbot - rtop + 1"
    by (rule safe_ofold, rule inv_cells [OF assms], rule copy_row_down_safe) (use b m that in auto)
  show ?thesis
    unfolding shift_rows_down_eq [OF b m_def] safe_bind safe_if safe_Some
    by (intro conjI impI safe_mono [OF loop] blk inv_cells [OF assms]; assumption)
qed

lemma trim_pending_scrollback_inv:
  assumes "tm_inv (t\<lparr>tm_pending_scrollback := []\<rparr>)"
    and "\<forall>row \<in> set (tm_pending_scrollback t). \<forall>c \<in> set row. cell_ok (nlinks t) c"
  shows "tm_inv (trim_pending_scrollback t)"
  using assms
  by (auto simp: trim_pending_scrollback_def Let_def tm_inv_defs SCROLLBACK_LIMIT_def
      dest: in_set_dropD)

text \<open>Copying the rows that leave the screen into the scrollback.\<close>

lemma push_scrollback_safe:
  assumes "tm_inv t" "n \<le> tm_rows t" "cols = tm_cols t"
  shows "safe (ofold (push_scrollback cols) [0..<n] t)
    (\<lambda>t'. \<exists>rs. t' = t\<lparr>tm_pending_scrollback := tm_pending_scrollback t @ rs\<rparr>
          \<and> rs = map (\<lambda>i. take cols (drop (i * cols) (tm_main_cells t))) [0..<n])"
proof -
  have len: "length (tm_main_cells t) = cols * tm_rows t"
    using assms by (simp add: tm_inv_def tm_contents_def cells_ok_def)
  show ?thesis
  proof (rule safe_ofold_upt)
    fix i t'
    assume i: "i < n" and "\<exists>rs. t' = t\<lparr>tm_pending_scrollback := tm_pending_scrollback t @ rs\<rparr>
      \<and> rs = map (\<lambda>i. take cols (drop (i * cols) (tm_main_cells t))) [0..<i]"
    moreover have "i * cols + cols \<le> cols * tm_rows t"
      using i assms(2) by (intro grid_row_end) simp
    ultimately show "safe (push_scrollback cols i t')
      (\<lambda>t'. \<exists>rs. t' = t\<lparr>tm_pending_scrollback := tm_pending_scrollback t @ rs\<rparr>
         \<and> rs = map (\<lambda>i. take cols (drop (i * cols) (tm_main_cells t))) [0..<Suc i])"
      by (auto simp: push_scrollback_def len)
  qed simp_all
qed

lemma scrollback_pushed_inv:
  assumes "tm_inv t" "cols = tm_cols t"
  shows "tm_inv (trim_pending_scrollback (t\<lparr>tm_pending_scrollback := tm_pending_scrollback t @
      map (\<lambda>i. take cols (drop (i * cols) (tm_main_cells t))) ns, tm_total_scrolled_lines := k\<rparr>))"
  by (rule trim_pending_scrollback_inv)
    (use assms in \<open>auto simp: tm_inv_defs cells_ok_def dest: in_set_takeD in_set_dropD\<close>)

lemma tm_same_trim [simp]:
  "\<not> tm_alt_active t \<Longrightarrow> tm_same t (trim_pending_scrollback (t\<lparr>tm_pending_scrollback := rs, tm_total_scrolled_lines := k\<rparr>))"
  by (simp add: tm_same_def trim_pending_scrollback_def Let_def)

lemma scroll_up_region_safe:
  assumes "tm_inv t0"
  shows "safe (scroll_up_region n t0) (\<lambda>t'. tm_inv t' \<and> tm_same t0 t')"
proof -
  define t where "t = clear_images (t0\<lparr>tm_full_damage_pending := True\<rparr>)"
  have t: "tm_inv t" "tm_same t0 t"
    using assms by (simp_all add: t_def clear_images_def tm_inv_defs tm_same_def)
  let ?bot = "tm_scroll_bottom t" and ?top = "tm_scroll_top t"
  let ?n = "min n (?bot - ?top + 1)"
  have g: "?top \<le> ?bot" "?n \<le> tm_rows t" using geometryD [OF t(1)] by auto
  have push: "safe (ofold (push_scrollback (tm_cols t)) [0..<?n] t)
     (\<lambda>t'. tm_inv (trim_pending_scrollback
         (t'\<lparr>tm_total_scrolled_lines := tm_total_scrolled_lines t' + word_of_nat ?n\<rparr>))
       \<and> tm_same t (trim_pending_scrollback
         (t'\<lparr>tm_total_scrolled_lines := tm_total_scrolled_lines t' + word_of_nat ?n\<rparr>)))"
    if "\<not> tm_alt_active t"
    by (rule safe_mono [OF push_scrollback_safe [OF t(1) g(2) refl]])
      (use scrollback_pushed_inv [OF t(1) refl] that in auto)
  have shift: "safe (shift_rows_up ?top ?bot ?n t') (\<lambda>t''. tm_inv t'' \<and> tm_same t0 t'')"
    if "tm_inv t'" "tm_same t t'" for t'
    by (rule safe_mono [OF shift_rows_up_safe [OF that(1)]])
      (use t(2) that(2) in \<open>auto intro: tm_same_trans\<close>)
  show ?thesis
    unfolding scroll_up_region_def t_def [symmetric] Let_def safe_bind safe_if safe_usub safe_Some
    by (intro conjI impI g(1) safe_mono [OF push] shift t(1) tm_same_refl; (elim conjE)?; assumption)
qed

lemma same_via:
  assumes "safe m (\<lambda>t'. tm_inv t' \<and> tm_same t t')" "tm_same t0 t"
  shows "safe m (\<lambda>t'. tm_inv t' \<and> tm_same t0 t')"
  by (rule safe_mono [OF assms(1)]) (use assms(2) tm_same_trans in blast)

lemma cleared:
  assumes "tm_inv t"
  shows "tm_inv (clear_images (t\<lparr>tm_full_damage_pending := b\<rparr>))"
    and "tm_same t (clear_images (t\<lparr>tm_full_damage_pending := b\<rparr>))"
  using assms by (simp_all add: clear_images_def tm_inv_defs tm_same_def)

lemma scroll_down_region_safe:
  "tm_inv t \<Longrightarrow> safe (scroll_down_region n t) (\<lambda>t'. tm_inv t' \<and> tm_same t t')"
  unfolding scroll_down_region_def Let_def
  by (rule same_via, rule shift_rows_down_safe) (simp_all add: cleared)

lemma insert_lines_safe:
  "tm_inv t \<Longrightarrow> safe (insert_lines n t) (\<lambda>t'. tm_inv t' \<and> tm_same t t')"
  unfolding insert_lines_def Let_def
  by (auto intro!: same_via [OF shift_rows_down_safe] simp: cleared)

lemma delete_lines_safe:
  "tm_inv t \<Longrightarrow> safe (delete_lines n t) (\<lambda>t'. tm_inv t' \<and> tm_same t t')"
  unfolding delete_lines_def Let_def
  by (auto intro!: same_via [OF shift_rows_up_safe] simp: cleared)

lemma cursor_down_inv:
  "tm_inv t \<Longrightarrow> tm_cursor_row t < tm_rows t - Suc 0 \<Longrightarrow> tm_inv (t\<lparr>tm_cursor_row := Suc (tm_cursor_row t)\<rparr>)"
  by (simp add: tm_inv_defs)

lemma newline_safe: "tm_inv t \<Longrightarrow> safe (newline t) (\<lambda>t'. tm_inv t' \<and> tm_same t t')"
  using geometryD [of t] scroll_up_region_safe [of t 1]
  by (auto simp: newline_def cursor_down_inv tm_same_def)

section \<open>Editing within a row\<close>

lemma sanitize_wide_row_safe:
  assumes "tm_inv t" "row < tm_rows t"
  shows "safe (sanitize_wide_row cw row t) (\<lambda>t'. tm_inv t' \<and> tm_same t t')"
proof -
  have e: "row * tm_cols t + tm_cols t \<le> tm_cols t * tm_rows t"
    using assms(2) by (rule grid_row_end)
  let ?r = "take (tm_cols t) (drop (row * tm_cols t) (cells t))"
  have "\<forall>c \<in> set ?r. cell_ok (nlinks t) c"
    using inv_cells [OF assms(1)] by (auto simp: cells_ok_def dest: in_set_takeD in_set_dropD)
  then have "cells_ok (nlinks t) (tm_cols t * tm_rows t)
      (vsplice (cells t) (row * tm_cols t) (sanitize_wide_cells cw ?r))"
    using e by (intro cells_ok_splice inv_cells assms cell_ok_sanitize) simp_all
  then show ?thesis
    using e assms by (simp add: sanitize_wide_row_def Let_def inv_length_cells inv_set_cells)
qed

lemma fill_cells_safe:
  "cells_ok k len cs \<Longrightarrow> cell_ok k x \<Longrightarrow> to \<le> len \<Longrightarrow> safe (fill_cells from to x cs) (cells_ok k len)"
  unfolding fill_cells_def
  by (rule safe_ofold) (auto simp: cells_ok_length)

lemma copy_cell_safe:
  "cells_ok k len cs \<Longrightarrow> src < len \<Longrightarrow> dst < len \<Longrightarrow> safe (copy_cell src dst cs) (cells_ok k len)"
  by (auto simp: copy_cell_def cells_ok_length cells_ok_nth)

text \<open>The common end of the three character operations: blank part of the row, repair it.\<close>

lemma edit_row_tail:
  assumes "tm_inv t" "row < tm_rows t" "safe m (cells_ok (nlinks t) (tm_cols t * tm_rows t))"
    and "to \<le> tm_cols t"
  shows "safe m (\<lambda>cs. safe (fill_cells from (row * tm_cols t + to) (blank t) cs)
    (\<lambda>cs. safe (sanitize_wide_row cw row (set_cells cs t)) (\<lambda>t'. tm_inv t' \<and> tm_same t t')))"
proof (rule safe_mono [OF assms(3)], rule safe_mono [OF fill_cells_safe])
  show "row * tm_cols t + to \<le> tm_cols t * tm_rows t"
    using grid_row_end [OF assms(2), of "tm_cols t"] assms(4) by simp
  fix cs
  assume "cells_ok (nlinks t) (tm_cols t * tm_rows t) cs"
  then show "safe (sanitize_wide_row cw row (set_cells cs t)) (\<lambda>t'. tm_inv t' \<and> tm_same t t')"
    using assms(1,2) by (intro same_via [OF sanitize_wide_row_safe] inv_set_cells) simp_all
qed simp_all

lemma insert_chars_safe:
  assumes "tm_inv t"
  shows "safe (insert_chars cw n t) (\<lambda>t'. tm_inv t' \<and> tm_same t t')"
proof -
  let ?row = "tm_cursor_row t" and ?cols = "tm_cols t" and ?len = "tm_cols t * tm_rows t"
  define col where "col = min (tm_cursor_col t) (?cols - 1)"
  define k where "k = min n (?cols - col)"
  have g: "?row < tm_rows t" "0 < ?cols" "col < ?cols" "k \<le> ?cols - col"
    using geometryD [OF assms] by (auto simp: col_def k_def)
  have loop: "safe (ofold (\<lambda>c. copy_cell (?row * ?cols + c) (?row * ?cols + c + k)) (rev [col..<Suc (?cols - 1 - k)]) (cells t))
      (cells_ok (nlinks t) ?len)" if "k < ?cols - col"
  proof (rule safe_ofold, rule inv_cells [OF assms], rule copy_cell_safe)
    fix c
    assume "c \<in> set (rev [col..<Suc (?cols - 1 - k)])"
    then have "c + k < ?cols" using g that by auto
    then show "?row * ?cols + c < ?len" "?row * ?cols + c + k < ?len"
      using grid_index [OF g(1), of c ?cols] grid_index [OF g(1), of "c + k" ?cols]
      by (simp_all add: add.assoc)
  qed
  have mid: "safe (if k < ?cols - col then ofold (\<lambda>c. copy_cell (?row * ?cols + c) (?row * ?cols + c + k)) (rev [col..<Suc (?cols - 1 - k)]) (cells t)
      else Some (cells t)) (cells_ok (nlinks t) ?len)"
    using loop inv_cells [OF assms] by (simp del: upt_Suc)
  have eq: "insert_chars cw n t =
      (if k = 0 then Some t
       else (if k < ?cols - col then ofold (\<lambda>c. copy_cell (?row * ?cols + c) (?row * ?cols + c + k)) (rev [col..<Suc (?cols - 1 - k)]) (cells t)
             else Some (cells t)) \<bind> (\<lambda>cs.
           fill_cells (?row * ?cols + col) (?row * ?cols + (col + k)) (blank t) cs \<bind> (\<lambda>cs.
             sanitize_wide_row cw ?row (set_cells cs t))))"
    using g unfolding insert_chars_def Let_def col_def [symmetric] by (simp add: usub_def k_def [symmetric])
  show ?thesis
  proof (cases "k = 0")
    case False
    show ?thesis
      unfolding eq by (simp only: False if_False safe_bind, rule edit_row_tail [OF assms g(1) mid])
        (use g in simp)
  qed (simp add: eq assms)
qed

lemma delete_chars_safe:
  assumes "tm_inv t"
  shows "safe (delete_chars cw n t) (\<lambda>t'. tm_inv t' \<and> tm_same t t')"
proof -
  let ?row = "tm_cursor_row t" and ?cols = "tm_cols t" and ?len = "tm_cols t * tm_rows t"
  define col where "col = min (tm_cursor_col t) (?cols - 1)"
  define k where "k = min n (?cols - col)"
  have g: "?row < tm_rows t" "0 < ?cols" "col < ?cols" "k \<le> ?cols - col"
    using geometryD [OF assms] by (auto simp: col_def k_def)
  have loop: "safe (ofold (\<lambda>c. copy_cell (?row * ?cols + c + k) (?row * ?cols + c)) [col..<Suc (?cols - 1 - k)] (cells t))
      (cells_ok (nlinks t) ?len)" if "k < ?cols - col"
  proof (rule safe_ofold, rule inv_cells [OF assms], rule copy_cell_safe)
    fix c
    assume "c \<in> set [col..<Suc (?cols - 1 - k)]"
    then have "c + k < ?cols" using g that by auto
    then show "?row * ?cols + c + k < ?len" "?row * ?cols + c < ?len"
      using grid_index [OF g(1), of c ?cols] grid_index [OF g(1), of "c + k" ?cols]
      by (simp_all add: add.assoc)
  qed
  have mid: "safe (if k < ?cols - col then ofold (\<lambda>c. copy_cell (?row * ?cols + c + k) (?row * ?cols + c)) [col..<Suc (?cols - 1 - k)] (cells t)
      else Some (cells t)) (cells_ok (nlinks t) ?len)"
    using loop inv_cells [OF assms] by (simp del: upt_Suc)
  have eq: "delete_chars cw n t =
      (if k = 0 then Some t
       else (if k < ?cols - col then ofold (\<lambda>c. copy_cell (?row * ?cols + c + k) (?row * ?cols + c)) [col..<Suc (?cols - 1 - k)] (cells t)
             else Some (cells t)) \<bind> (\<lambda>cs.
           fill_cells (?row * ?cols + (col + (?cols - col - k))) (?row * ?cols + ?cols) (blank t) cs \<bind> (\<lambda>cs.
             sanitize_wide_row cw ?row (set_cells cs t))))"
    using g unfolding delete_chars_def Let_def col_def [symmetric] by (simp add: usub_def k_def [symmetric])
  show ?thesis
  proof (cases "k = 0")
    case False
    show ?thesis
      unfolding eq by (simp only: False if_False safe_bind, rule edit_row_tail [OF assms g(1) mid])
        (use g in simp)
  qed (simp add: eq assms)
qed

lemma erase_chars_safe:
  assumes "tm_inv t"
  shows "safe (erase_chars cw n t) (\<lambda>t'. tm_inv t' \<and> tm_same t t')"
proof -
  let ?row = "tm_cursor_row t" and ?cols = "tm_cols t"
  define col where "col = min (tm_cursor_col t) (?cols - 1)"
  define k where "k = min n (?cols - col)"
  have g: "?row < tm_rows t" "0 < ?cols" "col < ?cols" "k \<le> ?cols - col"
    using geometryD [OF assms] by (auto simp: col_def k_def)
  have eq: "erase_chars cw n t =
      (if k = 0 then Some t
       else Some (cells t) \<bind> (\<lambda>cs. fill_cells (?row * ?cols + col) (?row * ?cols + (col + k)) (blank t) cs
         \<bind> (\<lambda>cs. sanitize_wide_row cw ?row (set_cells cs t))))"
    using g unfolding erase_chars_def Let_def col_def [symmetric] by (simp add: usub_def k_def [symmetric])
  show ?thesis
  proof (cases "k = 0")
    case False
    have mid: "safe (Some (cells t)) (cells_ok (nlinks t) (?cols * tm_rows t))"
      using inv_cells [OF assms] by simp
    show ?thesis
      unfolding eq by (simp only: False if_False safe_bind, rule edit_row_tail [OF assms g(1) mid])
        (use g in simp)
  qed (simp add: eq assms)
qed

lemma erase_cells_safe:
  assumes "tm_inv t"
  shows "safe (erase_cells start stop t) (\<lambda>t'. tm_inv t' \<and> tm_same t t')"
  unfolding erase_cells_def safe_bind
  by (rule safe_mono [OF fill_cells_safe [OF inv_cells [OF assms]]])
    (simp_all add: inv_length_cells [OF assms] inv_set_cells [OF assms])

section \<open>Saved cursors, the alternate screen, reset\<close>

lemma term_new_inv: "tm_inv (term_new cols rows th)"
  by (simp add: term_new_def Let_def tm_inv_defs saved_ok_def default_tab_stops_def max_def)

lemma reset_all_inv: "tm_inv t \<Longrightarrow> tm_inv (reset_all t)"
  by (simp add: reset_all_def term_new_def Let_def tm_inv_defs saved_ok_def default_tab_stops_def)

lemma switch_to_alt_safe: "tm_inv t \<Longrightarrow> safe (switch_to_alt b t) tm_inv"
  by (auto simp: switch_to_alt_def Let_def tm_inv_defs saved_ok_def capture_cursor_def
      clear_images_def cells_def)

lemma switch_to_main_inv: "tm_inv t \<Longrightarrow> tm_inv (switch_to_main b t)"
  by (auto simp: switch_to_main_def Let_def tm_inv_defs saved_ok_def apply_saved_cursor_def
      clear_images_def split: option.split)

lemma save_cursor_decsc_inv: "tm_inv t \<Longrightarrow> tm_inv (save_cursor_decsc t)"
  by (simp add: save_cursor_decsc_def tm_inv_defs saved_ok_def capture_cursor_def)

lemma restore_cursor_decrc_inv: "tm_inv t \<Longrightarrow> tm_inv (restore_cursor_decrc t)"
  by (auto simp: restore_cursor_decrc_def Let_def tm_inv_defs apply_saved_cursor_def
      split: option.split)

section \<open>Images\<close>

declare evict_images.simps [simp del]

lemma evict_images_keeps:
  "safe (evict_images t) (\<lambda>t'. \<exists>imgs kid kpl.
     t' = t\<lparr>tm_images := imgs, tm_kitty_id_by_placement := kid, tm_kitty_placement_ids := kpl\<rparr> \<and>
     length imgs \<le> MAX_LIVE_IMAGES \<and>
     sum_list (map (\<lambda>img. length (ip_rgba img)) imgs) \<le> MAX_TOTAL_IMAGE_RGBA_BYTES)"
proof (induction t rule: evict_images.induct)
  case (1 t)
  let ?big = "length (tm_images t) > MAX_LIVE_IMAGES \<or> total_image_rgba_bytes t > MAX_TOTAL_IMAGE_RGBA_BYTES"
  show ?case
  proof (cases ?big)
    case True
    then obtain removed rest where imgs: "tm_images t = removed # rest"
      by (cases "tm_images t") (auto simp: total_image_rgba_bytes_def)
    have "evict_images t = evict_images (t\<lparr>tm_images := rest,
        tm_kitty_id_by_placement := filter (\<lambda>e. fst e \<noteq> ip_id removed) (tm_kitty_id_by_placement t),
        tm_kitty_placement_ids := filter (\<lambda>i. i \<noteq> ip_id removed) (tm_kitty_placement_ids t)\<rparr>)"
      using True imgs by (subst evict_images.simps) auto
    then show ?thesis
      using 1 [OF True imgs] by simp
  next
    case False
    then show ?thesis
      by (subst evict_images.simps)
        (auto simp: total_image_rgba_bytes_def intro!: exI [of _ "tm_images t"]
          exI [of _ "tm_kitty_id_by_placement t"] exI [of _ "tm_kitty_placement_ids t"])
  qed
qed

lemma placed_inv:
  assumes "tm_inv t" "length imgs \<le> MAX_LIVE_IMAGES" "row < tm_rows t"
    and "sum_list (map (\<lambda>img. length (ip_rgba img)) imgs) \<le> MAX_TOTAL_IMAGE_RGBA_BYTES"
  shows "tm_inv (t\<lparr>tm_next_image_id := i, tm_images := imgs, tm_kitty_id_by_placement := kid,
    tm_kitty_placement_ids := kpl, tm_cursor_row := row, tm_cursor_col := 0\<rparr>)"
  using assms by (simp add: tm_inv_defs)

lemma push_image_safe:
  assumes "tm_inv t"
  shows "safe (push_image w h rgba t) (\<lambda>(t', _). tm_inv t')"
  unfolding push_image_def Let_def safe_bind safe_usub
proof (intro conjI safe_mono [OF evict_images_keeps])
  have g: "0 < tm_rows t" "0 < tm_cols t" using geometryD [OF assms] by auto
  then show "min (tm_cursor_col t) (tm_cols t - 1) \<le> tm_cols t"
    "min (tm_cursor_row t) (tm_rows t - 1) \<le> tm_rows t" by auto
  show "safe (Some (t'\<lparr>tm_cursor_row := min r (tm_rows t' - 1), tm_cursor_col := 0\<rparr>, i)) (\<lambda>(t', _). tm_inv t')"
    if "\<exists>imgs kid kpl. t' = t\<lparr>tm_next_image_id := j, tm_images := new\<rparr>
      \<lparr>tm_images := imgs, tm_kitty_id_by_placement := kid, tm_kitty_placement_ids := kpl\<rparr> \<and>
      length imgs \<le> MAX_LIVE_IMAGES \<and>
      sum_list (map (\<lambda>img. length (ip_rgba img)) imgs) \<le> MAX_TOTAL_IMAGE_RGBA_BYTES"
    for t' j new r i
    using that g(1) placed_inv [OF assms] by (elim exE conjE) simp
qed

lemma dispatch_kitty_command_safe: "tm_inv t \<Longrightarrow> safe (dispatch_kitty_command cmd t) tm_inv"
proof (cases cmd)
  case (KittyPlace w h rgba kid)
  assume "tm_inv t"
  show ?thesis
    unfolding KittyPlace dispatch_kitty_command.simps safe_bind
    by (rule safe_mono [OF push_image_safe [OF \<open>tm_inv t\<close>]])
      (auto simp: Let_def tm_inv_defs split: option.split)
next
  case KittyDeleteAll
  assume "tm_inv t"
  with KittyDeleteAll show ?thesis
    by (auto simp: tm_inv_defs intro: order_trans [OF length_filter_le]
        order_trans [OF sum_list_filter_le_nat])
next
  case (KittyDeleteId kid)
  assume "tm_inv t"
  with KittyDeleteId show ?thesis
    by (auto simp: tm_inv_defs Let_def intro: order_trans [OF length_filter_le]
        order_trans [OF sum_list_filter_le_nat])
qed simp

section \<open>Resizing\<close>

text \<open>The rows of a grid stored row by row.\<close>

definition grid_rows :: "nat \<Rightarrow> nat \<Rightarrow> 'a list \<Rightarrow> 'a list list" where
  "grid_rows cols rows cs = map (\<lambda>r. take cols (drop (r * cols) cs)) [0..<rows]"

lemma length_grid_rows [simp]: "length (grid_rows cols rows cs) = rows"
  by (simp add: grid_rows_def)

lemma grid_rows_length:
  "length cs = cols * rows \<Longrightarrow> row \<in> set (grid_rows cols rows cs) \<Longrightarrow> length row = cols"
  using grid_row_end [of _ rows cols] by (fastforce simp: grid_rows_def)

lemma grid_rows_set: "row \<in> set (grid_rows cols rows cs) \<Longrightarrow> set row \<subseteq> set cs"
  by (auto simp: grid_rows_def dest: in_set_takeD in_set_dropD)

lemma split_rows_loop:
  assumes "length cs = cols * rows" "n \<le> rows"
  shows "safe (ofold (\<lambda>r acc. do { row \<leftarrow> vslice cs (r * cols) ((r + 1) * cols); Some (acc @ [row]) })
      [0..<n] []) (\<lambda>rs. rs = grid_rows cols n cs)"
proof (rule safe_ofold_upt)
  fix i acc
  assume "i < n" "acc = grid_rows cols i cs"
  moreover have "i * cols + cols \<le> cols * rows" using \<open>i < n\<close> assms(2) by (intro grid_row_end) simp
  ultimately show "safe (do { row \<leftarrow> vslice cs (i * cols) ((i + 1) * cols); Some (acc @ [row]) })
      (\<lambda>rs. rs = grid_rows cols (Suc i) cs)"
    using assms(1) by (simp add: grid_rows_def add.commute)
qed (simp_all add: grid_rows_def)

text \<open>The grid a resize produces, row by row: the rows from \<open>top_removed\<close> on (or all of them and
  blank ones below), each cut or padded to the new width and repaired if cut.\<close>

definition resized_row :: "width_fn \<Rightarrow> nat \<Rightarrow> nat \<Rightarrow> term_cell \<Rightarrow> term_cell list \<Rightarrow> term_cell list" where
  "resized_row cw old_cols new_cols b row =
     (if new_cols < old_cols then sanitize_wide_cells cw (vresize row new_cols b)
      else vresize row new_cols b)"

definition resized_rows ::
  "width_fn \<Rightarrow> nat \<Rightarrow> nat \<Rightarrow> nat \<Rightarrow> nat \<Rightarrow> term_cell \<Rightarrow> term_cell list list \<Rightarrow> term_cell list list" where
  "resized_rows cw old_cols new_cols new_rows top_removed b rs =
     map (resized_row cw old_cols new_cols b)
       (take new_rows (drop (if new_rows < length rs then top_removed else 0) rs)
        @ replicate (new_rows - length rs) (replicate old_cols b))"

lemma resize_grid_eq:
  assumes "length cs = old_cols * old_rows" "top_removed \<le> old_rows - new_rows"
  shows "resize_grid cw cs old_cols old_rows new_cols new_rows top_removed b =
    Some (concat (resized_rows cw old_cols new_cols new_rows top_removed b (grid_rows old_cols old_rows cs)),
          if new_rows < old_rows then take top_removed (grid_rows old_cols old_rows cs) else [])"
proof -
  have loop: "ofold (\<lambda>r acc. do { row \<leftarrow> vslice cs (r * old_cols) ((r + 1) * old_cols); Some (acc @ [row]) })
      [0..<old_rows] [] = Some (grid_rows old_cols old_rows cs)"
    using split_rows_loop [OF assms(1) order_refl] by (auto simp: safe_def)
  show ?thesis
    unfolding resize_grid_def loop resized_rows_def
    using assms(2) by (auto simp: Let_def resized_row_def [abs_def] cong: map_cong)
qed

lemma length_concat_const: "\<forall>r \<in> set rs. length r = n \<Longrightarrow> length (concat rs) = n * length rs"
  by (induction rs) auto

lemma resized_rows_ok:
  assumes "cells_ok k (old_cols * old_rows) cs" "top_removed \<le> old_rows - new_rows" "cell_ok k b"
  shows "cells_ok k (new_cols * new_rows)
    (concat (resized_rows cw old_cols new_cols new_rows top_removed b (grid_rows old_cols old_rows cs)))"
proof -
  let ?rs = "grid_rows old_cols old_rows cs"
  let ?out = "resized_rows cw old_cols new_cols new_rows top_removed b ?rs"
  have len: "length r = new_cols" if "r \<in> set ?out" for r
    using that by (auto simp: resized_rows_def resized_row_def)
  have "length ?out = new_rows"
    using assms(2) by (auto simp: resized_rows_def min_def)
  moreover have "\<forall>c \<in> set r. cell_ok k c" if r: "r \<in> set ?out" for r
  proof -
    from r obtain r0 where "r = resized_row cw old_cols new_cols b r0"
      and "r0 \<in> set ?rs \<or> r0 = replicate old_cols b"
      by (auto simp: resized_rows_def dest: in_set_takeD in_set_dropD)
    moreover from this have "\<forall>c \<in> set r0. cell_ok k c"
      using assms(1,3) grid_rows_set [of r0 old_cols old_rows cs] by (auto simp: cells_ok_def)
    then have "\<forall>c \<in> set (vresize r0 new_cols b). cell_ok k c"
      using set_vresize [of r0 new_cols b] assms(3) by auto
    ultimately show ?thesis by (simp add: resized_row_def cell_ok_sanitize)
  qed
  ultimately show ?thesis
    using length_concat_const [of ?out new_cols] len by (auto simp: cells_ok_def)
qed

lemma tab_resize_safe:
  "safe (ofold (\<lambda>c ts. vset ts c (c mod 8 = 0)) [old..<new] (vresize ts new False)) (\<lambda>ts. length ts = new)"
  by (rule safe_ofold) auto

lemma resize_scroll_region_ok:
  "0 < nr \<Longrightarrow> fst (resize_scroll_region old (nr - Suc 0) st sb) \<le> snd (resize_scroll_region old (nr - Suc 0) st sb)"
  "0 < nr \<Longrightarrow> snd (resize_scroll_region old (nr - Suc 0) st sb) < nr"
  by (auto simp: resize_scroll_region_def Let_def)

lemma shift_row_le: "shift_row m row removed \<le> m"
  by (simp add: shift_row_def)

lemma clamp_col_le: "0 < new \<Longrightarrow> clamp_col old new col \<le> new"
  by (auto simp: clamp_col_def)

lemma shift_row_less: "0 < rows \<Longrightarrow> shift_row (rows - 1) row removed < rows"
  using shift_row_le [of "rows - 1" row removed] by linarith

lemma saved_ok_resize:
  "0 < rows \<Longrightarrow> 0 < cols \<Longrightarrow> saved_ok rows cols (map_option (resize_saved (rows - 1) old cols removed) sc)"
  by (auto simp: saved_ok_def resize_saved_def clamp_col_le shift_row_less simp del: One_nat_def)

definition trimmed :: "'a list \<Rightarrow> 'a list" where
  "trimmed xs = (if length xs > 2 * SCROLLBACK_LIMIT then drop (length xs - SCROLLBACK_LIMIT) xs else xs)"

lemma trim_eq:
  "trim_pending_scrollback t = t\<lparr>tm_pending_scrollback := trimmed (tm_pending_scrollback t)\<rparr>"
  by (simp add: trim_pending_scrollback_def trimmed_def Let_def)

lemma length_trimmed [simp]: "length (trimmed xs) \<le> 2 * SCROLLBACK_LIMIT"
  by (simp add: trimmed_def)

lemma set_trimmed: "set (trimmed xs) \<subseteq> set xs"
  by (auto simp: trimmed_def dest: in_set_dropD)

lemma top_removed_for_le: "top_removed_for new tot ref \<le> tot"
  by (simp add: top_removed_for_def)

lemma resize_preserving_state_safe:
  assumes inv: "tm_inv t"
  shows "safe (resize_preserving_state cw nc0 nr0 t) tm_inv"
proof (cases "max nc0 1 = tm_cols t \<and> max nr0 1 = tm_rows t")
  case True
  with inv show ?thesis by (simp add: resize_preserving_state_def Let_def)
next
  case False
  define nc where "nc = max nc0 1"
  define nr where "nr = max nr0 1"
  have pos: "0 < nc" "0 < nr" by (auto simp: nc_def nr_def)
  from False have ne: "(nc = tm_cols t \<and> nr = tm_rows t) = False" by (auto simp: nc_def nr_def)
  have ok: "cells_ok (nlinks t) (tm_cols t * tm_rows t) (tm_main_cells t)"
    "cells_ok (nlinks t) (tm_cols t * tm_rows t) (tm_alt_cells t)"
    using inv by (simp_all add: tm_inv_def tm_contents_def)
  note grid = resize_grid_eq [OF cells_ok_length [OF ok(1)] top_removed_for_le]
    resize_grid_eq [OF cells_ok_length [OF ok(2)] top_removed_for_le]
  have rows_ok: "\<forall>c \<in> set r. cell_ok (nlinks t) c"
    if "r \<in> set (grid_rows (tm_cols t) (tm_rows t) (tm_main_cells t))" for r
    using grid_rows_set [OF that] ok(1) by (auto simp: cells_ok_def)
  have fin: "tm_inv (clear_images (trim_pending_scrollback
      (t\<lparr>tm_full_damage_pending := True,
         tm_main_cells := concat (resized_rows cw (tm_cols t) nc nr rm (blank t)
           (grid_rows (tm_cols t) (tm_rows t) (tm_main_cells t))),
         tm_alt_cells := concat (resized_rows cw (tm_cols t) nc nr ra (blank t)
           (grid_rows (tm_cols t) (tm_rows t) (tm_alt_cells t))),
         tm_pending_scrollback := tm_pending_scrollback t @
           (if nr < tm_rows t then take rm (grid_rows (tm_cols t) (tm_rows t) (tm_main_cells t)) else []),
         tm_total_scrolled_lines := k\<rparr>)
      \<lparr>tm_cursor_row := shift_row (nr - 1) cr act, tm_cursor_col := clamp_col (tm_cols t) nc cc,
       tm_saved_cursor_main := map_option (resize_saved (nr - 1) (tm_cols t) nc rm) sm,
       tm_saved_cursor_alt := map_option (resize_saved (nr - 1) (tm_cols t) nc ra) sa,
       tm_scroll_top := fst (resize_scroll_region orows (nr - 1) st sb),
       tm_scroll_bottom := snd (resize_scroll_region orows (nr - 1) st sb),
       tm_tab_stops := tabs, tm_cols := nc, tm_rows := nr\<rparr>))"
    if "length tabs = nc" "rm \<le> tm_rows t - nr" "ra \<le> tm_rows t - nr"
    for rm ra k cr act cc sm sa orows st sb tabs
  proof -
    note resized_rows_ok [OF ok(1) that(2) cell_ok_blank [of _ t], where cw = cw and new_cols = nc]
      resized_rows_ok [OF ok(2) that(3) cell_ok_blank [of _ t], where cw = cw and new_cols = nc]
    moreover have "\<forall>r \<in> set (trimmed (tm_pending_scrollback t @
        (if nr < tm_rows t then take rm (grid_rows (tm_cols t) (tm_rows t) (tm_main_cells t)) else []))).
        \<forall>c \<in> set r. cell_ok (nlinks t) c"
      using inv set_trimmed rows_ok by (fastforce simp: tm_inv_def tm_contents_def dest: in_set_takeD)
    ultimately show ?thesis
      using pos that(1) inv
      by (simp add: clear_images_def trim_eq resize_scroll_region_ok tm_inv_defs saved_ok_resize [simplified]
          shift_row_less [simplified] clamp_col_le)
  qed
  show ?thesis
    unfolding resize_preserving_state_def Let_def nc_def [symmetric] nr_def [symmetric] ne if_False
      grid bind.bind_lunit prod.case safe_bind safe_Some
    by (rule safe_mono [OF tab_resize_safe], rule fin) (simp_all add: top_removed_for_le)
qed

end
