(* ===== verification/TermRows.thy ===== *)
theory TermRows
  imports TermInv
begin

text \<open>
  What scrolling does to the screen, row by row: the in-place copies of \<^verbatim>\<open>shift_rows_up\<close>
  and \<^verbatim>\<open>shift_rows_down\<close> against a reference that reads the old screen.
\<close>

definition row_of :: "nat \<Rightarrow> 'a list \<Rightarrow> nat \<Rightarrow> 'a list" where
  "row_of cols cs r = take cols (drop (r * cols) cs)"

definition screen_rows :: "terminal \<Rightarrow> term_cell list list" where
  "screen_rows t = grid_rows (tm_cols t) (tm_rows t) (cells t)"

definition blank_row :: "terminal \<Rightarrow> term_cell list" where
  "blank_row t = replicate (tm_cols t) (blank t)"

text \<open>The reference: inside the region a row comes from \<open>n\<close> rows further down (up), or is blank.\<close>

definition rows_scrolled_up :: "nat \<Rightarrow> nat \<Rightarrow> nat \<Rightarrow> 'a \<Rightarrow> 'a list \<Rightarrow> 'a list" where
  "rows_scrolled_up rtop rbot n b rs =
     map (\<lambda>r. if rtop \<le> r \<and> r \<le> rbot then (if r + n \<le> rbot then rs ! (r + n) else b) else rs ! r)
       [0..<length rs]"

definition rows_scrolled_down :: "nat \<Rightarrow> nat \<Rightarrow> nat \<Rightarrow> 'a \<Rightarrow> 'a list \<Rightarrow> 'a list" where
  "rows_scrolled_down rtop rbot n b rs =
     map (\<lambda>r. if rtop \<le> r \<and> r \<le> rbot then (if rtop + n \<le> r then rs ! (r - n) else b) else rs ! r)
       [0..<length rs]"

lemma nth_screen_rows: "r < tm_rows t \<Longrightarrow> screen_rows t ! r = row_of (tm_cols t) (cells t) r"
  by (simp add: screen_rows_def grid_rows_def row_of_def)

lemma length_row_of: "length cs = cols * rows \<Longrightarrow> r < rows \<Longrightarrow> length (row_of cols cs r) = cols"
  using grid_row_end [of r rows cols] by (simp add: row_of_def)

lemma nth_row_of:
  "length cs = cols * rows \<Longrightarrow> r < rows \<Longrightarrow> j < cols \<Longrightarrow> row_of cols cs r ! j = cs ! (r * cols + j)"
  using grid_row_end [of r rows cols] by (simp add: row_of_def)

lemma index_in_row:
  "j < cols \<Longrightarrow> d * cols \<le> r * cols + j \<and> r * cols + j < d * cols + k * cols \<longleftrightarrow> d \<le> r \<and> r < d + (k::nat)"
proof -
  assume j: "j < cols"
  have "d * cols \<le> r * cols + j \<longleftrightarrow> d \<le> r"
  proof
    assume "d * cols \<le> r * cols + j"
    with j have "d * cols < Suc r * cols" by simp
    then have "d < Suc r" by (simp only: mult_less_cancel2)
    then show "d \<le> r" by simp
  qed (simp add: trans_le_add1 mult_le_mono1)
  moreover have "r * cols + j < (d + k) * cols \<longleftrightarrow> r < d + k"
  proof
    assume "r * cols + j < (d + k) * cols"
    then have "r * cols < (d + k) * cols" by linarith
    then show "r < d + k" by simp
  next
    assume "r < d + k"
    then have "(r + 1) * cols \<le> (d + k) * cols" by (intro mult_le_mono1) simp
    with j show "r * cols + j < (d + k) * cols" by simp
  qed
  ultimately show ?thesis by (simp add: add_mult_distrib)
qed

lemma row_of_splice:
  assumes "length cs = cols * rows" "length ys = cols" "d < rows" "r < rows"
  shows "row_of cols (vsplice cs (d * cols) ys) r = (if r = d then ys else row_of cols cs r)"
proof -
  have e: "d * cols + length ys \<le> length cs" using grid_row_end [OF assms(3), of cols] assms by simp
  have len: "length (vsplice cs (d * cols) ys) = cols * rows" using e assms(1) by simp
  show ?thesis
  proof (rule nth_equalityI)
    show "length (row_of cols (vsplice cs (d * cols) ys) r) = length (if r = d then ys else row_of cols cs r)"
      using assms(2) length_row_of [OF len assms(4)] length_row_of [OF assms(1,4)] by simp
    fix j
    assume "j < length (row_of cols (vsplice cs (d * cols) ys) r)"
    then have j: "j < cols" using length_row_of [OF len assms(4)] by simp
    have "r * cols + j < length cs" using grid_index [OF assms(4) j] assms(1) by simp
    then show "row_of cols (vsplice cs (d * cols) ys) r ! j = (if r = d then ys else row_of cols cs r) ! j"
      using index_in_row [OF j, of d r 1] assms j e
      by (auto simp: nth_row_of [OF len] nth_row_of nth_vsplice)
  qed
qed

lemma row_of_fill:
  assumes "length cs = cols * rows" "start + n \<le> rows" "r < rows"
  shows "row_of cols (vsplice cs (start * cols) (replicate (n * cols) x)) r =
    (if start \<le> r \<and> r < start + n then replicate cols x else row_of cols cs r)"
proof -
  have "(start + n) * cols \<le> rows * cols" using assms(2) by (rule mult_le_mono1)
  then have e: "start * cols + n * cols \<le> length cs"
    by (simp only: assms(1) add_mult_distrib mult.commute [of rows])
  let ?cs = "vsplice cs (start * cols) (replicate (n * cols) x)"
  have len: "length ?cs = cols * rows" using e assms(1) by simp
  show ?thesis
  proof (rule nth_equalityI)
    show "length (row_of cols ?cs r) =
        length (if start \<le> r \<and> r < start + n then replicate cols x else row_of cols cs r)"
      using length_row_of [OF len assms(3)] length_row_of [OF assms(1,3)] by simp
    fix j
    assume "j < length (row_of cols ?cs r)"
    then have j: "j < cols" using length_row_of [OF len assms(3)] by simp
    have "r * cols + j < length cs" using grid_index [OF assms(3) j] assms(1) by simp
    then show "row_of cols ?cs r ! j =
        (if start \<le> r \<and> r < start + n then replicate cols x else row_of cols cs r) ! j"
      using index_in_row [OF j, of start r n] assms j e
      by (auto simp: nth_row_of [OF len] nth_row_of nth_vsplice)
  qed
qed

section \<open>The copy loops\<close>

definition rows_after :: "nat \<Rightarrow> nat \<Rightarrow> 'a list \<Rightarrow> (nat \<Rightarrow> nat) \<Rightarrow> 'a list \<Rightarrow> bool" where
  "rows_after cols rows cs src cs' \<longleftrightarrow>
     length cs' = cols * rows \<and> (\<forall>r < rows. row_of cols cs' r = row_of cols cs (src r))"

lemma rows_after_copy:
  assumes "rows_after cols rows cs src cs'" "s < rows" "d < rows"
  shows "rows_after cols rows cs (src(d := src s)) (vsplice cs' (d * cols) (row_of cols cs' s))"
proof -
  have len: "length cs' = cols * rows" using assms(1) by (simp add: rows_after_def)
  note l = length_row_of [OF len assms(2)]
  have "length (vsplice cs' (d * cols) (row_of cols cs' s)) = cols * rows"
    using grid_row_end [OF assms(3), of cols] l len by simp
  moreover have "row_of cols (vsplice cs' (d * cols) (row_of cols cs' s)) r =
      row_of cols cs ((src(d := src s)) r)" if "r < rows" for r
    using row_of_splice [OF len l assms(3) that] assms that by (simp add: rows_after_def)
  ultimately show ?thesis by (simp add: rows_after_def)
qed

lemma copy_row_up_rows:
  assumes "rows_after cols rows cs src cs'" "row + n < rows" "0 < n"
  shows "safe (copy_row_up cols n row cs') (rows_after cols rows cs (src(row := src (row + n))))"
proof -
  have len: "length cs' = cols * rows" using assms(1) by (simp add: rows_after_def)
  have e: "(row + n) * cols + cols \<le> cols * rows" using assms(2) by (rule grid_row_end)
  have d: "row * cols + cols \<le> (row + n) * cols"
    using assms(3) mult_le_mono1 [of "row + 1" "row + n" cols] by simp
  have "rows_after cols rows cs (src(row := src (row + n)))
      (vsplice cs' (row * cols) (row_of cols cs' (row + n)))"
    using assms(1,2) by (intro rows_after_copy) auto
  then show ?thesis
    using e d len assms(2) by (auto simp: copy_row_up_def row_of_def Let_def)
qed

lemma copy_row_down_rows:
  assumes "rows_after cols rows cs src cs'" "row + n < rows" "0 < n"
  shows "safe (copy_row_down cols n row cs') (rows_after cols rows cs (src(row + n := src row)))"
proof -
  have len: "length cs' = cols * rows" using assms(1) by (simp add: rows_after_def)
  have e: "(row + n) * cols + cols \<le> cols * rows" using assms(2) by (rule grid_row_end)
  have d: "row * cols + cols \<le> (row + n) * cols"
    using assms(3) mult_le_mono1 [of "row + 1" "row + n" cols] by simp
  have "rows_after cols rows cs (src(row + n := src row))
      (vsplice cs' ((row + n) * cols) (row_of cols cs' row))"
    using assms(1,2) by (intro rows_after_copy) auto
  then show ?thesis
    using e d len assms(2) by (auto simp: copy_row_down_def row_of_def Let_def)
qed

lemma rows_after_cong:
  "rows_after cols rows cs src cs' \<Longrightarrow> (\<And>r. r < rows \<Longrightarrow> src r = src' r) \<Longrightarrow> rows_after cols rows cs src' cs'"
  by (simp add: rows_after_def)

lemma copy_up_loop:
  assumes "length cs = cols * rows" "rtop + n \<le> rbot" "rbot < rows" "0 < n"
  shows "safe (ofold (copy_row_up cols n) [rtop..<Suc (rbot - n)] cs)
    (rows_after cols rows cs (\<lambda>r. if rtop \<le> r \<and> r + n \<le> rbot then r + n else r))"
proof -
  have "safe (ofold (copy_row_up cols n) [rtop..<Suc (rbot - n)] cs)
    (rows_after cols rows cs (\<lambda>r. if rtop \<le> r \<and> r < Suc (rbot - n) then r + n else r))"
  proof (rule safe_ofold_upt
      [where I = "\<lambda>i. rows_after cols rows cs (\<lambda>r. if rtop \<le> r \<and> r < i then r + n else r)"])
    fix i cs'
    assume i: "rtop \<le> i" "i < Suc (rbot - n)"
      and "rows_after cols rows cs (\<lambda>r. if rtop \<le> r \<and> r < i then r + n else r) cs'"
    then have "safe (copy_row_up cols n i cs')
        (rows_after cols rows cs ((\<lambda>r. if rtop \<le> r \<and> r < i then r + n else r)(i := i + n)))"
      using copy_row_up_rows [of cols rows cs "\<lambda>r. if rtop \<le> r \<and> r < i then r + n else r" cs' i n]
        assms by simp
    then show "safe (copy_row_up cols n i cs')
        (rows_after cols rows cs (\<lambda>r. if rtop \<le> r \<and> r < Suc i then r + n else r))"
      by (rule safe_mono) (erule rows_after_cong, use i in auto)
  qed (use assms in \<open>auto simp: rows_after_def\<close>)
  then show ?thesis
    by (rule safe_mono) (erule rows_after_cong, use assms in auto)
qed

lemma copy_down_loop:
  assumes "length cs = cols * rows" "rtop + n \<le> rbot" "rbot < rows" "0 < n"
  shows "safe (ofold (copy_row_down cols n) (rev [rtop..<Suc (rbot - n)]) cs)
    (rows_after cols rows cs (\<lambda>r. if rtop + n \<le> r \<and> r \<le> rbot then r - n else r))"
proof (rule safe_ofold_downt
    [where I = "\<lambda>i. rows_after cols rows cs (\<lambda>r. if i + n \<le> r \<and> r \<le> rbot then r - n else r)"])
  fix i cs'
  assume i: "rtop \<le> i" "i < Suc (rbot - n)"
    and "rows_after cols rows cs (\<lambda>r. if Suc i + n \<le> r \<and> r \<le> rbot then r - n else r) cs'"
  then have "safe (copy_row_down cols n i cs')
      (rows_after cols rows cs ((\<lambda>r. if Suc i + n \<le> r \<and> r \<le> rbot then r - n else r)(i + n := i)))"
    using copy_row_down_rows
        [of cols rows cs "\<lambda>r. if Suc i + n \<le> r \<and> r \<le> rbot then r - n else r" cs' i n] assms
    by simp
  then show "safe (copy_row_down cols n i cs')
      (rows_after cols rows cs (\<lambda>r. if i + n \<le> r \<and> r \<le> rbot then r - n else r))"
    by (rule safe_mono) (erule rows_after_cong, use i assms in auto)
qed (use assms in \<open>auto simp: rows_after_def\<close>)

section \<open>Scrolling as a function of the rows\<close>

lemma length_screen_rows: "length (screen_rows t) = tm_rows t"
  by (simp add: screen_rows_def)

lemma blank_rows_rows:
  assumes "length cs = tm_cols t * tm_rows t" "start + n \<le> tm_rows t"
  shows "safe (blank_rows start n (set_cells cs t)) (\<lambda>t'.
    screen_rows t' = map (\<lambda>r. if start \<le> r \<and> r < start + n then blank_row t else row_of (tm_cols t) cs r)
      [0..<tm_rows t])"
proof (cases "n = 0")
  case False
  have "(start + n) * tm_cols t \<le> tm_rows t * tm_cols t"
    using assms(2) by (rule mult_le_mono1)
  then have le: "start * tm_cols t \<le> (start + n) * tm_cols t" "(start + n) * tm_cols t \<le> length cs"
    by (simp_all add: assms(1) mult.commute [of "tm_cols t"])
  have d: "(start + n) * tm_cols t - start * tm_cols t = n * tm_cols t"
    by (simp add: add_mult_distrib)
  have "grid_rows (tm_cols t) (tm_rows t) (vsplice cs (start * tm_cols t) (replicate (n * tm_cols t) (blank t)))
      = map (\<lambda>r. if start \<le> r \<and> r < start + n then blank_row t else row_of (tm_cols t) cs r) [0..<tm_rows t]"
    unfolding grid_rows_def row_of_def [symmetric] blank_row_def
    by (rule map_cong) (simp_all add: row_of_fill [OF assms])
  with False le show ?thesis
    by (simp add: blank_rows_def screen_rows_def d)
qed (auto simp: blank_rows_def screen_rows_def grid_rows_def row_of_def)

lemma shift_rows_up_rows:
  assumes "tm_inv t" "rtop \<le> rbot" "rbot < tm_rows t" "0 < n"
  shows "safe (shift_rows_up rtop rbot n t) (\<lambda>t'.
    screen_rows t' = rows_scrolled_up rtop rbot n (blank_row t) (screen_rows t))"
proof -
  define m where "m = min n (rbot - rtop + 1)"
  have m: "0 < m" "m \<le> rbot - rtop + 1" using assms(4) by (auto simp: m_def)
  let ?cols = "tm_cols t" and ?rows = "tm_rows t"
  note len = inv_length_cells [OF assms(1)]
  have loop: "safe (if m < rbot - rtop + 1 then ofold (copy_row_up ?cols m) [rtop..<Suc (rbot - m)] (cells t)
      else Some (cells t)) (rows_after ?cols ?rows (cells t) (\<lambda>r. if rtop \<le> r \<and> r + m \<le> rbot then r + m else r))"
  proof (cases "m < rbot - rtop + 1")
    case True
    then have "rtop + m \<le> rbot" using assms(2) by linarith
    then show ?thesis
      using copy_up_loop [OF len _ assms(3) m(1), of rtop] True by (simp del: upt_Suc)
  next
    case False
    then have "\<not> rtop + m \<le> rbot" using assms(2) by linarith
    then have "(\<lambda>r. if rtop \<le> r \<and> r + m \<le> rbot then r + m else r) = (\<lambda>r. r)" by auto
    with False len show ?thesis by (simp add: rows_after_def)
  qed
  have fin: "safe (blank_rows (rtop + (rbot - rtop + 1 - m)) m (set_cells cs t)) (\<lambda>t'.
      screen_rows t' = rows_scrolled_up rtop rbot n (blank_row t) (screen_rows t))"
    if "rows_after ?cols ?rows (cells t) (\<lambda>r. if rtop \<le> r \<and> r + m \<le> rbot then r + m else r) cs" for cs
  proof (rule safe_mono [OF blank_rows_rows])
    show "length cs = ?cols * ?rows" using that by (simp add: rows_after_def)
    show "rtop + (rbot - rtop + 1 - m) + m \<le> ?rows" using assms(2,3) m by linarith
    show "screen_rows t' = rows_scrolled_up rtop rbot n (blank_row t) (screen_rows t)"
      if t': "screen_rows t' = map (\<lambda>r. if rtop + (rbot - rtop + 1 - m) \<le> r \<and> r < rtop + (rbot - rtop + 1 - m) + m
        then blank_row t else row_of ?cols cs r) [0..<?rows]" for t'
      unfolding t' rows_scrolled_up_def
      using \<open>rows_after ?cols ?rows (cells t) (\<lambda>r. if rtop \<le> r \<and> r + m \<le> rbot then r + m else r) cs\<close> assms(2,3) m
      by (auto simp: rows_after_def length_screen_rows nth_screen_rows m_def)
  qed
  show ?thesis
    unfolding shift_rows_up_eq [OF assms(2-4) m_def] safe_bind by (rule safe_mono [OF loop fin])
qed

lemma shift_rows_down_rows:
  assumes "tm_inv t" "rtop \<le> rbot" "rbot < tm_rows t" "0 < n"
  shows "safe (shift_rows_down rtop rbot n t) (\<lambda>t'.
    screen_rows t' = rows_scrolled_down rtop rbot n (blank_row t) (screen_rows t))"
proof -
  define m where "m = min n (rbot - rtop + 1)"
  have m: "0 < m" "m \<le> rbot - rtop + 1" using assms(4) by (auto simp: m_def)
  let ?cols = "tm_cols t" and ?rows = "tm_rows t"
  note len = inv_length_cells [OF assms(1)]
  have loop: "safe (if m < rbot - rtop + 1 then ofold (copy_row_down ?cols m) (rev [rtop..<Suc (rbot - m)]) (cells t)
      else Some (cells t)) (rows_after ?cols ?rows (cells t) (\<lambda>r. if rtop + m \<le> r \<and> r \<le> rbot then r - m else r))"
  proof (cases "m < rbot - rtop + 1")
    case True
    then have "rtop + m \<le> rbot" using assms(2) by linarith
    then show ?thesis
      using copy_down_loop [OF len _ assms(3) m(1), of rtop] True by (simp del: upt_Suc)
  next
    case False
    then have "\<not> rtop + m \<le> rbot" using assms(2) by linarith
    then have "(\<lambda>r. if rtop + m \<le> r \<and> r \<le> rbot then r - m else r) = (\<lambda>r. r)" by auto
    with False len show ?thesis by (simp add: rows_after_def)
  qed
  have fin: "safe (blank_rows (rtop) m (set_cells cs t)) (\<lambda>t'.
      screen_rows t' = rows_scrolled_down rtop rbot n (blank_row t) (screen_rows t))"
    if "rows_after ?cols ?rows (cells t) (\<lambda>r. if rtop + m \<le> r \<and> r \<le> rbot then r - m else r) cs" for cs
  proof (rule safe_mono [OF blank_rows_rows])
    show "length cs = ?cols * ?rows" using that by (simp add: rows_after_def)
    show "rtop + m \<le> ?rows" using assms(2,3) m by linarith
    show "screen_rows t' = rows_scrolled_down rtop rbot n (blank_row t) (screen_rows t)"
      if t': "screen_rows t' = map (\<lambda>r. if rtop \<le> r \<and> r < rtop + m
        then blank_row t else row_of ?cols cs r) [0..<?rows]" for t'
      unfolding t' rows_scrolled_down_def
      using \<open>rows_after ?cols ?rows (cells t) (\<lambda>r. if rtop + m \<le> r \<and> r \<le> rbot then r - m else r) cs\<close> assms(2,3) m
      by (auto simp: rows_after_def length_screen_rows nth_screen_rows m_def)
  qed
  show ?thesis
    unfolding shift_rows_down_eq [OF assms(2-4) m_def] safe_bind by (rule safe_mono [OF loop fin])
qed

lemma rows_scrolled_0: "rows_scrolled_up rtop rbot 0 b rs = rs" "rows_scrolled_down rtop rbot 0 b rs = rs"
  by (auto simp: rows_scrolled_up_def rows_scrolled_down_def intro: nth_equalityI)

lemma set_cells_set_cells [simp]: "set_cells cs (set_cells cs' t) = set_cells cs t"
  by (simp add: set_cells_def)

lemma set_cells_cells [simp]: "set_cells (cells t) t = t"
  by (simp add: set_cells_def cells_def)

text \<open>A shift changes the cells of the active screen and nothing else.\<close>

lemma blank_rows_frame: "blank_rows start n t = Some t' \<Longrightarrow> \<exists>cs. t' = set_cells cs t"
  by (auto simp: blank_rows_def split: if_splits Option.bind_splits) (metis set_cells_cells)

lemma shift_rows_up_frame: "shift_rows_up rtop rbot n t = Some t' \<Longrightarrow> \<exists>cs. t' = set_cells cs t"
  by (auto simp: shift_rows_up_def Let_def split: if_splits Option.bind_splits dest!: blank_rows_frame)
    (metis set_cells_cells)+

lemma shift_rows_down_frame: "shift_rows_down rtop rbot n t = Some t' \<Longrightarrow> \<exists>cs. t' = set_cells cs t"
  by (auto simp: shift_rows_down_def Let_def split: if_splits Option.bind_splits dest!: blank_rows_frame)
    (metis set_cells_cells)+

lemma shift_up_exact:
  assumes "tm_inv t" "rtop \<le> rbot" "rbot < tm_rows t"
  shows "safe (shift_rows_up rtop rbot n t) (\<lambda>t'.
    screen_rows t' = rows_scrolled_up rtop rbot n (blank_row t) (screen_rows t) \<and>
    tm_pending_scrollback t' = tm_pending_scrollback t)"
proof (cases "n = 0")
  case False
  with shift_rows_up_rows [OF assms] have "safe (shift_rows_up rtop rbot n t) (\<lambda>t'.
      screen_rows t' = rows_scrolled_up rtop rbot n (blank_row t) (screen_rows t))" by simp
  moreover from this have "safe (shift_rows_up rtop rbot n t)
      (\<lambda>t'. tm_pending_scrollback t' = tm_pending_scrollback t)"
    using shift_rows_up_frame [of rtop rbot n t] by (auto simp: safe_def)
  ultimately show ?thesis by (rule safe_conj)
qed (use assms in \<open>simp add: shift_rows_up_def Let_def rows_scrolled_0\<close>)

lemma shift_down_exact:
  assumes "tm_inv t" "rtop \<le> rbot" "rbot < tm_rows t"
  shows "safe (shift_rows_down rtop rbot n t) (\<lambda>t'.
    screen_rows t' = rows_scrolled_down rtop rbot n (blank_row t) (screen_rows t) \<and>
    tm_pending_scrollback t' = tm_pending_scrollback t)"
proof (cases "n = 0")
  case False
  with shift_rows_down_rows [OF assms] have "safe (shift_rows_down rtop rbot n t) (\<lambda>t'.
      screen_rows t' = rows_scrolled_down rtop rbot n (blank_row t) (screen_rows t))" by simp
  moreover from this have "safe (shift_rows_down rtop rbot n t)
      (\<lambda>t'. tm_pending_scrollback t' = tm_pending_scrollback t)"
    using shift_rows_down_frame [of rtop rbot n t] by (auto simp: safe_def)
  ultimately show ?thesis by (rule safe_conj)
qed (use assms in \<open>simp add: shift_rows_down_def Let_def rows_scrolled_0\<close>)

lemma screen_rows_cong:
  "cells t' = cells t \<Longrightarrow> tm_same t t' \<Longrightarrow> screen_rows t' = screen_rows t \<and> blank_row t' = blank_row t"
  by (simp add: screen_rows_def blank_row_def blank_def tm_same_def)

lemma clear_images_fields [simp]:
  "cells (clear_images (t\<lparr>tm_full_damage_pending := b\<rparr>)) = cells t"
  "tm_pending_scrollback (clear_images (t\<lparr>tm_full_damage_pending := b\<rparr>)) = tm_pending_scrollback t"
  "tm_main_cells (clear_images (t\<lparr>tm_full_damage_pending := b\<rparr>)) = tm_main_cells t"
  by (simp_all add: clear_images_def cells_def)

lemma cells_pending [simp]:
  "cells (t\<lparr>tm_pending_scrollback := rs, tm_total_scrolled_lines := k\<rparr>) = cells t"
  by (simp add: cells_def)

text \<open>The lines that leave the top of the main screen are its first rows.\<close>

lemma take_screen_rows:
  "\<not> tm_alt_active t \<Longrightarrow> n \<le> tm_rows t \<Longrightarrow>
   map (\<lambda>i. take (tm_cols t) (drop (i * tm_cols t) (tm_main_cells t))) [0..<n] = take n (screen_rows t)"
  by (simp add: screen_rows_def grid_rows_def cells_def take_map)

text \<open>C28. Scrolling up (\<^verbatim>\<open>scroll_up_region\<close>, for LF at the bottom of the region and
  \<^verbatim>\<open>CSI S\<close>), in every state the terminal can be in and for any number of lines: the in-place
  row copies do to the screen exactly what the reference does that takes each row of the region
  from \<open>n\<close> rows further down and blanks the rest; rows outside the region stay; and exactly when
  the region starts at the top of the main screen, the rows that left are appended to the
  scrollback in order, which keeps its newest thousand lines once it has grown past two thousand.\<close>

theorem scroll_up_exact:
  assumes "tm_inv t"
  shows "\<exists>t'. scroll_up_region n t = Some t' \<and>
    screen_rows t' = rows_scrolled_up (tm_scroll_top t) (tm_scroll_bottom t)
      (min n (tm_scroll_bottom t - tm_scroll_top t + 1)) (blank_row t) (screen_rows t) \<and>
    tm_pending_scrollback t' =
      (if tm_scroll_top t = 0 \<and> \<not> tm_alt_active t
       then trimmed (tm_pending_scrollback t @ take (min n (tm_scroll_bottom t + 1)) (screen_rows t))
       else tm_pending_scrollback t)"
proof -
  let ?bot = "tm_scroll_bottom t" and ?top = "tm_scroll_top t"
  let ?n = "min n (?bot - ?top + 1)"
  define u where "u = clear_images (t\<lparr>tm_full_damage_pending := True\<rparr>)"
  have u: "tm_inv u" "tm_same t u" "cells u = cells t" "tm_pending_scrollback u = tm_pending_scrollback t"
    using cleared [OF assms] by (simp_all add: u_def)
  have su: "tm_scroll_top u = ?top" "tm_scroll_bottom u = ?bot" "tm_alt_active u = tm_alt_active t"
    "tm_rows u = tm_rows t" using u(2) by (simp_all add: tm_same_def)
  have g: "?top \<le> ?bot" "?bot < tm_rows t" "?n \<le> tm_rows u"
    using geometryD [OF assms] su by auto
  show ?thesis
  proof (cases "?top = 0 \<and> \<not> tm_alt_active t")
    case True
    let ?rs = "tm_pending_scrollback u @ map (\<lambda>i. take (tm_cols u) (drop (i * tm_cols u) (tm_main_cells u))) [0..<?n]"
    let ?k = "tm_total_scrolled_lines u + word_of_nat ?n"
    define v where "v = trim_pending_scrollback (u\<lparr>tm_pending_scrollback := ?rs, tm_total_scrolled_lines := ?k\<rparr>)"
    have push: "ofold (push_scrollback (tm_cols u)) [0..<?n] u = Some (u\<lparr>tm_pending_scrollback := ?rs\<rparr>)"
      using push_scrollback_safe [OF u(1) g(3) refl] by (auto simp: safe_def)
    have v: "tm_inv v" "tm_same u v" "cells v = cells u"
      using scrollback_pushed_inv [OF u(1) refl] True su(3)
      by (simp_all add: v_def trim_eq tm_same_def cells_def)
    have "tm_pending_scrollback v = trimmed (tm_pending_scrollback t @ take ?n (screen_rows t))"
      using take_screen_rows [of u ?n] True g su u screen_rows_cong [OF u(3,2)]
      by (simp add: v_def trim_eq)
    moreover have "scroll_up_region n t = shift_rows_up ?top ?bot ?n v"
      unfolding scroll_up_region_def u_def [symmetric] Let_def
      using True g(1) push by (simp add: su usub_def v_def)
    moreover have "safe (shift_rows_up ?top ?bot ?n v) (\<lambda>t'.
        screen_rows t' = rows_scrolled_up ?top ?bot ?n (blank_row v) (screen_rows v) \<and>
        tm_pending_scrollback t' = tm_pending_scrollback v)"
      using v g su by (intro shift_up_exact) (auto simp: tm_same_def)
    moreover have "screen_rows v = screen_rows t" "blank_row v = blank_row t"
      using screen_rows_cong [OF v(3,2)] screen_rows_cong [OF u(3,2)] by simp_all
    ultimately show ?thesis using True by (auto simp: safe_def)
  next
    case False
    have "scroll_up_region n t = shift_rows_up ?top ?bot ?n u"
      unfolding scroll_up_region_def u_def [symmetric] Let_def
      using False g(1) by (auto simp: su usub_def)
    moreover have "safe (shift_rows_up ?top ?bot ?n u) (\<lambda>t'.
        screen_rows t' = rows_scrolled_up ?top ?bot ?n (blank_row u) (screen_rows u) \<and>
        tm_pending_scrollback t' = tm_pending_scrollback u)"
      using u g su by (intro shift_up_exact) auto
    ultimately show ?thesis
      using screen_rows_cong [OF u(3,2)] False u(4) by (auto simp: safe_def)
  qed
qed

theorem scroll_up_exact_witness:
  "\<exists>t'. scroll_up_region 1 (term_new 2 3 demo_theme) = Some t' \<and> length (tm_pending_scrollback t') = 1"
  using scroll_up_exact [OF term_new_inv, of 1 2 3 demo_theme]
  by (auto simp: term_new_def Let_def trimmed_def length_screen_rows limit_defs)

definition cursor_in_region :: "terminal \<Rightarrow> bool" where
  "cursor_in_region t \<longleftrightarrow> tm_scroll_top t \<le> tm_cursor_row t \<and> tm_cursor_row t \<le> tm_scroll_bottom t"

text \<open>Insertion and deletion of lines at the cursor (\<^verbatim>\<open>CSI L\<close>, \<^verbatim>\<open>CSI M\<close>) and
  scrolling down (\<^verbatim>\<open>CSI T\<close>): outside the scroll region they do nothing; inside it they are
  the reference shift of the rows from the cursor (from the top of the region for scrolling down) to
  the bottom of the region, for every count; none of them touches the scrollback.\<close>

lemma line_edits_exact:
  assumes "tm_inv t"
  shows "\<exists>t1 t2 t3. insert_lines n t = Some t1 \<and> delete_lines n t = Some t2 \<and>
    scroll_down_region n t = Some t3 \<and>
    screen_rows t1 = (if cursor_in_region t
      then rows_scrolled_down (tm_cursor_row t) (tm_scroll_bottom t) n (blank_row t) (screen_rows t)
      else screen_rows t) \<and>
    screen_rows t2 = (if cursor_in_region t
      then rows_scrolled_up (tm_cursor_row t) (tm_scroll_bottom t) n (blank_row t) (screen_rows t)
      else screen_rows t) \<and>
    screen_rows t3 =
      rows_scrolled_down (tm_scroll_top t) (tm_scroll_bottom t) n (blank_row t) (screen_rows t) \<and>
    (\<forall>t' \<in> {t1, t2, t3}. tm_pending_scrollback t' = tm_pending_scrollback t)"
proof -
  define u where "u = clear_images (t\<lparr>tm_full_damage_pending := True\<rparr>)"
  have u: "tm_inv u" "tm_same t u" "cells u = cells t" "tm_pending_scrollback u = tm_pending_scrollback t"
    using cleared [OF assms] by (simp_all add: u_def)
  have su: "tm_scroll_top u = tm_scroll_top t" "tm_scroll_bottom u = tm_scroll_bottom t"
    "tm_rows u = tm_rows t" using u(2) by (simp_all add: tm_same_def)
  have g: "tm_scroll_top t \<le> tm_scroll_bottom t" "tm_scroll_bottom t < tm_rows t"
    using geometryD [OF assms] by auto
  note down = shift_down_exact [OF u(1), unfolded su, OF _ g(2), of _ n]
    and up = shift_up_exact [OF u(1), unfolded su, OF _ g(2), of _ n]
    and rows = screen_rows_cong [OF u(3,2)]
  have "\<exists>t1. insert_lines n t = Some t1 \<and> screen_rows t1 = (if cursor_in_region t
      then rows_scrolled_down (tm_cursor_row t) (tm_scroll_bottom t) n (blank_row t) (screen_rows t)
      else screen_rows t) \<and> tm_pending_scrollback t1 = tm_pending_scrollback t"
    using down [of "tm_cursor_row t"] u(4) rows unfolding insert_lines_def u_def [symmetric] Let_def
    by (auto simp: cursor_in_region_def safe_def)
  moreover have "\<exists>t2. delete_lines n t = Some t2 \<and> screen_rows t2 = (if cursor_in_region t
      then rows_scrolled_up (tm_cursor_row t) (tm_scroll_bottom t) n (blank_row t) (screen_rows t)
      else screen_rows t) \<and> tm_pending_scrollback t2 = tm_pending_scrollback t"
    using up [of "tm_cursor_row t"] u(4) rows unfolding delete_lines_def u_def [symmetric] Let_def
    by (auto simp: cursor_in_region_def safe_def)
  moreover have "\<exists>t3. scroll_down_region n t = Some t3 \<and> screen_rows t3 =
      rows_scrolled_down (tm_scroll_top t) (tm_scroll_bottom t) n (blank_row t) (screen_rows t) \<and>
      tm_pending_scrollback t3 = tm_pending_scrollback t"
    using down [OF g(1)] u(4) rows unfolding scroll_down_region_def u_def [symmetric] Let_def
    by (auto simp: su safe_def)
  ultimately show ?thesis by auto
qed

end
