(* ===== verification/TermDispatch.thy ===== *)
theory TermDispatch
  imports TermRows
begin

text \<open>
  The dispatcher of the terminal emulator (\<^verbatim>\<open>impl Perform for Terminal\<close> in
  \<^verbatim>\<open>src/terminal.rs\<close>): printing, C0 controls, CSI and ESC sequences. The \<^verbatim>\<open>vte\<close> crate
  splits the byte stream; an event carries what it passes: a character, a control byte, the
  first value of each CSI parameter with the total number of parameters, the intermediate bytes and
  the final byte.
\<close>

section \<open>Printing\<close>

definition attach_combining :: "uchar \<Rightarrow> terminal \<Rightarrow> terminal option" where
  "attach_combining c t =
     (if tm_cursor_col t = 0 then Some t
      else if tm_cursor_row t \<ge> tm_rows t then Some t
      else
        (let row = tm_cursor_row t; col = tm_cursor_col t - 1 in do {
           col \<leftarrow> (if 0 < col then do {
                     x \<leftarrow> vget (cells t) (row * tm_cols t + col);
                     Some (if tc_wide_placeholder x then col - 1 else col) }
                   else Some col);
           cell \<leftarrow> vget (cells t) (row * tm_cols t + col);
           if str_len (tc_ch cell) + utf8_len c > MAX_COMBINING_BYTES_PER_CELL then Some t
           else cell_put row col (cell\<lparr>tc_ch := tc_ch cell @ [c]\<rparr>) t }))"

definition needs_wrap :: "nat \<Rightarrow> terminal \<Rightarrow> bool" where
  "needs_wrap width t \<longleftrightarrow>
     tm_cursor_col t \<ge> tm_cols t \<or>
     (width = 2 \<and> tm_cols t > 1 \<and> tm_cursor_col t + 1 \<ge> tm_cols t)"

definition wrap_cursor :: "nat \<Rightarrow> terminal \<Rightarrow> terminal option" where
  "wrap_cursor width t =
     (if needs_wrap width t then
        (if tm_autowrap_mode t then newline (t\<lparr>tm_cursor_col := 0\<rparr>)
         else Some (t\<lparr>tm_cursor_col := tm_cols t - 1\<rparr>))
      else Some t)"

definition write_char :: "width_fn \<Rightarrow> nat \<Rightarrow> uchar \<Rightarrow> terminal \<Rightarrow> terminal option" where
  "write_char cw width c t =
     (if tm_cursor_row t < tm_rows t then
        (let attrs = tm_cur_attrs t; link = tm_active_link_id t;
             row = tm_cursor_row t; col = tm_cursor_col t;
             room = (width = 2 \<and> col + 1 < tm_cols t);
             advance = (if room then 2 else 1)
         in do {
           t \<leftarrow> cell_put row col ((to_cell attrs [c])\<lparr>tc_link_id := link\<rparr>)
                  (t\<lparr>tm_last_graphic_cell := Some (c, attrs, link)\<rparr>);
           t \<leftarrow> (if room
                 then cell_put row (col + 1)
                        ((to_cell attrs [SP])\<lparr>tc_wide_placeholder := True, tc_link_id := link\<rparr>) t
                 else Some t);
           t \<leftarrow> (if \<not> tm_autowrap_mode t \<and> width = 2 \<and> \<not> room
                 then sanitize_wide_row cw row t else Some t);
           Some (if tm_autowrap_mode t then t\<lparr>tm_cursor_col := col + advance\<rparr>
                 else t\<lparr>tm_cursor_col := min (col + advance) (tm_cols t - 1)\<rparr>) })
      else Some t)"

definition print_mapped :: "width_fn \<Rightarrow> uchar \<Rightarrow> terminal \<Rightarrow> terminal option" where
  "print_mapped cw c t =
     (let width = (case cw c of None \<Rightarrow> 1 | Some w \<Rightarrow> w)
      in if width = 0 then attach_combining c t
         else do { t \<leftarrow> wrap_cursor width t; write_char cw width c t })"

definition term_print :: "width_fn \<Rightarrow> uchar \<Rightarrow> terminal \<Rightarrow> terminal option" where
  "term_print cw c0 t =
     (let active = (if tm_gl_is_g1 t then tm_g1_charset t else tm_g0_charset t);
          c = (if active = DecSpecialGraphics then dec_special_graphics c0 else c0);
          t = (if tm_capturing_command_output t
               then t\<lparr>tm_current_output_line := tm_current_output_line t @ [c]\<rparr> else t)
      in print_mapped cw c t)"

section \<open>C0 controls\<close>

definition execute :: "u8 \<Rightarrow> terminal \<Rightarrow> terminal option" where
  "execute byte t =
     (if byte = 0x07 then Some (t\<lparr>tm_bell_generation := sat_add (tm_bell_generation t) 1\<rparr>)
      else if byte = 0x0D then Some (t\<lparr>tm_cursor_col := 0\<rparr>)
      else if byte = 0x0A \<or> byte = 0x0B \<or> byte = 0x0C then
        newline (if tm_capturing_command_output t
                 then t\<lparr> tm_current_output_lines := tm_current_output_lines t @ [tm_current_output_line t],
                         tm_current_output_line := [] \<rparr>
                 else t)
      else if byte = 0x08 then
        Some (if tm_cursor_col t > 0 then t\<lparr>tm_cursor_col := tm_cursor_col t - 1\<rparr> else t)
      else if byte = 0x0E then Some (t\<lparr>tm_gl_is_g1 := True\<rparr>)
      else if byte = 0x0F then Some (t\<lparr>tm_gl_is_g1 := False\<rparr>)
      else if byte = 0x09 then do {
        col \<leftarrow> next_tab_stop t (tm_cursor_col t);
        Some (t\<lparr>tm_cursor_col := col\<rparr>) }
      else Some t)"

section \<open>Rendition\<close>

text \<open>One code of SGR, with the number of further parameters it takes.\<close>

definition sgr_code :: "theme \<Rightarrow> u16 list \<Rightarrow> nat \<Rightarrow> term_attrs \<Rightarrow> term_attrs \<times> nat" where
  "sgr_code th ps i a = (let p = unat (ps ! i) in
     if p = 0 then (attrs_default_for th, 0)
     else if p = 1 then (a\<lparr>ta_bold := True\<rparr>, 0)
     else if p = 2 then (a\<lparr>ta_dim := True\<rparr>, 0)
     else if p = 3 then (a\<lparr>ta_italic := True\<rparr>, 0)
     else if p = 4 then (a\<lparr>ta_underline := True\<rparr>, 0)
     else if p = 5 then (a\<lparr>ta_blink := True\<rparr>, 0)
     else if p = 7 then (a\<lparr>ta_reverse := True\<rparr>, 0)
     else if p = 8 then (a\<lparr>ta_invisible := True\<rparr>, 0)
     else if p = 9 then (a\<lparr>ta_strikethrough := True\<rparr>, 0)
     else if p = 22 then (a\<lparr>ta_bold := False, ta_dim := False\<rparr>, 0)
     else if p = 23 then (a\<lparr>ta_italic := False\<rparr>, 0)
     else if p = 24 then (a\<lparr>ta_underline := False\<rparr>, 0)
     else if p = 25 then (a\<lparr>ta_blink := False\<rparr>, 0)
     else if p = 27 then (a\<lparr>ta_reverse := False\<rparr>, 0)
     else if p = 28 then (a\<lparr>ta_invisible := False\<rparr>, 0)
     else if p = 29 then (a\<lparr>ta_strikethrough := False\<rparr>, 0)
     else if 30 \<le> p \<and> p \<le> 37 then (a\<lparr>ta_fg := ansi16 th ! (p - 30)\<rparr>, 0)
     else if p = 38 then
       (case parse_extended_color th ps i of
          Some (color, advance) \<Rightarrow> (a\<lparr>ta_fg := color\<rparr>, advance) | None \<Rightarrow> (a, 0))
     else if p = 39 then (a\<lparr>ta_fg := default_fg th\<rparr>, 0)
     else if 40 \<le> p \<and> p \<le> 47 then (a\<lparr>ta_bg := ansi16 th ! (p - 40)\<rparr>, 0)
     else if p = 48 then
       (case parse_extended_color th ps i of
          Some (color, advance) \<Rightarrow> (a\<lparr>ta_bg := color\<rparr>, advance) | None \<Rightarrow> (a, 0))
     else if p = 49 then (a\<lparr>ta_bg := default_bg th\<rparr>, 0)
     else if 90 \<le> p \<and> p \<le> 97 then (a\<lparr>ta_fg := ansi16 th ! (8 + (p - 90))\<rparr>, 0)
     else if 100 \<le> p \<and> p \<le> 107 then (a\<lparr>ta_bg := ansi16 th ! (8 + (p - 100))\<rparr>, 0)
     else (a, 0))"

function sgr_loop :: "theme \<Rightarrow> u16 list \<Rightarrow> nat \<Rightarrow> term_attrs \<Rightarrow> term_attrs" where
  "sgr_loop th ps i a =
     (if i < length ps
      then (let r = sgr_code th ps i a in sgr_loop th ps (i + snd r + 1) (fst r))
      else a)"
  by pat_completeness auto
termination
  by (relation "measure (\<lambda>(th, ps, i, a). length ps - i)") auto

definition handle_sgr :: "u16 list \<Rightarrow> terminal \<Rightarrow> terminal" where
  "handle_sgr ps t =
     (if ps = [] then t\<lparr>tm_cur_attrs := attrs_default_for (tm_theme t)\<rparr>
      else t\<lparr>tm_cur_attrs := sgr_loop (tm_theme t) ps 0 (tm_cur_attrs t)\<rparr>)"

definition set_cursor_shape_from_decscusr :: "u16 \<Rightarrow> terminal \<Rightarrow> terminal" where
  "set_cursor_shape_from_decscusr p t =
     (if p = 0 \<or> p = 1 then t\<lparr>tm_cursor_shape := Block, tm_cursor_blink := True\<rparr>
      else if p = 2 then t\<lparr>tm_cursor_shape := Block, tm_cursor_blink := False\<rparr>
      else if p = 3 then t\<lparr>tm_cursor_shape := Underline, tm_cursor_blink := True\<rparr>
      else if p = 4 then t\<lparr>tm_cursor_shape := Underline, tm_cursor_blink := False\<rparr>
      else if p = 5 then t\<lparr>tm_cursor_shape := Bar, tm_cursor_blink := True\<rparr>
      else if p = 6 then t\<lparr>tm_cursor_shape := Bar, tm_cursor_blink := False\<rparr>
      else t)"

section \<open>CSI sequences\<close>

text \<open>Decimal digits, for the replies.\<close>

fun show_nat :: "nat \<Rightarrow> string" where
  "show_nat n = (if n < 10 then [char_of (48 + n)] else show_nat (n div 10) @ [char_of (48 + n mod 10)])"

definition ESC :: char where "ESC = CHR 0x1B"

definition respond :: "string \<Rightarrow> terminal \<Rightarrow> terminal" where
  "respond s t = t\<lparr>tm_pending_terminal_responses := tm_pending_terminal_responses t @ [s]\<rparr>"

text \<open>The Kitty keyboard flags, one stack per screen.\<close>

definition kitty_flags_stack :: "terminal \<Rightarrow> u16 list" where
  "kitty_flags_stack t =
     (if tm_alt_active t then tm_alt_kitty_flags_stack t else tm_main_kitty_flags_stack t)"

definition set_kitty_flags_stack :: "u16 list \<Rightarrow> terminal \<Rightarrow> terminal" where
  "set_kitty_flags_stack s t =
     (if tm_alt_active t then t\<lparr>tm_alt_kitty_flags_stack := s\<rparr> else t\<lparr>tm_main_kitty_flags_stack := s\<rparr>)"

definition kitty_keyboard_flags :: "terminal \<Rightarrow> u16" where
  "kitty_keyboard_flags t = (let s = kitty_flags_stack t in if s = [] then 0 else last s)"

definition kitty_push :: "u16 \<Rightarrow> terminal \<Rightarrow> terminal" where
  "kitty_push flags t =
     (let s = kitty_flags_stack t;
          s = (if length s \<ge> KITTY_KEYBOARD_STACK_MAX then tl s else s)
      in set_kitty_flags_stack (s @ [flags]) t)"

definition kitty_pop :: "u16 \<Rightarrow> terminal \<Rightarrow> terminal" where
  "kitty_pop p t =
     (let s = kitty_flags_stack t; n = min (max (unat p) 1) (length s)
      in set_kitty_flags_stack (take (length s - n) s) t)"

definition kitty_set :: "u16 \<Rightarrow> u16 \<Rightarrow> terminal \<Rightarrow> terminal" where
  "kitty_set flags p1 t =
     (let mode = (if p1 = 0 then 1 else p1); s = kitty_flags_stack t;
          current = (if s = [] then 0 else last s);
          new_flags = (if mode = 2 then current OR flags
                       else if mode = 3 then current AND NOT flags else flags)
      in set_kitty_flags_stack (if s = [] then [new_flags] else butlast s @ [new_flags]) t)"

text \<open>DEC private modes, one parameter.\<close>

definition dec_mode_set :: "nat \<Rightarrow> terminal \<Rightarrow> terminal option" where
  "dec_mode_set p t =
     (if p = 1000 then Some (t\<lparr>tm_mouse_reporting_mode := MouseNormal\<rparr>)
      else if p = 1002 then Some (t\<lparr>tm_mouse_reporting_mode := MouseButtonEvent\<rparr>)
      else if p = 1003 then Some (t\<lparr>tm_mouse_reporting_mode := MouseAnyEvent\<rparr>)
      else if p = 1006 then Some (t\<lparr>tm_sgr_mouse_mode := True\<rparr>)
      else if p = 1007 then Some (t\<lparr>tm_alternate_scroll := True\<rparr>)
      else if p = 1015 then Some (t\<lparr>tm_urxvt_mouse_mode := True\<rparr>)
      else if p = 47 \<or> p = 1047 then switch_to_alt False t
      else if p = 1049 then switch_to_alt True t
      else if p = 25 then Some (t\<lparr>tm_cursor_visible := True\<rparr>)
      else if p = 12 then Some (t\<lparr>tm_cursor_blink := True\<rparr>)
      else if p = 1 then Some (t\<lparr>tm_application_cursor_mode := True\<rparr>)
      else if p = 7 then Some (t\<lparr>tm_autowrap_mode := True\<rparr>)
      else if p = 6 then
        Some (t\<lparr>tm_origin_mode := True, tm_cursor_row := tm_scroll_top t, tm_cursor_col := 0\<rparr>)
      else if p = 2004 then Some (t\<lparr>tm_bracketed_paste_mode := True\<rparr>)
      else if p = 2026 then Some (t\<lparr>tm_synchronized_output_active := True\<rparr>)
      else if p = 1004 then Some (t\<lparr>tm_focus_reporting_mode := True\<rparr>)
      else Some t)"

definition dec_mode_reset :: "nat \<Rightarrow> terminal \<Rightarrow> terminal option" where
  "dec_mode_reset p t =
     (if p = 1000 \<or> p = 1002 \<or> p = 1003 then Some (t\<lparr>tm_mouse_reporting_mode := MouseOff\<rparr>)
      else if p = 1006 then Some (t\<lparr>tm_sgr_mouse_mode := False\<rparr>)
      else if p = 1007 then Some (t\<lparr>tm_alternate_scroll := False\<rparr>)
      else if p = 1015 then Some (t\<lparr>tm_urxvt_mouse_mode := False\<rparr>)
      else if p = 47 \<or> p = 1047 then Some (switch_to_main False t)
      else if p = 1049 then Some (switch_to_main True t)
      else if p = 25 then Some (t\<lparr>tm_cursor_visible := False\<rparr>)
      else if p = 12 then Some (t\<lparr>tm_cursor_blink := False\<rparr>)
      else if p = 1 then Some (t\<lparr>tm_application_cursor_mode := False\<rparr>)
      else if p = 7 then Some (t\<lparr>tm_autowrap_mode := False\<rparr>)
      else if p = 6 then Some (t\<lparr>tm_origin_mode := False, tm_cursor_row := 0, tm_cursor_col := 0\<rparr>)
      else if p = 2004 then Some (t\<lparr>tm_bracketed_paste_mode := False\<rparr>)
      else if p = 2026 then Some (t\<lparr>tm_synchronized_output_active := False\<rparr>)
      else if p = 1004 then Some (t\<lparr>tm_focus_reporting_mode := False\<rparr>)
      else Some t)"

definition dec_mode :: "char \<Rightarrow> u16 \<Rightarrow> terminal \<Rightarrow> terminal option" where
  "dec_mode action p t =
     (if action = CHR ''h'' then dec_mode_set (unat p) t
      else if action = CHR ''l'' then dec_mode_reset (unat p) t else Some t)"

definition device_status :: "nat \<Rightarrow> terminal \<Rightarrow> terminal" where
  "device_status p t =
     (if p = 5 then respond (ESC # ''[0n'') t
      else if p = 6 then
        (let visible_col = min (tm_cursor_col t) (tm_cols t - 1);
             reported_row = tm_cursor_row t - fst (origin_row_bounds t)
         in respond (ESC # ''['' @ show_nat (reported_row + 1) @ '';'' @ show_nat (visible_col + 1) @ ''R'') t)
      else t)"

text \<open>Tab movements: each iteration may stop early.\<close>

primrec tabs_forward :: "nat \<Rightarrow> terminal \<Rightarrow> terminal option" where
  "tabs_forward 0 t = Some t"
| "tabs_forward (Suc n) t = do {
     nxt \<leftarrow> next_tab_stop t (tm_cursor_col t);
     if nxt = tm_cursor_col t then Some t else tabs_forward n (t\<lparr>tm_cursor_col := nxt\<rparr>) }"

primrec tabs_backward :: "nat \<Rightarrow> terminal \<Rightarrow> terminal option" where
  "tabs_backward 0 t = Some t"
| "tabs_backward (Suc n) t =
     (if tm_cursor_col t = 0 then Some t
      else do {
        prv \<leftarrow> prev_tab_stop t (tm_cursor_col t);
        tabs_backward n (t\<lparr>tm_cursor_col := prv\<rparr>) })"

definition cursor_up :: "nat \<Rightarrow> terminal \<Rightarrow> terminal" where
  "cursor_up n t = t\<lparr>tm_cursor_row := max (tm_cursor_row t - n) (fst (origin_row_bounds t))\<rparr>"

definition cursor_down :: "nat \<Rightarrow> terminal \<Rightarrow> terminal" where
  "cursor_down n t = t\<lparr>tm_cursor_row := min (tm_cursor_row t + n) (snd (origin_row_bounds t))\<rparr>"

definition row_absolute :: "nat \<Rightarrow> terminal \<Rightarrow> terminal option" where
  "row_absolute n t = (let (lo, hi) = origin_row_bounds t in do {
     r \<leftarrow> uclamp (lo + n - 1) lo hi;
     Some (t\<lparr>tm_cursor_row := r\<rparr>) })"

definition col_absolute :: "nat \<Rightarrow> terminal \<Rightarrow> terminal option" where
  "col_absolute n t = do {
     m \<leftarrow> usub (tm_cols t) 1;
     Some (t\<lparr>tm_cursor_col := min (n - 1) m\<rparr>) }"

definition erase_display :: "nat \<Rightarrow> terminal \<Rightarrow> terminal option" where
  "erase_display p t =
     (let col = min (tm_cursor_col t) (tm_cols t - 1); here = tm_cursor_row t * tm_cols t + col in
      if p = 0 then erase_cells here (tm_cols t * tm_rows t) t
      else if p = 1 then erase_cells 0 (here + 1) t
      else if p = 2 \<or> p = 3 then do {
        t \<leftarrow> erase_cells 0 (tm_cols t * tm_rows t) t;
        Some (clear_images (t\<lparr>tm_cursor_row := 0, tm_cursor_col := 0\<rparr>)) }
      else Some t)"

definition erase_line :: "nat \<Rightarrow> terminal \<Rightarrow> terminal option" where
  "erase_line p t =
     (let row = tm_cursor_row t; col = min (tm_cursor_col t) (tm_cols t - 1) in
      if p = 0 then erase_cells (row * tm_cols t + col) ((row + 1) * tm_cols t) t
      else if p = 1 then erase_cells (row * tm_cols t) (row * tm_cols t + col + 1) t
      else if p = 2 then erase_cells (row * tm_cols t) ((row + 1) * tm_cols t) t
      else Some t)"

definition repeat_last :: "width_fn \<Rightarrow> nat \<Rightarrow> terminal \<Rightarrow> terminal option" where
  "repeat_last cw p t =
     (case tm_last_graphic_cell t of
        None \<Rightarrow> Some t
      | Some (c, attrs, link) \<Rightarrow>
          (let n = min p (max (tm_cols t * tm_rows t) 1);
               restore_attrs = tm_cur_attrs t; restore_link = tm_active_link_id t
           in do {
             t \<leftarrow> ofold (\<lambda>_. print_mapped cw c) [0..<n]
                    (t\<lparr>tm_cur_attrs := attrs, tm_active_link_id := link\<rparr>);
             Some (t\<lparr>tm_cur_attrs := restore_attrs, tm_active_link_id := restore_link\<rparr>) }))"

definition clear_tab_stops :: "nat \<Rightarrow> terminal \<Rightarrow> terminal option" where
  "clear_tab_stops p t =
     (if p = 0 then do {
        ts \<leftarrow> vset (tm_tab_stops t) (min (tm_cursor_col t) (tm_cols t - 1)) False;
        Some (t\<lparr>tm_tab_stops := ts\<rparr>) }
      else if p = 3 then Some (t\<lparr>tm_tab_stops := map (\<lambda>_. False) (tm_tab_stops t)\<rparr>)
      else Some t)"

definition set_scroll_region :: "nat \<Rightarrow> nat \<Rightarrow> terminal \<Rightarrow> terminal option" where
  "set_scroll_region p0 p1 t = do {
     last_row \<leftarrow> usub (tm_rows t) 1;
     let rtop = (if p0 = 0 then 0 else min (p0 - 1) last_row);
     let rbot = (if p1 = 0 then last_row else min (p1 - 1) last_row);
     Some (if rtop < rbot then
             (let t = t\<lparr>tm_scroll_top := rtop, tm_scroll_bottom := rbot\<rparr>
              in t\<lparr>tm_cursor_row := fst (origin_row_bounds t), tm_cursor_col := 0\<rparr>)
           else t) }"

definition csi_action ::
  "width_fn \<Rightarrow> u16 list \<Rightarrow> nat \<Rightarrow> string \<Rightarrow> char \<Rightarrow> nat \<Rightarrow> nat \<Rightarrow> terminal \<Rightarrow> terminal option" where
  "csi_action cw ps nparams ints action p0 p1 t = (let n = max p0 1 in
     if action = CHR ''A'' then Some (cursor_up n t)
     else if action = CHR ''B'' then Some (cursor_down n t)
     else if action = CHR ''C'' then do {
       m \<leftarrow> usub (tm_cols t) 1; Some (t\<lparr>tm_cursor_col := min (tm_cursor_col t + n) m\<rparr>) }
     else if action = CHR ''D'' then Some (t\<lparr>tm_cursor_col := tm_cursor_col t - n\<rparr>)
     else if action = CHR ''E'' then Some ((cursor_down n t)\<lparr>tm_cursor_col := 0\<rparr>)
     else if action = CHR ''F'' then Some ((cursor_up n t)\<lparr>tm_cursor_col := 0\<rparr>)
     else if action = CHR ''G'' \<or> action = CHR 0x60 then col_absolute n t
     else if action = CHR ''I'' then tabs_forward n t
     else if action = CHR ''Z'' then tabs_backward n t
     else if action = CHR ''H'' \<or> action = CHR ''f'' then row_absolute n t \<bind> col_absolute (max p1 1)
     else if action = CHR ''J'' then erase_display p0 t
     else if action = CHR ''K'' then erase_line p0 t
     else if action = CHR ''L'' then insert_lines n t
     else if action = CHR ''M'' then delete_lines n t
     else if action = CHR ''@'' then insert_chars cw n t
     else if action = CHR ''P'' then delete_chars cw n t
     else if action = CHR ''X'' then erase_chars cw n t
     else if action = CHR ''S'' then scroll_up_region n t
     else if action = CHR ''T'' \<and> ints = [] \<and> nparams \<le> 1 then scroll_down_region n t
     else if action = CHR ''b'' then repeat_last cw n t
     else if action = CHR ''d'' then row_absolute n t
     else if action = CHR ''g'' then clear_tab_stops p0 t
     else if action = CHR ''m'' then Some (handle_sgr ps t)
     else if action = CHR ''r'' then set_scroll_region p0 p1 t
     else if action = CHR ''s'' then Some (save_cursor_decsc t)
     else if action = CHR ''u'' then Some (restore_cursor_decrc t)
     else Some t)"

definition csi_dispatch ::
  "width_fn \<Rightarrow> u16 list \<Rightarrow> nat \<Rightarrow> string \<Rightarrow> char \<Rightarrow> terminal \<Rightarrow> terminal option" where
  "csi_dispatch cw ps nparams ints action t =
     (let p0 = (if 0 < length ps then ps ! 0 else 0); p1 = (if 1 < length ps then ps ! 1 else 0) in
      if action = CHR ''u'' \<and> ints = ''>'' then Some (kitty_push p0 t)
      else if action = CHR ''u'' \<and> ints = ''<'' then Some (kitty_pop p0 t)
      else if action = CHR ''u'' \<and> ints = ''='' then Some (kitty_set p0 p1 t)
      else if action = CHR ''u'' \<and> ints = ''?'' then
        Some (respond (ESC # ''[?'' @ show_nat (unat (kitty_keyboard_flags t)) @ ''u'') t)
      else if ints \<noteq> [] \<and> hd ints = CHR ''?'' then ofold (dec_mode action) ps t
      else if action = CHR ''q'' \<and> ints = '' '' then Some (set_cursor_shape_from_decscusr p0 t)
      else if action = CHR ''c'' \<and> ints = [] \<and> p0 = 0 then Some (respond (ESC # ''[?1;2;4c'') t)
      else if action = CHR ''c'' \<and> ints = ''>'' \<and> p0 = 0 then Some (respond (ESC # ''[>0;100;0c'') t)
      else if action = CHR ''n'' \<and> ints = [] then Some (device_status (unat p0) t)
      else csi_action cw ps nparams ints action (unat p0) (unat p1) t)"

section \<open>ESC sequences\<close>

definition reverse_index :: "terminal \<Rightarrow> terminal option" where
  "reverse_index t =
     (if tm_cursor_row t = tm_scroll_top t then
        shift_rows_down (tm_scroll_top t) (tm_scroll_bottom t) 1
          (clear_images (t\<lparr>tm_full_damage_pending := True\<rparr>))
      else Some (if tm_cursor_row t > 0 then t\<lparr>tm_cursor_row := tm_cursor_row t - 1\<rparr> else t))"

definition esc_dispatch :: "string \<Rightarrow> char \<Rightarrow> terminal \<Rightarrow> terminal option" where
  "esc_dispatch ints byte t =
     (if byte = CHR ''M'' \<and> ints = [] then reverse_index t
      else if byte = CHR ''c'' \<and> ints = [] then Some (reset_all t)
      else if byte = CHR ''7'' \<and> ints = [] then Some (save_cursor_decsc t)
      else if byte = CHR ''8'' \<and> ints = [] then Some (restore_cursor_decrc t)
      else if byte = CHR ''H'' \<and> ints = [] then do {
        ts \<leftarrow> vset (tm_tab_stops t) (min (tm_cursor_col t) (tm_cols t - 1)) True;
        Some (t\<lparr>tm_tab_stops := ts\<rparr>) }
      else if byte = CHR ''0'' \<and> ints = ''('' then Some (t\<lparr>tm_g0_charset := DecSpecialGraphics\<rparr>)
      else if ints = ''('' then Some (t\<lparr>tm_g0_charset := Ascii\<rparr>)
      else if byte = CHR ''0'' \<and> ints = '')'' then Some (t\<lparr>tm_g1_charset := DecSpecialGraphics\<rparr>)
      else if ints = '')'' then Some (t\<lparr>tm_g1_charset := Ascii\<rparr>)
      else if byte = CHR ''='' \<and> ints = [] then Some (t\<lparr>tm_application_keypad_mode := True\<rparr>)
      else if byte = CHR ''>'' \<and> ints = [] then Some (t\<lparr>tm_application_keypad_mode := False\<rparr>)
      else Some t)"

end
