(* ===== verification/TermOsc.thy ===== *)
theory TermOsc
  imports TermDispatch
begin

text \<open>
  Operating system commands (\<^verbatim>\<open>osc_dispatch\<close> in \<^verbatim>\<open>src/terminal.rs\<close>): title,
  colours, hyperlinks, clipboard and semantic prompts; the commands on prompt marks; and the
  events of the whole terminal. The base64 decoder is third-party and the parameter \<open>b64\<close>.
\<close>

section \<open>Colours\<close>

datatype default_color_target = Foreground | Background | Cursor

definition argb_to_rgb888 :: "u32 \<Rightarrow> u8 \<times> u8 \<times> u8" where
  "argb_to_rgb888 c =
     (ucast (drop_bit 16 c AND 0xFF), ucast (drop_bit 8 c AND 0xFF), ucast (c AND 0xFF))"

definition rgb_to_argb :: "u8 \<Rightarrow> u8 \<Rightarrow> u8 \<Rightarrow> u32" where
  "rgb_to_argb r g b = 0xFF000000 OR push_bit 16 (ucast r) OR push_bit 8 (ucast g) OR ucast b"

definition scale_hex :: "uchar list \<Rightarrow> u8 option" where
  "scale_hex hex =
     (if hex = [] \<or> length hex > 4 \<or> \<not> list_all (\<lambda>c. hex_digit c \<noteq> None) hex then None
      else (let mx = 2 ^ (length hex * 4) - 1
            in Some (word_of_nat ((hex_value hex * 255 + mx div 2) div mx))))"

fun split_slash :: "uchar list \<Rightarrow> uchar list list" where
  "split_slash [] = [[]]"
| "split_slash (c # cs) =
     (if c = 47 then [] # split_slash cs
      else (case split_slash cs of p # ps \<Rightarrow> (c # p) # ps | [] \<Rightarrow> [[c]]))"

definition parse_osc_color_spec :: "u8 list \<Rightarrow> u32 option" where
  "parse_osc_color_spec spec = do {
     s \<leftarrow> utf8_decode spec;
     if take 4 s = codes ''rgb:'' then
       (case split_slash (drop 4 s) of
          [r, g, b] \<Rightarrow> do {
            r \<leftarrow> scale_hex r; g \<leftarrow> scale_hex g; b \<leftarrow> scale_hex b; Some (rgb_to_argb r g b) }
        | _ \<Rightarrow> None)
     else if take 1 s = codes ''#'' then
       (let rest = drop 1 s; n = length rest in
        if n = 0 \<or> n mod 3 \<noteq> 0 \<or> n > 12 \<or> \<not> list_all (\<lambda>c. hex_digit c \<noteq> None) rest then None
        else (let per = n div 3 in do {
          r \<leftarrow> scale_hex (slice 0 per rest);
          g \<leftarrow> scale_hex (slice per per rest);
          b \<leftarrow> scale_hex (slice (2 * per) per rest);
          Some (rgb_to_argb r g b) }))
     else None }"

definition hex_chars :: string where "hex_chars = ''0123456789abcdef''"

definition show_hex2 :: "u8 \<Rightarrow> string" where
  "show_hex2 b = [hex_chars ! (unat b div 16), hex_chars ! (unat b mod 16)]"

definition handle_osc_default_color :: "default_color_target \<Rightarrow> u8 list \<Rightarrow> bool \<Rightarrow> terminal \<Rightarrow> terminal" where
  "handle_osc_default_color target spec bell_terminated t =
     (if bytes_are spec ''?'' then
        (let (r, g, b) = (case target of
               Foreground \<Rightarrow> argb_to_rgb888 (default_fg (tm_theme t))
             | Background \<Rightarrow> argb_to_rgb888 (default_bg (tm_theme t))
             | Cursor \<Rightarrow> (case tm_cursor_color t of Some c \<Rightarrow> c
                          | None \<Rightarrow> argb_to_rgb888 (default_fg (tm_theme t))));
             terminator = (if bell_terminated then [CHR 0x07] else [ESC, CHR 0x5C]);
             num = (case target of Foreground \<Rightarrow> ''10'' | Background \<Rightarrow> ''11'' | Cursor \<Rightarrow> ''12'')
         in respond (ESC # '']'' @ num @ '';rgb:'' @ show_hex2 r @ show_hex2 r @ ''/'' @ show_hex2 g
              @ show_hex2 g @ ''/'' @ show_hex2 b @ show_hex2 b @ terminator) t)
      else (case parse_osc_color_spec spec of
              None \<Rightarrow> t
            | Some argb \<Rightarrow>
                (case target of
                   Foreground \<Rightarrow>
                     (let t = (if ta_fg (tm_cur_attrs t) = default_fg (tm_theme t)
                               then t\<lparr>tm_cur_attrs := (tm_cur_attrs t)\<lparr>ta_fg := argb\<rparr>\<rparr> else t)
                      in t\<lparr>tm_theme := (tm_theme t)\<lparr>default_fg := argb\<rparr>\<rparr>)
                 | Background \<Rightarrow>
                     (let t = (if ta_bg (tm_cur_attrs t) = default_bg (tm_theme t)
                               then t\<lparr>tm_cur_attrs := (tm_cur_attrs t)\<lparr>ta_bg := argb\<rparr>\<rparr> else t)
                      in t\<lparr>tm_theme := (tm_theme t)\<lparr>default_bg := argb\<rparr>\<rparr>)
                 | Cursor \<Rightarrow> t\<lparr>tm_cursor_color := Some (argb_to_rgb888 argb)\<rparr>)))"

definition param :: "u8 list list \<Rightarrow> nat \<Rightarrow> u8 list option" where
  "param ps i = (if i < length ps then Some (ps ! i) else None)"

definition param_is :: "u8 list list \<Rightarrow> nat \<Rightarrow> string \<Rightarrow> bool" where
  "param_is ps i s \<longleftrightarrow> i < length ps \<and> bytes_are (ps ! i) s"

definition handle_osc6_iterm2_tab_color :: "u8 list list \<Rightarrow> terminal \<Rightarrow> terminal" where
  "handle_osc6_iterm2_tab_color ps t =
     (if \<not> param_is ps 2 ''bg'' \<or> \<not> param_is ps 4 ''brightness'' then t
      else (case (param ps 3, param ps 5 \<bind> utf8_decode \<bind> parse_u8) of
              (Some channel, Some v) \<Rightarrow>
                (let (r, g, b) = (case tm_tab_color t of Some c \<Rightarrow> c | None \<Rightarrow> (0, 0, 0)) in
                 if bytes_are channel ''red'' then t\<lparr>tm_tab_color := Some (v, g, b)\<rparr>
                 else if bytes_are channel ''green'' then t\<lparr>tm_tab_color := Some (r, v, b)\<rparr>
                 else if bytes_are channel ''blue'' then t\<lparr>tm_tab_color := Some (r, g, v)\<rparr>
                 else t)
            | _ \<Rightarrow> t))"

section \<open>Hyperlinks\<close>

definition contains_disallowed_hyperlink_chars :: "uchar list \<Rightarrow> bool" where
  "contains_disallowed_hyperlink_chars s \<longleftrightarrow>
     list_ex (\<lambda>c. (0x202A \<le> c \<and> c \<le> 0x202E) \<or> (0x2066 \<le> c \<and> c \<le> 0x2069) \<or> c \<le> 0x1F \<or> c = 0x7F
                \<or> (0x80 \<le> c \<and> c \<le> 0x9F)) s"

definition intern_link :: "uchar list \<Rightarrow> terminal \<Rightarrow> nat option \<times> terminal" where
  "intern_link uri t =
     (if contains_disallowed_hyperlink_chars uri then (None, t)
      else (case map_of (tm_link_ids t) uri of
              Some i \<Rightarrow> (Some i, t)
            | None \<Rightarrow>
                (if length (tm_link_table t) \<ge> MAX_LINK_TABLE then (None, t)
                 else (let i = length (tm_link_table t)
                       in (Some i, t\<lparr> tm_link_table := tm_link_table t @ [uri],
                                      tm_link_ids := AList.update uri i (tm_link_ids t) \<rparr>)))))"

fun join_semi :: "u8 list list \<Rightarrow> u8 list" where
  "join_semi [] = []"
| "join_semi [p] = p"
| "join_semi (p # ps) = p @ [0x3B] @ join_semi ps"

definition handle_osc8_hyperlink :: "u8 list list \<Rightarrow> terminal \<Rightarrow> terminal" where
  "handle_osc8_hyperlink ps t =
     (case (if length ps \<ge> 3 then utf8_decode (join_semi (drop 2 ps)) else None) of
        Some uri \<Rightarrow>
          (if uri \<noteq> [] then (let (l, t) = intern_link uri t in t\<lparr>tm_active_link_id := l\<rparr>)
           else t\<lparr>tm_active_link_id := None\<rparr>)
      | None \<Rightarrow> t\<lparr>tm_active_link_id := None\<rparr>)"

section \<open>Prompt marks\<close>

definition prompt_kind :: "u8 list \<Rightarrow> u8 list option \<Rightarrow> prompt_mark_kind option" where
  "prompt_kind sub extra =
     (if bytes_are sub ''A'' then Some PromptStart
      else if bytes_are sub ''B'' then Some CommandStart
      else if bytes_are sub ''C'' then Some CommandExecuted
      else if bytes_are sub ''D'' then
        Some (CommandFinished (extra \<bind> utf8_decode \<bind> (\<lambda>s. parse_i32 (str_trim s))))
      else None)"

definition capture_output :: "prompt_mark_kind \<Rightarrow> terminal \<Rightarrow> terminal" where
  "capture_output kind t =
     (case kind of
        CommandExecuted \<Rightarrow>
          t\<lparr>tm_capturing_command_output := True, tm_current_output_line := [], tm_current_output_lines := []\<rparr>
      | CommandFinished _ \<Rightarrow>
          (let t = (if tm_capturing_command_output t then
                      (let t = (if tm_current_output_line t \<noteq> []
                                then t\<lparr> tm_current_output_lines := tm_current_output_lines t @ [tm_current_output_line t],
                                        tm_current_output_line := [] \<rparr> else t)
                       in t\<lparr> tm_last_command_output := Some (tm_current_output_lines t),
                             tm_current_output_lines := [] \<rparr>)
                    else t)
           in t\<lparr>tm_capturing_command_output := False\<rparr>)
      | _ \<Rightarrow> t)"

definition handle_osc133_prompt_mark :: "u8 list \<Rightarrow> u8 list option \<Rightarrow> terminal \<Rightarrow> terminal" where
  "handle_osc133_prompt_mark sub extra t =
     (case prompt_kind sub extra of
        None \<Rightarrow> t
      | Some kind \<Rightarrow>
          (let row = tm_total_scrolled_lines t + word_of_nat (tm_cursor_row t);
               t = capture_output kind (t\<lparr>tm_input_line_active := (kind = CommandStart)\<rparr>);
               marks = tm_prompt_marks t @ [(kind, row)]
           in t\<lparr>tm_prompt_marks := (if length marks > MAX_PROMPT_MARKS then tl marks else marks)\<rparr>))"

fun anchor_rows :: "bool \<Rightarrow> prompt_mark list \<Rightarrow> u64 list" where
  "anchor_rows anchored [] = []"
| "anchor_rows anchored ((PromptStart, row) # ms) = row # anchor_rows True ms"
| "anchor_rows anchored ((CommandStart, row) # ms) =
     (if anchored then anchor_rows anchored ms else row # anchor_rows True ms)"
| "anchor_rows anchored ((CommandExecuted, row) # ms) = anchor_rows False ms"
| "anchor_rows anchored ((CommandFinished c, row) # ms) = anchor_rows False ms"

definition prompt_anchor_rows :: "terminal \<Rightarrow> u64 list" where
  "prompt_anchor_rows t = anchor_rows False (tm_prompt_marks t)"

definition is_prompt_row_reachable :: "u64 \<Rightarrow> u32 \<Rightarrow> terminal \<Rightarrow> bool" where
  "is_prompt_row_reachable abs_row scrollback_len t =
     (if abs_row \<ge> tm_total_scrolled_lines t
      then abs_row - tm_total_scrolled_lines t < word_of_nat (tm_rows t)
      else tm_total_scrolled_lines t - 1 - abs_row < ucast scrollback_len)"

record prompt_jump_target =
  pj_scroll_offset :: u32
  pj_is_live :: bool

definition resolve_prompt_row_target :: "u64 \<Rightarrow> terminal \<Rightarrow> prompt_jump_target" where
  "resolve_prompt_row_target abs_row t =
     (if abs_row \<ge> tm_total_scrolled_lines t then \<lparr>pj_scroll_offset = 0, pj_is_live = True\<rparr>
      else \<lparr>pj_scroll_offset = ucast (min (tm_total_scrolled_lines t - 1 - abs_row) 0xFFFFFFFF),
            pj_is_live = False\<rparr>)"

fun list_max :: "u64 list \<Rightarrow> u64 option" where
  "list_max [] = None"
| "list_max (x # xs) = Some (case list_max xs of None \<Rightarrow> x | Some y \<Rightarrow> max x y)"

fun list_min :: "u64 list \<Rightarrow> u64 option" where
  "list_min [] = None"
| "list_min (x # xs) = Some (case list_min xs of None \<Rightarrow> x | Some y \<Rightarrow> min x y)"

definition prompt_jump_target :: "bool \<Rightarrow> u32 \<Rightarrow> bool \<Rightarrow> u32 \<Rightarrow> terminal \<Rightarrow> prompt_jump_target option" where
  "prompt_jump_target want_previous from_scroll_offset from_showing_scrollback scrollback_len t =
     (let reference = (if from_showing_scrollback
                       then sat_sub (sat_sub (tm_total_scrolled_lines t) 1) (ucast from_scroll_offset)
                       else tm_total_scrolled_lines t + word_of_nat (tm_cursor_row t));
          anchors = prompt_anchor_rows t
      in if want_previous then
           map_option (\<lambda>r. resolve_prompt_row_target r t)
             (list_max (filter (\<lambda>r. r < reference \<and> is_prompt_row_reachable r scrollback_len t) anchors))
         else
           (case list_min (filter (\<lambda>r. r > reference \<and> is_prompt_row_reachable r scrollback_len t) anchors) of
              Some r \<Rightarrow> Some (resolve_prompt_row_target r t)
            | None \<Rightarrow> if from_showing_scrollback then Some \<lparr>pj_scroll_offset = 0, pj_is_live = True\<rparr>
                      else None))"

text \<open>\<^verbatim>\<open>terminal_arrow_bytes\<close> without modifiers (\<^verbatim>\<open>src/lib.rs\<close>), and the arrows a tap on
  the input line sends.\<close>

definition terminal_arrow_bytes :: "u8 \<Rightarrow> bool \<Rightarrow> u8 list" where
  "terminal_arrow_bytes letter application_cursor_mode =
     (if application_cursor_mode then [0x1B, 0x4F, letter] else [0x1B, 0x5B, letter])"

definition cursor_move_bytes_for_click :: "nat \<Rightarrow> nat \<Rightarrow> terminal \<Rightarrow> u8 list option" where
  "cursor_move_bytes_for_click row col t =
     (if \<not> tm_input_line_active t then None
      else if row \<noteq> tm_cursor_row t then None
      else
        (let target_col = min col (tm_cols t - 1);
             delta = int target_col - int (tm_cursor_col t)
         in if delta = 0 then None
            else (let letter = (if delta > 0 then 0x43 else 0x44)
                  in Some (concat (replicate (nat \<bar>delta\<bar>)
                       (terminal_arrow_bytes letter (tm_application_cursor_mode t)))))))"

section \<open>Dispatch\<close>

definition osc_dispatch :: "(u8 list \<Rightarrow> u8 list option) \<Rightarrow> u8 list list \<Rightarrow> bool \<Rightarrow> terminal \<Rightarrow> terminal" where
  "osc_dispatch b64 ps bell_terminated t =
     (if (param_is ps 0 ''0'' \<or> param_is ps 0 ''2'') \<and> 1 < length ps then
        (case utf8_decode (ps ! 1) of Some s \<Rightarrow> t\<lparr>tm_title := Some s\<rparr> | None \<Rightarrow> t)
      else if param_is ps 0 ''10'' \<and> 1 < length ps then
        handle_osc_default_color Foreground (ps ! 1) bell_terminated t
      else if param_is ps 0 ''11'' \<and> 1 < length ps then
        handle_osc_default_color Background (ps ! 1) bell_terminated t
      else if param_is ps 0 ''12'' \<and> 1 < length ps then
        handle_osc_default_color Cursor (ps ! 1) bell_terminated t
      else if param_is ps 0 ''112'' then t\<lparr>tm_cursor_color := None\<rparr>
      else if param_is ps 0 ''4'' \<and> param_is ps 1 ''264'' then
        (case param ps 2 \<bind> parse_osc_color_spec of
           Some argb \<Rightarrow> t\<lparr>tm_tab_color := Some (argb_to_rgb888 argb)\<rparr> | None \<Rightarrow> t)
      else if param_is ps 0 ''6'' \<and> param_is ps 1 ''1'' then handle_osc6_iterm2_tab_color ps t
      else if param_is ps 0 ''8'' then handle_osc8_hyperlink ps t
      else if param_is ps 0 ''133'' \<and> 1 < length ps then
        handle_osc133_prompt_mark (ps ! 1) (param ps 2) t
      else if param_is ps 0 ''52'' then
        (case param ps 2 of
           None \<Rightarrow> t
         | Some payload \<Rightarrow>
             (if bytes_are payload ''?'' then t\<lparr>tm_pending_clipboard_pull_request := True\<rparr>
              else (case b64 payload \<bind> utf8_decode of
                      Some text \<Rightarrow> t\<lparr>tm_pending_clipboard_write := Some text\<rparr> | None \<Rightarrow> t)))
      else t)"

text \<open>Everything that changes the terminal: what the parser delivers, the resizes and the theme of
  the user interface, the decoded images, and the drains of the session loop.\<close>

datatype term_event =
    TEv_Print uchar
  | TEv_Execute u8
  | TEv_Csi "u16 list" nat string char
  | TEv_Esc string char
  | TEv_Osc "u8 list list" bool
  | TEv_Resize nat nat
  | TEv_SetTheme theme
  | TEv_PlaceSixel nat nat "u8 list"
  | TEv_Kitty kitty_command
  | TEv_TakeScrollback
  | TEv_TakeResponses
  | TEv_TakeFullDamage
  | TEv_TakeClipboardWrite
  | TEv_TakeClipboardPull
  | TEv_EndSynchronizedOutput
  | TEv_SetTitle "uchar list"
  | TEv_SetTabColor u8 u8 u8

fun term_step :: "width_fn \<Rightarrow> (u8 list \<Rightarrow> u8 list option) \<Rightarrow> terminal \<Rightarrow> term_event \<Rightarrow> terminal option" where
  "term_step cw b64 t (TEv_Print c) = term_print cw c t"
| "term_step cw b64 t (TEv_Execute b) = execute b t"
| "term_step cw b64 t (TEv_Csi ps n ints action) = csi_dispatch cw ps n ints action t"
| "term_step cw b64 t (TEv_Esc ints byte) = esc_dispatch ints byte t"
| "term_step cw b64 t (TEv_Osc ps bell) = Some (osc_dispatch b64 ps bell t)"
| "term_step cw b64 t (TEv_Resize c r) = resize_preserving_state cw c r t"
| "term_step cw b64 t (TEv_SetTheme th) = Some (t\<lparr>tm_theme := th\<rparr>)"
| "term_step cw b64 t (TEv_PlaceSixel w h rgba) = map_option fst (push_image w h rgba t)"
| "term_step cw b64 t (TEv_Kitty cmd) = dispatch_kitty_command cmd t"
| "term_step cw b64 t TEv_TakeScrollback = Some (t\<lparr>tm_pending_scrollback := []\<rparr>)"
| "term_step cw b64 t TEv_TakeResponses = Some (t\<lparr>tm_pending_terminal_responses := []\<rparr>)"
| "term_step cw b64 t TEv_TakeFullDamage = Some (t\<lparr>tm_full_damage_pending := False\<rparr>)"
| "term_step cw b64 t TEv_TakeClipboardWrite = Some (t\<lparr>tm_pending_clipboard_write := None\<rparr>)"
| "term_step cw b64 t TEv_TakeClipboardPull = Some (t\<lparr>tm_pending_clipboard_pull_request := False\<rparr>)"
| "term_step cw b64 t TEv_EndSynchronizedOutput = Some (t\<lparr>tm_synchronized_output_active := False\<rparr>)"
| "term_step cw b64 t (TEv_SetTitle s) = Some (t\<lparr>tm_title := Some s\<rparr>)"
| "term_step cw b64 t (TEv_SetTabColor r g b) = Some (t\<lparr>tm_tab_color := Some (r, g, b)\<rparr>)"

end
