(* ===== verification/TermSafety.thy ===== *)
theory TermSafety
  imports TermOsc
begin

text \<open>
  The terminal never panics: every event, in every state with the invariant, is handled without an
  access out of bounds and leads to a state with the invariant. Along the way, what a handler leaves
  alone: the table of hyperlinks only grows, and while the alternate screen is shown the main screen
  and its saved cursor stay as they are. The locale \<open>panic_free\<close> is interpreted on the
  terminal's step.
\<close>

section \<open>Steps\<close>

definition grows :: "terminal \<Rightarrow> terminal \<Rightarrow> bool" where
  "grows t0 t \<longleftrightarrow>
     (\<exists>u. tm_link_table t = tm_link_table t0 @ u \<and>
          list_all (\<lambda>uri. \<not> contains_disallowed_hyperlink_chars uri) u)"

definition held :: "terminal \<Rightarrow> terminal \<Rightarrow> bool" where
  "held t0 t \<longleftrightarrow> (tm_alt_active t0 \<longrightarrow>
     tm_alt_active t \<and> tm_main_cells t = tm_main_cells t0 \<and>
     tm_saved_cursor_main t = tm_saved_cursor_main t0)"

text \<open>A state \<open>t\<close> reached from \<open>t0\<close>; with \<open>h\<close>, by events that hold the main screen.\<close>

definition fr :: "bool \<Rightarrow> terminal \<Rightarrow> terminal \<Rightarrow> bool" where
  "fr h t0 t \<longleftrightarrow> tm_inv t \<and> grows t0 t \<and> (h \<longrightarrow> held t0 t)"

lemma fr_refl [simp]: "fr h t t = tm_inv t"
  by (simp add: fr_def grows_def held_def)

lemma fr_inv: "fr h t0 t \<Longrightarrow> tm_inv t"
  by (simp add: fr_def)

lemma fr_same: "fr h t0 t \<Longrightarrow> tm_inv t' \<Longrightarrow> tm_same t t' \<Longrightarrow> fr h t0 t'"
  by (auto simp: fr_def grows_def held_def tm_same_def)

lemma safe_fr_same:
  "safe m (\<lambda>t'. tm_inv t' \<and> tm_same t t') \<Longrightarrow> fr h t0 t \<Longrightarrow> safe m (fr h t0)"
  by (erule safe_mono) (auto intro: fr_same)

lemma fr_alt: "fr True t0 t \<Longrightarrow> tm_alt_active t0 \<Longrightarrow> tm_alt_active t"
  by (simp add: fr_def held_def)

lemmas fr_geometry = geometryD [OF fr_inv]

text \<open>Fields neither the invariant nor the frame reads.\<close>

lemma fr_fields [simp]:
  "fr h t0 (t\<lparr>tm_title := x_title\<rparr>) = fr h t0 t"
  "fr h t0 (t\<lparr>tm_tab_color := x_tab_color\<rparr>) = fr h t0 t"
  "fr h t0 (t\<lparr>tm_cursor_color := x_cursor_color\<rparr>) = fr h t0 t"
  "fr h t0 (t\<lparr>tm_pending_clipboard_write := x_pending_clipboard_write\<rparr>) = fr h t0 t"
  "fr h t0 (t\<lparr>tm_pending_clipboard_pull_request := x_pending_clipboard_pull_request\<rparr>) = fr h t0 t"
  "fr h t0 (t\<lparr>tm_pending_terminal_responses := x_pending_terminal_responses\<rparr>) = fr h t0 t"
  "fr h t0 (t\<lparr>tm_application_cursor_mode := x_application_cursor_mode\<rparr>) = fr h t0 t"
  "fr h t0 (t\<lparr>tm_application_keypad_mode := x_application_keypad_mode\<rparr>) = fr h t0 t"
  "fr h t0 (t\<lparr>tm_bracketed_paste_mode := x_bracketed_paste_mode\<rparr>) = fr h t0 t"
  "fr h t0 (t\<lparr>tm_synchronized_output_active := x_synchronized_output_active\<rparr>) = fr h t0 t"
  "fr h t0 (t\<lparr>tm_full_damage_pending := x_full_damage_pending\<rparr>) = fr h t0 t"
  "fr h t0 (t\<lparr>tm_focus_reporting_mode := x_focus_reporting_mode\<rparr>) = fr h t0 t"
  "fr h t0 (t\<lparr>tm_cursor_visible := x_cursor_visible\<rparr>) = fr h t0 t"
  "fr h t0 (t\<lparr>tm_bell_generation := x_bell_generation\<rparr>) = fr h t0 t"
  "fr h t0 (t\<lparr>tm_cursor_shape := x_cursor_shape\<rparr>) = fr h t0 t"
  "fr h t0 (t\<lparr>tm_cursor_blink := x_cursor_blink\<rparr>) = fr h t0 t"
  "fr h t0 (t\<lparr>tm_autowrap_mode := x_autowrap_mode\<rparr>) = fr h t0 t"
  "fr h t0 (t\<lparr>tm_origin_mode := x_origin_mode\<rparr>) = fr h t0 t"
  "fr h t0 (t\<lparr>tm_g0_charset := x_g0_charset\<rparr>) = fr h t0 t"
  "fr h t0 (t\<lparr>tm_g1_charset := x_g1_charset\<rparr>) = fr h t0 t"
  "fr h t0 (t\<lparr>tm_gl_is_g1 := x_gl_is_g1\<rparr>) = fr h t0 t"
  "fr h t0 (t\<lparr>tm_mouse_reporting_mode := x_mouse_reporting_mode\<rparr>) = fr h t0 t"
  "fr h t0 (t\<lparr>tm_sgr_mouse_mode := x_sgr_mouse_mode\<rparr>) = fr h t0 t"
  "fr h t0 (t\<lparr>tm_alternate_scroll := x_alternate_scroll\<rparr>) = fr h t0 t"
  "fr h t0 (t\<lparr>tm_urxvt_mouse_mode := x_urxvt_mouse_mode\<rparr>) = fr h t0 t"
  "fr h t0 (t\<lparr>tm_theme := x_theme\<rparr>) = fr h t0 t"
  "fr h t0 (t\<lparr>tm_cur_attrs := x_cur_attrs\<rparr>) = fr h t0 t"
  "fr h t0 (t\<lparr>tm_total_scrolled_lines := x_total_scrolled_lines\<rparr>) = fr h t0 t"
  "fr h t0 (t\<lparr>tm_input_line_active := x_input_line_active\<rparr>) = fr h t0 t"
  "fr h t0 (t\<lparr>tm_capturing_command_output := x_capturing_command_output\<rparr>) = fr h t0 t"
  "fr h t0 (t\<lparr>tm_current_output_line := x_current_output_line\<rparr>) = fr h t0 t"
  "fr h t0 (t\<lparr>tm_current_output_lines := x_current_output_lines\<rparr>) = fr h t0 t"
  "fr h t0 (t\<lparr>tm_last_command_output := x_last_command_output\<rparr>) = fr h t0 t"
  by (simp_all add: fr_def grows_def held_def tm_inv_defs)

lemma fr_cursor_col: "fr h t0 t \<Longrightarrow> c \<le> tm_cols t \<Longrightarrow> fr h t0 (t\<lparr>tm_cursor_col := c\<rparr>)"
  by (simp add: fr_def grows_def held_def tm_inv_defs)

lemma fr_cursor_row: "fr h t0 t \<Longrightarrow> r < tm_rows t \<Longrightarrow> fr h t0 (t\<lparr>tm_cursor_row := r\<rparr>)"
  by (simp add: fr_def grows_def held_def tm_inv_defs)

lemma fr_clear_images: "fr h t0 t \<Longrightarrow> fr h t0 (clear_images t)"
  by (simp add: fr_def grows_def held_def tm_inv_defs clear_images_def)

lemma fr_link: "fr h t0 t \<Longrightarrow> link_ok (nlinks t) l \<Longrightarrow> fr h t0 (t\<lparr>tm_active_link_id := l\<rparr>)"
  by (simp add: fr_def grows_def held_def tm_inv_defs)

section \<open>Printing\<close>

lemma inv_cell_index:
  "tm_inv t \<Longrightarrow> col < tm_cols t \<Longrightarrow> tm_cursor_row t * tm_cols t + col < length (cells t)"
  using geometryD [of t] grid_index [of "tm_cursor_row t" "tm_rows t" col "tm_cols t"]
  by (simp add: inv_length_cells)

lemma cell_put_safe:
  assumes "tm_inv t" "col < tm_cols t" "cell_ok (nlinks t) cell"
  shows "safe (cell_put (tm_cursor_row t) col cell t)
    (\<lambda>t'. (tm_inv t' \<and> tm_same t t') \<and> tm_cursor_row t' = tm_cursor_row t)"
  using assms inv_cell_index [OF assms(1,2)] inv_cells [OF assms(1)]
  by (auto simp: cell_put_def intro!: inv_set_cells)

lemma attach_combining_same:
  assumes "tm_inv t"
  shows "safe (attach_combining c t) (\<lambda>t'. tm_inv t' \<and> tm_same t t')"
proof (cases "tm_cursor_col t = 0 \<or> tm_cursor_row t \<ge> tm_rows t")
  case False
  let ?row = "tm_cursor_row t" and ?col = "tm_cursor_col t - 1"
  let ?Q = "\<lambda>t'. tm_inv t' \<and> tm_same t t'"
  have col: "?col < tm_cols t" using geometryD [OF assms] False by auto
  have put: "safe (do { cell \<leftarrow> vget (cells t) (?row * tm_cols t + k);
        if str_len (tc_ch cell) + utf8_len c > MAX_COMBINING_BYTES_PER_CELL then Some t
        else cell_put ?row k (cell\<lparr>tc_ch := tc_ch cell @ [c]\<rparr>) t }) ?Q" if k: "k < tm_cols t" for k
  proof -
    note i = inv_cell_index [OF assms k]
    have ok: "cell_ok (nlinks t) (cells t ! (?row * tm_cols t + k))"
      using inv_cells [OF assms] i by (simp add: cells_ok_def)
    have "safe (cell_put ?row k (cell\<lparr>tc_ch := tc_ch cell @ [c]\<rparr>) t) ?Q"
      if "cell_ok (nlinks t) cell" "str_len (tc_ch cell) + utf8_len c \<le> MAX_COMBINING_BYTES_PER_CELL" for cell
      by (rule safe_mono [OF cell_put_safe [OF assms k]]) (use that in \<open>auto simp: cell_ok_def\<close>)
    with i ok assms show ?thesis by (simp add: not_less)
  qed
  have start: "safe (if 0 < ?col then do { x \<leftarrow> vget (cells t) (?row * tm_cols t + ?col);
        Some (if tc_wide_placeholder x then ?col - 1 else ?col) } else Some ?col) (\<lambda>k. k < tm_cols t)"
    using inv_cell_index [OF assms col] col by auto
  from False have "tm_cursor_col t \<noteq> 0" "\<not> tm_cursor_row t \<ge> tm_rows t" by auto
  then show ?thesis
    unfolding attach_combining_def Let_def
    by (simp only: if_False) (rule safe_bindI [OF start], rule put)
qed (use assms in \<open>auto simp: attach_combining_def\<close>)

lemma wrap_cursor_safe:
  assumes "fr h t0 t"
  shows "safe (wrap_cursor width t) (\<lambda>t'. fr h t0 t' \<and> tm_cursor_col t' < tm_cols t')"
proof -
  have g: "0 < tm_cols t" "tm_cursor_col t \<le> tm_cols t" using fr_geometry [OF assms] by auto
  let ?u = "t\<lparr>tm_cursor_col := 0\<rparr>"
  have u: "fr h t0 ?u" using assms by (rule fr_cursor_col) simp
  have "safe (newline ?u) (\<lambda>t'. fr h t0 t' \<and> tm_cursor_col t' < tm_cols t')"
    by (rule safe_mono [OF newline_safe [OF fr_inv [OF u]]])
      (use g u in \<open>auto intro: fr_same simp: tm_same_def\<close>)
  then show ?thesis
    using g assms by (auto simp: wrap_cursor_def needs_wrap_def fr_cursor_col)
qed

lemma inv_active_link: "tm_inv t \<Longrightarrow> link_ok (nlinks t) (tm_active_link_id t)"
  by (simp add: tm_inv_def tm_contents_def)

lemma write_char_safe:
  assumes "fr h t0 t" "tm_cursor_col t < tm_cols t"
  shows "safe (write_char cw width c t) (fr h t0)"
proof (cases "tm_cursor_row t < tm_rows t")
  case True
  let ?row = "tm_cursor_row t" and ?col = "tm_cursor_col t" and ?a = "tm_cur_attrs t"
  let ?link = "tm_active_link_id t" and ?cols = "tm_cols t"
  let ?room = "width = 2 \<and> ?col + 1 < ?cols"
  let ?P = "\<lambda>t'. (tm_inv t' \<and> tm_same t t') \<and> tm_cursor_row t' = ?row"
  note inv = fr_inv [OF assms(1)]
  define u where "u = t\<lparr>tm_last_graphic_cell := Some (c, ?a, ?link)\<rparr>"
  have u: "?P u" using inv by (simp add: u_def tm_same_def tm_inv_defs)
  have P_links: "nlinks t' = nlinks t" if "?P t'" for t'
    using that by (simp add: tm_same_def nlinks_def)
  have head: "cell_ok (nlinks t) ((to_cell ?a [c])\<lparr>tc_link_id := ?link\<rparr>)"
    and tail: "cell_ok (nlinks t) ((to_cell ?a [SP])\<lparr>tc_wide_placeholder := True, tc_link_id := ?link\<rparr>)"
    using inv_active_link [OF inv] cell_ok_to_cell [of "nlinks t" ?a c] cell_ok_to_cell [of "nlinks t" ?a SP]
    by (auto simp: cell_ok_def to_cell_def)
  have put: "safe (cell_put ?row k cell t') ?P" if "?P t'" "k < ?cols" "cell_ok (nlinks t) cell" for t' k cell
    using cell_put_safe [of t' k cell] that P_links [of t']
    by (auto elim!: safe_mono intro: tm_same_trans) (simp add: tm_same_def)
  have s1: "safe (cell_put ?row ?col ((to_cell ?a [c])\<lparr>tc_link_id := ?link\<rparr>) u) ?P"
    by (rule put) (use u assms head in auto)
  have s2: "safe (if ?room then cell_put ?row (?col + 1)
      ((to_cell ?a [SP])\<lparr>tc_wide_placeholder := True, tc_link_id := ?link\<rparr>) t' else Some t') ?P" if "?P t'" for t'
    using put [OF that _ tail, of "?col + 1"] that by auto
  have s3: "safe (if \<not> tm_autowrap_mode t' \<and> width = 2 \<and> \<not> ?room then sanitize_wide_row cw ?row t' else Some t')
      (\<lambda>t'. tm_inv t' \<and> tm_same t t')" if "?P t'" for t'
  proof -
    have "?row < tm_rows t'" using that True by (simp add: tm_same_def)
    then show ?thesis
      using same_via [OF sanitize_wide_row_safe [of t' ?row cw], of t] that by simp
  qed
  have s4: "fr h t0 (if tm_autowrap_mode t' then t'\<lparr>tm_cursor_col := ?col + (if ?room then 2 else 1)\<rparr>
      else t'\<lparr>tm_cursor_col := min (?col + (if ?room then 2 else 1)) (tm_cols t' - 1)\<rparr>)"
    if "tm_inv t' \<and> tm_same t t'" for t'
  proof -
    have "fr h t0 t'" using fr_same [OF assms(1)] that by blast
    then show ?thesis using that assms(2) by (auto simp: tm_same_def intro!: fr_cursor_col)
  qed
  show ?thesis
    unfolding write_char_def Let_def u_def [symmetric] if_P [OF True]
    by (rule safe_bindI [OF s1], rule safe_bindI [OF s2], assumption,
        rule safe_bindI [OF s3], assumption, unfold safe_Some, rule s4)
qed (use assms in \<open>simp add: write_char_def\<close>)

lemma print_mapped_safe:
  assumes "fr h t0 t"
  shows "safe (print_mapped cw c t) (fr h t0)"
proof -
  have "safe (wrap_cursor w t \<bind> write_char cw w c) (fr h t0)" for w
    by (rule safe_bindI [OF wrap_cursor_safe [OF assms]]) (auto intro: write_char_safe)
  moreover have "safe (attach_combining c t) (fr h t0)"
    by (rule safe_fr_same [OF attach_combining_same [OF fr_inv [OF assms]] assms])
  ultimately show ?thesis by (simp add: print_mapped_def Let_def)
qed

lemma term_print_safe: "fr h t0 t \<Longrightarrow> safe (term_print cw c t) (fr h t0)"
  by (simp add: term_print_def Let_def print_mapped_safe)

section \<open>Controls and rendition\<close>

lemma next_tab_stop_safe:
  "fr h t0 t \<Longrightarrow> safe (next_tab_stop t col) (\<lambda>c. c \<le> tm_cols t)"
  using fr_geometry [of h t0 t] unfolding next_tab_stop_def safe_bind
  by (intro safe_ofind) auto

lemma prev_tab_stop_safe:
  "fr h t0 t \<Longrightarrow> col \<le> tm_cols t \<Longrightarrow> safe (prev_tab_stop t col) (\<lambda>c. c \<le> tm_cols t)"
  using fr_geometry [of h t0 t] unfolding prev_tab_stop_def safe_bind
  by (intro safe_ofind) auto

lemmas edits_safe = insert_lines_safe [THEN safe_fr_same] delete_lines_safe [THEN safe_fr_same]
  insert_chars_safe [THEN safe_fr_same] delete_chars_safe [THEN safe_fr_same]
  erase_chars_safe [THEN safe_fr_same] erase_cells_safe [THEN safe_fr_same]
  scroll_up_region_safe [THEN safe_fr_same] scroll_down_region_safe [THEN safe_fr_same]
  shift_rows_down_safe [THEN safe_fr_same] newline_safe [THEN safe_fr_same]

lemma execute_safe:
  assumes "fr h t0 t"
  shows "safe (execute byte t) (fr h t0)"
proof -
  have "fr h t0 (if tm_capturing_command_output t
      then t\<lparr>tm_current_output_lines := ls, tm_current_output_line := []\<rparr> else t)" for ls
    using assms by simp
  note lf = edits_safe(10) [OF fr_inv [OF this] this]
  have ht: "safe (do { col \<leftarrow> next_tab_stop t (tm_cursor_col t); Some (t\<lparr>tm_cursor_col := col\<rparr>) }) (fr h t0)"
    by (rule safe_bindI [OF next_tab_stop_safe [OF assms]]) (simp add: fr_cursor_col assms)
  show ?thesis
    unfolding execute_def
    by (intro safe_if [THEN iffD2] conjI impI lf ht)
      (use assms fr_geometry [OF assms] in \<open>auto intro: fr_cursor_col\<close>)
qed

section \<open>CSI sequences\<close>

lemma respond_fr [simp]: "fr h t0 (respond s t) = fr h t0 t"
  by (simp add: respond_def)

lemma set_kitty_fr:
  "fr h t0 t \<Longrightarrow> length s \<le> KITTY_KEYBOARD_STACK_MAX \<Longrightarrow> fr h t0 (set_kitty_flags_stack s t)"
  by (simp add: set_kitty_flags_stack_def fr_def grows_def held_def tm_inv_defs)

lemma kitty_stack_le: "tm_inv t \<Longrightarrow> length (kitty_flags_stack t) \<le> KITTY_KEYBOARD_STACK_MAX"
  by (simp add: kitty_flags_stack_def tm_inv_defs)

lemma kitty_fr:
  assumes "fr h t0 t"
  shows "fr h t0 (kitty_push f t)" "fr h t0 (kitty_pop p t)" "fr h t0 (kitty_set f p t)"
  using kitty_stack_le [OF fr_inv [OF assms]]
  by (auto simp: kitty_push_def kitty_pop_def kitty_set_def Let_def limit_defs
      intro!: set_kitty_fr [OF assms])

lemma switch_to_alt_fr:
  assumes "fr h t0 t"
  shows "safe (switch_to_alt save t) (fr h t0)"
proof (rule safe_mono [OF safe_conj [OF switch_to_alt_safe [OF fr_inv [OF assms]]]])
  show "safe (switch_to_alt save t) (\<lambda>t'. tm_link_table t' = tm_link_table t \<and> (tm_alt_active t \<longrightarrow> t' = t))"
    using fr_geometry [OF assms] by (auto simp: switch_to_alt_def Let_def clear_images_def)
  fix t'
  assume "tm_inv t' \<and> tm_link_table t' = tm_link_table t \<and> (tm_alt_active t \<longrightarrow> t' = t)"
  with assms show "fr h t0 t'" by (auto simp: fr_def grows_def held_def)
qed

lemma dec_mode_set_safe:
  assumes "fr h t0 t"
  shows "safe (dec_mode_set p t) (fr h t0)"
  using fr_geometry [OF assms] unfolding dec_mode_set_def
  by (intro safe_if [THEN iffD2] conjI impI switch_to_alt_fr [OF assms])
    (simp_all add: assms fr_cursor_row fr_cursor_col)

lemma switch_to_main_fr: "fr False t0 t \<Longrightarrow> fr False t0 (switch_to_main r t)"
  using switch_to_main_inv [of t r]
  by (auto simp: fr_def grows_def switch_to_main_def Let_def clear_images_def apply_saved_cursor_def
      split: option.split)

text \<open>The modes whose reset leaves the alternate screen.\<close>

definition alt_mode :: "nat \<Rightarrow> bool" where
  "alt_mode p \<longleftrightarrow> p = 47 \<or> p = 1047 \<or> p = 1049"

lemma dec_mode_reset_safe:
  assumes "fr h t0 t" "h \<longrightarrow> \<not> alt_mode p"
  shows "safe (dec_mode_reset p t) (fr h t0)"
  using fr_geometry [OF assms(1)] assms unfolding dec_mode_reset_def
  by (cases h) (simp_all add: alt_mode_def switch_to_main_fr fr_cursor_row fr_cursor_col)

lemma dec_mode_safe:
  "fr h t0 t \<Longrightarrow> h \<and> action = CHR ''l'' \<longrightarrow> \<not> alt_mode (unat p) \<Longrightarrow> safe (dec_mode action p t) (fr h t0)"
  by (auto simp: dec_mode_def intro!: dec_mode_set_safe dec_mode_reset_safe)

lemma origin_bounds:
  "tm_inv t \<Longrightarrow> fst (origin_row_bounds t) \<le> snd (origin_row_bounds t) \<and> snd (origin_row_bounds t) < tm_rows t"
  using geometryD [of t] by (auto simp: origin_row_bounds_def)

lemma cursor_moves_fr:
  assumes "fr h t0 t"
  shows "fr h t0 (cursor_up n t)" "fr h t0 (cursor_down n t)"
    "fr h t0 ((cursor_up n t)\<lparr>tm_cursor_col := 0\<rparr>)" "fr h t0 ((cursor_down n t)\<lparr>tm_cursor_col := 0\<rparr>)"
  using origin_bounds [OF fr_inv [OF assms]] fr_geometry [OF assms]
  by (auto simp: cursor_up_def cursor_down_def intro!: fr_cursor_row fr_cursor_col assms)

lemma row_absolute_safe: "fr h t0 t \<Longrightarrow> safe (row_absolute n t) (fr h t0)"
  using origin_bounds [OF fr_inv, of h t0 t]
  by (auto simp: row_absolute_def case_prod_beta intro!: fr_cursor_row)

lemma col_absolute_safe: "fr h t0 t \<Longrightarrow> safe (col_absolute n t) (fr h t0)"
  using fr_geometry [of h t0 t] by (auto simp: col_absolute_def intro!: fr_cursor_col)

lemma tabs_forward_safe: "fr h t0 t \<Longrightarrow> safe (tabs_forward n t) (fr h t0)"
proof (induction n arbitrary: t)
  case (Suc n)
  have "safe (if c = tm_cursor_col t then Some t else tabs_forward n (t\<lparr>tm_cursor_col := c\<rparr>)) (fr h t0)"
    if "c \<le> tm_cols t" for c
    using Suc that by (simp add: fr_cursor_col)
  then show ?case
    by (simp only: tabs_forward.simps) (rule safe_bindI [OF next_tab_stop_safe [OF Suc.prems]])
qed simp

lemma tabs_backward_safe: "fr h t0 t \<Longrightarrow> safe (tabs_backward n t) (fr h t0)"
proof (induction n arbitrary: t)
  case (Suc n)
  have "tm_cursor_col t \<le> tm_cols t" using fr_geometry [OF Suc.prems] by simp
  moreover have "safe (tabs_backward n (t\<lparr>tm_cursor_col := c\<rparr>)) (fr h t0)" if "c \<le> tm_cols t" for c
    using Suc that by (simp add: fr_cursor_col)
  ultimately show ?case
    using Suc.prems unfolding tabs_backward.simps
    by (auto intro: safe_mono [OF prev_tab_stop_safe])
qed simp

lemma erase_display_safe:
  assumes "fr h t0 t"
  shows "safe (erase_display p t) (fr h t0)"
proof -
  have home: "fr h t0 (clear_images (t'\<lparr>tm_cursor_row := 0, tm_cursor_col := 0\<rparr>))"
    if "fr h t0 t'" for t'
    using that fr_geometry [OF that] by (intro fr_clear_images fr_cursor_col fr_cursor_row) auto
  show ?thesis
    unfolding erase_display_def Let_def safe_if safe_bind safe_Some
    by (intro conjI impI edits_safe [OF fr_inv [OF assms] assms]
        safe_mono [OF edits_safe(6) [OF fr_inv [OF assms] assms]] home assms)
qed

lemma erase_line_safe: "fr h t0 t \<Longrightarrow> safe (erase_line p t) (fr h t0)"
  by (simp add: erase_line_def Let_def edits_safe fr_inv)

lemma repeat_last_safe:
  assumes "fr h t0 t"
  shows "safe (repeat_last cw p t) (fr h t0)"
proof (cases "tm_last_graphic_cell t")
  case (Some g)
  then obtain c a l where g: "tm_last_graphic_cell t = Some (c, a, l)" by (cases g) auto
  define u where "u = t\<lparr>tm_cur_attrs := a, tm_active_link_id := l\<rparr>"
  note inv = fr_inv [OF assms]
  have "tm_inv u" "fr h t0 u"
    using inv g assms unfolding u_def
    by (auto simp: tm_inv_defs fr_def grows_def held_def)
  then have loop: "safe (ofold (\<lambda>_. print_mapped cw c) ns u) (\<lambda>t'. fr h t0 t' \<and> fr False u t')" for ns :: "nat list"
    by (intro safe_ofold safe_conj print_mapped_safe) auto
  have restore: "fr h t0 (t'\<lparr>tm_cur_attrs := tm_cur_attrs t, tm_active_link_id := tm_active_link_id t\<rparr>)"
    if r: "fr h t0 t' \<and> fr False u t'" for t'
  proof -
    obtain w where "tm_link_table t' = tm_link_table u @ w" using r unfolding fr_def grows_def by blast
    then have "nlinks t \<le> nlinks t'" by (simp add: u_def nlinks_def)
    then have "link_ok (nlinks t') (tm_active_link_id t)"
      using inv_active_link [OF inv] by (auto simp: link_ok_def)
    with that show ?thesis
      using fr_link [of h t0 "t'\<lparr>tm_cur_attrs := tm_cur_attrs t\<rparr>" "tm_active_link_id t"]
      by (simp add: nlinks_def)
  qed
  show ?thesis
    unfolding repeat_last_def Let_def g option.case prod.case u_def [symmetric]
    by (rule safe_bindI [OF loop]) (unfold safe_Some, rule restore)
qed (simp add: repeat_last_def assms)

lemma fr_tab_stops:
  "fr h t0 t \<Longrightarrow> length ts = length (tm_tab_stops t) \<Longrightarrow> fr h t0 (t\<lparr>tm_tab_stops := ts\<rparr>)"
  by (simp add: fr_def grows_def held_def tm_inv_defs)

lemma tab_index: "tm_inv t \<Longrightarrow> min (tm_cursor_col t) (tm_cols t - 1) < length (tm_tab_stops t)"
  using geometryD [of t] by auto

lemma clear_tab_stops_safe: "fr h t0 t \<Longrightarrow> safe (clear_tab_stops p t) (fr h t0)"
  using tab_index [OF fr_inv, of h t0 t] by (auto simp: clear_tab_stops_def intro!: fr_tab_stops)

lemma fr_region:
  "fr h t0 t \<Longrightarrow> a \<le> b \<Longrightarrow> b < tm_rows t \<Longrightarrow> fr h t0 (t\<lparr>tm_scroll_top := a, tm_scroll_bottom := b\<rparr>)"
  by (simp add: fr_def grows_def held_def tm_inv_defs)

lemma set_scroll_region_safe:
  assumes "fr h t0 t"
  shows "safe (set_scroll_region p0 p1 t) (fr h t0)"
proof -
  have home: "fr h t0 (u\<lparr>tm_cursor_row := fst (origin_row_bounds u), tm_cursor_col := 0\<rparr>)"
    if "fr h t0 u" for u
    using that origin_bounds [OF fr_inv [OF that]] by (intro fr_cursor_col fr_cursor_row) auto
  have "0 < tm_rows t" using fr_geometry [OF assms] by simp
  then show ?thesis
    using assms unfolding set_scroll_region_def Let_def
    by (auto intro!: home fr_region)
qed

lemma handle_sgr_fr [simp]: "fr h t0 (handle_sgr ps t) = fr h t0 t"
  by (simp add: handle_sgr_def)

lemma save_cursor_fr: "fr h t0 t \<Longrightarrow> h \<longrightarrow> tm_alt_active t0 \<Longrightarrow> fr h t0 (save_cursor_decsc t)"
  using save_cursor_decsc_inv [of t] by (auto simp: fr_def grows_def held_def save_cursor_decsc_def)

lemma restore_cursor_fr: "fr h t0 t \<Longrightarrow> fr h t0 (restore_cursor_decrc t)"
  using restore_cursor_decrc_inv [of t]
  by (auto simp: fr_def grows_def held_def restore_cursor_decrc_def apply_saved_cursor_def Let_def
      split: option.split)

lemma csi_action_safe:
  assumes "fr h t0 t" "h \<longrightarrow> tm_alt_active t0"
  shows "safe (csi_action cw ps nparams ints action p0 p1 t) (fr h t0)"
proof -
  have right: "safe (do { m \<leftarrow> usub (tm_cols t) 1; Some (t\<lparr>tm_cursor_col := min (tm_cursor_col t + n) m\<rparr>) }) (fr h t0)"
    and left: "fr h t0 (t\<lparr>tm_cursor_col := tm_cursor_col t - n\<rparr>)" for n
    using fr_geometry [OF assms(1)] by (auto intro!: fr_cursor_col [OF assms(1)])
  have cup: "safe (row_absolute n t \<bind> col_absolute m) (fr h t0)" for n m
    by (rule safe_bindI [OF row_absolute_safe [OF assms(1)]]) (rule col_absolute_safe)
  show ?thesis
    unfolding csi_action_def Let_def
    by (intro safe_if [THEN iffD2] conjI impI right cup col_absolute_safe row_absolute_safe
        tabs_forward_safe tabs_backward_safe erase_display_safe erase_line_safe
        edits_safe [OF fr_inv [OF assms(1)]] repeat_last_safe clear_tab_stops_safe
        set_scroll_region_safe assms(1))
      (simp_all add: assms left cursor_moves_fr save_cursor_fr restore_cursor_fr)
qed

definition csi_stays :: "u16 list \<Rightarrow> string \<Rightarrow> char \<Rightarrow> bool" where
  "csi_stays ps ints action \<longleftrightarrow>
     \<not> (action = CHR ''l'' \<and> ints \<noteq> [] \<and> hd ints = CHR ''?'' \<and> list_ex (\<lambda>p. alt_mode (unat p)) ps)"

lemma csi_dispatch_safe:
  assumes "fr h t0 t" "h \<longrightarrow> tm_alt_active t0 \<and> csi_stays ps ints action"
  shows "safe (csi_dispatch cw ps nparams ints action t) (fr h t0)"
proof -
  have modes: "safe (ofold (dec_mode action) ps t) (fr h t0)" if "ints \<noteq> [] \<and> hd ints = CHR ''?''"
    by (rule safe_ofold, rule assms(1), rule dec_mode_safe)
      (use assms(2) that in \<open>auto simp: csi_stays_def list_ex_iff\<close>)
  have misc: "fr h t0 (set_cursor_shape_from_decscusr p t)" "fr h t0 (device_status q t)" for p q
    using assms(1) by (simp_all add: set_cursor_shape_from_decscusr_def device_status_def Let_def)
  show ?thesis
    unfolding csi_dispatch_def Let_def
    by (intro safe_if [THEN iffD2] conjI impI modes csi_action_safe assms(1))
      (use assms in \<open>simp_all add: kitty_fr misc\<close>)
qed

section \<open>ESC sequences\<close>

lemma reset_all_fr: "fr False t0 t \<Longrightarrow> fr False t0 (reset_all t)"
  using reset_all_inv [of t] by (auto simp: fr_def grows_def reset_all_def)

lemma esc_dispatch_safe:
  assumes "fr h t0 t" "h \<longrightarrow> tm_alt_active t0 \<and> \<not> (byte = CHR ''c'' \<and> ints = [])"
  shows "safe (esc_dispatch ints byte t) (fr h t0)"
proof -
  let ?u = "clear_images (t\<lparr>tm_full_damage_pending := True\<rparr>)"
  have u: "fr h t0 ?u" by (rule fr_clear_images) (simp add: assms(1))
  have "safe (shift_rows_down a b 1 ?u) (fr h t0)" for a b
    by (rule edits_safe [OF fr_inv [OF u] u])
  then have ri: "safe (reverse_index t) (fr h t0)"
    using fr_geometry [OF assms(1)] assms(1) by (auto simp: reverse_index_def intro!: fr_cursor_row)
  have hts: "safe (do { ts \<leftarrow> vset (tm_tab_stops t) (min (tm_cursor_col t) (tm_cols t - 1)) True;
      Some (t\<lparr>tm_tab_stops := ts\<rparr>) }) (fr h t0)"
    using tab_index [OF fr_inv [OF assms(1)]] assms(1) by (auto intro!: fr_tab_stops)
  show ?thesis
    unfolding esc_dispatch_def
    by (intro safe_if [THEN iffD2] conjI impI ri hts)
      (use assms in \<open>cases h; simp add: reset_all_fr save_cursor_fr restore_cursor_fr\<close>)+
qed

section \<open>Operating system commands\<close>

lemma ok_mono:
  "link_ok n l \<Longrightarrow> link_ok (Suc n) l" "cell_ok n c \<Longrightarrow> cell_ok (Suc n) c"
  "cells_ok n len cs \<Longrightarrow> cells_ok (Suc n) len cs"
  by (auto simp: link_ok_def cell_ok_def cells_ok_def intro: less_SucI)

text \<open>A new entry of the link table keeps every id that was valid.\<close>

lemma link_added_inv:
  assumes "tm_inv t" "map_of (tm_link_ids t) uri = None" "length (tm_link_table t) < MAX_LINK_TABLE"
  shows "tm_inv (t\<lparr>tm_link_table := tm_link_table t @ [uri],
    tm_link_ids := AList.update uri (length (tm_link_table t)) (tm_link_ids t)\<rparr>)" (is "tm_inv ?t")
proof -
  have old: "map_of (tm_link_ids t) u = Some i \<longleftrightarrow>
      i < length (tm_link_table t) \<and> tm_link_table t ! i = u" for u i
    using assms(1) by (simp add: tm_inv_def tm_links_def nlinks_def)
  have new: "uri \<noteq> tm_link_table t ! i" if "i < length (tm_link_table t)" for i
    using old [of uri i] assms(2) that by auto
  have "((map_of (tm_link_ids t))(uri \<mapsto> length (tm_link_table t))) u = Some i \<longleftrightarrow>
      i < Suc (length (tm_link_table t)) \<and> (tm_link_table t @ [uri]) ! i = u" for u i
    using old [of u i] new [of i] by (auto simp: nth_append less_Suc_eq)
  then have "tm_links ?t" by (simp add: tm_links_def nlinks_def update_conv')
  moreover have "tm_contents ?t"
    using assms(1) by (auto simp: tm_inv_def tm_contents_def nlinks_def intro: ok_mono)
  ultimately show ?thesis
    using assms(1,3) by (simp add: tm_inv_def tm_geometry_def tm_limits_def total_image_rgba_bytes_def)
qed

lemma intern_link_ok:
  assumes "fr h t0 t" "intern_link uri t = (l, t')"
  shows "fr h t0 t' \<and> link_ok (nlinks t') l"
proof (cases "contains_disallowed_hyperlink_chars uri")
  case False
  note inv = fr_inv [OF assms(1)]
  show ?thesis
  proof (cases "map_of (tm_link_ids t) uri")
    case None
    show ?thesis
    proof (cases "length (tm_link_table t) \<ge> MAX_LINK_TABLE")
      case True
      with None False assms show ?thesis by (auto simp: intern_link_def)
    next
      case room: False
      with None False assms(2) have "l = Some (length (tm_link_table t))"
        and "t' = t\<lparr>tm_link_table := tm_link_table t @ [uri],
               tm_link_ids := AList.update uri (length (tm_link_table t)) (tm_link_ids t)\<rparr>"
        by (auto simp: intern_link_def Let_def)
      with link_added_inv [OF inv None] room assms(1) False show ?thesis
        by (auto simp: fr_def grows_def held_def link_ok_def nlinks_def)
    qed
  next
    case (Some i)
    with inv have "i < nlinks t" by (simp add: tm_inv_def tm_links_def)
    with Some False assms show ?thesis by (auto simp: intern_link_def link_ok_def)
  qed
qed (use assms in \<open>auto simp: intern_link_def\<close>)

lemma handle_osc8_fr:
  assumes "fr h t0 t"
  shows "fr h t0 (handle_osc8_hyperlink ps t)"
proof -
  have none: "fr h t0 (t\<lparr>tm_active_link_id := None\<rparr>)" using assms by (simp add: fr_link)
  have "fr h t0 (case intern_link uri t of (l, t) \<Rightarrow> t\<lparr>tm_active_link_id := l\<rparr>)" for uri
    using intern_link_ok [OF assms, of uri] by (cases "intern_link uri t") (simp add: fr_link)
  with none show ?thesis
    by (simp add: handle_osc8_hyperlink_def split: option.split)
qed

lemma osc_color_fr: "fr h t0 t \<Longrightarrow> fr h t0 (handle_osc_default_color target spec bell t)"
  by (auto simp: handle_osc_default_color_def Let_def split: option.split default_color_target.split prod.split)

lemma osc6_fr: "fr h t0 t \<Longrightarrow> fr h t0 (handle_osc6_iterm2_tab_color ps t)"
  by (auto simp: handle_osc6_iterm2_tab_color_def Let_def split: option.split prod.split)

lemma capture_output_fr [simp]: "fr h t0 (capture_output kind t) = fr h t0 t"
  by (cases kind) (simp_all add: capture_output_def Let_def)

lemma fr_marks:
  "fr h t0 t \<Longrightarrow> length ms \<le> MAX_PROMPT_MARKS \<Longrightarrow> fr h t0 (t\<lparr>tm_prompt_marks := ms\<rparr>)"
  by (simp add: fr_def grows_def held_def tm_inv_defs)

lemma osc133_fr:
  assumes "fr h t0 t"
  shows "fr h t0 (handle_osc133_prompt_mark sub extra t)"
proof -
  have len: "length (tm_prompt_marks u) \<le> MAX_PROMPT_MARKS" if "fr h t0 u" for u
    using fr_inv [OF that] by (simp add: tm_inv_defs)
  have ok: "fr h t0 (capture_output kind (t\<lparr>tm_input_line_active := b\<rparr>))" for kind b
    using assms by simp
  show ?thesis
    unfolding handle_osc133_prompt_mark_def Let_def
    by (cases "prompt_kind sub extra")
      (use assms len [OF ok] in \<open>auto intro!: fr_marks ok simp del: capture_output_fr\<close>)
qed

lemma osc_dispatch_fr: "fr h t0 t \<Longrightarrow> fr h t0 (osc_dispatch b64 ps bell t)"
  by (simp add: osc_dispatch_def osc_color_fr osc6_fr handle_osc8_fr osc133_fr split: option.split)

section \<open>The whole terminal\<close>

text \<open>The events that stay on the alternate screen: all but a resize, a reset and a switch back to
  the main screen.\<close>

fun stays :: "term_event \<Rightarrow> bool" where
  "stays (TEv_Csi ps n ints action) = csi_stays ps ints action"
| "stays (TEv_Esc ints byte) = (\<not> (byte = CHR ''c'' \<and> ints = []))"
| "stays (TEv_Resize c r) = False"
| "stays _ = True"

lemma image_fields_fr:
  assumes "fr h t0 t" "tm_inv t'" "tm_link_table t' = tm_link_table t" "tm_alt_active t' = tm_alt_active t"
    "tm_main_cells t' = tm_main_cells t" "tm_saved_cursor_main t' = tm_saved_cursor_main t"
  shows "fr h t0 t'"
  using assms by (auto simp: fr_def grows_def held_def)

lemma push_image_fr:
  assumes "fr h t0 t"
  shows "safe (push_image w ht rgba t) (\<lambda>(t', _). fr h t0 t')"
proof -
  have g: "min (tm_cursor_col t) (tm_cols t - 1) \<le> tm_cols t" "min (tm_cursor_row t) (tm_rows t - 1) \<le> tm_rows t"
    using fr_geometry [OF assms] by auto
  have "safe (push_image w ht rgba t) (\<lambda>(t', _). tm_link_table t' = tm_link_table t \<and>
      tm_alt_active t' = tm_alt_active t \<and> tm_main_cells t' = tm_main_cells t \<and>
      tm_saved_cursor_main t' = tm_saved_cursor_main t)"
    unfolding push_image_def Let_def safe_bind safe_usub
    by (intro conjI g safe_mono [OF evict_images_keeps]) auto
  with push_image_safe [OF fr_inv [OF assms], of w ht rgba] show ?thesis
    using image_fields_fr [OF assms] by (auto simp: safe_def)
qed

lemma fr_images:
  "fr h t0 t \<Longrightarrow> fr h t0 (t\<lparr>tm_kitty_placement_ids := a, tm_kitty_id_by_placement := b\<rparr>)"
  "fr h t0 t \<Longrightarrow> fr h t0 (t\<lparr>tm_kitty_placement_ids := a\<rparr>)"
  by (simp_all add: fr_def grows_def held_def tm_inv_defs)

lemma dispatch_kitty_command_fr:
  assumes "fr h t0 t"
  shows "safe (dispatch_kitty_command cmd t) (fr h t0)"
proof (cases cmd)
  case (KittyPlace w ht rgba kid)
  show ?thesis
    unfolding KittyPlace dispatch_kitty_command.simps
    by (rule safe_bindI [OF push_image_fr [OF assms]])
      (auto simp: Let_def fr_images split: option.split)
qed (use dispatch_kitty_command_safe [OF fr_inv [OF assms], of cmd] assms in
    \<open>auto simp: Let_def intro!: image_fields_fr [OF assms]\<close>)

lemma resize_fr:
  assumes "fr False t0 t"
  shows "safe (resize_preserving_state cw c r t) (fr False t0)"
proof -
  have "resize_preserving_state cw c r t = Some t' \<Longrightarrow> tm_link_table t' = tm_link_table t" for t'
    by (auto simp: resize_preserving_state_def Let_def trim_eq clear_images_def
        split: if_splits Option.bind_splits)
  with resize_preserving_state_safe [OF fr_inv [OF assms], of cw c r] assms show ?thesis
    by (auto simp: safe_def fr_def grows_def)
qed

lemma term_step_fr:
  assumes "fr h t0 t" "h \<longrightarrow> tm_alt_active t0 \<and> stays e"
  shows "safe (term_step cw b64 t e) (fr h t0)"
proof (cases e)
  case (TEv_Resize c r)
  with assms show ?thesis by (cases h) (simp_all add: resize_fr)
next
  case (TEv_PlaceSixel w ht rgba)
  with push_image_fr [OF assms(1), of w ht rgba] show ?thesis by (auto simp: safe_def)
next
  case TEv_TakeScrollback
  with assms(1) show ?thesis by (simp add: fr_def grows_def held_def tm_inv_defs)
qed (use assms in \<open>simp_all add: term_print_safe execute_safe csi_dispatch_safe esc_dispatch_safe
    osc_dispatch_fr dispatch_kitty_command_fr\<close>)

interpretation tm: panic_free "term_step cw b64" tm_inv for cw b64
proof
  fix t e
  assume "tm_inv t"
  then show "safe (term_step cw b64 t e) tm_inv"
    using safe_mono [OF term_step_fr [of False t t e cw b64], of tm_inv] by (simp add: fr_inv)
qed

text \<open>Sequences of events that stay on the alternate screen.\<close>

lemma term_run_fr:
  assumes "fr h t0 t" "h \<longrightarrow> tm_alt_active t0 \<and> list_all stays es"
  shows "safe (ofold (\<lambda>e s. term_step cw b64 s e) es t) (fr h t0)"
  by (rule safe_ofold, rule assms(1), rule term_step_fr)
    (use assms(2) in \<open>auto simp: list_all_iff\<close>)

end
