(* ===== verification/TermProps.thy ===== *)
theory TermProps
  imports TermSafety
begin

text \<open>What the terminal emulator as a whole guarantees, for every sequence of events.\<close>

definition term_run :: "width_fn \<Rightarrow> (u8 list \<Rightarrow> u8 list option) \<Rightarrow> term_event list \<Rightarrow> terminal \<Rightarrow> terminal option" where
  "term_run cw b64 es t = ofold (\<lambda>e s. term_step cw b64 s e) es t"

lemma term_run_Nil [simp]: "term_run cw b64 [] t = Some t"
  by (simp add: term_run_def)

lemma term_run_Cons [simp]:
  "term_run cw b64 (e # es) t = term_step cw b64 t e \<bind> term_run cw b64 es"
  by (simp add: term_run_def [abs_def])

lemma term_run_append:
  "term_run cw b64 (es @ es') t = term_run cw b64 es t \<bind> term_run cw b64 es'"
  by (simp add: term_run_def [abs_def] ofold_append)

lemma run_fr:
  assumes "tm_inv t" "h \<longrightarrow> tm_alt_active t \<and> list_all stays es"
  obtains t' where "term_run cw b64 es t = Some t'" "fr h t t'"
  using term_run_fr [of h t t es cw b64] assms by (auto simp: term_run_def safe_def)

text \<open>C3. Whatever the remote host sends and whatever the user interface asks for (any sequence of
  printed characters, control bytes, CSI, ESC and OSC sequences with any parameters, resizes to any
  size, images, drains), the terminal emulator never panics: no index, slice, clamp or subtraction is
  out of range, whatever widths the Unicode tables give. Both grids always have one cell per
  position, the cursor is on the screen (or just past the last column), the scroll region is
  non-empty and on the screen, there is one tab stop flag per column; and what a hostile host can
  make the terminal hold is bounded: 2000 pending lines, 4096 links, 2000 prompt marks, 32 images
  of at most 64 MiB together, and 128 bytes in a cell.\<close>

theorem term_never_panics:
  "\<exists>t. term_run cw b64 es (term_new cols rows th) = Some t \<and>
     length (tm_main_cells t) = tm_cols t * tm_rows t \<and> length (tm_alt_cells t) = tm_cols t * tm_rows t \<and>
     0 < tm_cols t \<and> tm_cursor_row t < tm_rows t \<and> tm_cursor_col t \<le> tm_cols t \<and>
     tm_scroll_top t \<le> tm_scroll_bottom t \<and> tm_scroll_bottom t < tm_rows t \<and>
     length (tm_tab_stops t) = tm_cols t \<and>
     length (tm_pending_scrollback t) \<le> 2000 \<and> length (tm_link_table t) \<le> 4096 \<and>
     length (tm_prompt_marks t) \<le> 2000 \<and> length (tm_images t) \<le> 32 \<and>
     total_image_rgba_bytes t \<le> 67108864 \<and>
     list_all (\<lambda>cell. str_len (tc_ch cell) \<le> 128) (tm_main_cells t @ tm_alt_cells t)"
proof -
  obtain t where t: "term_run cw b64 es (term_new cols rows th) = Some t" and inv: "tm_inv t"
    using tm.never_panics [OF term_new_inv, of cw b64 es cols rows th] by (auto simp: term_run_def)
  show ?thesis
    by (rule exI [of _ t])
      (use t inv in \<open>auto simp: tm_inv_def tm_geometry_def tm_contents_def tm_limits_def cells_ok_def
        cell_ok_def limit_defs list_all_iff\<close>)
qed

lemma links_distinct: "tm_inv t \<Longrightarrow> distinct (tm_link_table t)"
proof (rule distinct_conv_nth [THEN iffD2], intro allI impI)
  fix i j
  assume "tm_inv t" and ij: "i < length (tm_link_table t)" "j < length (tm_link_table t)" "i \<noteq> j"
  then have "map_of (tm_link_ids t) (tm_link_table t ! i) = Some i"
    "map_of (tm_link_ids t) (tm_link_table t ! j) = Some j"
    by (auto simp: tm_inv_def tm_links_def nlinks_def)
  with ij show "tm_link_table t ! i \<noteq> tm_link_table t ! j" by auto
qed

text \<open>Hyperlinks keep their meaning. At every point of a session and for everything that happens
  later: the table of link targets only gets longer, so a link id a cell or a line of the
  scrollback received once always names the same target; every cell of either screen and of the
  pending scrollback has an id within the table; no target occurs twice; and no target contains a
  control character or a bidirectional override, which could disguise it.\<close>

lemma links_keep_meaning:
  "\<exists>t t' later. term_run cw b64 es (term_new cols rows th) = Some t \<and> term_run cw b64 es' t = Some t' \<and>
     tm_link_table t' = tm_link_table t @ later \<and> distinct (tm_link_table t') \<and>
     list_all (\<lambda>uri. \<not> contains_disallowed_hyperlink_chars uri) (tm_link_table t') \<and>
     list_all (\<lambda>cell. link_ok (length (tm_link_table t')) (tc_link_id cell))
       (tm_main_cells t' @ tm_alt_cells t' @ concat (tm_pending_scrollback t'))"
proof -
  let ?n = "term_new cols rows th"
  obtain t where t: "term_run cw b64 es ?n = Some t" "fr False ?n t"
    using run_fr [of ?n False es cw b64] term_new_inv by auto
  obtain t' where t': "term_run cw b64 es' t = Some t'" "fr False t t'"
    using run_fr [OF fr_inv [OF t(2)], of False es' cw b64] by auto
  obtain u where u: "tm_link_table t = tm_link_table ?n @ u"
    "list_all (\<lambda>uri. \<not> contains_disallowed_hyperlink_chars uri) u"
    using t(2) by (auto simp: fr_def grows_def)
  obtain v where v: "tm_link_table t' = tm_link_table t @ v"
    "list_all (\<lambda>uri. \<not> contains_disallowed_hyperlink_chars uri) v"
    using t'(2) unfolding fr_def grows_def by blast
  have "tm_link_table ?n = []" by (simp add: term_new_def Let_def)
  moreover have "list_all (\<lambda>cell. link_ok (length (tm_link_table t')) (tc_link_id cell))
      (tm_main_cells t' @ tm_alt_cells t' @ concat (tm_pending_scrollback t'))"
    using fr_inv [OF t'(2)]
    by (auto simp: tm_inv_def tm_contents_def cells_ok_def cell_ok_def nlinks_def list_all_iff)
  ultimately show ?thesis
    using t(1) t'(1) u v links_distinct [OF fr_inv [OF t'(2)]] by auto
qed

section \<open>The alternate screen\<close>

definition enter_alt :: term_event where "enter_alt = TEv_Csi [1049] 1 ''?'' (CHR ''h'')"
definition leave_alt :: term_event where "leave_alt = TEv_Csi [1049] 1 ''?'' (CHR ''l'')"

lemma step_enter_alt: "term_step cw b64 t enter_alt = switch_to_alt True t"
  by (simp add: enter_alt_def csi_dispatch_def Let_def dec_mode_def dec_mode_set_def)
    (cases "switch_to_alt True t"; simp)

lemma step_leave_alt: "term_step cw b64 t leave_alt = Some (switch_to_main True t)"
  by (simp add: leave_alt_def csi_dispatch_def Let_def dec_mode_def dec_mode_reset_def)

lemma switch_to_alt_saves:
  "tm_inv t \<Longrightarrow> \<not> tm_alt_active t \<Longrightarrow>
   safe (switch_to_alt True t) (\<lambda>a. tm_inv a \<and> tm_alt_active a \<and> tm_main_cells a = tm_main_cells t \<and>
     tm_saved_cursor_main a = Some (capture_cursor t))"
  using geometryD [of t] switch_to_alt_safe [of t True]
  by (auto simp: switch_to_alt_def Let_def clear_images_def cells_def capture_cursor_def)

text \<open>C27. Leaving a full-screen program restores the shell's screen. From any state on the main
  screen, \<^verbatim>\<open>CSI ?1049h\<close>, then anything that stays on the alternate screen (any output at
  all, also saving and restoring the cursor, nested \<^verbatim>\<open>?1049h\<close>, scrolling, images; not a resize, a
  full reset or a switch back), then \<^verbatim>\<open>CSI ?1049l\<close>: none of it panics, and afterwards the
  main screen is shown with exactly its old cells, and the cursor position, the rendition and the
  character sets are those of before.\<close>

theorem alt_screen_roundtrip:
  assumes "tm_inv t" and "\<not> tm_alt_active t" and "list_all stays es"
  shows "\<exists>t'. term_run cw b64 ([enter_alt] @ es @ [leave_alt]) t = Some t' \<and>
    \<not> tm_alt_active t' \<and> tm_main_cells t' = tm_main_cells t \<and> capture_cursor t' = capture_cursor t"
proof -
  obtain a where a: "switch_to_alt True t = Some a" "tm_inv a" "tm_alt_active a"
    "tm_main_cells a = tm_main_cells t" "tm_saved_cursor_main a = Some (capture_cursor t)"
    using switch_to_alt_saves [OF assms(1,2)] by (auto simp: safe_def)
  obtain b where b: "term_run cw b64 es a = Some b" "fr True a b"
    using run_fr [OF a(2), of True es cw b64] a(3) assms(3) by auto
  then have held: "tm_alt_active b" "tm_main_cells b = tm_main_cells t"
    "tm_saved_cursor_main b = Some (capture_cursor t)"
    using a by (auto simp: fr_def held_def)
  have "capture_cursor (switch_to_main True b) = capture_cursor t"
    "\<not> tm_alt_active (switch_to_main True b)" "tm_main_cells (switch_to_main True b) = tm_main_cells t"
    using held by (simp_all add: switch_to_main_def Let_def clear_images_def apply_saved_cursor_def
        capture_cursor_def)
  then show ?thesis
    using a(1) b(1) by (simp add: term_run_append step_enter_alt step_leave_alt)
qed

theorem alt_screen_roundtrip_witness:
  "\<exists>t'. term_run demo_width (\<lambda>_. None)
      ([enter_alt] @ [TEv_Print 65, TEv_Esc [] (CHR ''7''), TEv_Csi [2] 1 [] (CHR ''J'')] @ [leave_alt])
      (term_new 3 2 demo_theme) = Some t' \<and>
    tm_main_cells t' = replicate 6 (blank_cell_for_theme demo_theme)"
  using alt_screen_roundtrip [OF term_new_inv,
      of 3 2 demo_theme "[TEv_Print 65, TEv_Esc [] (CHR ''7''), TEv_Csi [2] 1 [] (CHR ''J'')]"
        demo_width "\<lambda>_. None"]
  by (auto simp: csi_stays_def term_new_def Let_def)

section \<open>The capture of command output\<close>

text \<open>Printing leaves the capture alone except for the character it appends.\<close>

definition same_capture :: "terminal \<Rightarrow> terminal \<Rightarrow> bool" where
  "same_capture t t' \<longleftrightarrow> tm_capturing_command_output t' = tm_capturing_command_output t \<and>
     tm_current_output_line t' = tm_current_output_line t"

lemma same_captureI: "tm_same t t' \<Longrightarrow> same_capture t t'"
  by (simp add: tm_same_def same_capture_def)

lemma cell_put_capture: "cell_put row col cell t = Some t' \<Longrightarrow> same_capture t t' \<and> tm_autowrap_mode t' = tm_autowrap_mode t"
  by (auto simp: cell_put_def same_capture_def split: Option.bind_splits)

lemma sanitize_row_capture: "sanitize_wide_row cw row t = Some t' \<Longrightarrow> same_capture t t'"
  by (auto simp: sanitize_wide_row_def Let_def same_capture_def split: Option.bind_splits)

lemma write_char_capture: "write_char cw w c t = Some t' \<Longrightarrow> same_capture t t'"
  by (auto simp: write_char_def Let_def split: if_splits Option.bind_splits
      dest!: cell_put_capture sanitize_row_capture) (auto simp: same_capture_def)

lemma print_mapped_capture:
  assumes "tm_inv t" "print_mapped cw c t = Some t'"
  shows "same_capture t t'"
proof -
  have wrap: "same_capture t u" if u: "wrap_cursor w t = Some u" for w u
  proof -
    have "tm_inv (t\<lparr>tm_cursor_col := 0\<rparr>)" using assms(1) by (simp add: tm_inv_defs)
    then have "safe (newline (t\<lparr>tm_cursor_col := 0\<rparr>)) (\<lambda>u. same_capture t u)"
      by (rule safe_mono [OF newline_safe]) (auto simp: tm_same_def same_capture_def)
    with u show ?thesis
      by (auto simp: wrap_cursor_def same_capture_def safe_def split: if_splits)
  qed
  have attach: "same_capture t t'" if "attach_combining c t = Some t'"
    using safe_eq_SomeD [OF attach_combining_same [OF assms(1)] that] by (simp add: same_captureI)
  show ?thesis
    using assms(2) attach wrap write_char_capture
    by (auto simp: print_mapped_def Let_def same_capture_def split: if_splits Option.bind_splits)
qed

lemma term_print_captures:
  assumes "tm_inv t" "tm_capturing_command_output t"
  shows "safe (term_print cw c t) (\<lambda>t'. tm_inv t' \<and> tm_capturing_command_output t' \<and>
    length (tm_current_output_line t') = Suc (length (tm_current_output_line t)))"
proof -
  let ?u = "\<lambda>d. t\<lparr>tm_current_output_line := tm_current_output_line t @ [d]\<rparr>"
  have "safe (print_mapped cw d (?u d)) (\<lambda>t'. tm_inv t' \<and> tm_capturing_command_output t' \<and>
      length (tm_current_output_line t') = Suc (length (tm_current_output_line t)))" for d
  proof -
    have u: "tm_inv (?u d)" using assms(1) by (simp add: tm_inv_defs)
    then obtain t' where t': "print_mapped cw d (?u d) = Some t'" "fr False (?u d) t'"
      using print_mapped_safe [of False "?u d" "?u d" cw d] by (auto simp: safe_def)
    with print_mapped_capture [OF u t'(1)] fr_inv [OF t'(2)] assms(2) show ?thesis
      by (auto simp: same_capture_def)
  qed
  with assms(2) show ?thesis by (simp add: term_print_def Let_def)
qed

lemma capture_run:
  assumes "tm_inv t" "tm_capturing_command_output t"
  shows "\<exists>t'. term_run cw b64 (replicate n (TEv_Print c)) t = Some t' \<and>
    length (tm_current_output_line t') = length (tm_current_output_line t) + n"
  using assms
proof (induction n arbitrary: t)
  case (Suc n)
  obtain u where u: "term_print cw c t = Some u" "tm_inv u" "tm_capturing_command_output u"
    "length (tm_current_output_line u) = Suc (length (tm_current_output_line t))"
    using term_print_captures [OF Suc.prems, of cw c] by (auto simp: safe_def)
  from Suc.IH [OF u(2,3)] u(1,4) show ?case by auto
qed simp

text \<open>C29. The text of a command's output is kept without a limit: between \<^verbatim>\<open>OSC 133;C\<close> and
  \<^verbatim>\<open>OSC 133;D\<close> the terminal keeps every printed character in
  \<^verbatim>\<open>current_output_line\<close>, so a host that sends the first and never the second makes it hold as
  many characters as it prints, for every number.\<close>

theorem output_capture_unbounded:
  "\<exists>t. term_run cw b64 (TEv_Osc [[0x31, 0x33, 0x33], [0x43]] False # replicate n (TEv_Print c))
      (term_new cols rows th) = Some t \<and> length (tm_current_output_line t) = n"
proof -
  define u where "u = osc_dispatch b64 [[0x31, 0x33, 0x33], [0x43]] False (term_new cols rows th)"
  have "fr False (term_new cols rows th) u"
    unfolding u_def by (rule osc_dispatch_fr) (simp add: term_new_inv)
  moreover have "tm_capturing_command_output u \<and> tm_current_output_line u = []"
    by (simp add: u_def osc_dispatch_def param_is_def bytes_are_def codes_def
        handle_osc133_prompt_mark_def prompt_kind_def capture_output_def Let_def)
  ultimately show ?thesis
    using capture_run [of u cw b64 n c] fr_inv by (auto simp: u_def)
qed

end
