(* ===== verification/Sixel.thy ===== *)
theory Sixel
  imports TermOsc TermInv Backoff "HOL-Library.AList"
begin

text \<open>
  The decoder of sixel images (\<^verbatim>\<open>src/sixel.rs\<close>), fed byte by byte by \<^verbatim>\<open>hook\<close>, \<^verbatim>\<open>put\<close> and \<^verbatim>\<open>unhook\<close> of
  \<^verbatim>\<open>src/terminal.rs\<close> with what the remote host sends. The conversion of HLS colours computes in floating
  point and is the argument \<open>hls\<close>.
\<close>

section \<open>State\<close>

definition MAX_SIXEL_DIM :: nat where "MAX_SIXEL_DIM = 4096"
definition MAX_SIXEL_AREA :: nat where "MAX_SIXEL_AREA = 4000000"

lemmas sixel_limits = MAX_SIXEL_DIM_def MAX_SIXEL_AREA_def

record sixel_image =
  si_width :: nat
  si_height :: nat
  si_rgba :: "u8 list"

datatype sixel_mode =
    SM_Normal
  | SM_Repeat u32
  | SM_ColorNum u32
  | SM_ColorSpec u32 "u32 list" u32 bool
  | SM_Raster u32

record sixel_decoder =
  sd_palette :: "(u16 \<times> u8 \<times> u8 \<times> u8) list"
  sd_current_color :: u16
  sd_x :: nat
  sd_y :: nat
  sd_rows :: "u32 list list"
  sd_max_x :: nat
  sd_max_y :: nat
  sd_mode :: sixel_mode
  sd_aborted :: bool

type_synonym hls_fn = "u32 \<Rightarrow> u32 \<Rightarrow> u32 \<Rightarrow> u8 \<times> u8 \<times> u8"

section \<open>Colours\<close>

definition pct_to_u8 :: "u32 \<Rightarrow> u8" where
  "pct_to_u8 p = (let p = min p 100 in ucast ((p * 255 + 50) div 100))"

definition default_palette :: "(u16 \<times> u8 \<times> u8 \<times> u8) list" where
  "default_palette = map (\<lambda>(n, r, g, b). (n, pct_to_u8 r, pct_to_u8 g, pct_to_u8 b))
     [(0, 0, 0, 0), (1, 20, 20, 80), (2, 80, 13, 13), (3, 20, 80, 20), (4, 80, 20, 80), (5, 20, 80, 80),
      (6, 80, 80, 20), (7, 53, 53, 53), (8, 26, 26, 26), (9, 33, 33, 60), (10, 60, 26, 26), (11, 33, 60, 33),
      (12, 60, 33, 60), (13, 33, 60, 60), (14, 60, 60, 33), (15, 80, 80, 80)]"

definition sixel_new :: sixel_decoder where
  "sixel_new = \<lparr>sd_palette = default_palette, sd_current_color = 0, sd_x = 0, sd_y = 0, sd_rows = [],
     sd_max_x = 0, sd_max_y = 0, sd_mode = SM_Normal, sd_aborted = False\<rparr>"

definition define_and_select_color :: "hls_fn \<Rightarrow> u16 \<Rightarrow> u32 list \<Rightarrow> sixel_decoder \<Rightarrow> sixel_decoder" where
  "define_and_select_color hls pc params d =
     (let d = d\<lparr>sd_current_color := pc\<rparr> in
      if length params < 4 then d
      else if params ! 0 = 2 then
        d\<lparr>sd_palette := AList.update pc (pct_to_u8 (params ! 1), pct_to_u8 (params ! 2), pct_to_u8 (params ! 3)) (sd_palette d)\<rparr>
      else if params ! 0 = 1 then
        d\<lparr>sd_palette := AList.update pc (hls (params ! 1) (params ! 2) (params ! 3)) (sd_palette d)\<rparr>
      else d)"

definition current_argb :: "sixel_decoder \<Rightarrow> u32" where
  "current_argb d =
     (let (r, g, b) = (case map_of (sd_palette d) (sd_current_color d) of Some c \<Rightarrow> c | None \<Rightarrow> (255, 255, 255)) in
      rgb_to_argb r g b)"

section \<open>Pixels\<close>

text \<open>\<^verbatim>\<open>push\<close> of empty rows up to \<^verbatim>\<open>y\<close>, \<^verbatim>\<open>resize\<close> of the row up to \<^verbatim>\<open>x\<close>, and the write.\<close>

definition put_pixel :: "nat \<Rightarrow> nat \<Rightarrow> u32 \<Rightarrow> u32 list list \<Rightarrow> u32 list list" where
  "put_pixel x y argb rows =
     (let rows = rows @ replicate (y + 1 - length rows) []; row = rows ! y;
          row = (if length row \<le> x then row @ replicate (x + 1 - length row) 0 else row) in
      rows[y := row[x := argb]])"

definition set_pixel :: "nat \<Rightarrow> nat \<Rightarrow> u32 \<Rightarrow> sixel_decoder \<Rightarrow> sixel_decoder" where
  "set_pixel x y argb d =
     (if x \<ge> MAX_SIXEL_DIM \<or> y \<ge> MAX_SIXEL_DIM then d\<lparr>sd_aborted := True\<rparr>
      else
        let new_max_x = max (sd_max_x d) x; new_max_y = max (sd_max_y d) y in
        if (new_max_x + 1) * (new_max_y + 1) > MAX_SIXEL_AREA then d\<lparr>sd_aborted := True\<rparr>
        else d\<lparr>sd_max_x := new_max_x, sd_max_y := new_max_y, sd_rows := put_pixel x y argb (sd_rows d)\<rparr>)"

text \<open>The loop over the six bits; \<open>Inl\<close> is the early return.\<close>

fun draw_bits :: "nat list \<Rightarrow> u8 \<Rightarrow> u32 \<Rightarrow> sixel_decoder \<Rightarrow> sixel_decoder + sixel_decoder" where
  "draw_bits [] bits argb d = Inr d"
| "draw_bits (i # is) bits argb d =
     (if bit bits i then
        let d = set_pixel (sd_x d) (sd_y d + i) argb d in
        if sd_aborted d then Inl d else draw_bits is bits argb d
      else draw_bits is bits argb d)"

definition draw_sixel_char :: "u8 \<Rightarrow> sixel_decoder \<Rightarrow> sixel_decoder" where
  "draw_sixel_char byte d = (case draw_bits [0..<6] (byte - 0x3f) (current_argb d) d of
       Inl d \<Rightarrow> d
     | Inr d \<Rightarrow>
        (let d = d\<lparr>sd_x := sd_x d + 1\<rparr> in
         if sd_x d \<ge> MAX_SIXEL_DIM then d\<lparr>sd_aborted := True\<rparr> else d))"

section \<open>The parser\<close>

definition is_digit :: "u8 \<Rightarrow> bool" where
  "is_digit byte \<longleftrightarrow> 48 \<le> byte \<and> byte \<le> 57"

definition add_digit :: "u32 \<Rightarrow> u8 \<Rightarrow> u32" where
  "add_digit n byte = sat_add (sat_mul n 10) (ucast (byte - 48))"

definition is_sixel_char :: "u8 \<Rightarrow> bool" where
  "is_sixel_char byte \<longleftrightarrow> 0x3f \<le> byte \<and> byte \<le> 0x7e"

text \<open>A step gives the decoder and the next mode.\<close>

definition step_normal :: "u8 \<Rightarrow> sixel_decoder \<Rightarrow> sixel_decoder \<times> sixel_mode" where
  "step_normal byte d =
     (if byte = 35 then (d, SM_ColorNum 0)
      else if byte = 33 then (d, SM_Repeat 0)
      else if byte = 34 then (d, SM_Raster 0)
      else if byte = 45 then (d\<lparr>sd_y := sd_y d + 6, sd_x := 0\<rparr>, SM_Normal)
      else if byte = 36 then (d\<lparr>sd_x := 0\<rparr>, SM_Normal)
      else if is_sixel_char byte then (draw_sixel_char byte d, SM_Normal)
      else (d, SM_Normal))"

primrec draw_times :: "nat \<Rightarrow> u8 \<Rightarrow> sixel_decoder \<Rightarrow> sixel_decoder" where
  "draw_times 0 byte d = d"
| "draw_times (Suc n) byte d =
     (let d = draw_sixel_char byte d in if sd_aborted d then d else draw_times n byte d)"

definition step_repeat :: "u8 \<Rightarrow> u32 \<Rightarrow> sixel_decoder \<Rightarrow> sixel_decoder \<times> sixel_mode" where
  "step_repeat byte count d =
     (if is_digit byte then (d, SM_Repeat (add_digit count byte))
      else
        let times = min (if count = 0 then 1 else count) (word_of_nat MAX_SIXEL_DIM) in
        if is_sixel_char byte then (draw_times (unat times) byte d, SM_Normal)
        else step_normal byte d)"

definition step_color_num :: "u8 \<Rightarrow> u32 \<Rightarrow> sixel_decoder \<Rightarrow> sixel_decoder \<times> sixel_mode" where
  "step_color_num byte num d =
     (if is_digit byte then (d, SM_ColorNum (add_digit num byte))
      else if byte = 59 then (d, SM_ColorSpec num [] 0 False)
      else step_normal byte (d\<lparr>sd_current_color := ucast num\<rparr>))"

definition step_color_spec ::
    "hls_fn \<Rightarrow> u8 \<Rightarrow> u32 \<Rightarrow> u32 list \<Rightarrow> u32 \<Rightarrow> bool \<Rightarrow> sixel_decoder \<Rightarrow> sixel_decoder \<times> sixel_mode" where
  "step_color_spec hls byte pc params cur has_digit d =
     (if is_digit byte then (d, SM_ColorSpec pc params (add_digit cur byte) True)
      else
        let params = params @ [if has_digit then cur else 0] in
        if byte = 59 then (d, SM_ColorSpec pc params 0 False)
        else step_normal byte (define_and_select_color hls (ucast pc) params d))"

definition step_raster :: "u8 \<Rightarrow> u32 \<Rightarrow> sixel_decoder \<Rightarrow> sixel_decoder \<times> sixel_mode" where
  "step_raster byte cur d =
     (if is_digit byte then (d, SM_Raster (add_digit cur byte))
      else if byte = 59 then (d, SM_Raster 0)
      else step_normal byte d)"

definition sixel_feed :: "hls_fn \<Rightarrow> u8 \<Rightarrow> sixel_decoder \<Rightarrow> sixel_decoder" where
  "sixel_feed hls byte d =
     (if sd_aborted d then d
      else
        let (d, mode) = (case sd_mode d of
            SM_Normal \<Rightarrow> step_normal byte d
          | SM_Repeat count \<Rightarrow> step_repeat byte count d
          | SM_ColorNum num \<Rightarrow> step_color_num byte num d
          | SM_ColorSpec pc params cur has_digit \<Rightarrow> step_color_spec hls byte pc params cur has_digit d
          | SM_Raster cur \<Rightarrow> step_raster byte cur d) in
        d\<lparr>sd_mode := mode\<rparr>)"

text \<open>The pixel of a row, and its four bytes.\<close>

definition row_pixel :: "u32 list \<Rightarrow> nat \<Rightarrow> u32" where
  "row_pixel row x = (if x < length row then row ! x else 0)"

definition rgba_bytes :: "u32 \<Rightarrow> u8 list" where
  "rgba_bytes argb =
     [ucast (drop_bit 16 argb AND 0xff), ucast (drop_bit 8 argb AND 0xff), ucast (argb AND 0xff),
      ucast (drop_bit 24 argb AND 0xff)]"

definition sixel_finish :: "sixel_decoder \<Rightarrow> sixel_image option" where
  "sixel_finish d =
     (if sd_aborted d then None
      else
        let height = length (sd_rows d); width = fold (\<lambda>r m. max m (length r)) (sd_rows d) 0 in
        if width = 0 \<or> height = 0 then None
        else if width * height > MAX_SIXEL_AREA then None
        else Some \<lparr>si_width = width, si_height = height,
          si_rgba = concat (map (\<lambda>row. concat (map (\<lambda>x. rgba_bytes (row_pixel row x)) [0..<width])) (sd_rows d))\<rparr>)"

section \<open>In the terminal\<close>

definition dcs_hook :: "uchar \<Rightarrow> sixel_decoder option" where
  "dcs_hook c = (if c = 113 then Some sixel_new else None)"

definition dcs_put :: "hls_fn \<Rightarrow> u8 \<Rightarrow> sixel_decoder option \<Rightarrow> sixel_decoder option" where
  "dcs_put hls byte dec = map_option (sixel_feed hls byte) dec"

definition dcs_unhook :: "sixel_decoder option \<Rightarrow> terminal \<Rightarrow> terminal option" where
  "dcs_unhook dec t = (case Option.bind dec sixel_finish of
       Some img \<Rightarrow> map_option fst (push_image (si_width img) (si_height img) (si_rgba img) t)
     | None \<Rightarrow> Some t)"

section \<open>Rows of pixels\<close>

definition pix :: "u32 list list \<Rightarrow> nat \<Rightarrow> nat \<Rightarrow> u32" where
  "pix rows x y = (if y < length rows then row_pixel (rows ! y) x else 0)"

lemma length_put_pixel: "length (put_pixel x y c rows) = max (length rows) (y + 1)"
  by (auto simp: put_pixel_def Let_def)

lemma put_pixel_row:
  "Y < length (put_pixel x y c rows) \<Longrightarrow> put_pixel x y c rows ! Y =
     (let row = (if Y < length rows then rows ! Y else []) in
      if Y = y then (row @ replicate (x + 1 - length row) 0)[x := c] else row)"
  by (auto simp: put_pixel_def Let_def nth_append)

lemma row_pixel_grow:
  "row_pixel ((row @ replicate (x + 1 - length row) 0)[x := c]) X = (if X = x then c else row_pixel row X)"
proof -
  have "length (row @ replicate (x + 1 - length row) 0) = max (length row) (x + 1)" by simp
  moreover have "(row @ replicate (x + 1 - length row) 0) ! X = row_pixel row X" if "X < max (length row) (x + 1)"
    using that by (auto simp: nth_append row_pixel_def simp del: replicate_Suc)
  ultimately show ?thesis by (auto simp: row_pixel_def nth_list_update simp del: replicate_Suc)
qed

lemma pix_put_pixel: "pix (put_pixel x y c rows) X Y = (if X = x \<and> Y = y then c else pix rows X Y)"
proof (cases "Y < length (put_pixel x y c rows)")
  case True
  let ?row = "\<lambda>Y. if Y < length rows then rows ! Y else []"
  have "pix rows X Y = row_pixel (?row Y) X" by (simp add: pix_def row_pixel_def)
  moreover from True have "pix (put_pixel x y c rows) X Y =
      row_pixel (if Y = y then (?row Y @ replicate (x + 1 - length (?row Y)) 0)[x := c] else ?row Y) X"
    by (simp only: pix_def put_pixel_row Let_def if_True)
  ultimately show ?thesis using row_pixel_grow [of "?row y" x c X] by (cases "Y = y") (simp_all only: if_True if_False, auto)
qed (auto simp: pix_def length_put_pixel)

lemma put_pixel_row_length:
  assumes "row \<in> set (put_pixel x y c rows)"
  shows "length row \<le> x + 1 \<or> (\<exists>old \<in> set rows. length row = length old)"
proof -
  obtain Y where Y: "Y < length (put_pixel x y c rows)" "row = put_pixel x y c rows ! Y"
    using assms by (auto simp: in_set_conv_nth)
  then have "length row = (let old = (if Y < length rows then rows ! Y else []) in
      if Y = y then max (length old) (x + 1) else length old)"
    by (auto simp: put_pixel_row Let_def max_def)
  then show ?thesis by (cases "Y < length rows") (auto simp: Let_def max_def split: if_splits)
qed

section \<open>Limits\<close>

definition sixel_inv :: "sixel_decoder \<Rightarrow> bool" where
  "sixel_inv d \<longleftrightarrow> length (sd_rows d) \<le> sd_max_y d + 1 \<and> (\<forall>row \<in> set (sd_rows d). length row \<le> sd_max_x d + 1) \<and>
     sd_max_x d < MAX_SIXEL_DIM \<and> sd_max_y d < MAX_SIXEL_DIM \<and>
     (sd_max_x d + 1) * (sd_max_y d + 1) \<le> MAX_SIXEL_AREA \<and> distinct (map fst (sd_palette d))"

text \<open>Between characters, of a decoder that has not given up.\<close>

definition narrow :: "sixel_decoder \<Rightarrow> bool" where
  "narrow d \<longleftrightarrow> sd_aborted d \<or> sd_max_x d + 1 < MAX_SIXEL_DIM \<and> sd_x d < MAX_SIXEL_DIM"

lemma sixel_inv_new: "sixel_inv sixel_new" "narrow sixel_new"
  by (simp_all add: sixel_inv_def narrow_def sixel_new_def sixel_limits default_palette_def)

lemma sixel_inv_cong:
  "sd_rows d' = sd_rows d \<Longrightarrow> sd_max_x d' = sd_max_x d \<Longrightarrow> sd_max_y d' = sd_max_y d \<Longrightarrow> sd_palette d' = sd_palette d \<Longrightarrow>
   sixel_inv d' = sixel_inv d"
  by (simp add: sixel_inv_def)

lemma set_pixel_inv:
  assumes "sixel_inv d"
  shows "sixel_inv (set_pixel x y c d)"
proof (cases "x < MAX_SIXEL_DIM \<and> y < MAX_SIXEL_DIM \<and> (max (sd_max_x d) x + 1) * (max (sd_max_y d) y + 1) \<le> MAX_SIXEL_AREA")
  case True
  have "length row \<le> max (sd_max_x d) x + 1" if "row \<in> set (put_pixel x y c (sd_rows d))" for row
    using put_pixel_row_length [OF that] assms by (force simp: sixel_inv_def)
  with True assms show ?thesis
    by (auto simp: set_pixel_def sixel_inv_def Let_def length_put_pixel)
next
  case False
  then have "set_pixel x y c d = d\<lparr>sd_aborted := True\<rparr>" by (auto simp: set_pixel_def Let_def not_le not_less)
  with assms show ?thesis by (simp add: sixel_inv_cong [of "d\<lparr>sd_aborted := True\<rparr>" d])
qed

lemma set_pixel_x: "sd_x (set_pixel x y c d) = sd_x d" "sd_max_x (set_pixel x y c d) \<le> max (sd_max_x d) x"
  by (simp_all add: set_pixel_def Let_def)

lemma draw_bits_inv:
  assumes "sixel_inv d" "\<not> sd_aborted d"
  shows "case draw_bits is bits c d of
      Inl d' \<Rightarrow> sixel_inv d' \<and> sd_aborted d'
    | Inr d' \<Rightarrow> sixel_inv d' \<and> \<not> sd_aborted d' \<and> sd_x d' = sd_x d \<and> sd_max_x d' \<le> max (sd_max_x d) (sd_x d)"
  using assms
proof (induction "is" arbitrary: d)
  case (Cons i "is")
  let ?d = "set_pixel (sd_x d) (sd_y d + i) c d"
  have "sixel_inv ?d" "sd_x ?d = sd_x d" "sd_max_x ?d \<le> max (sd_max_x d) (sd_x d)"
    using Cons.prems(1) by (simp_all add: set_pixel_inv set_pixel_x)
  with Cons.IH [of d] Cons.IH [of ?d] Cons.prems show ?case
    by (auto simp: Let_def split: sum.splits)
qed simp

lemma draw_sixel_char_inv:
  assumes "sixel_inv d" "\<not> sd_aborted d" "narrow d"
  shows "sixel_inv (draw_sixel_char byte d) \<and> narrow (draw_sixel_char byte d)"
  using draw_bits_inv [OF assms(1,2), of "[0..<6]" "byte - 0x3f" "current_argb d"] assms(2,3)
  by (auto simp: draw_sixel_char_def Let_def narrow_def sixel_inv_cong [of "d\<lparr>sd_x := x\<rparr>" d for d x]
    sixel_inv_cong [of "d\<lparr>sd_x := x, sd_aborted := a\<rparr>" d for d x a] split: sum.splits)

lemma draw_times_inv:
  "sixel_inv d \<Longrightarrow> \<not> sd_aborted d \<Longrightarrow> narrow d \<Longrightarrow> sixel_inv (draw_times n byte d) \<and> narrow (draw_times n byte d)"
  by (induction n arbitrary: d) (auto simp: Let_def draw_sixel_char_inv)

lemma step_normal_inv:
  assumes "sixel_inv d" "\<not> sd_aborted d" "narrow d"
  shows "sixel_inv (fst (step_normal byte d)) \<and> narrow (fst (step_normal byte d))"
  using assms draw_sixel_char_inv [OF assms, of byte]
  by (auto simp: step_normal_def narrow_def sixel_inv_def)

lemma define_color_inv:
  assumes "sixel_inv d"
  shows "sixel_inv (define_and_select_color hls pc params d)"
    "narrow (define_and_select_color hls pc params d) = narrow d"
    "sd_aborted (define_and_select_color hls pc params d) = sd_aborted d"
  using assms by (auto simp: define_and_select_color_def Let_def sixel_inv_def narrow_def intro: distinct_update)

lemma sixel_feed_inv:
  assumes "sixel_inv d" "narrow d"
  shows "sixel_inv (sixel_feed hls byte d) \<and> narrow (sixel_feed hls byte d)"
proof (cases "sd_aborted d")
  case False
  have mode: "sixel_inv (d\<lparr>sd_mode := m\<rparr>) = sixel_inv d" "narrow (d\<lparr>sd_mode := m\<rparr>) = narrow d" for d m
    by (simp_all add: sixel_inv_def narrow_def)
  have color: "sixel_inv (d\<lparr>sd_current_color := n\<rparr>)" "narrow (d\<lparr>sd_current_color := n\<rparr>)" for n
    using assms by (simp_all add: sixel_inv_def narrow_def)
  note intros = step_normal_inv [OF _ _ assms(2)] step_normal_inv [OF color(1) _ color(2)] draw_times_inv
  show ?thesis using assms False color
    by (auto simp: sixel_feed_def step_repeat_def step_color_num_def step_color_spec_def step_raster_def Let_def mode
        case_prod_beta step_normal_inv draw_times_inv define_color_inv split: sixel_mode.split)
qed (use assms in \<open>simp add: sixel_feed_def\<close>)

lemma sixel_run_inv:
  "sixel_inv d \<Longrightarrow> narrow d \<Longrightarrow> sixel_inv (fold (sixel_feed hls) bytes d) \<and> narrow (fold (sixel_feed hls) bytes d)"
  by (induction bytes arbitrary: d) (simp_all add: sixel_feed_inv)

section \<open>The image\<close>

lemma fold_max_length: "fold (\<lambda>r m. max m (length r)) rows m = Max (insert m (length ` set rows))" for rows :: "'a list list"
proof (induction rows arbitrary: m)
  case (Cons r rows)
  then show ?case by (cases "rows = []") (simp_all add: Max_insert2 max.commute max.left_commute insert_commute)
qed simp

lemma length_rgba_bytes [simp]: "length (rgba_bytes c) = 4"
  by (simp add: rgba_bytes_def)

lemma length_concat_map_const: "(\<And>x. x \<in> set xs \<Longrightarrow> length (f x) = k) \<Longrightarrow> length (concat (map f xs)) = length xs * k"
  by (induction xs) simp_all

lemma take_drop_concat:
  "(\<And>x. x \<in> set xs \<Longrightarrow> length (f x) = k) \<Longrightarrow> i < length xs \<Longrightarrow> take k (drop (i * k) (concat (map f xs))) = f (xs ! i)"
proof (induction xs arbitrary: i)
  case (Cons x xs)
  then show ?case by (cases i) simp_all
qed simp

text \<open>An image has its size, and each of its pixels is that of the rows.\<close>

lemma sixel_finish_image:
  assumes "sixel_finish d = Some img"
  shows "si_height img = length (sd_rows d)" "length (si_rgba img) = si_width img * si_height img * 4"
    "si_width img * si_height img \<le> MAX_SIXEL_AREA"
    "si_width img = Max (insert 0 (length ` set (sd_rows d)))" "\<not> sd_aborted d"
    "x < si_width img \<Longrightarrow> y < si_height img \<Longrightarrow>
     take 4 (drop ((y * si_width img + x) * 4) (si_rgba img)) = rgba_bytes (pix (sd_rows d) x y)"
proof -
  let ?w = "fold (\<lambda>r m. max m (length r)) (sd_rows d) 0"
  let ?line = "\<lambda>row. concat (map (\<lambda>x. rgba_bytes (row_pixel row x)) [0..<?w])"
  have img: "img = \<lparr>si_width = ?w, si_height = length (sd_rows d), si_rgba = concat (map ?line (sd_rows d))\<rparr>"
    "?w * length (sd_rows d) \<le> MAX_SIXEL_AREA" and "\<not> sd_aborted d"
    using assms by (auto simp: sixel_finish_def Let_def split: if_splits)
  then show "\<not> sd_aborted d" by simp
  have line: "length (?line row) = ?w * 4" for row by (subst length_concat_map_const [where k = 4]) simp_all
  show "si_height img = length (sd_rows d)" "si_width img * si_height img \<le> MAX_SIXEL_AREA"
    "si_width img = Max (insert 0 (length ` set (sd_rows d)))" using img by (simp_all add: fold_max_length)
  show "length (si_rgba img) = si_width img * si_height img * 4"
    using length_concat_map_const [of "sd_rows d" ?line "?w * 4"] line by (simp add: img(1))
  assume x: "x < si_width img" and y: "y < si_height img"
  have "take (?w * 4) (drop (y * (?w * 4)) (si_rgba img)) = ?line (sd_rows d ! y)"
    using take_drop_concat [of "sd_rows d" ?line "?w * 4" y] line y by (simp add: img(1))
  moreover have "take 4 (drop (x * 4) (?line (sd_rows d ! y))) = rgba_bytes (row_pixel (sd_rows d ! y) x)"
    using take_drop_concat [of "[0..<?w]" "\<lambda>x. rgba_bytes (row_pixel (sd_rows d ! y) x)" 4 x] x by (simp add: img(1))
  moreover have "take 4 (drop (x * 4) (take (?w * 4) (drop (y * (?w * 4)) (si_rgba img)))) =
      take 4 (drop ((y * ?w + x) * 4) (si_rgba img))"
    using x by (simp add: img(1) drop_take min_def add_mult_distrib mult.assoc add.commute)
  ultimately show "take 4 (drop ((y * si_width img + x) * 4) (si_rgba img)) = rgba_bytes (pix (sd_rows d) x y)"
    using y by (simp add: img(1) pix_def)
qed

lemma sum_lengths_le: "(\<forall>row \<in> set rows. length row \<le> w) \<Longrightarrow> sum_list (map length rows) \<le> length rows * w"
  by (induction rows) auto

lemma palette_size: "distinct (map fst pal) \<Longrightarrow> length pal \<le> 65536" for pal :: "(u16 \<times> 'a) list"
  using card_mono [of UNIV "set (map fst pal)"] distinct_card [of "map fst pal"] card_word [where 'a = 16] by simp

text \<open>An image of the decoder fits in what the terminal keeps, so that placing it never evicts it.\<close>

lemma evict_keeps_last:
  "tm_images t = imgs @ [i] \<Longrightarrow> length (ip_rgba i) \<le> MAX_TOTAL_IMAGE_RGBA_BYTES \<Longrightarrow>
   safe (evict_images t) (\<lambda>t'. \<exists>imgs'. tm_images t' = imgs' @ [i])"
proof (induction t arbitrary: imgs rule: evict_images.induct)
  case (1 t)
  let ?big = "length (tm_images t) > MAX_LIVE_IMAGES \<or> total_image_rgba_bytes t > MAX_TOTAL_IMAGE_RGBA_BYTES"
  show ?case
  proof (cases "?big \<and> imgs \<noteq> []")
    case True
    then obtain removed rest where imgs: "imgs = removed # rest" by (cases imgs) auto
    then have t: "tm_images t = removed # rest @ [i]" using "1.prems"(1) by simp
    have "evict_images t = evict_images (t\<lparr>tm_images := rest @ [i],
        tm_kitty_id_by_placement := filter (\<lambda>e. fst e \<noteq> ip_id removed) (tm_kitty_id_by_placement t),
        tm_kitty_placement_ids := filter (\<lambda>i. i \<noteq> ip_id removed) (tm_kitty_placement_ids t)\<rparr>)"
      using True t by (subst evict_images.simps) auto
    then show ?thesis using "1.IH" [OF _ t, of rest] True "1.prems"(2) by simp
  next
    case False
    then have "\<not> ?big" using "1.prems" by (auto simp: total_image_rgba_bytes_def limit_defs)
    then show ?thesis using "1.prems"(1) by (subst evict_images.simps) auto
  qed
qed

section \<open>Bands\<close>

text \<open>A picture in one colour, as bands of six rows: the bytes of a band are its columns.\<close>

fun sixel_text :: "u8 list list \<Rightarrow> u8 list" where
  "sixel_text [] = []"
| "sixel_text [band] = band"
| "sixel_text (band # bands) = band @ 45 # sixel_text bands"

definition painted :: "u8 list list \<Rightarrow> nat \<Rightarrow> nat \<Rightarrow> bool" where
  "painted bands x y \<longleftrightarrow> y div 6 < length bands \<and> x < length (bands ! (y div 6)) \<and>
     bit (bands ! (y div 6) ! x - 63) (y mod 6)"

text \<open>A decoder between characters that keeps within a box.\<close>

definition fits :: "nat \<Rightarrow> nat \<Rightarrow> sixel_decoder \<Rightarrow> bool" where
  "fits w h d \<longleftrightarrow> w < MAX_SIXEL_DIM \<and> h \<le> MAX_SIXEL_DIM \<and> w * h \<le> MAX_SIXEL_AREA \<and> sd_max_x d < w \<and> sd_max_y d < h \<and>
     \<not> sd_aborted d \<and> sd_mode d = SM_Normal"

definition same_pen :: "sixel_decoder \<Rightarrow> sixel_decoder \<Rightarrow> bool" where
  "same_pen d d' \<longleftrightarrow> sd_palette d' = sd_palette d \<and> sd_current_color d' = sd_current_color d"

lemma same_pen_argb: "same_pen d d' \<Longrightarrow> current_argb d' = current_argb d"
  by (simp add: same_pen_def current_argb_def)

lemma set_pixel_fits:
  assumes "fits w h d" "x < w" "y < h"
  shows "fits w h (set_pixel x y c d)" "pix (sd_rows (set_pixel x y c d)) X Y = (if X = x \<and> Y = y then c else pix (sd_rows d) X Y)"
    "sd_x (set_pixel x y c d) = sd_x d" "sd_y (set_pixel x y c d) = sd_y d" "same_pen d (set_pixel x y c d)"
proof -
  have "(max (sd_max_x d) x + 1) * (max (sd_max_y d) y + 1) \<le> w * h"
    using assms by (intro mult_le_mono) (auto simp: fits_def)
  then have "set_pixel x y c d = d\<lparr>sd_max_x := max (sd_max_x d) x, sd_max_y := max (sd_max_y d) y,
      sd_rows := put_pixel x y c (sd_rows d)\<rparr>"
    using assms by (auto simp: set_pixel_def Let_def fits_def)
  then show "fits w h (set_pixel x y c d)" "sd_x (set_pixel x y c d) = sd_x d" "sd_y (set_pixel x y c d) = sd_y d"
    "same_pen d (set_pixel x y c d)" "pix (sd_rows (set_pixel x y c d)) X Y = (if X = x \<and> Y = y then c else pix (sd_rows d) X Y)"
    using assms by (simp_all add: fits_def same_pen_def pix_put_pixel)
qed

lemma draw_bits_fits:
  assumes "fits w h d" "sd_x d < w" "list_all (\<lambda>i. sd_y d + i < h) is"
  obtains d' where "draw_bits is bits c d = Inr d'" "fits w h d'" "sd_x d' = sd_x d" "sd_y d' = sd_y d" "same_pen d d'"
    "\<And>X Y. pix (sd_rows d') X Y = (if X = sd_x d \<and> (\<exists>i \<in> set is. Y = sd_y d + i \<and> bit bits i) then c else pix (sd_rows d) X Y)"
  using assms
proof (induction "is" arbitrary: d thesis)
  case Nil
  then show ?case by (simp add: same_pen_def)
next
  case (Cons i "is")
  let ?s = "set_pixel (sd_x d) (sd_y d + i) c d"
  have s: "fits w h ?s" "sd_x ?s = sd_x d" "sd_y ?s = sd_y d" "same_pen d ?s" "\<not> sd_aborted ?s"
    "\<And>X Y. pix (sd_rows ?s) X Y = (if X = sd_x d \<and> Y = sd_y d + i then c else pix (sd_rows d) X Y)"
    using Cons.prems set_pixel_fits [of w h d "sd_x d" "sd_y d + i" c] by (auto simp: fits_def)
  define d1 where "d1 = (if bit bits i then ?s else d)"
  have d1: "fits w h d1" "sd_x d1 = sd_x d" "sd_y d1 = sd_y d" "same_pen d d1"
    "\<And>X Y. pix (sd_rows d1) X Y = (if X = sd_x d \<and> Y = sd_y d + i \<and> bit bits i then c else pix (sd_rows d) X Y)"
    using s Cons.prems(2) by (auto simp: d1_def same_pen_def)
  obtain d' where d': "draw_bits is bits c d1 = Inr d'" "fits w h d'" "sd_x d' = sd_x d1" "sd_y d' = sd_y d1" "same_pen d1 d'"
    "\<And>X Y. pix (sd_rows d') X Y = (if X = sd_x d1 \<and> (\<exists>i \<in> set is. Y = sd_y d1 + i \<and> bit bits i) then c else pix (sd_rows d1) X Y)"
    using Cons.IH [of d1] d1(1-3) Cons.prems(3,4) by auto
  have "draw_bits (i # is) bits c d = draw_bits is bits c d1" using s(5) by (simp add: d1_def Let_def)
  with d'(1) have draw: "draw_bits (i # is) bits c d = Inr d'" by (simp only:)
  have "pix (sd_rows d') X Y = (if X = sd_x d \<and> (\<exists>j \<in> set (i # is). Y = sd_y d + j \<and> bit bits j) then c else pix (sd_rows d) X Y)"
    for X Y unfolding d'(6) d1(2,3,5) by auto
  from Cons.prems(1) [OF draw d'(2) _ _ _ this] d'(3-5) d1(2-4) show ?case by (simp add: same_pen_def)
qed

lemma feed_char_fits:
  assumes "fits w h d" "sd_x d < w" "sd_y d + 6 \<le> h" "is_sixel_char b"
  obtains d' where "sixel_feed hls b d = d'" "fits w h d'" "sd_x d' = sd_x d + 1" "sd_y d' = sd_y d" "same_pen d d'"
    "\<And>X Y. pix (sd_rows d') X Y =
      (if X = sd_x d \<and> sd_y d \<le> Y \<and> Y < sd_y d + 6 \<and> bit (b - 63) (Y - sd_y d) then current_argb d else pix (sd_rows d) X Y)"
proof -
  have "list_all (\<lambda>i. sd_y d + i < h) [0..<6]" using assms(3) by (auto simp: list_all_iff)
  then obtain d1 where d1: "draw_bits [0..<6] (b - 63) (current_argb d) d = Inr d1" "fits w h d1" "sd_x d1 = sd_x d" "sd_y d1 = sd_y d"
    "same_pen d d1" "\<And>X Y. pix (sd_rows d1) X Y = (if X = sd_x d \<and> (\<exists>i \<in> set [0..<6]. Y = sd_y d + i \<and> bit (b - 63) i)
      then current_argb d else pix (sd_rows d) X Y)"
    by (rule draw_bits_fits [OF assms(1,2), where bits = "b - 63" and c = "current_argb d"]) blast
  have step: "step_normal b d = (draw_sixel_char b d, SM_Normal)"
    using assms(4) by (auto simp: step_normal_def is_sixel_char_def word_le_nat_alt)
  have "draw_sixel_char b d = d1\<lparr>sd_x := sd_x d + 1\<rparr>"
    using d1(1-3) assms(1,2) by (simp add: draw_sixel_char_def fits_def)
  then have feed: "sixel_feed hls b d = d1\<lparr>sd_x := sd_x d + 1\<rparr>"
    using assms(1) d1(2) step by (simp add: sixel_feed_def fits_def)
  have "(\<exists>i \<in> set [0..<6]. Y = sd_y d + i \<and> bit (b - 63) i) \<longleftrightarrow> sd_y d \<le> Y \<and> Y < sd_y d + 6 \<and> bit (b - 63) (Y - sd_y d)" for Y
    by (auto intro: bexI [of _ "Y - sd_y d"])
  with d1 show thesis by (intro that [OF feed]) (auto simp: fits_def same_pen_def)
qed

text \<open>A whole band, and the bands of a picture.\<close>

lemma feed_band_fits:
  assumes "fits w h d" "sd_x d + length band \<le> w" "sd_y d + 6 \<le> h" "list_all is_sixel_char band"
  obtains d' where "fold (sixel_feed hls) band d = d'" "fits w h d'" "sd_y d' = sd_y d" "same_pen d d'"
    "\<And>X Y. pix (sd_rows d') X Y =
      (if sd_x d \<le> X \<and> X < sd_x d + length band \<and> sd_y d \<le> Y \<and> Y < sd_y d + 6 \<and> bit (band ! (X - sd_x d) - 63) (Y - sd_y d)
       then current_argb d else pix (sd_rows d) X Y)"
  using assms
proof (induction band arbitrary: d thesis)
  case Nil
  show ?case by (rule Nil.prems(1) [of d]) (use Nil.prems(2) in \<open>auto simp: same_pen_def\<close>)
next
  case (Cons b band)
  have "sd_x d < w" "is_sixel_char b" using Cons.prems(3,5) by simp_all
  then obtain d1 where d1: "sixel_feed hls b d = d1" "fits w h d1" "sd_x d1 = sd_x d + 1" "sd_y d1 = sd_y d" "same_pen d d1"
    "\<And>X Y. pix (sd_rows d1) X Y =
      (if X = sd_x d \<and> sd_y d \<le> Y \<and> Y < sd_y d + 6 \<and> bit (b - 63) (Y - sd_y d) then current_argb d else pix (sd_rows d) X Y)"
    using feed_char_fits [OF Cons.prems(2) _ Cons.prems(4)] by blast
  obtain d' where d': "fold (sixel_feed hls) band d1 = d'" "fits w h d'" "sd_y d' = sd_y d1" "same_pen d1 d'"
    "\<And>X Y. pix (sd_rows d') X Y =
      (if sd_x d1 \<le> X \<and> X < sd_x d1 + length band \<and> sd_y d1 \<le> Y \<and> Y < sd_y d1 + 6 \<and> bit (band ! (X - sd_x d1) - 63) (Y - sd_y d1)
       then current_argb d1 else pix (sd_rows d1) X Y)"
    by (rule Cons.IH [of d1]) (use d1(2-4) Cons.prems(3-5) in simp_all)
  have draw: "fold (sixel_feed hls) (b # band) d = d'" using d1(1) d'(1) by simp
  have "pix (sd_rows d') X Y =
      (if sd_x d \<le> X \<and> X < sd_x d + length (b # band) \<and> sd_y d \<le> Y \<and> Y < sd_y d + 6 \<and> bit ((b # band) ! (X - sd_x d) - 63) (Y - sd_y d)
       then current_argb d else pix (sd_rows d) X Y)" for X Y
    unfolding d'(5) d1(3,4,6) same_pen_argb [OF d1(5)] by (auto simp: nth_Cons')
  from Cons.prems(1) [OF draw d'(2) _ _ this] d'(3,4) d1(4,5) show ?case by (simp add: same_pen_def)
qed

lemma painted_Cons:
  "painted (band # bands) x y \<longleftrightarrow>
     (if y < 6 then x < length band \<and> bit (band ! x - 63) y else painted bands x (y - 6))"
proof (cases "y < 6")
  case False
  then have "y div 6 = Suc ((y - 6) div 6)" "y mod 6 = (y - 6) mod 6" by (simp_all add: le_div_geq le_mod_geq)
  with False show ?thesis by (simp add: painted_def)
qed (simp add: painted_def)

lemma feed_bands_fits:
  assumes "fits w h d" "sd_x d = 0" "sd_y d + 6 * length bands \<le> h"
    "list_all (\<lambda>band. length band \<le> w \<and> list_all is_sixel_char band) bands"
  obtains d' where "fold (sixel_feed hls) (sixel_text bands) d = d'" "fits w h d'"
    "\<And>X Y. pix (sd_rows d') X Y =
      (if sd_y d \<le> Y \<and> painted bands X (Y - sd_y d) then current_argb d else pix (sd_rows d) X Y)"
  using assms
proof (induction bands arbitrary: d thesis)
  case Nil
  then show ?case by (simp add: painted_def)
next
  case (Cons band bands)
  obtain d1 where d1: "fold (sixel_feed hls) band d = d1" "fits w h d1" "sd_y d1 = sd_y d" "same_pen d d1"
    "\<And>X Y. pix (sd_rows d1) X Y =
      (if sd_x d \<le> X \<and> X < sd_x d + length band \<and> sd_y d \<le> Y \<and> Y < sd_y d + 6 \<and> bit (band ! (X - sd_x d) - 63) (Y - sd_y d)
       then current_argb d else pix (sd_rows d) X Y)"
    by (rule feed_band_fits [OF Cons.prems(2), of band hls]) (use Cons.prems(3-5) in simp_all)
  have pix1: "pix (sd_rows d1) X Y = (if sd_y d \<le> Y \<and> painted (band # bands) X (Y - sd_y d) \<and> Y < sd_y d + 6
      then current_argb d else pix (sd_rows d) X Y)" for X Y
    unfolding d1(5) painted_Cons using Cons.prems(3) by auto
  show ?case
  proof (cases bands)
    case Nil
    have "pix (sd_rows d1) X Y = (if sd_y d \<le> Y \<and> painted (band # bands) X (Y - sd_y d) then current_argb d else pix (sd_rows d) X Y)"
      for X Y unfolding pix1 by (auto simp: Nil painted_Cons) (simp add: painted_def)
    with Cons.prems(1) [of d1] d1 Nil show ?thesis by simp
  next
    case (Cons b bs)
    let ?n = "d1\<lparr>sd_y := sd_y d1 + 6, sd_x := 0\<rparr>"
    have feed: "sixel_feed hls 45 d1 = ?n"
      using d1(2) by (simp add: sixel_feed_def fits_def step_normal_def)
    have n: "fits w h ?n" "current_argb ?n = current_argb d" using d1(2) same_pen_argb [OF d1(4)]
      by (simp_all add: fits_def current_argb_def)
    obtain d' where d': "fold (sixel_feed hls) (sixel_text bands) ?n = d'" "fits w h d'"
      "\<And>X Y. pix (sd_rows d') X Y =
        (if sd_y ?n \<le> Y \<and> painted bands X (Y - sd_y ?n) then current_argb ?n else pix (sd_rows ?n) X Y)"
      by (rule Cons.IH [of ?n]) (use n(1) d1(3) Cons.prems(4,5) in simp_all)
    have draw: "fold (sixel_feed hls) (sixel_text (band # bands)) d = d'"
      using d1(1) feed d'(1) Cons by simp
    have "pix (sd_rows d') X Y = (if sd_y d \<le> Y \<and> painted (band # bands) X (Y - sd_y d) then current_argb d else pix (sd_rows d) X Y)"
      for X Y unfolding d'(3) n(2) by (auto simp: d1(3) pix1 painted_Cons)
    from Cons.prems(1) [OF draw d'(2) this] show ?thesis .
  qed
qed

section \<open>Properties\<close>

text \<open>Whatever bytes the remote host sends as an image, what the decoder keeps of it is bounded: at most four
  million pixels in at most 4096 rows and one colour per register; and an image it delivers is less
  than 4096 pixels wide and at most 4096 high, has four bytes per pixel, and takes at most 16 MB.\<close>

lemma sixel_memory_bounded:
  "let d = fold (sixel_feed hls) bytes sixel_new in
     sum_list (map length (sd_rows d)) \<le> 4000000 \<and> length (sd_rows d) \<le> 4096 \<and> length (sd_palette d) \<le> 65536 \<and>
     pred_option (\<lambda>img. si_width img < 4096 \<and> si_height img \<le> 4096 \<and>
       length (si_rgba img) = si_width img * si_height img * 4 \<and> length (si_rgba img) \<le> 16000000) (sixel_finish d)"
proof -
  define d where "d = fold (sixel_feed hls) bytes sixel_new"
  have inv: "sixel_inv d" "narrow d" using sixel_run_inv [OF sixel_inv_new, of hls bytes] by (simp_all add: d_def)
  have "sum_list (map length (sd_rows d)) \<le> length (sd_rows d) * (sd_max_x d + 1)"
    using inv(1) by (intro sum_lengths_le) (simp add: sixel_inv_def)
  also have "\<dots> \<le> (sd_max_y d + 1) * (sd_max_x d + 1)" using inv(1) by (intro mult_le_mono1) (simp add: sixel_inv_def)
  also have "\<dots> \<le> MAX_SIXEL_AREA" using inv(1) by (simp only: sixel_inv_def mult.commute)
  finally have area: "sum_list (map length (sd_rows d)) \<le> MAX_SIXEL_AREA" .
  have img: "si_width img < 4096 \<and> si_height img \<le> 4096 \<and> length (si_rgba img) = si_width img * si_height img * 4 \<and>
      length (si_rgba img) \<le> 16000000" if "sixel_finish d = Some img" for img
  proof -
    note f = sixel_finish_image [OF that]
    have "si_width img \<le> sd_max_x d + 1" unfolding f(4) using inv(1) by (simp add: sixel_inv_def)
    then have "si_width img < 4096" using f(5) inv(2) by (simp add: narrow_def sixel_limits)
    moreover have "si_height img \<le> 4096" using f(1) inv(1) by (simp add: sixel_inv_def sixel_limits)
    ultimately show ?thesis using f(2,3) by (simp add: sixel_limits mult.commute)
  qed
  show ?thesis unfolding d_def [symmetric] Let_def
    using area img inv(1) palette_size [of "sd_palette d"]
    by (cases "sixel_finish d") (auto simp: sixel_inv_def sixel_limits)
qed

text \<open>C19. A picture sent as bands of columns is drawn exactly: if it keeps within the limits, the decoder
  does not give up, and in the image it delivers every pixel has the current colour if its bit is set
  in the column of its band, and is transparent otherwise.\<close>

theorem sixel_bands_exact:
  assumes "w < 4096" "6 * length bands \<le> 4096" "w * (6 * length bands) \<le> 4000000" "0 < w" "bands \<noteq> []"
    and "list_all (\<lambda>band. length band \<le> w \<and> list_all is_sixel_char band) bands"
    and "d = fold (sixel_feed hls) (sixel_text bands) (sixel_new\<lparr>sd_palette := palette, sd_current_color := color\<rparr>)"
  shows "\<not> sd_aborted d \<and> (\<forall>img x y. sixel_finish d = Some img \<longrightarrow> x < si_width img \<longrightarrow> y < si_height img \<longrightarrow>
    take 4 (drop ((y * si_width img + x) * 4) (si_rgba img)) =
      rgba_bytes (if painted bands x y
        then current_argb (sixel_new\<lparr>sd_palette := palette, sd_current_color := color\<rparr>) else 0))"
proof -
  let ?s = "sixel_new\<lparr>sd_palette := palette, sd_current_color := color\<rparr>"
  have fits: "fits w (6 * length bands) ?s" using assms(1-5) by (simp add: fits_def sixel_limits sixel_new_def)
  obtain d' where d': "fold (sixel_feed hls) (sixel_text bands) ?s = d'" "fits w (6 * length bands) d'"
    "\<And>X Y. pix (sd_rows d') X Y =
      (if sd_y ?s \<le> Y \<and> painted bands X (Y - sd_y ?s) then current_argb ?s else pix (sd_rows ?s) X Y)"
    by (rule feed_bands_fits [OF fits _ _ assms(6), of hls]) (simp_all add: sixel_new_def)
  have "pix (sd_rows d) x y = (if painted bands x y then current_argb ?s else 0)" for x y
    using d'(1,3) assms(7) by (simp add: sixel_new_def pix_def)
  then show ?thesis using sixel_finish_image(6) d'(1,2) assms(7) by (simp add: fits_def)
qed

lemma sixel_bands_exact_witness:
  "\<exists>d. d = fold (sixel_feed (\<lambda>_ _ _. (0, 0, 0))) (sixel_text [[66, 63], [63, 64]])
       (sixel_new\<lparr>sd_palette := [], sd_current_color := 0\<rparr>) \<and> \<not> sd_aborted d"
proof -
  have "list_all (\<lambda>band. length band \<le> 2 \<and> list_all is_sixel_char band) [[66, 63], [63, 64]]"
    by (simp add: is_sixel_char_def)
  then show ?thesis
    using sixel_bands_exact [where w = 2 and bands = "[[66, 63], [63, 64]]" and hls = "\<lambda>_ _ _. (0, 0, 0)"
      and palette = "[]" and color = 0] by simp
qed

text \<open>A delivered image is placed, and is not evicted in favour of older ones.\<close>

lemma sixel_image_kept:
  assumes "tm_inv t" "sixel_finish (fold (sixel_feed hls) bytes sixel_new) = Some img"
  shows "safe (dcs_unhook (Some (fold (sixel_feed hls) bytes sixel_new)) t)
    (\<lambda>t'. \<exists>imgs i. tm_images t' = imgs @ [i] \<and> ip_rgba i = si_rgba img)"
proof -
  have "length (si_rgba img) \<le> MAX_TOTAL_IMAGE_RGBA_BYTES"
    using sixel_finish_image(2,3) [OF assms(2)] by (simp add: limit_defs sixel_limits mult.commute)
  moreover have "0 < tm_cols t" "0 < tm_rows t" using geometryD [OF assms(1)] by auto
  ultimately show ?thesis
    unfolding dcs_unhook_def push_image_def Let_def using assms(2)
    by (auto simp: safe_bind safe_usub map_option_bind comp_def
      intro!: safe_mono [OF evict_keeps_last])
qed

text \<open>The parameters of the colour command that is being read: at most one for each semicolon sent.\<close>

fun mode_parameters :: "sixel_mode \<Rightarrow> u32 list" where
  "mode_parameters (SM_ColorSpec _ params _ _) = params"
| "mode_parameters _ = []"

lemma sixel_parameters_step:
  "length (mode_parameters (sd_mode (sixel_feed hls byte d))) \<le>
     length (mode_parameters (sd_mode d)) + (if byte = 59 then 1 else 0)"
proof -
  have normal: "mode_parameters (snd (step_normal b d')) = []" for b d' by (simp add: step_normal_def)
  show ?thesis
    by (cases "sd_mode d")
      (simp_all add: sixel_feed_def case_prod_beta normal step_repeat_def step_color_num_def step_color_spec_def
        step_raster_def Let_def)
qed

lemma sixel_parameters_per_semicolon:
  "length (mode_parameters (sd_mode (fold (sixel_feed hls) bytes sixel_new))) \<le> length (filter (\<lambda>b. b = 59) bytes)"
proof (induction bytes rule: rev_induct)
  case Nil
  show ?case by (simp add: sixel_new_def)
next
  case (snoc b bytes)
  with sixel_parameters_step [of hls b "fold (sixel_feed hls) bytes sixel_new"] show ?case
    by (auto split: if_splits)
qed

text \<open>This is no fixed bound: the list grows with every semicolon of one command.\<close>

lemma sixel_parameters_unbounded:
  "sd_mode (fold (sixel_feed hls) ([35, 59] @ replicate n 59) sixel_new) = SM_ColorSpec 0 (replicate n 0) 0 False"
proof -
  have "sixel_feed hls 59 (sixel_feed hls 35 sixel_new) = sixel_new\<lparr>sd_mode := SM_ColorSpec 0 [] 0 False\<rparr>"
    by (simp add: sixel_feed_def sixel_new_def step_normal_def step_color_num_def is_digit_def)
  moreover have "fold (sixel_feed hls) (replicate n 59) (sixel_new\<lparr>sd_mode := SM_ColorSpec 0 ps 0 False\<rparr>) =
      sixel_new\<lparr>sd_mode := SM_ColorSpec 0 (ps @ replicate n 0) 0 False\<rparr>" for ps
    by (induction n arbitrary: ps) (simp_all add: sixel_feed_def sixel_new_def step_color_spec_def is_digit_def)
  ultimately show ?thesis by simp
qed

end
