(* ===== verification/KittyGraphics.thy ===== *)
theory KittyGraphics
  imports Sixel
begin

text \<open>
  Kitty graphics (\<^verbatim>\<open>src/kitty_graphics.rs\<close>): the filter that takes APC strings out of the output before
  the parser sees it, as the loop in \<^verbatim>\<open>src/session_state.rs\<close> drives it, and the decoder of the images.
  base64 and PNG are third-party, the arguments \<open>b64\<close> and \<open>png\<close>.
\<close>

section \<open>APC strings\<close>

definition MAX_APC_PAYLOAD :: nat where "MAX_APC_PAYLOAD = 32 * 1024 * 1024"

datatype apc_step = Pass u8 | PassTwo u8 u8 | Consume | Apc "u8 list"

datatype apc_state = Ground | EscSeen | Collecting | CollectingEsc

record apc_interceptor =
  apc_state :: apc_state
  apc_buf :: "u8 list"
  apc_truncated :: bool

definition apc_new :: apc_interceptor where
  "apc_new = \<lparr>apc_state = Ground, apc_buf = [], apc_truncated = False\<rparr>"

definition apc_esc_seen :: "u8 \<Rightarrow> apc_interceptor \<Rightarrow> apc_step \<times> apc_interceptor" where
  "apc_esc_seen byte i =
     (if byte = 0x5f then (Consume, i\<lparr>apc_state := Collecting, apc_buf := [], apc_truncated := False\<rparr>)
      else if byte = 0x1b then (Pass 0x1b, i)
      else (PassTwo 0x1b byte, i\<lparr>apc_state := Ground\<rparr>))"

definition apc_finish :: "apc_interceptor \<Rightarrow> apc_step \<times> apc_interceptor" where
  "apc_finish i =
     (Apc (if apc_truncated i then [] else apc_buf i), i\<lparr>apc_state := Ground, apc_buf := []\<rparr>)"

definition apc_feed :: "u8 \<Rightarrow> apc_interceptor \<Rightarrow> apc_step \<times> apc_interceptor" where
  "apc_feed byte i = (case apc_state i of
       Ground \<Rightarrow> if byte = 0x1b then (Consume, i\<lparr>apc_state := EscSeen\<rparr>) else (Pass byte, i)
     | EscSeen \<Rightarrow> apc_esc_seen byte i
     | Collecting \<Rightarrow>
         if byte = 0x1b then (Consume, i\<lparr>apc_state := CollectingEsc\<rparr>)
         else if byte = 0x9c then apc_finish i
         else if length (apc_buf i) < MAX_APC_PAYLOAD then (Consume, i\<lparr>apc_buf := apc_buf i @ [byte]\<rparr>)
         else (Consume, i\<lparr>apc_truncated := True\<rparr>)
     | CollectingEsc \<Rightarrow>
         if byte = 0x5c then apc_finish i
         else apc_esc_seen byte (i\<lparr>apc_state := EscSeen, apc_buf := [], apc_truncated := False\<rparr>))"

text \<open>What the bytes of the output become: bytes for the parser, and payloads for the terminal.\<close>

datatype apc_out = ToParser u8 | ToTerminal "u8 list"

fun step_outs :: "apc_step \<Rightarrow> apc_out list" where
  "step_outs (Pass b) = [ToParser b]"
| "step_outs (PassTwo a b) = [ToParser a, ToParser b]"
| "step_outs Consume = []"
| "step_outs (Apc payload) = [ToTerminal payload]"

fun apc_run :: "u8 list \<Rightarrow> apc_interceptor \<Rightarrow> apc_out list \<times> apc_interceptor" where
  "apc_run [] i = ([], i)"
| "apc_run (b # bs) i =
     (let (s, i) = apc_feed b i; (outs, i) = apc_run bs i in (step_outs s @ outs, i))"

section \<open>Control data\<close>

definition split_payload :: "u8 list \<Rightarrow> u8 list \<times> u8 list" where
  "split_payload payload =
     (takeWhile (\<lambda>b. b \<noteq> 59) payload, tl (dropWhile (\<lambda>b. b \<noteq> 59) payload))"

fun split_comma :: "u8 list \<Rightarrow> u8 list list" where
  "split_comma [] = [[]]"
| "split_comma (b # bs) =
     (if b = 44 then [] # split_comma bs
      else (case split_comma bs of p # ps \<Rightarrow> (b # p) # ps | [] \<Rightarrow> [[b]]))"

definition parse_control :: "u8 list \<Rightarrow> (u8 \<times> u8 list) list" where
  "parse_control control =
     (let control = (case control of b # bs \<Rightarrow> if b = 71 then bs else control | [] \<Rightarrow> []) in
      List.map_filter (\<lambda>part.
        if part \<noteq> [] \<and> 61 \<in> set part then Some (hd part, tl (dropWhile (\<lambda>b. b \<noteq> 61) part)) else None)
        (split_comma control))"

definition kitty_num :: "(u8 \<times> u8 list) list \<Rightarrow> u8 \<Rightarrow> u64 option" where
  "kitty_num keys k = Option.bind (map_of keys k) (\<lambda>v. Option.bind (utf8_decode v) parse_u64)"

definition kitty_chr :: "(u8 \<times> u8 list) list \<Rightarrow> u8 \<Rightarrow> u8 option" where
  "kitty_chr keys k = Option.bind (map_of keys k) (\<lambda>v. case v of [] \<Rightarrow> None | b # _ \<Rightarrow> Some b)"

definition num_or :: "u64 \<Rightarrow> (u8 \<times> u8 list) list \<Rightarrow> u8 \<Rightarrow> u64" where
  "num_or dflt keys k = (case kitty_num keys k of Some n \<Rightarrow> n | None \<Rightarrow> dflt)"

definition kitty_action :: "(u8 \<times> u8 list) list \<Rightarrow> u8" where
  "kitty_action keys = (case kitty_chr keys 97 of Some a \<Rightarrow> a | None \<Rightarrow> 116)"

definition delete_command :: "(u8 \<times> u8 list) list \<Rightarrow> kitty_command" where
  "delete_command keys =
     (let d = (case kitty_chr keys 100 of Some d \<Rightarrow> d | None \<Rightarrow> 97) in
      if d = 97 \<or> d = 65 then KittyDeleteAll
      else if d = 105 \<or> d = 73 then (case kitty_num keys 105 of Some i \<Rightarrow> KittyDeleteId i | None \<Rightarrow> KittyNone)
      else KittyNone)"

section \<open>Pixels\<close>

definition dims_ok :: "nat \<Rightarrow> nat \<Rightarrow> bool" where
  "dims_ok width height \<longleftrightarrow> width \<noteq> 0 \<and> height \<noteq> 0 \<and> width \<le> MAX_SIXEL_DIM \<and> height \<le> MAX_SIXEL_DIM \<and>
     width * height \<le> MAX_SIXEL_AREA"

text \<open>\<^verbatim>\<open>chunks_exact\<close>: a shorter rest is dropped.\<close>

fun chunks_exact :: "nat \<Rightarrow> u8 list \<Rightarrow> u8 list list" where
  "chunks_exact n bs =
     (if n = 0 \<or> length bs < n then [] else take n bs # chunks_exact n (drop n bs))"

declare chunks_exact.simps [simp del]

definition rgba_from_raw :: "u8 list \<Rightarrow> u32 \<Rightarrow> u32 \<Rightarrow> nat \<Rightarrow> (nat \<times> nat \<times> u8 list) option" where
  "rgba_from_raw bytes width height bpp =
     (let width = unat width; height = unat height in
      if \<not> dims_ok width height then None
      else if length bytes \<noteq> width * height * bpp then None
      else if bpp = 4 then Some (width, height, bytes)
      else Some (width, height, concat (map (\<lambda>px. px @ [255]) (chunks_exact 3 bytes))))"

datatype png_color_type = PngRgba | PngRgb | PngGrayscaleAlpha | PngGrayscale | PngIndexed

record png_frame =
  png_width :: u32
  png_height :: u32
  png_color :: png_color_type
  png_buf :: "u8 list"

fun png_channels :: "png_color_type \<Rightarrow> nat option" where
  "png_channels PngRgba = Some 4"
| "png_channels PngRgb = Some 3"
| "png_channels PngGrayscaleAlpha = Some 2"
| "png_channels PngGrayscale = Some 1"
| "png_channels PngIndexed = None"

definition expand_pixel :: "u8 list \<Rightarrow> u8 list" where
  "expand_pixel px =
     (if length px = 4 then px else if length px = 3 then px @ [255]
      else if length px = 2 then [px ! 0, px ! 0, px ! 0, px ! 1]
      else [px ! 0, px ! 0, px ! 0, 255])"

definition png_to_rgba :: "(u8 list \<Rightarrow> png_frame option) \<Rightarrow> u8 list \<Rightarrow> (nat \<times> nat \<times> u8 list) option" where
  "png_to_rgba png bytes = do {
     f \<leftarrow> png bytes;
     (let width = unat (png_width f); height = unat (png_height f) in
      if \<not> dims_ok width height then None
      else do {
        channels \<leftarrow> png_channels (png_color f);
        if length (png_buf f) \<noteq> width * height * channels then None
        else Some (width, height, concat (map expand_pixel (chunks_exact channels (png_buf f)))) }) }"

section \<open>Images\<close>

record kitty_pending =
  kp_format :: u32
  kp_width :: u32
  kp_height :: u32
  kp_kitty_id :: "u64 option"
  kp_display :: bool
  kp_payload_b64 :: "u8 list"

type_synonym b64_fn = "u8 list \<Rightarrow> u8 list option"
type_synonym png_fn = "u8 list \<Rightarrow> png_frame option"

definition kitty_decode :: "png_fn \<Rightarrow> kitty_pending \<Rightarrow> u8 list \<Rightarrow> (nat \<times> nat \<times> u8 list) option" where
  "kitty_decode png p bytes =
     (if kp_format p = 32 then rgba_from_raw bytes (kp_width p) (kp_height p) 4
      else if kp_format p = 24 then rgba_from_raw bytes (kp_width p) (kp_height p) 3
      else if kp_format p = 100 then png_to_rgba png bytes
      else None)"

definition kitty_finalize :: "b64_fn \<Rightarrow> png_fn \<Rightarrow> kitty_pending \<Rightarrow> kitty_command" where
  "kitty_finalize b64 png p =
     (if \<not> kp_display p then KittyNone
      else (case b64 (kp_payload_b64 p) of
          None \<Rightarrow> KittyNone
        | Some bytes \<Rightarrow> (case kitty_decode png p bytes of
            Some (width, height, rgba) \<Rightarrow> KittyPlace width height rgba (kp_kitty_id p)
          | None \<Rightarrow> KittyNone)))"

definition after_chunk ::
    "b64_fn \<Rightarrow> png_fn \<Rightarrow> (u8 \<times> u8 list) list \<Rightarrow> kitty_pending \<Rightarrow> kitty_command \<times> kitty_pending option" where
  "after_chunk b64 png keys p =
     (if num_or 0 keys 109 = 1 then (KittyNone, Some p) else (kitty_finalize b64 png p, None))"

definition start_transmit ::
    "b64_fn \<Rightarrow> png_fn \<Rightarrow> (u8 \<times> u8 list) list \<Rightarrow> u8 list \<Rightarrow> kitty_command \<times> kitty_pending option" where
  "start_transmit b64 png keys data =
     (if kitty_chr keys 116 \<noteq> None \<and> kitty_chr keys 116 \<noteq> Some 100 then (KittyNone, None)
      else after_chunk b64 png keys
        \<lparr>kp_format = ucast (num_or 32 keys 102), kp_width = ucast (num_or 0 keys 115),
         kp_height = ucast (num_or 0 keys 118), kp_kitty_id = kitty_num keys 105,
         kp_display = (kitty_action keys = 84), kp_payload_b64 = data\<rparr>)"

definition continue_transmit ::
    "b64_fn \<Rightarrow> png_fn \<Rightarrow> (u8 \<times> u8 list) list \<Rightarrow> u8 list \<Rightarrow> kitty_pending \<Rightarrow> kitty_command \<times> kitty_pending option" where
  "continue_transmit b64 png keys data p =
     after_chunk b64 png keys
       (if length (kp_payload_b64 p) + length data \<le> MAX_APC_PAYLOAD
        then p\<lparr>kp_payload_b64 := kp_payload_b64 p @ data\<rparr> else p)"

definition kitty_dispatch ::
    "b64_fn \<Rightarrow> png_fn \<Rightarrow> u8 list \<Rightarrow> kitty_pending option \<Rightarrow> kitty_command \<times> kitty_pending option" where
  "kitty_dispatch b64 png payload pending =
     (let (control, data) = split_payload payload; keys = parse_control control in
      case pending of
        Some p \<Rightarrow> continue_transmit b64 png keys data p
      | None \<Rightarrow>
         if payload = [] \<or> hd payload \<noteq> 71 then (KittyNone, None)
         else if kitty_action keys = 84 \<or> kitty_action keys = 116 then start_transmit b64 png keys data
         else if kitty_action keys = 100 then (delete_command keys, None)
         else (KittyNone, None))"

text \<open>\<^verbatim>\<open>dispatch_apc\<close> of \<^verbatim>\<open>src/terminal.rs\<close>: a payload that parses as a panel (third-party JSON, the argument
  \<open>panel\<close>) goes elsewhere.\<close>

fun kitty_run ::
    "(u8 list \<Rightarrow> bool) \<Rightarrow> b64_fn \<Rightarrow> png_fn \<Rightarrow> apc_out list \<Rightarrow> kitty_pending option \<Rightarrow>
     kitty_command list \<times> kitty_pending option" where
  "kitty_run panel b64 png [] pending = ([], pending)"
| "kitty_run panel b64 png (ToParser _ # outs) pending = kitty_run panel b64 png outs pending"
| "kitty_run panel b64 png (ToTerminal payload # outs) pending =
     (if panel payload then kitty_run panel b64 png outs pending
      else
        let (cmd, pending) = kitty_dispatch b64 png payload pending;
            (cmds, pending) = kitty_run panel b64 png outs pending in (cmd # cmds, pending))"

section \<open>The filter\<close>

datatype segment = Text "u8 list" | Command "u8 list" bool

text \<open>A command ends in either form of the string terminator.\<close>

fun segment_bytes :: "segment \<Rightarrow> u8 list" where
  "segment_bytes (Text t) = t"
| "segment_bytes (Command body c1) = [0x1b, 0x5f] @ body @ (if c1 then [0x9c] else [0x1b, 0x5c])"

fun segment_outs :: "segment \<Rightarrow> apc_out list" where
  "segment_outs (Text t) = map ToParser t"
| "segment_outs (Command body _) = [ToTerminal body]"

fun no_apc :: "u8 list \<Rightarrow> bool" where
  "no_apc [] = True"
| "no_apc [b] = (b \<noteq> 0x1b)"
| "no_apc (b # c # bs) = ((b = 0x1b \<longrightarrow> c \<noteq> 0x5f) \<and> no_apc (c # bs))"

fun segment_ok :: "segment \<Rightarrow> bool" where
  "segment_ok (Text t) = no_apc t"
| "segment_ok (Command body _) \<longleftrightarrow> 0x1b \<notin> set body \<and> 0x9c \<notin> set body \<and> length body \<le> MAX_APC_PAYLOAD"

lemma apc_run_append:
  "apc_run (xs @ ys) i = (let (a, i) = apc_run xs i; (b, i) = apc_run ys i in (a @ b, i))"
  by (induction xs arbitrary: i) (simp_all add: case_prod_beta Let_def)

lemma text_run:
  "(no_apc t \<longrightarrow> apc_state i = Ground \<longrightarrow> apc_run t i = (map ToParser t, i)) \<and>
   (no_apc (0x1b # t) \<longrightarrow> apc_state i = EscSeen \<longrightarrow> apc_run t i = (map ToParser (0x1b # t), i\<lparr>apc_state := Ground\<rparr>))"
proof (induction t arbitrary: i)
  case (Cons b t)
  have ground: "no_apc t \<Longrightarrow> apc_run t (i\<lparr>apc_state := Ground\<rparr>) = (map ToParser t, i\<lparr>apc_state := Ground\<rparr>)"
    and esc: "no_apc (0x1b # t) \<Longrightarrow> apc_run t (i\<lparr>apc_state := EscSeen\<rparr>) =
      (map ToParser (0x1b # t), i\<lparr>apc_state := Ground\<rparr>)"
    using Cons.IH by simp_all
  have tail: "no_apc (b # t) \<Longrightarrow> b \<noteq> 0x1b \<Longrightarrow> no_apc t" by (cases t) simp_all
  show ?case
    using ground esc tail by (cases i) (auto simp: apc_feed_def apc_esc_seen_def)
qed simp

lemma body_run:
  "0x1b \<notin> set body \<Longrightarrow> 0x9c \<notin> set body \<Longrightarrow> apc_state i = Collecting \<Longrightarrow> length (apc_buf i) + length body \<le> MAX_APC_PAYLOAD \<Longrightarrow>
   apc_run body i = ([], i\<lparr>apc_buf := apc_buf i @ body\<rparr>)"
  by (induction body arbitrary: i) (simp_all add: apc_feed_def)

lemma segment_run:
  assumes "segment_ok s" "apc_state i = Ground"
  shows "\<exists>i'. apc_run (segment_bytes s) i = (segment_outs s, i') \<and> apc_state i' = Ground"
proof (cases s)
  case (Text t)
  with assms text_run [of t i] show ?thesis by simp
next
  case (Command body c1)
  let ?i = "i\<lparr>apc_state := Collecting, apc_buf := [], apc_truncated := False\<rparr>"
  have "apc_run body ?i = ([], ?i\<lparr>apc_buf := body\<rparr>)"
    using assms(1) Command by (subst body_run) simp_all
  with assms(2) Command show ?thesis
    by (simp add: apc_run_append apc_feed_def apc_esc_seen_def apc_finish_def)
qed

section \<open>Limits\<close>

definition apc_small :: "apc_out \<Rightarrow> bool" where
  "apc_small out = (case out of ToTerminal payload \<Rightarrow> length payload \<le> MAX_APC_PAYLOAD | ToParser _ \<Rightarrow> True)"

lemma apc_feed_small:
  assumes "length (apc_buf i) \<le> MAX_APC_PAYLOAD"
  shows "length (apc_buf (snd (apc_feed b i))) \<le> MAX_APC_PAYLOAD \<and> list_all apc_small (step_outs (fst (apc_feed b i)))"
  using assms by (auto simp: apc_feed_def apc_esc_seen_def apc_finish_def apc_small_def split: apc_state.split)

lemma apc_run_small:
  "length (apc_buf i) \<le> MAX_APC_PAYLOAD \<Longrightarrow>
   length (apc_buf (snd (apc_run bs i))) \<le> MAX_APC_PAYLOAD \<and> list_all apc_small (fst (apc_run bs i))"
proof (induction bs arbitrary: i)
  case (Cons b bs)
  with apc_feed_small [OF Cons.prems, of b] show ?case by (simp add: case_prod_beta)
qed simp

definition pending_small :: "kitty_pending option \<Rightarrow> bool" where
  "pending_small = pred_option (\<lambda>p. length (kp_payload_b64 p) \<le> MAX_APC_PAYLOAD)"

fun command_ok :: "kitty_command \<Rightarrow> bool" where
  "command_ok (KittyPlace width height rgba _) \<longleftrightarrow>
     width \<le> 4096 \<and> height \<le> 4096 \<and> length rgba = width * height * 4 \<and> length rgba \<le> 16000000"
| "command_ok _ = True"

lemma length_chunks_exact:
  "0 < n \<Longrightarrow> length (chunks_exact n bs) = length bs div n" "cs \<in> set (chunks_exact n bs) \<Longrightarrow> length cs = n"
proof (induction n bs rule: chunks_exact.induct)
  case (1 n bs)
  {
    case 1
    then show ?case using "1.IH"(1) le_div_geq [of n "length bs"] by (subst chunks_exact.simps) (auto simp: not_less)
  next
    case 2
    then show ?case using "1.IH"(2) by (subst (asm) chunks_exact.simps) (auto split: if_splits)
  }
qed

lemma pixels_length:
  assumes "length bs = k * n" "0 < n" "\<And>px. length px = n \<Longrightarrow> length (f px) = 4"
  shows "length (concat (map f (chunks_exact n bs))) = k * 4"
proof -
  have "length (concat (map f (chunks_exact n bs))) = length (chunks_exact n bs) * 4"
    by (rule length_concat_map_const) (simp add: assms(3) length_chunks_exact(2))
  then show ?thesis using assms(1,2) by (simp add: length_chunks_exact(1))
qed

lemma rgba_from_raw_ok:
  assumes "rgba_from_raw bytes w h bpp = Some (width, height, rgba)" "bpp = 3 \<or> bpp = 4"
  shows "dims_ok width height" "length rgba = width * height * 4"
  using assms pixels_length [of bytes "width * height" 3 "\<lambda>px. px @ [255]"]
  by (auto simp: rgba_from_raw_def Let_def split: if_splits)

lemma expand_pixel_length: "length px \<le> 4 \<Longrightarrow> length (expand_pixel px) = 4"
  by (simp add: expand_pixel_def)

lemma png_to_rgba_ok:
  assumes "png_to_rgba png bytes = Some (width, height, rgba)"
  shows "dims_ok width height" "length rgba = width * height * 4"
proof -
  obtain f where png: "png bytes = Some f" using assms by (cases "png bytes") (simp_all add: png_to_rgba_def)
  with assms obtain n where n: "png_channels (png_color f) = Some n"
    by (cases "png_channels (png_color f)") (simp_all add: png_to_rgba_def Let_def split: if_splits)
  with assms png have f: "dims_ok width height" "png_channels (png_color f) = Some n" "length (png_buf f) = width * height * n"
    "rgba = concat (map expand_pixel (chunks_exact n (png_buf f)))"
    by (auto simp: png_to_rgba_def Let_def split: if_splits)
  then show "dims_ok width height" by simp
  have "0 < n \<and> n \<le> 4" using f(2) by (cases "png_color f") auto
  then show "length rgba = width * height * 4"
    unfolding f(4) using f(3) by (intro pixels_length) (auto simp: expand_pixel_length)
qed

lemma kitty_decode_ok:
  "kitty_decode png p bytes = Some (width, height, rgba) \<Longrightarrow> dims_ok width height \<and> length rgba = width * height * 4"
  unfolding kitty_decode_def using rgba_from_raw_ok png_to_rgba_ok by (simp split: if_splits)

lemma kitty_finalize_ok: "command_ok (kitty_finalize b64 png p)"
proof -
  have "command_ok (case kitty_decode png p bytes of
      Some (width, height, rgba) \<Rightarrow> KittyPlace width height rgba (kp_kitty_id p) | None \<Rightarrow> KittyNone)" for bytes
    using kitty_decode_ok [of png p bytes] by (auto simp: dims_ok_def sixel_limits mult.commute split: option.split)
  then show ?thesis by (simp add: kitty_finalize_def split: option.split)
qed

lemma kitty_dispatch_ok:
  assumes "length payload \<le> MAX_APC_PAYLOAD" "pending_small pending"
  shows "command_ok (fst (kitty_dispatch b64 png payload pending)) \<and> pending_small (snd (kitty_dispatch b64 png payload pending))"
proof -
  have data: "length (tl (dropWhile P payload)) \<le> MAX_APC_PAYLOAD" for P
    using assms(1) length_dropWhile_le [of P payload] by simp
  have del: "command_ok (delete_command keys)" for keys by (simp add: delete_command_def Let_def split: option.split)
  show ?thesis using assms(2) data
    by (auto simp: kitty_dispatch_def split_payload_def Let_def start_transmit_def continue_transmit_def after_chunk_def
      pending_small_def kitty_finalize_ok del split: option.splits)
qed

lemma kitty_run_ok:
  "list_all apc_small outs \<Longrightarrow> pending_small pending \<Longrightarrow>
   list_all command_ok (fst (kitty_run panel b64 png outs pending)) \<and> pending_small (snd (kitty_run panel b64 png outs pending))"
proof (induction outs arbitrary: pending)
  case (Cons out outs)
  show ?case
  proof (cases out)
    case (ToTerminal payload)
    then have "length payload \<le> MAX_APC_PAYLOAD" using Cons.prems(1) by (simp add: apc_small_def)
    from kitty_dispatch_ok [OF this Cons.prems(2), of b64 png] Cons ToTerminal show ?thesis
      by (simp add: case_prod_beta)
  qed (use Cons in simp)
qed simp

section \<open>Properties\<close>

text \<open>C18. The filter takes APC strings out of the output and nothing else: in a stream made of text without
  the introducer and of complete commands, however they alternate, the parser is given exactly the text,
  byte for byte, and the terminal exactly the bodies, each where it stood.\<close>

theorem apc_filter_exact:
  assumes "list_all segment_ok segments"
  shows "fst (apc_run (concat (map segment_bytes segments)) apc_new) = concat (map segment_outs segments)"
proof -
  have "apc_state i = Ground \<Longrightarrow> list_all segment_ok segments \<Longrightarrow>
      fst (apc_run (concat (map segment_bytes segments)) i) = concat (map segment_outs segments)" for i
  proof (induction segments arbitrary: i)
    case (Cons s segments)
    then obtain i' where "apc_run (segment_bytes s) i = (segment_outs s, i')" "apc_state i' = Ground"
      using segment_run [of s i] by auto
    with Cons show ?case by (simp add: apc_run_append case_prod_beta)
  qed simp
  with assms show ?thesis by (simp add: apc_new_def)
qed

lemma apc_filter_exact_witness:
  "fst (apc_run ([97, 27, 91] @ ([27, 95, 71, 27, 92] @ [98])) apc_new) =
     [ToParser 97, ToParser 27, ToParser 91, ToTerminal [71], ToParser 98]"
  using apc_filter_exact [of "[Text [97, 27, 91], Command [71] False, Text [98]]"]
  by (simp add: MAX_APC_PAYLOAD_def)

lemma kitty_memory_bounded:
  "let (outs, i) = apc_run bytes apc_new; (cmds, pending) = kitty_run panel b64 png outs None in
     length (apc_buf i) \<le> 33554432 \<and> pred_option (\<lambda>p. length (kp_payload_b64 p) \<le> 33554432) pending \<and>
     list_all command_ok cmds"
proof -
  have "length (apc_buf apc_new) \<le> MAX_APC_PAYLOAD" "pending_small None" by (simp_all add: apc_new_def pending_small_def)
  with apc_run_small [of apc_new bytes] kitty_run_ok [of "fst (apc_run bytes apc_new)" None panel b64 png]
  show ?thesis by (simp add: case_prod_beta Let_def pending_small_def MAX_APC_PAYLOAD_def)
qed

text \<open>C17. Whatever the remote host sends, what the decoders of images keep of an image and what they deliver is
  bounded: sixel keeps at most four million pixels in at most 4096 rows and one colour per register,
  the filter for APC strings and the chunks of a Kitty image take at most 32 MiB each; and every image
  delivered is at most 4096 pixels wide and high, has four bytes per pixel, and takes at most
  16 MB, whatever the decoders of base64 and PNG return. Only the parameters of the colour command that
  the sixel decoder is reading have no fixed limit: there is at most one for each semicolon sent.\<close>

theorem image_decoders_bounded:
  "(let d = fold (sixel_feed hls) bytes sixel_new in
     sum_list (map length (sd_rows d)) \<le> 4000000 \<and> length (sd_rows d) \<le> 4096 \<and> length (sd_palette d) \<le> 65536 \<and>
     pred_option (\<lambda>img. si_width img < 4096 \<and> si_height img \<le> 4096 \<and>
       length (si_rgba img) = si_width img * si_height img * 4 \<and> length (si_rgba img) \<le> 16000000) (sixel_finish d)) \<and>
   length (mode_parameters (sd_mode (fold (sixel_feed hls) bytes sixel_new))) \<le> length (filter (\<lambda>b. b = 59) bytes) \<and>
   (let (outs, i) = apc_run bytes apc_new; (cmds, pending) = kitty_run panel b64 png outs None in
     length (apc_buf i) \<le> 33554432 \<and> pred_option (\<lambda>p. length (kp_payload_b64 p) \<le> 33554432) pending \<and>
     list_all command_ok cmds)"
  by (intro conjI sixel_memory_bounded sixel_parameters_per_semicolon kitty_memory_bounded)

text \<open>C37. Yet a string may be cut in the middle of a character: the byte 0x9c ends it also where it is a
  continuation byte, as in U+672C. A panel whose text has this character, and none before it with that
  byte, reaches the terminal cut off within the character, and what follows is printed on the screen.\<close>

theorem apc_cuts_characters:
  assumes "0x1b \<notin> set (utf8_encode before)" "0x9c \<notin> set (utf8_encode before)"
    and "length (utf8_encode before) < MAX_APC_PAYLOAD" "0x1b \<notin> set (utf8_encode after)"
  shows "fst (apc_run ([0x1b, 0x5f] @ utf8_encode (before @ [0x672C] @ after)) apc_new) =
    ToTerminal (utf8_encode before @ [0xE6]) # map ToParser (0xAC # utf8_encode after)"
proof -
  have enc: "utf8_encode (before @ [0x672C] @ after) = (utf8_encode before @ [0xE6]) @ 0x9C # 0xAC # utf8_encode after"
    by (simp add: utf8_encode_def utf8_char_def)
  let ?i = "apc_new\<lparr>apc_state := Collecting\<rparr>" and ?body = "utf8_encode before @ [0xE6]"
  have start: "apc_run ([0x1b, 0x5f] @ bs) apc_new = apc_run bs ?i" for bs
    by (simp add: apc_feed_def apc_esc_seen_def apc_new_def case_prod_beta)
  have body: "apc_run ?body ?i = ([], ?i\<lparr>apc_buf := ?body\<rparr>)"
    using assms by (subst body_run) (simp_all add: apc_new_def)
  have st: "apc_feed 0x9C (?i\<lparr>apc_buf := ?body\<rparr>) = (Apc ?body, apc_new)"
    by (simp add: apc_feed_def apc_finish_def apc_new_def)
  have "no_apc t" if "0x1b \<notin> set t" for t using that by (induction t rule: no_apc.induct) auto
  then have "no_apc (0xAC # utf8_encode after)" using assms(4) by simp
  with text_run [of "0xAC # utf8_encode after" apc_new]
  have rest: "apc_run (0xAC # utf8_encode after) apc_new = (map ToParser (0xAC # utf8_encode after), apc_new)"
    by (simp add: apc_new_def)
  show ?thesis
    unfolding enc start apc_run_append [of ?body] body apc_run.simps(2) [of "0x9C"] by (simp add: st rest del: apc_run.simps(2))
qed

lemma apc_cuts_characters_witness:
  "fst (apc_run ([0x1b, 0x5f] @ utf8_encode (codes ''{'' @ [0x672C] @ codes ''}'')) apc_new) =
     [ToTerminal [123, 0xE6], ToParser 0xAC, ToParser 125]"
  using apc_cuts_characters [of "codes ''{''" "codes ''}''"]
  by (simp add: utf8_encode_def utf8_char_def codes_def MAX_APC_PAYLOAD_def)

end
