(* ===== verification/Spec2Isabelle.thy ===== *)
theory Spec2Isabelle
  imports ServeFsm ResumeFsm ReconnectFsm ConnectRecovery MuxReconnect PoolIdle RingBuffer
    SessionStreams ResumeExchange ReattachClient AttachWire Masque Stun TtyDaemon IsekaiConfig
    Rebind TrzszTransfer
    TermProps KittyGraphics
begin

text \<open>
  A verification library for the core of isekai-terminal: the SSH client that survives network
  changes by resuming byte streams over QUIC. All sources named below are relative to
  \<^verbatim>\<open>src/rust-core\<close>.

  \<^bold>\<open>The program.\<close> A client (the mobile app's library \<^verbatim>\<open>src/\<close>, or the command line
  tools \<^verbatim>\<open>isekai-ssh\<close> and \<^verbatim>\<open>isekai-pipe\<close>) opens a QUIC connection to a helper
  (\<^verbatim>\<open>isekai-pipe serve\<close>) next to the remote SSH server. The client announces itself with an
  ATTACH frame; the helper's attach arbiter decides which of several concurrent attempts owns a
  session; the serve aggregate admits, parks, resumes and sweeps sessions. Both directions of a
  session are byte streams with absolute offsets: each end keeps what it sent in a replay buffer
  until the peer acknowledges it, and after a disconnection the two ends exchange their offsets
  and replay. The client's reducers decide when to wait, when to dial and when to give up.

  \<^bold>\<open>Theories and sources.\<close>
  \<^item> \<open>Prelude\<close>: integers at their width, saturating and checked arithmetic, durations,
    \<^verbatim>\<open>Millis\<close>, big-endian bytes. \<open>Tables\<close>: \<^verbatim>\<open>HashMap\<close> and
    \<^verbatim>\<open>BTreeMap\<close> as association lists. \<open>Interfaces\<close>: the contracts (locales)
    \<open>reducer\<close>, \<open>metered_reducer\<close>, \<open>stale_guard\<close>, \<open>frame_codec\<close>,
    \<open>stream_decoder\<close>, \<open>framed_stream\<close>, \<open>backoff_source\<close> and \<open>replay_window\<close>, each
    interpreted on the model's own definitions in the theory that provides them. \<open>Utf8\<close>: the
    standard library's strings. \<open>NetAddr\<close>: socket addresses. \<open>TimedFsm\<close>: responses with timer
    commands, the driver that keeps the timers, and the locale \<open>timed_machine\<close>.
  \<^item> \<open>Wire\<close> and \<open>AttachWire\<close>: \<^verbatim>\<open>isekai-protocol/src/{error,session_id,offset,hello,version,attach}.rs\<close>:
    every frame's encoder and decoder, and the authenticated transcripts.
  \<^item> \<open>AttachArbiter\<close> and \<open>ServeFsm\<close>: \<^verbatim>\<open>isekai-pipe/src/engine/{attach_arbiter,serve_fsm}.rs\<close>.
  \<^item> \<open>Backoff\<close>, \<open>ResumeFsm\<close>: \<^verbatim>\<open>isekai-transport/src/backoff.rs\<close>,
    \<^verbatim>\<open>isekai-pipe/src/resume_fsm.rs\<close> and the policies it calls.
  \<^item> \<open>ReconnectFsm\<close>: \<^verbatim>\<open>src/reconnect_fsm.rs\<close>; \<open>ConnectRecovery\<close>:
    \<^verbatim>\<open>isekai-ssh/src/{connect_recovery_fsm,reconnect_backoff}.rs\<close>; \<open>MuxReconnect\<close>:
    \<^verbatim>\<open>isekai-ssh/src/native/mux/reconnect_fsm.rs\<close>; \<open>PoolIdle\<close>:
    \<^verbatim>\<open>src/pool_idle_fsm.rs\<close>; \<open>RingBuffer\<close>: \<^verbatim>\<open>isekai-pipe/src/tty/ring_buffer.rs\<close>.
  \<^item> \<open>ReplayBuffer\<close>, \<open>ResumeExchange\<close>: \<^verbatim>\<open>quicmux/src/resume.rs\<close>;
    \<open>SessionStreams\<close>: the relay and resumption paths of
    \<^verbatim>\<open>isekai-pipe/src/engine/{mod,resume}.rs\<close> and \<^verbatim>\<open>isekai-pipe/src/resume_loop.rs\<close>;
    \<open>ReattachClient\<close>: \<^verbatim>\<open>src/resume_client.rs\<close>.
  \<^item> \<open>TtyProtocol\<close>, \<open>TtyDaemon\<close>: \<^verbatim>\<open>isekai-pipe/src/tty/{protocol,attach,attach_slot,daemon}.rs\<close>, the
    shell that outlives its clients: the frames of the local socket, and the tasks of every client
    interleaved at their await points.
  \<^item> \<open>Masque\<close>: \<^verbatim>\<open>isekai-link-masque/src/{varint,addr_codec,datagram_codec,capsule}.rs\<close> and the
    acknowledgement in \<^verbatim>\<open>relay_client.rs\<close>; \<open>Stun\<close>: \<^verbatim>\<open>isekai-stun/src/lib.rs\<close>.
  \<^item> \<open>Rebind\<close>: \<^verbatim>\<open>src/rebind_manager.rs\<close>; \<open>Trzsz\<close>, \<open>TrzszTransfer\<close>: \<^verbatim>\<open>src/trzsz.rs\<close>, with
    the interface \<open>transfer_relation\<close> for what a running transfer keeps.
  \<^item> \<open>Wildcard\<close>: the pattern matchers; \<open>IncludeWalk\<close>: strings, paths, pattern lists, and the walk over a
    configuration file and the files it includes, with the interface \<open>line_reader\<close>; \<open>SshConfig\<close>:
    \<^verbatim>\<open>openssh-config/src/lib.rs\<close>, and \<open>SshDirectives\<close>: \<^verbatim>\<open>isekai-ssh/src/wrapper/directive.rs\<close>, its two
    readers; \<open>WrapperCli\<close>: the command line and the quoting in \<^verbatim>\<open>isekai-ssh/src/{wrapper,tty_attach}.rs\<close>;
    \<open>IsekaiConfig\<close>: \<^verbatim>\<open>isekai-ssh/src/wrapper/config.rs\<close>, colours and services of \<^verbatim>\<open>isekai-pipe-core\<close>, and
    both ways \<^verbatim>\<open>wrapper.rs\<close> gets to a configuration.
  \<^item> \<open>Panics\<close>: code that may panic, as functions into \<open>option\<close>, and the locale
    \<open>panic_free\<close>. \<open>TermCells\<close>, \<open>Terminal\<close>, \<open>TermInv\<close>, \<open>TermRows\<close>,
    \<open>TermDispatch\<close>, \<open>TermOsc\<close>, \<open>TermSafety\<close>, \<open>TermProps\<close>: the terminal emulator
    \<^verbatim>\<open>src/terminal.rs\<close>, from the cells to the handling of every sequence. \<open>Sixel\<close>,
    \<open>KittyGraphics\<close>: the decoders of images \<^verbatim>\<open>src/{sixel,kitty_graphics}.rs\<close>.

  \<^bold>\<open>How the model corresponds to the code.\<close> A reducer's struct is a record, its events and
  effects are datatypes with the source's constructors under a prefix (\<open>AEv_\<close>/\<open>AEff_\<close>
  arbiter, \<open>SEv_\<close>/\<open>SEff_\<close> serve, \<open>REv_\<close>/\<open>Cmd_\<close> resume planner,
  \<open>OEv_\<close>/\<open>OEff_\<close> orchestrator, \<open>CEv_\<close>/\<open>CEff_\<close> connect recovery,
  \<open>MEv_\<close>/\<open>MEff_\<close> mux), and its \<^verbatim>\<open>apply\<close> is one total function
  from state and event to state and effects, calling one definition per handler. Newtypes are
  transparent; a fixed-size byte array is a byte list whose length the validity predicates fix.
  Errors and early returns are values of sums and options. What is not under \<^verbatim>\<open>src/\<close> is an
  argument: \<open>ct_eq\<close> (constant-time comparison), \<open>jittered\<close> and \<open>jf\<close> (random jitter
  and floating point), \<open>codec\<close> (compression, base64 and MD5), the record \<open>ssh_env\<close> (files, the
  \<^verbatim>\<open>glob\<close> crate, environment variables).
  The async code of the byte streams is cut at its await points: a write accepts any prefix of
  what it is given, the peer's bytes arrive in any chunks, and a connection may break at each
  await; a write that returned has handed its bytes to the connection, and how many of them arrive
  before it is lost is the network's choice; history variables (bytes produced, bytes delivered) are
  recorded beside the state and never read by it.

  \<^bold>\<open>What the theorems show.\<close> The arbiter refines a table of slots in which each session has
  at most one owner, answers every HELLO, never issues a lease twice, lets only the owner's relay
  through, and decides between competing attempts by their generations; the serve aggregate keeps
  its index and the arbiter's slots in agreement and resumes exactly the grant it parked. The resume
  planner waits within the server's grant, never gets stuck and gives up at the deadline; the
  reconnect machine has one attempt in flight, emits edges in protocol order and stops for good on a
  user's disconnect; the redeploy gate spaces redeployments. The replay buffers refine a window on
  an unbounded stream, the frames round-trip under any chunking, and together the two ends of a
  session deliver every byte exactly once and in order across any number of disconnections, and so
  does the mobile clients' stream under the two conditions its theorem states; where the code does
  not do so, a theorem gives the run. A terminal client that has caught up has seen
  everything the shell printed, up to the capacity of the history, and input of a preempted client is
  fenced off but for one frame. Capsules arrive whatever the chunks they come in; an address is
  believed only from the server that was asked and for the request that was sent. The session returns
  to WiFi only for a reason. The file transfer filter is transparent, recognises a trigger in any
  chunks, sends what it is given and cannot hang. Reading a configuration ends whatever its files
  include, reads no file twice and lets the first value win; the two pattern matchers agree, and a
  \<^verbatim>\<open>Host\<close> line means what its patterns say. The remote command reaches ssh untouched, and what ssh and
  a shell make of the proxy command is the arguments that were meant; the \<open>sh_words\<close> of \<open>WrapperCli\<close>
  are the quoting rules of POSIX, and the tokens are expanded as \<^verbatim>\<open>openssh-config\<close> does. Accepted
  directives give a well-formed configuration, and the cosmetic ones cannot prevent it. Where the reader
  of directives departs from the reader of settings, a theorem says how.
  The terminal emulator, whatever it is fed, never panics, keeps the cursor and its arrays in
  bounds and its scrollback, images, links and prompt marks capped (the capture of a
  command's output is not: it is shown to grow without bound); its in-place row copies are the
  scrolling they stand for; leaving
  the alternate screen restores the main one; hyperlink ids keep their targets; and the repair of
  double-width characters restores the pairing. The decoders of images keep and deliver
  images of bounded size whatever they are sent (the parameters of one sixel colour command are not
  limited); a sixel picture is drawn pixel for pixel, its placement is never
  evicted by older images, and the filter for APC strings passes on all other output unchanged (and
  cuts a string at a byte that can be part of a character, as a theorem shows).

  \<^bold>\<open>Bounds.\<close> Lease, epoch and generation counters are 64-bit words; statements that need
  freshness bound the number of events below \<open>2 ^ 64\<close>, and byte offsets are likewise bounded.
  Loops over buffers recurse on the data; the client's reattachment and read loops recurse on the
  script of the network's answers, one per iteration, so no fuel is chosen. The walk over included
  files takes fuel for the depth of the includes; one more than the number of files that can be read is
  enough, and more does not change the result.

  \<^bold>\<open>Not modelled.\<close> The async interpreters that execute the reducers' effects
  (\<^verbatim>\<open>src/orchestrator.rs\<close>, \<^verbatim>\<open>isekai-ssh/src/native\<close>), process spawning, the profile store and bootstrapping,
  the QUIC, SSH and HTTP/3 stacks and their glue (with the relay's datagram pumps), JSON messages
  and candidate racing. Of the terminal emulator, the
  \<^verbatim>\<open>vte\<close> parser and the Unicode width tables are third-party (events and the parameter
  \<open>cw\<close>), base64, PNG and the floating-point conversion of HLS colours are arguments, and
  notifications, AI panels, tab progress and the encoding of mouse events are left out.
\<close>

end
